(* ===== verification/Prelude.thy ===== *)
theory Prelude
  imports Main "HOL-Library.Word" "HOL-Library.Multiset"
begin

text \<open>
  What the component theories share: the faults a C execution can run into and their
  sequencing, C's truncating division, little-endian storage of 32-bit integers in byte
  buffers, C strings, and insertion and removal by position in lists.
\<close>

named_theorems exec_simps \<open>unfolding the sequencing of fallible C statements\<close>
named_theorems buf_simps \<open>reading back what was stored in a byte buffer\<close>

unbundle bit_operations_syntax

section \<open>Faults and sequencing\<close>

text \<open>
  A C statement either ends normally or stops the process. \<open>AssertFail\<close> is a failed
  \<open>assert\<close>, \<open>DivByZero\<close> an integer division by zero, \<open>Hangs\<close> a loop that does not end
  within the fuel of the model; the others are the undefined accesses the code can reach.
\<close>

datatype c_fault =
    AssertFail | DivByZero | NullDeref | WildPointer | OutOfBounds | UseAfterFree | Hangs

type_synonym 'a exec = "c_fault + 'a"

definition andThen :: "'a exec \<Rightarrow> ('a \<Rightarrow> 'b exec) \<Rightarrow> 'b exec" where
  "andThen r f = (case r of Inl e \<Rightarrow> Inl e | Inr x \<Rightarrow> f x)"

definition c_assert :: "bool \<Rightarrow> unit exec" where
  "c_assert b = (if b then Inr () else Inl AssertFail)"

lemma andThen_simps [simp, exec_simps]:
  "andThen (Inl e) f = Inl e"
  "andThen (Inr x) f = f x"
  by (simp_all add: andThen_def)

lemma c_assert_simps [simp, exec_simps]:
  "c_assert True = Inr ()"
  "c_assert False = Inl AssertFail"
  by (simp_all add: c_assert_def)

lemma andThen_Inr_iff: "andThen r f = Inr y \<longleftrightarrow> (\<exists>x. r = Inr x \<and> f x = Inr y)"
  by (cases r) auto

lemma c_assert_Inr_iff [simp]: "c_assert b = Inr u \<longleftrightarrow> b"
  by (simp add: c_assert_def)

lemma andThen_InrE [elim!]:
  assumes "andThen r f = Inr y"
  obtains x where "r = Inr x" and "f x = Inr y"
  using assms by (auto simp: andThen_Inr_iff)

section \<open>C arithmetic\<close>

text \<open>
  \<open>int\<close> values are HOL integers; \<open>int32\<close> says that a value is in the range of the
  type. Division and remainder truncate towards zero. \<open>to_u32\<close> and \<open>to_u64\<close> are the
  implicit conversions to \<open>unsigned\<close> and to \<open>size_t\<close> in mixed comparisons.
\<close>

definition int32 :: "int \<Rightarrow> bool" where
  "int32 i \<longleftrightarrow> - (2 ^ 31) \<le> i \<and> i < 2 ^ 31"

definition c_div :: "int \<Rightarrow> int \<Rightarrow> int" where
  "c_div a b = sgn a * sgn b * (\<bar>a\<bar> div \<bar>b\<bar>)"

definition c_rem :: "int \<Rightarrow> int \<Rightarrow> int" where
  "c_rem a b = a - b * c_div a b"

definition to_u32 :: "int \<Rightarrow> int" where
  "to_u32 i = i mod 2 ^ 32"

definition to_u64 :: "int \<Rightarrow> int" where
  "to_u64 i = i mod 2 ^ 64"

lemma c_div_nonneg: "0 \<le> a \<Longrightarrow> 0 < b \<Longrightarrow> c_div a b = a div b"
  by (cases "a = 0") (auto simp: c_div_def)

lemma c_rem_nonneg: "0 \<le> a \<Longrightarrow> 0 < b \<Longrightarrow> c_rem a b = a mod b"
  by (simp add: c_rem_def c_div_nonneg minus_mult_div_eq_mod)

lemma c_rem_neg: "a < 0 \<Longrightarrow> 0 < b \<Longrightarrow> c_rem a b = - ((- a) mod b)"
  by (simp add: c_rem_def c_div_def minus_mult_div_eq_mod [symmetric] algebra_simps)

lemma c_rem_bounds: "0 \<le> a \<Longrightarrow> 0 < b \<Longrightarrow> 0 \<le> c_rem a b \<and> c_rem a b < b"
  by (simp add: c_rem_nonneg)

lemma c_rem_less: "0 \<le> a \<Longrightarrow> a < b \<Longrightarrow> c_rem a b = a"
  by (simp add: c_rem_nonneg)

lemma c_rem_wrap:
  assumes "0 \<le> a" and "a < b" shows "c_rem (a + b) b = a"
proof -
  have "c_rem (a + b) b = (a + b) mod b" using assms by (intro c_rem_nonneg) auto
  also have "\<dots> = a" using assms by simp
  finally show ?thesis .
qed

lemma to_u64_small: "0 \<le> i \<Longrightarrow> i < 2 ^ 64 \<Longrightarrow> to_u64 i = i"
  by (simp add: to_u64_def)

lemma to_u32_small: "0 \<le> i \<Longrightarrow> i < 2 ^ 32 \<Longrightarrow> to_u32 i = i"
  by (simp add: to_u32_def)

text \<open>The conversion of a wider integer to \<open>int\<close>.\<close>

definition to_s32 :: "int \<Rightarrow> int" where
  "to_s32 i = (i + 2 ^ 31) mod 2 ^ 32 - 2 ^ 31"

lemma to_s32_small: "int32 i \<Longrightarrow> to_s32 i = i"
  by (simp add: to_s32_def int32_def)

lemma to_u32_range: "0 \<le> to_u32 i \<and> to_u32 i < 2 ^ 32"
  by (simp add: to_u32_def)

section \<open>Bytes\<close>

type_synonym byte = "8 word"
type_synonym bytes = "byte list"
type_synonym u32 = "32 word"

text \<open>The four bytes of a 32-bit integer, least significant first (x86).\<close>

definition le32 :: "u32 \<Rightarrow> bytes" where
  "le32 w = [ucast w, ucast (drop_bit 8 w), ucast (drop_bit 16 w), ucast (drop_bit 24 w)]"

fun un_le32 :: "bytes \<Rightarrow> u32" where
  "un_le32 (a # b # c # d # _) =
     ucast a OR push_bit 8 (ucast b) OR push_bit 16 (ucast c) OR push_bit 24 (ucast d)"
| "un_le32 _ = 0"

definition int_bytes :: "int \<Rightarrow> bytes" where
  "int_bytes i = le32 (word_of_int i)"

definition bytes_int :: "bytes \<Rightarrow> int" where
  "bytes_int bs = sint (un_le32 bs)"

lemma length_le32 [simp]: "length (le32 w) = 4"
  by (simp add: le32_def)

lemma length_int_bytes [simp]: "length (int_bytes i) = 4"
  by (simp add: int_bytes_def)

lemma un_le32_le32 [simp, buf_simps]: "un_le32 (le32 w @ bs) = w"
proof (rule bit_word_eqI)
  fix n assume "n < LENGTH(32)"
  then have "n < 8 \<or> 8 \<le> n \<and> n < 16 \<or> 16 \<le> n \<and> n < 24 \<or> 24 \<le> n \<and> n < 32"
    by auto
  then show "bit (un_le32 (le32 w @ bs)) n \<longleftrightarrow> bit w n"
    by (elim disjE) (auto simp: le32_def bit_simps)
qed

lemma un_le32_le32' [simp, buf_simps]: "un_le32 (le32 w) = w"
  using un_le32_le32 [of w "[]"] by simp

lemma bytes_int_int_bytes [buf_simps]: "int32 i \<Longrightarrow> bytes_int (int_bytes i @ bs) = i"
  by (simp add: bytes_int_def int_bytes_def sint_sbintrunc' int32_def
      signed_take_bit_int_eq_self)

lemma bytes_int_int_bytes' [buf_simps]: "int32 i \<Longrightarrow> bytes_int (int_bytes i) = i"
  using bytes_int_int_bytes [of i "[]"] by simp

lemma int32_bytes_int [simp]: "int32 (bytes_int bs)"
  using sint_ge [of "un_le32 bs"] sint_lt [of "un_le32 bs"]
  by (simp add: bytes_int_def int32_def)

section \<open>Buffers\<close>

text \<open>
  A \<open>char\<close> array is the list of its bytes. \<open>peek off n b\<close> reads \<open>n\<close> bytes at offset
  \<open>off\<close>, \<open>poke off d b\<close> copies \<open>d\<close> there (\<open>memcpy\<close>). A C string is what stands
  before the first NUL byte.
\<close>

definition peek :: "nat \<Rightarrow> nat \<Rightarrow> bytes \<Rightarrow> bytes" where
  "peek off n b = take n (drop off b)"

definition poke :: "nat \<Rightarrow> bytes \<Rightarrow> bytes \<Rightarrow> bytes" where
  "poke off d b = take off b @ d @ drop (off + length d) b"

definition zeros :: "nat \<Rightarrow> bytes" where
  "zeros n = replicate n 0"

definition c_str :: "bytes \<Rightarrow> bytes" where
  "c_str b = takeWhile (\<lambda>x. x \<noteq> 0) b"

lemma length_poke [simp]: "off + length d \<le> length b \<Longrightarrow> length (poke off d b) = length b"
  by (simp add: poke_def)

lemma length_zeros [simp]: "length (zeros n) = n"
  by (simp add: zeros_def)

lemma peek_poke_same [buf_simps]:
  "off \<le> length b \<Longrightarrow> n = length d \<Longrightarrow> peek off n (poke off d b) = d"
  by (simp add: peek_def poke_def)

lemma peek_poke_before [buf_simps]:
  "off' + n \<le> off \<Longrightarrow> off \<le> length b \<Longrightarrow> peek off' n (poke off d b) = peek off' n b"
proof (rule nth_equalityI)
  assume a: "off' + n \<le> off" "off \<le> length b"
  then show "length (peek off' n (poke off d b)) = length (peek off' n b)"
    by (simp add: peek_def poke_def)
  fix i assume "i < length (peek off' n (poke off d b))"
  with a show "peek off' n (poke off d b) ! i = peek off' n b ! i"
    by (simp add: peek_def poke_def nth_append)
qed

lemma peek_poke_after [buf_simps]:
  "off + length d \<le> off' \<Longrightarrow> off + length d \<le> length b \<Longrightarrow>
    peek off' n (poke off d b) = peek off' n b"
  by (simp add: peek_def poke_def)

lemma peek_poke_part [buf_simps]:
  assumes "off \<le> off'" and "off' + n \<le> off + length d" and "off \<le> length b"
  shows "peek off' n (poke off d b) = take n (drop (off' - off) d)"
proof -
  have "drop off' (take off b @ d @ drop (off + length d) b)
      = drop (off' - off) d @ drop (off + length d) b"
    using assms by (simp add: drop_append)
  then show ?thesis using assms by (simp add: peek_def poke_def)
qed

lemma drop_poke [buf_simps]: "off \<le> length b \<Longrightarrow> drop off (poke off d b) = d @ drop (off + length d) b"
  by (simp add: poke_def)

lemma c_str_append_nul [simp]: "0 \<notin> set s \<Longrightarrow> c_str (s @ 0 # r) = s"
  by (simp add: c_str_def takeWhile_tail) (metis takeWhile_eq_all_conv)

lemma c_str_no_nul: "0 \<notin> set (c_str b)"
  by (auto simp: c_str_def dest: set_takeWhileD)

lemma c_str_idem [simp]: "0 \<notin> set s \<Longrightarrow> c_str s = s"
  by (auto simp: c_str_def takeWhile_eq_all_conv)

text \<open>String literals.\<close>

definition ascii :: "string \<Rightarrow> bytes" where
  "ascii s = map (\<lambda>c. word_of_nat (of_char c)) s"

lemma ascii_simps [simp]:
  "ascii [] = []"
  "ascii (c # s) = word_of_nat (of_char c) # ascii s"
  by (simp_all add: ascii_def)

section \<open>Insertion and removal by position\<close>

definition insert_at :: "nat \<Rightarrow> 'a \<Rightarrow> 'a list \<Rightarrow> 'a list" where
  "insert_at p x xs = take p xs @ x # drop p xs"

definition remove_at :: "nat \<Rightarrow> 'a list \<Rightarrow> 'a list" where
  "remove_at p xs = take p xs @ drop (Suc p) xs"

lemma length_insert_at [simp]: "p \<le> length xs \<Longrightarrow> length (insert_at p x xs) = Suc (length xs)"
  by (simp add: insert_at_def)

lemma length_remove_at [simp]: "p < length xs \<Longrightarrow> length (remove_at p xs) = length xs - 1"
  by (simp add: remove_at_def)

lemma nth_insert_at:
  "p \<le> length xs \<Longrightarrow> i \<le> length xs \<Longrightarrow>
    insert_at p x xs ! i = (if i < p then xs ! i else if i = p then x else xs ! (i - 1))"
  by (auto simp: insert_at_def nth_append nth_Cons' min_def)

lemma nth_remove_at:
  "p < length xs \<Longrightarrow> i < length xs - 1 \<Longrightarrow>
    remove_at p xs ! i = (if i < p then xs ! i else xs ! Suc i)"
  by (auto simp: remove_at_def nth_append)

lemma remove_at_insert_at [simp]: "p \<le> length xs \<Longrightarrow> remove_at p (insert_at p x xs) = xs"
  by (simp add: remove_at_def insert_at_def)

lemma map_insert_at [simp]: "map f (insert_at p x xs) = insert_at p (f x) (map f xs)"
  by (simp add: insert_at_def take_map drop_map)

lemma map_remove_at [simp]: "map f (remove_at p xs) = remove_at p (map f xs)"
  by (simp add: remove_at_def take_map drop_map)

lemma set_insert_at [simp]: "set (insert_at p x xs) = insert x (set xs)"
  using set_append [of "take p xs" "drop p xs"] by (auto simp: insert_at_def)

lemma set_remove_at: "set (remove_at p xs) \<subseteq> set xs"
  by (auto simp: remove_at_def dest: in_set_takeD in_set_dropD)

lemma distinct_insert_at [simp]:
  "distinct (insert_at p x xs) \<longleftrightarrow> x \<notin> set xs \<and> distinct xs"
proof -
  have "mset (insert_at p x xs) = mset (x # take p xs @ drop p xs)"
    by (simp only: insert_at_def mset_append mset.simps) simp
  then have "distinct (insert_at p x xs) = distinct (x # take p xs @ drop p xs)"
    by (rule mset_eq_imp_distinct_iff)
  then show ?thesis by simp
qed

lemma distinct_remove_at: "distinct xs \<Longrightarrow> distinct (remove_at p xs)"
  by (auto simp: remove_at_def set_take_disj_set_drop_if_distinct)

lemma remove_at_distinct_notin:
  "distinct xs \<Longrightarrow> p < length xs \<Longrightarrow> xs ! p \<notin> set (remove_at p xs)"
  by (auto simp: remove_at_def distinct_conv_nth in_set_conv_nth)

end
