(* ===== verification/DbProtocol.thy ===== *)
theory DbProtocol
  imports Prelude
begin

text \<open>
  The packet format of \<^verbatim>\<open>common/dbProtocol.h\<close> and \<^verbatim>\<open>common/dbProtocol.c\<close>: commands, the packet
  header as it lies in a buffer of \<open>MAXPACKETLEN\<close> bytes, and the four operations on such a
  buffer. Packets are sent in host order (\<^verbatim>\<open>ToBeImproved\<close>, item 3), here that of the x86.
\<close>

section \<open>Commands\<close>

datatype cmd =
    SET | GET | DEL | OPEN | CLOSE | QUIT | HELP
  | SET_R | GET_R | DEL_R | OPEN_R | CLOSE_R | QUIT_R | CMDFAIL
  | GET_LIST | GET_LIST_R
  | ADD_SLAVE | DEL_SLAVE | ADD_SLAVE_R | DEL_SLAVE_R | HEARTBEAT
  | NEW_SLAVE | RM_SLAVE | UPDATE_BACKUP12
  | NEW_SLAVE_R | RM_SLAVE_R | UPDATE_BACKUP12_R
  | CLIP_DATA | BACKUP | FILETRANS
  | CLIP_DATA_R | BACKUP_R | FILETRANS_R
  | UPDATE_BACKUP2 | UPDATE_BACKUP2_R
  | UPDATE_VERSION

definition all_cmds :: "cmd list" where
  "all_cmds =
    [SET, GET, DEL, OPEN, CLOSE, QUIT, HELP,
     SET_R, GET_R, DEL_R, OPEN_R, CLOSE_R, QUIT_R, CMDFAIL,
     GET_LIST, GET_LIST_R,
     ADD_SLAVE, DEL_SLAVE, ADD_SLAVE_R, DEL_SLAVE_R, HEARTBEAT,
     NEW_SLAVE, RM_SLAVE, UPDATE_BACKUP12,
     NEW_SLAVE_R, RM_SLAVE_R, UPDATE_BACKUP12_R,
     CLIP_DATA, BACKUP, FILETRANS,
     CLIP_DATA_R, BACKUP_R, FILETRANS_R,
     UPDATE_BACKUP2, UPDATE_BACKUP2_R,
     UPDATE_VERSION]"

text \<open>The integer that C gives an enumerator: its position in the declaration.\<close>

primrec cmd_index :: "cmd \<Rightarrow> nat" where
  "cmd_index SET = 0" | "cmd_index GET = 1" | "cmd_index DEL = 2" | "cmd_index OPEN = 3"
| "cmd_index CLOSE = 4" | "cmd_index QUIT = 5" | "cmd_index HELP = 6" | "cmd_index SET_R = 7"
| "cmd_index GET_R = 8" | "cmd_index DEL_R = 9" | "cmd_index OPEN_R = 10"
| "cmd_index CLOSE_R = 11" | "cmd_index QUIT_R = 12" | "cmd_index CMDFAIL = 13"
| "cmd_index GET_LIST = 14" | "cmd_index GET_LIST_R = 15" | "cmd_index ADD_SLAVE = 16"
| "cmd_index DEL_SLAVE = 17" | "cmd_index ADD_SLAVE_R = 18" | "cmd_index DEL_SLAVE_R = 19"
| "cmd_index HEARTBEAT = 20" | "cmd_index NEW_SLAVE = 21" | "cmd_index RM_SLAVE = 22"
| "cmd_index UPDATE_BACKUP12 = 23" | "cmd_index NEW_SLAVE_R = 24"
| "cmd_index RM_SLAVE_R = 25" | "cmd_index UPDATE_BACKUP12_R = 26"
| "cmd_index CLIP_DATA = 27" | "cmd_index BACKUP = 28" | "cmd_index FILETRANS = 29"
| "cmd_index CLIP_DATA_R = 30" | "cmd_index BACKUP_R = 31" | "cmd_index FILETRANS_R = 32"
| "cmd_index UPDATE_BACKUP2 = 33" | "cmd_index UPDATE_BACKUP2_R = 34"
| "cmd_index UPDATE_VERSION = 35"

definition cmd_code :: "cmd \<Rightarrow> u32" where
  "cmd_code c = word_of_nat (cmd_index c)"

text \<open>The command a \<open>cmd\<close> field names, if it names one: a peer can send any 32-bit value.\<close>

definition decode_cmd :: "u32 \<Rightarrow> cmd option" where
  "decode_cmd w = (if unat w < length all_cmds then Some (all_cmds ! unat w) else None)"

lemma cmd_index_less [simp]: "cmd_index c < 36"
  by (cases c) simp_all

lemma all_cmds_index [simp]: "all_cmds ! cmd_index c = c"
  by (cases c) (simp_all add: all_cmds_def)

lemma length_all_cmds [simp]: "length all_cmds = 36"
  by (simp add: all_cmds_def)

lemma cmd_index_inj: "cmd_index c = cmd_index d \<longleftrightarrow> c = d"
  using all_cmds_index by metis

lemma unat_cmd_code [simp]: "unat (cmd_code c) = cmd_index c"
  using cmd_index_less [of c] by (simp add: cmd_code_def unat_of_nat del: cmd_index_less)

lemma cmd_code_inj [simp]: "cmd_code c = cmd_code d \<longleftrightarrow> c = d"
  using unat_cmd_code cmd_index_inj by metis

lemma decode_cmd_code [simp]: "decode_cmd (cmd_code c) = Some c"
  using length_all_cmds by (simp add: decode_cmd_def)

lemma decode_cmd_SomeD: "decode_cmd w = Some c \<Longrightarrow> w = cmd_code c"
proof -
  assume "decode_cmd w = Some c"
  then have lt: "unat w < 36" and c: "c = all_cmds ! unat w"
    by (simp_all add: decode_cmd_def all_cmds_def split: if_splits)
  have "\<forall>n < 36. cmd_index (all_cmds ! n) = n"
    by (simp add: all_cmds_def numeral_eq_Suc All_less_Suc)
  with lt c have "cmd_index c = unat w" by simp
  then show "w = cmd_code c" by (simp add: cmd_code_def)
qed

lemma decode_cmd_eq: "decode_cmd w = Some c \<longleftrightarrow> w = cmd_code c"
  using decode_cmd_SomeD by auto

text \<open>C compares enumerators by their integers (\<open>phd->cmd >= ADD_SLAVE\<close>).\<close>

instantiation cmd :: linorder
begin

definition less_eq_cmd :: "cmd \<Rightarrow> cmd \<Rightarrow> bool" where
  "less_eq_cmd c d \<longleftrightarrow> cmd_index c \<le> cmd_index d"

definition less_cmd :: "cmd \<Rightarrow> cmd \<Rightarrow> bool" where
  "less_cmd c d \<longleftrightarrow> cmd_index c < cmd_index d"

instance
  by standard (auto simp: less_eq_cmd_def less_cmd_def cmd_index_inj)

end

section \<open>Packets\<close>

definition MAXPACKETLEN :: nat where "MAXPACKETLEN = 1024"
definition HEADERLEN :: nat where "HEADERLEN = 16"
definition APPENDSIZE :: nat where "APPENDSIZE = MAXPACKETLEN - HEADERLEN"

record db_header =
  hd_size :: int
  hd_cmd :: u32
  hd_key :: int
  hd_version :: int

text \<open>\<open>WriteHeader\<close> sets the size to that of a bare header, whatever \<open>header->size\<close> is.\<close>

definition WriteHeader :: "bytes \<Rightarrow> db_header \<Rightarrow> bytes" where
  "WriteHeader buf h =
    poke 0 (int_bytes (int HEADERLEN) @ le32 (hd_cmd h) @ int_bytes (hd_key h)
      @ int_bytes (hd_version h)) buf"

definition GetHeader :: "bytes \<Rightarrow> db_header" where
  "GetHeader buf =
    \<lparr>hd_size = bytes_int (peek 0 4 buf), hd_cmd = un_le32 (peek 4 4 buf),
     hd_key = bytes_int (peek 8 4 buf), hd_version = bytes_int (peek 12 4 buf)\<rparr>"

text \<open>
  Both guards compare an \<open>int\<close> with a \<open>size_t\<close>, so a negative size or length counts as huge
  and is refused. The result is the return value and the buffer; \<open>data\<close> is what stands at
  the source address, of which \<open>memcpy\<close> takes \<open>len\<close> bytes.
\<close>

definition Append :: "bytes \<Rightarrow> bytes \<Rightarrow> int \<Rightarrow> int \<times> bytes" where
  "Append buf data len =
    (let size = hd_size (GetHeader buf) in
     if to_u64 size > int HEADERLEN then (-1, buf)
     else if to_u64 len > int APPENDSIZE then (-1, buf)
     else (0, poke 0 (int_bytes (size + len)) (poke (nat size) (take (nat len) data) buf)))"

definition GetAppend :: "bytes \<Rightarrow> bytes" where
  "GetAppend buf = drop HEADERLEN buf"

text \<open>A buffer of the size every caller declares.\<close>

definition packet_buf :: "bytes \<Rightarrow> bool" where
  "packet_buf b \<longleftrightarrow> length b = MAXPACKETLEN"

text \<open>The header fields a C program can hold: \<open>int\<close>s.\<close>

definition header_ok :: "db_header \<Rightarrow> bool" where
  "header_ok h \<longleftrightarrow> int32 (hd_key h) \<and> int32 (hd_version h)"

text \<open>The packet every sender builds: a header and one run of appended bytes.\<close>

definition packet :: "bytes \<Rightarrow> db_header \<Rightarrow> bytes \<Rightarrow> bytes" where
  "packet buf h d = snd (Append (WriteHeader buf h) d (int (length d)))"

lemmas packet_consts = MAXPACKETLEN_def HEADERLEN_def APPENDSIZE_def

lemma packet_buf_zeros [simp]: "packet_buf (zeros MAXPACKETLEN)"
  by (simp add: packet_buf_def)

lemma length_WriteHeader [simp]: "16 \<le> length b \<Longrightarrow> length (WriteHeader b h) = length b"
  by (simp add: WriteHeader_def)

lemma packet_buf_WriteHeader [simp]: "packet_buf b \<Longrightarrow> packet_buf (WriteHeader b h)"
  by (simp add: packet_buf_def packet_consts)

lemma GetHeader_WriteHeader [buf_simps]:
  assumes "packet_buf b" and "header_ok h"
  shows "GetHeader (WriteHeader b h) = h\<lparr>hd_size := int HEADERLEN\<rparr>"
proof -
  have "int32 (int HEADERLEN)" by (simp add: int32_def HEADERLEN_def)
  with assms show ?thesis
    by (simp add: GetHeader_def WriteHeader_def buf_simps packet_buf_def header_ok_def
        packet_consts)
qed

lemma GetAppend_WriteHeader [buf_simps]: "packet_buf b \<Longrightarrow> GetAppend (WriteHeader b h) = GetAppend b"
  by (simp add: GetAppend_def WriteHeader_def poke_def packet_consts packet_buf_def)

lemma hd_size_WriteHeader [buf_simps]: "packet_buf b \<Longrightarrow> hd_size (GetHeader (WriteHeader b h)) = 16"
  by (simp add: GetHeader_def WriteHeader_def buf_simps packet_buf_def int32_def packet_consts)

lemma Append_ok:
  assumes "packet_buf b" and "length d \<le> APPENDSIZE"
  shows "Append (WriteHeader b h) d (int (length d))
      = (0, poke 0 (int_bytes (16 + int (length d))) (poke 16 d (WriteHeader b h)))"
  using assms
  by (simp add: Append_def hd_size_WriteHeader to_u64_small packet_consts Let_def)

lemma packet_buf_packet [simp]:
  assumes "packet_buf b" and "length d \<le> APPENDSIZE"
  shows "packet_buf (packet b h d)"
  using assms by (simp add: packet_def Append_ok packet_buf_def packet_consts)

lemma Append_packet:
  "packet_buf b \<Longrightarrow> length d \<le> APPENDSIZE \<Longrightarrow>
    Append (WriteHeader b h) d (int (length d)) = (0, packet b h d)"
  by (simp add: Append_ok packet_def)

lemma GetHeader_packet [buf_simps]:
  assumes b: "packet_buf b" and h: "header_ok h" and d: "length d \<le> APPENDSIZE"
  shows "GetHeader (packet b h d) = h\<lparr>hd_size := 16 + int (length d)\<rparr>"
proof -
  have len: "length (WriteHeader b h) = 1024"
    using b by (simp add: packet_buf_def packet_consts)
  have i: "int32 (16 + int (length d))"
    using d by (simp add: int32_def packet_consts)
  show ?thesis
    using d len i arg_cong [OF GetHeader_WriteHeader [OF b h], of "hd_size_update (\<lambda>_. 16 + int (length d))"]
    by (simp add: packet_def Append_ok [OF b d] GetHeader_def buf_simps packet_consts)
qed

lemma GetAppend_packet:
  assumes b: "packet_buf b" and d: "length d \<le> APPENDSIZE"
  shows "GetAppend (packet b h d) = d @ drop (length d) (GetAppend b)"
proof -
  have len: "length (WriteHeader b h) = 1024"
    using b by (simp add: packet_buf_def packet_consts)
  have "GetAppend (packet b h d) = drop 16 (poke 16 d (WriteHeader b h))"
    using d len
    by (simp add: packet_def Append_ok [OF b d] GetAppend_def poke_def packet_consts)
  also have "\<dots> = d @ drop (length d) (GetAppend (WriteHeader b h))"
    using d len by (simp add: poke_def GetAppend_def packet_consts add.commute)
  finally show ?thesis by (simp add: GetAppend_WriteHeader [OF b])
qed

lemma take_GetAppend_packet [buf_simps]:
  "packet_buf b \<Longrightarrow> length d \<le> APPENDSIZE \<Longrightarrow> n \<le> length d \<Longrightarrow>
    take n (GetAppend (packet b h d)) = take n d"
  by (simp add: GetAppend_packet)

section \<open>Properties\<close>

text \<open>C33: header and contents of a packet are read back as they were written: for every
  header with \<open>int\<close> fields and every run of at most \<open>APPENDSIZE\<close> bytes, \<open>Append\<close> after
  \<open>WriteHeader\<close> returns 0, \<open>GetHeader\<close> gives the header with its size updated, and
  \<open>GetAppend\<close> starts with the bytes, whatever the buffer held before.\<close>

theorem packet_roundtrip:
  assumes "packet_buf b" and "header_ok h" and "length d \<le> APPENDSIZE"
  shows "\<exists>p. Append (WriteHeader b h) d (int (length d)) = (0, p)
    \<and> GetHeader p = h\<lparr>hd_size := 16 + int (length d)\<rparr>
    \<and> take (length d) (GetAppend p) = d \<and> packet_buf p"
  using assms by (simp add: Append_packet GetHeader_packet take_GetAppend_packet)

theorem packet_roundtrip_witness:
  "\<exists>p. Append (WriteHeader (zeros MAXPACKETLEN)
      \<lparr>hd_size = 0, hd_cmd = cmd_code SET, hd_key = 100, hd_version = -1\<rparr>) [72, 105, 0] 3 = (0, p)
    \<and> GetHeader p = \<lparr>hd_size = 19, hd_cmd = cmd_code SET, hd_key = 100, hd_version = -1\<rparr>
    \<and> take 3 (GetAppend p) = [72, 105, 0] \<and> packet_buf p"
proof -
  let ?h = "\<lparr>hd_size = 0, hd_cmd = cmd_code SET, hd_key = 100, hd_version = -1\<rparr>"
  have "header_ok ?h" by (simp add: header_ok_def int32_def)
  then show ?thesis
    using packet_roundtrip [OF packet_buf_zeros, of ?h "[72, 105, 0]"]
    by (simp add: APPENDSIZE_def MAXPACKETLEN_def HEADERLEN_def numeral_3_eq_3)
qed

text \<open>What \<open>Append\<close> refuses: a run longer than \<open>APPENDSIZE\<close>, a negative length (it turns
  into a huge \<open>size_t\<close>), and any second run once a non-empty one is there; it then returns
  -1 and leaves the buffer as it was.\<close>

lemma Append_refuses:
  assumes "packet_buf b" and "header_ok h"
    and "int32 len"
    and "len < 0 \<or> int APPENDSIZE < len
      \<or> (\<exists>d0. d0 \<noteq> [] \<and> length d0 \<le> APPENDSIZE \<and> buf = packet b h d0)"
    and "buf = WriteHeader b h \<or> (\<exists>d0. length d0 \<le> APPENDSIZE \<and> buf = packet b h d0)"
  shows "Append buf d len = (-1, buf)"
proof (cases "len < 0 \<or> int APPENDSIZE < len")
  case True
  have "to_u64 len > int APPENDSIZE"
  proof (cases "len < 0")
    case True
    with \<open>int32 len\<close> have "len mod 2 ^ 64 = len + 2 ^ 64"
      using mod_pos_pos_trivial [of "len + 2 ^ 64" "2 ^ 64"] by (simp add: int32_def)
    with \<open>int32 len\<close> show ?thesis by (simp add: to_u64_def int32_def packet_consts)
  next
    case False
    with True \<open>len < 0 \<or> int APPENDSIZE < len\<close> \<open>int32 len\<close> show ?thesis
      by (simp add: to_u64_small int32_def)
  qed
  then show ?thesis by (simp add: Append_def Let_def)
next
  case False
  with assms(4) obtain d0 where d0: "d0 \<noteq> []" "length d0 \<le> APPENDSIZE" "buf = packet b h d0"
    by blast
  then have "to_u64 (hd_size (GetHeader buf)) > int HEADERLEN"
    using assms(1,2) by (simp add: buf_simps to_u64_small packet_consts)
  then show ?thesis by (simp add: Append_def Let_def)
qed

lemma Append_refuses_example:
  "Append (WriteHeader (zeros MAXPACKETLEN)
      \<lparr>hd_size = 0, hd_cmd = cmd_code SET, hd_key = 1, hd_version = 0\<rparr>) (zeros 1009) 1009
    = (-1, WriteHeader (zeros MAXPACKETLEN)
      \<lparr>hd_size = 0, hd_cmd = cmd_code SET, hd_key = 1, hd_version = 0\<rparr>)"
proof (rule Append_refuses [of "zeros MAXPACKETLEN"
      "\<lparr>hd_size = 0, hd_cmd = cmd_code SET, hd_key = 1, hd_version = 0\<rparr>"])
  show "packet_buf (zeros MAXPACKETLEN)" by (rule packet_buf_zeros)
qed (simp_all add: header_ok_def int32_def packet_consts)

end
