(* ===== verification/ServerCtrl.thy ===== *)
theory ServerCtrl
  imports DbProtocol
begin

text \<open>
  The cluster's membership list of \<^verbatim>\<open>server/ServerCtrl.h\<close>: a fixed array of \<open>MAX_SLAVE_NUM\<close>
  nodes with a count and a version, its image in a packet (\<open>Append(buf, (char *)&slaves,
  sizeof(slaves))\<close> and \<open>*(SlaveList *)GetAppend(phd)\<close>), and the two loops, written out in
  both \<^verbatim>\<open>server/master.c\<close> and \<^verbatim>\<open>server/slave.c\<close>, that open and close a gap in the array.
\<close>

definition MAX_SLAVE_NUM :: nat where "MAX_SLAVE_NUM = 32"
definition MAX_KEY :: int where "MAX_KEY = 4000"

record SlaveNode =
  sn_ip :: int
  sn_port :: int
  sn_sock :: int
  sn_key :: int

record SlaveList =
  sl_version :: u32
  sl_num :: int
  sl_nodes :: "SlaveNode list"

text \<open>The array has its declared length, the count is in its range.\<close>

definition list_ok :: "SlaveList \<Rightarrow> bool" where
  "list_ok sl \<longleftrightarrow> length (sl_nodes sl) = MAX_SLAVE_NUM \<and> 0 \<le> sl_num sl \<and> sl_num sl \<le> int MAX_SLAVE_NUM"

text \<open>The nodes in use, and a node of the array.\<close>

definition live :: "SlaveList \<Rightarrow> SlaveNode list" where
  "live sl = take (nat (sl_num sl)) (sl_nodes sl)"

definition node_at :: "SlaveList \<Rightarrow> int \<Rightarrow> SlaveNode" where
  "node_at sl i = sl_nodes sl ! nat i"

lemma length_live: "list_ok sl \<Longrightarrow> length (live sl) = nat (sl_num sl)"
  by (auto simp: list_ok_def live_def MAX_SLAVE_NUM_def)

lemma sl_num_live: "list_ok sl \<Longrightarrow> sl_num sl = int (length (live sl))"
  by (simp add: length_live) (simp add: list_ok_def)

lemma node_at_live: "0 \<le> i \<Longrightarrow> i < sl_num sl \<Longrightarrow> node_at sl i = live sl ! nat i"
  by (simp add: node_at_def live_def)

lemma live_le_MAX: "list_ok sl \<Longrightarrow> length (live sl) \<le> 32"
  by (auto simp: length_live list_ok_def MAX_SLAVE_NUM_def)

section \<open>The list in a packet\<close>

definition node_bytes :: "SlaveNode \<Rightarrow> bytes" where
  "node_bytes n = int_bytes (sn_ip n) @ int_bytes (sn_port n) @ int_bytes (sn_sock n)
    @ int_bytes (sn_key n)"

definition bytes_node :: "bytes \<Rightarrow> SlaveNode" where
  "bytes_node b = \<lparr>sn_ip = bytes_int (peek 0 4 b), sn_port = bytes_int (peek 4 4 b),
    sn_sock = bytes_int (peek 8 4 b), sn_key = bytes_int (peek 12 4 b)\<rparr>"

fun bytes_nodes :: "nat \<Rightarrow> bytes \<Rightarrow> SlaveNode list" where
  "bytes_nodes 0 b = []"
| "bytes_nodes (Suc n) b = bytes_node b # bytes_nodes n (drop 16 b)"

definition list_bytes :: "SlaveList \<Rightarrow> bytes" where
  "list_bytes sl = le32 (sl_version sl) @ int_bytes (sl_num sl) @ concat (map node_bytes (sl_nodes sl))"

definition bytes_list :: "bytes \<Rightarrow> SlaveList" where
  "bytes_list b = \<lparr>sl_version = un_le32 (peek 0 4 b), sl_num = bytes_int (peek 4 4 b),
    sl_nodes = bytes_nodes MAX_SLAVE_NUM (drop 8 b)\<rparr>"

definition SLAVELIST_SIZE :: nat where "SLAVELIST_SIZE = 8 + 16 * MAX_SLAVE_NUM"

definition node_ok :: "SlaveNode \<Rightarrow> bool" where
  "node_ok n \<longleftrightarrow> int32 (sn_ip n) \<and> int32 (sn_port n) \<and> int32 (sn_sock n) \<and> int32 (sn_key n)"

lemma length_node_bytes [simp]: "length (node_bytes n) = 16"
  by (simp add: node_bytes_def)

lemma length_list_bytes: "list_ok sl \<Longrightarrow> length (list_bytes sl) = SLAVELIST_SIZE"
proof -
  have "length (concat (map node_bytes ns)) = 16 * length ns" for ns
    by (induction ns) auto
  then show "list_ok sl \<Longrightarrow> length (list_bytes sl) = SLAVELIST_SIZE"
    by (simp add: list_bytes_def list_ok_def SLAVELIST_SIZE_def)
qed

lemma SLAVELIST_fits: "SLAVELIST_SIZE \<le> APPENDSIZE"
  by (simp add: SLAVELIST_SIZE_def MAX_SLAVE_NUM_def packet_consts)

lemma bytes_node_node_bytes: "node_ok n \<Longrightarrow> bytes_node (node_bytes n @ r) = n"
  by (simp add: bytes_node_def node_bytes_def node_ok_def peek_def buf_simps)

lemma bytes_nodes_concat:
  "\<forall>n \<in> set ns. node_ok n \<Longrightarrow> bytes_nodes (length ns) (concat (map node_bytes ns) @ r) = ns"
  by (induction ns) (simp_all add: bytes_node_node_bytes)

lemma bytes_list_list_bytes:
  assumes "list_ok sl" and "\<forall>n \<in> set (sl_nodes sl). node_ok n"
  shows "bytes_list (list_bytes sl @ r) = sl"
proof -
  have "int32 (sl_num sl)" using assms(1) by (simp add: list_ok_def int32_def MAX_SLAVE_NUM_def)
  then show ?thesis
    using assms bytes_nodes_concat [of "sl_nodes sl" r]
    by (simp add: bytes_list_def list_bytes_def peek_def buf_simps list_ok_def)
qed

section \<open>The two shifting loops\<close>

text \<open>
  \<open>shift_up ns i stop\<close> is \<open>for (; i > stop; i--) nodes[i+1] = nodes[i]\<close>, \<open>shift_down ns i
  stop\<close> is \<open>for (; i < stop; i++) nodes[i] = nodes[i+1]\<close>. An index outside the array ends in
  \<open>OutOfBounds\<close>.
\<close>

definition put_node :: "SlaveNode list \<Rightarrow> int \<Rightarrow> SlaveNode \<Rightarrow> SlaveNode list exec" where
  "put_node ns i n = (if 0 \<le> i \<and> i < int (length ns) then Inr (ns[nat i := n]) else Inl OutOfBounds)"

definition get_node :: "SlaveNode list \<Rightarrow> int \<Rightarrow> SlaveNode exec" where
  "get_node ns i = (if 0 \<le> i \<and> i < int (length ns) then Inr (ns ! nat i) else Inl OutOfBounds)"

function shift_up :: "SlaveNode list \<Rightarrow> int \<Rightarrow> int \<Rightarrow> SlaveNode list exec" where
  "shift_up ns i stop =
    (if i > stop then
       (case andThen (get_node ns i) (put_node ns (i + 1)) of
          Inl e \<Rightarrow> Inl e
        | Inr ns' \<Rightarrow> shift_up ns' (i - 1) stop)
     else Inr ns)"
  by pat_completeness auto
termination by (relation "measure (\<lambda>(ns, i, stop). nat (i - stop))") auto

function shift_down :: "SlaveNode list \<Rightarrow> int \<Rightarrow> int \<Rightarrow> SlaveNode list exec" where
  "shift_down ns i stop =
    (if i < stop then
       (case andThen (get_node ns (i + 1)) (put_node ns i) of
          Inl e \<Rightarrow> Inl e
        | Inr ns' \<Rightarrow> shift_down ns' (i + 1) stop)
     else Inr ns)"
  by pat_completeness auto
termination by (relation "measure (\<lambda>(ns, i, stop). nat (stop - i))") auto

declare shift_up.simps [simp del] shift_down.simps [simp del]

text \<open>After the loop the elements above \<open>stop\<close> stand one place higher, and so on.\<close>

lemma shift_up_spec:
  assumes "-1 \<le> stop" and "i + 1 < int (length ns)"
  shows "\<exists>ns'. shift_up ns i stop = Inr ns' \<and> length ns' = length ns
    \<and> (\<forall>j < length ns. ns' ! j =
        (if stop + 1 < int j \<and> int j \<le> i + 1 then ns ! (j - 1) else ns ! j))"
  using assms
proof (induction ns i stop rule: shift_up.induct)
  case (1 ns i stop)
  show ?case
  proof (cases "i > stop")
    case False
    then show ?thesis by (auto simp: shift_up.simps [of ns i stop])
  next
    case True
    let ?ns = "ns[nat (i + 1) := ns ! nat i]"
    have step: "andThen (get_node ns i) (put_node ns (i + 1)) = Inr ?ns"
      using True 1(2,3) by (simp add: get_node_def put_node_def)
    obtain ns' where ns': "shift_up ?ns (i - 1) stop = Inr ns'" "length ns' = length ns"
      "\<forall>j < length ns. ns' ! j =
        (if stop + 1 < int j \<and> int j \<le> i then ?ns ! (j - 1) else ?ns ! j)"
      using "1.IH" [OF True step] 1(2,3) by auto
    have "ns' ! j = (if stop + 1 < int j \<and> int j \<le> i + 1 then ns ! (j - 1) else ns ! j)"
      if "j < length ns" for j
      using that ns'(3) True 1(2) by (auto simp: nth_list_update nat_add_distrib)
    with ns'(1,2) True step show ?thesis by (simp add: shift_up.simps [of ns i stop])
  qed
qed

lemma shift_down_spec:
  assumes "0 \<le> i" and "stop < int (length ns)"
  shows "\<exists>ns'. shift_down ns i stop = Inr ns' \<and> length ns' = length ns
    \<and> (\<forall>j < length ns. ns' ! j =
        (if i \<le> int j \<and> int j < stop then ns ! Suc j else ns ! j))"
  using assms
proof (induction ns i stop rule: shift_down.induct)
  case (1 ns i stop)
  show ?case
  proof (cases "i < stop")
    case False
    then show ?thesis by (auto simp: shift_down.simps [of ns i stop])
  next
    case True
    let ?ns = "ns[nat i := ns ! nat (i + 1)]"
    have step: "andThen (get_node ns (i + 1)) (put_node ns i) = Inr ?ns"
      using True 1(2,3) by (simp add: get_node_def put_node_def)
    obtain ns' where ns': "shift_down ?ns (i + 1) stop = Inr ns'" "length ns' = length ns"
      "\<forall>j < length ns. ns' ! j =
        (if i + 1 \<le> int j \<and> int j < stop then ?ns ! Suc j else ?ns ! j)"
      using "1.IH" [OF True step] 1(2,3) by auto
    have "ns' ! j = (if i \<le> int j \<and> int j < stop then ns ! Suc j else ns ! j)"
      if "j < length ns" for j
      using that ns'(3) True 1(2) by (auto simp: nth_list_update nat_add_distrib)
    with ns'(1,2) True step show ?thesis by (simp add: shift_down.simps [of ns i stop])
  qed
qed

text \<open>
  What the two loops do to the nodes in use: with the assignment of the new node they insert
  at a position, and they remove at a position.
\<close>

lemma open_gap:
  assumes "list_ok sl" and "0 \<le> p" and "p \<le> sl_num sl" and "sl_num sl < int MAX_SLAVE_NUM"
  shows "\<exists>ns. andThen (shift_up (sl_nodes sl) (sl_num sl - 1) (p - 1)) (\<lambda>ns. put_node ns p sn) = Inr ns
    \<and> length ns = MAX_SLAVE_NUM \<and> take (nat (sl_num sl + 1)) ns = insert_at (nat p) sn (live sl)"
proof -
  let ?n = "sl_num sl"
  have len: "length (sl_nodes sl) = MAX_SLAVE_NUM" using assms(1) by (simp add: list_ok_def)
  obtain ns' where ns': "shift_up (sl_nodes sl) (?n - 1) (p - 1) = Inr ns'"
    "length ns' = length (sl_nodes sl)"
    "\<forall>j < length (sl_nodes sl). ns' ! j =
      (if p < int j \<and> int j \<le> ?n then sl_nodes sl ! (j - 1) else sl_nodes sl ! j)"
    using shift_up_spec [of "p - 1" "?n - 1" "sl_nodes sl"] assms len by auto
  let ?ns = "ns'[nat p := sn]"
  have put: "put_node ns' p sn = Inr ?ns" using ns'(2) len assms by (simp add: put_node_def)
  have "take (nat (?n + 1)) ?ns = insert_at (nat p) sn (live sl)"
  proof (rule nth_equalityI)
    show l: "length (take (nat (?n + 1)) ?ns) = length (insert_at (nat p) sn (live sl))"
      using assms ns'(2) len by (auto simp: length_live nat_add_distrib)
    fix i assume "i < length (take (nat (?n + 1)) ?ns)"
    with assms ns'(2) len have i: "int i \<le> ?n" "i < MAX_SLAVE_NUM" by auto
    with ns' len assms show "take (nat (?n + 1)) ?ns ! i = insert_at (nat p) sn (live sl) ! i"
      by (auto simp: nth_insert_at length_live nth_list_update live_def)
  qed
  with put ns'(1,2) len show ?thesis by simp
qed

lemma close_gap:
  assumes "list_ok sl" and "0 \<le> p" and "p < sl_num sl"
  shows "\<exists>ns. shift_down (sl_nodes sl) p (sl_num sl - 1) = Inr ns
    \<and> length ns = MAX_SLAVE_NUM \<and> take (nat (sl_num sl - 1)) ns = remove_at (nat p) (live sl)"
proof -
  let ?n = "sl_num sl"
  have len: "length (sl_nodes sl) = MAX_SLAVE_NUM" and n: "?n \<le> int MAX_SLAVE_NUM"
    using assms(1) by (simp_all add: list_ok_def)
  obtain ns where ns: "shift_down (sl_nodes sl) p (?n - 1) = Inr ns"
    "length ns = length (sl_nodes sl)"
    "\<forall>j < length (sl_nodes sl). ns ! j =
      (if p \<le> int j \<and> int j < ?n - 1 then sl_nodes sl ! Suc j else sl_nodes sl ! j)"
    using shift_down_spec [of p "?n - 1" "sl_nodes sl"] assms len n by auto
  have "take (nat (?n - 1)) ns = remove_at (nat p) (live sl)"
  proof (rule nth_equalityI)
    show "length (take (nat (?n - 1)) ns) = length (remove_at (nat p) (live sl))"
      using assms ns(2) len n by (simp add: length_live nat_diff_distrib min_def)
    fix i assume "i < length (take (nat (?n - 1)) ns)"
    with ns len assms n show "take (nat (?n - 1)) ns ! i = remove_at (nat p) (live sl) ! i"
      by (auto simp: nth_remove_at length_live live_def)
  qed
  with ns(1,2) len show ?thesis by simp
qed

section \<open>Properties\<close>

text \<open>The membership list travels whole: the image of any list of 32 nodes with \<open>int\<close>
  fields fits a packet, \<open>Append\<close> takes it, and the receiver that casts the appended bytes to
  a \<open>SlaveList\<close> has the sender's list, its version and count included.\<close>

lemma slavelist_roundtrip:
  assumes "packet_buf b" and "header_ok h" and "list_ok sl" and "list_all node_ok (sl_nodes sl)"
  shows "\<exists>p. Append (WriteHeader b h) (list_bytes sl) (int SLAVELIST_SIZE) = (0, p)
    \<and> GetHeader p = h\<lparr>hd_size := 16 + int SLAVELIST_SIZE\<rparr> \<and> bytes_list (GetAppend p) = sl"
proof -
  have len: "length (list_bytes sl) = SLAVELIST_SIZE" by (rule length_list_bytes [OF assms(3)])
  then have fits: "length (list_bytes sl) \<le> APPENDSIZE" using SLAVELIST_fits by simp
  have "bytes_list (GetAppend (packet b h (list_bytes sl))) = sl"
    using assms(3,4) by (simp add: GetAppend_packet [OF assms(1) fits] bytes_list_list_bytes list_all_iff)
  then show ?thesis
    using Append_packet [OF assms(1) fits, of h] GetHeader_packet [OF assms(1,2) fits] len by simp
qed

definition two_nodes :: SlaveList where
  "two_nodes = \<lparr>sl_version = 2, sl_num = 2,
    sl_nodes = \<lparr>sn_ip = 16777343, sn_port = 4001, sn_sock = 5, sn_key = 100\<rparr>
      # \<lparr>sn_ip = 16777343, sn_port = 4002, sn_sock = 6, sn_key = 2100\<rparr>
      # replicate 30 \<lparr>sn_ip = 0, sn_port = 0, sn_sock = 0, sn_key = 0\<rparr>\<rparr>"

lemma two_nodes_ok: "list_ok two_nodes" "list_all node_ok (sl_nodes two_nodes)"
  by (simp_all add: two_nodes_def list_ok_def MAX_SLAVE_NUM_def node_ok_def int32_def list_all_iff)

lemma slavelist_roundtrip_example:
  "\<exists>p. Append (WriteHeader (zeros MAXPACKETLEN)
      \<lparr>hd_size = 0, hd_cmd = cmd_code GET_LIST_R, hd_key = 0, hd_version = 0\<rparr>)
      (list_bytes two_nodes) (int SLAVELIST_SIZE) = (0, p)
    \<and> GetHeader p = \<lparr>hd_size = 16 + int SLAVELIST_SIZE, hd_cmd = cmd_code GET_LIST_R, hd_key = 0, hd_version = 0\<rparr>
    \<and> bytes_list (GetAppend p) = two_nodes"
proof -
  let ?h = "\<lparr>hd_size = 0, hd_cmd = cmd_code GET_LIST_R, hd_key = 0, hd_version = 0\<rparr>"
  have "header_ok ?h" by (simp add: header_ok_def int32_def)
  then show ?thesis using slavelist_roundtrip [OF packet_buf_zeros, of ?h two_nodes] two_nodes_ok by simp
qed

end
