(* ===== verification/KeyRing.thy ===== *)
theory KeyRing
  imports ServerCtrl
begin

text \<open>
  The abstract view of the key space that master, slaves and client share: the keys
  \<open>0 \<dots> MAX_KEY - 1\<close> on a circle, cut by the keys of the slaves into sections. The slave
  with key \<open>a\<close> whose successor has key \<open>b\<close> keeps the half-open section after \<open>a\<close> up to and
  including \<open>b\<close>. \<open>ring\<close> says that the sections go round the circle exactly once.
\<close>

section \<open>Lengths on the circle\<close>

definition gap :: "int \<Rightarrow> int \<Rightarrow> int" where
  "gap a b = (b - a - 1) mod MAX_KEY + 1"

definition in_section :: "int \<Rightarrow> int \<Rightarrow> int \<Rightarrow> bool" where
  "in_section a b k \<longleftrightarrow> gap a k \<le> gap a b"

definition ring_key :: "int \<Rightarrow> bool" where
  "ring_key k \<longleftrightarrow> 0 \<le> k \<and> k < MAX_KEY"

primrec path :: "int \<Rightarrow> int list \<Rightarrow> int" where
  "path a [] = 0"
| "path a (b # bs) = gap a b + path b bs"

definition ring :: "int list \<Rightarrow> bool" where
  "ring ks \<longleftrightarrow> list_all ring_key ks \<and>
    (case ks of [] \<Rightarrow> True | k # r \<Rightarrow> path k (r @ [k]) = MAX_KEY)"

lemma gap_pos: "1 \<le> gap a b" and gap_le: "gap a b \<le> MAX_KEY"
proof -
  have "0 \<le> (b - a - 1) mod MAX_KEY \<and> (b - a - 1) mod MAX_KEY < MAX_KEY"
    by (simp add: MAX_KEY_def)
  then show "1 \<le> gap a b" and "gap a b \<le> MAX_KEY"
    by (auto simp: gap_def)
qed

lemma gap_self [simp]: "gap a a = MAX_KEY"
  by (simp add: gap_def MAX_KEY_def)

text \<open>The only number from 1 to \<open>MAX_KEY\<close> that is congruent to the difference.\<close>

lemma gap_unique:
  assumes "1 \<le> d" and "d \<le> MAX_KEY" and "MAX_KEY dvd a + d - b"
  shows "gap a b = d"
proof -
  from assms(3) obtain q where "a + d - b = MAX_KEY * q" ..
  then have "b - a - 1 = d - 1 + MAX_KEY * (- q)" by simp
  then have "(b - a - 1) mod MAX_KEY = (d - 1) mod MAX_KEY" by (simp only: mod_mult_self2)
  then show ?thesis using assms(1,2) by (simp add: gap_def)
qed

lemma gap_cong: "MAX_KEY dvd a + gap a b - b"
proof -
  have "a + gap a b - b = (b - a - 1) mod MAX_KEY - (b - a - 1)" by (simp add: gap_def)
  then show ?thesis by (metis dvd_minus_mod dvd_diff_commute)
qed

lemma gap_add:
  assumes "gap a b + gap b c \<le> MAX_KEY"
  shows "gap a c = gap a b + gap b c"
proof (rule gap_unique)
  have "a + (gap a b + gap b c) - c = (a + gap a b - b) + (b + gap b c - c)" by simp
  then show "MAX_KEY dvd a + (gap a b + gap b c) - c"
    using gap_cong [of a b] gap_cong [of b c] by (simp only: dvd_add)
qed (use gap_pos [of a b] gap_pos [of b c] assms in auto)

lemma gap_split:
  assumes "gap a b \<le> gap a c" and "b \<noteq> c" and "ring_key b" and "ring_key c"
  shows "gap a c = gap a b + gap b c"
proof -
  have "gap a b \<noteq> gap a c"
  proof
    assume "gap a b = gap a c"
    then have "(b - a - 1) mod MAX_KEY = (c - a - 1) mod MAX_KEY" by (simp add: gap_def)
    then have "(b - a - 1 + (a + 1)) mod MAX_KEY = (c - a - 1 + (a + 1)) mod MAX_KEY"
      by (rule mod_add_cong) simp
    with assms(2-4) show False by (simp add: ring_key_def)
  qed
  with assms(1) have lt: "gap a b < gap a c" by simp
  have "gap b c = gap a c - gap a b"
  proof (rule gap_unique)
    have "b + (gap a c - gap a b) - c = (a + gap a c - c) - (a + gap a b - b)" by simp
    then show "MAX_KEY dvd b + (gap a c - gap a b) - c"
      using gap_cong [of a b] gap_cong [of a c] by (simp only: dvd_diff)
  qed (use lt gap_pos [of a b] gap_le [of a c] in auto)
  then show ?thesis by simp
qed

text \<open>The comparisons by which client and storage decide membership of a section.\<close>

lemma in_section_iff:
  assumes "ring_key a" and "ring_key b" and "ring_key k"
  shows "in_section a b k \<longleftrightarrow>
    (if a < b then a < k \<and> k \<le> b else if b < a then a < k \<or> k \<le> b else True)"
proof -
  have g: "gap a x = (if a < x then x - a else x - a + 4000)" if "ring_key x" for x
    by (rule gap_unique) (use that assms(1) in \<open>auto simp: ring_key_def MAX_KEY_def\<close>)
  show ?thesis
    using assms by (auto simp: in_section_def g ring_key_def MAX_KEY_def)
qed

section \<open>Going round\<close>

lemma path_append: "path a (xs @ ys) = path a xs + path (last (a # xs)) ys"
  by (induction xs arbitrary: a) auto

lemma path_nonneg: "0 \<le> path a xs"
proof (induction xs arbitrary: a)
  case (Cons b bs)
  have "1 \<le> gap a b" by (rule gap_pos)
  with Cons [of b] show ?case by simp
qed simp

lemma length_le_path: "int (length xs) \<le> path a xs"
proof (induction xs arbitrary: a)
  case (Cons b bs)
  have "1 \<le> gap a b" by (rule gap_pos)
  with Cons [of b] show ?case by simp
qed simp

lemma path_le_bound: "\<forall>i < length xs. gap ((a # xs) ! i) (xs ! i) \<le> m \<Longrightarrow> path a xs \<le> int (length xs) * m"
proof (induction xs arbitrary: a)
  case (Cons b bs)
  from Cons.prems have "gap a b \<le> m" and "\<forall>i < length bs. gap ((b # bs) ! i) (bs ! i) \<le> m"
    by auto
  with Cons.IH [of b] show ?case by (simp add: algebra_simps)
qed simp

lemma path_cong: "MAX_KEY dvd a + path a xs - last (a # xs)"
proof (induction xs arbitrary: a)
  case (Cons b bs)
  have "a + path a (b # bs) - last (a # b # bs)
      = (a + gap a b - b) + (b + path b bs - last (b # bs))" by simp
  then show ?case using Cons [of b] gap_cong [of a b] by (simp only: dvd_add)
qed simp

lemma ring_Nil [simp]: "ring []"
  by (simp add: ring_def)

lemma ring_Cons: "ring (k # r) \<longleftrightarrow> ring_key k \<and> list_all ring_key r \<and> path k (r @ [k]) = MAX_KEY"
  by (auto simp: ring_def)

lemma ring_single [simp]: "ring [k] \<longleftrightarrow> ring_key k"
  by (simp add: ring_Cons)

lemma ring_keys: "ring ks \<Longrightarrow> k \<in> set ks \<Longrightarrow> ring_key k"
  by (auto simp: ring_def list_all_iff)

text \<open>A new key inside a section, listed after the section's lower end, keeps a ring.\<close>

lemma ring_insert:
  assumes "ring (xs @ a # ys)" and "ring_key c" and "c \<noteq> hd (ys @ xs @ [a])"
    and "in_section a (hd (ys @ xs @ [a])) c"
  shows "ring (xs @ a # c # ys)"
proof -
  let ?b = "hd (ys @ xs @ [a])"
  have "?b \<in> set (xs @ a # ys)" by (cases ys; cases xs) auto
  with assms(1) have "ring_key ?b" by (rule ring_keys)
  with assms have split: "gap a ?b = gap a c + gap c ?b"
    by (auto simp: in_section_def intro!: gap_split)
  show ?thesis
  proof (cases xs)
    case Nil
    with assms(1,2) split show ?thesis
      by (cases ys) (auto simp: ring_Cons)
  next
    case (Cons k r)
    with assms(1,2) split show ?thesis
      by (cases ys) (auto simp: ring_Cons path_append)
  qed
qed

text \<open>Any key can be taken out.\<close>

lemma ring_remove:
  assumes "ring (xs @ a # ys)"
  shows "ring (xs @ ys)"
proof (cases xs)
  case Nil
  show ?thesis
  proof (cases ys)
    case (Cons b bs)
    let ?l = "last (b # bs)"
    from assms Nil Cons have p: "gap a b + (path b bs + gap ?l a) = MAX_KEY"
      and k: "ring_key b" "list_all ring_key bs"
      by (auto simp: ring_Cons path_append)
    then have "gap ?l b = gap ?l a + gap a b"
      using path_nonneg [of b bs] by (intro gap_add) simp
    with p k Nil Cons show ?thesis by (auto simp: ring_Cons path_append)
  qed (simp add: Nil)
next
  case (Cons k r)
  let ?l = "last (k # r)"
  obtain b bs where bs: "ys @ [k] = b # bs" by (cases "ys @ [k]") auto
  from assms Cons have "path k (r @ a # ys @ [k]) = MAX_KEY" by (simp add: ring_Cons)
  then have p: "path k r + (gap ?l a + (gap a b + path b bs)) = MAX_KEY"
    by (simp only: path_append bs path.simps)
  then have "gap ?l b = gap ?l a + gap a b"
    using path_nonneg [of k r] path_nonneg [of b bs] by (intro gap_add) simp
  with p have "path k (r @ ys @ [k]) = MAX_KEY"
    by (simp only: path_append bs path.simps)
  with assms Cons show ?thesis by (simp add: ring_Cons)
qed

section \<open>Sections by position\<close>

text \<open>
  The section of the slave at position \<open>i\<close>, and the sections taken together: in a ring every
  key of the circle lies in the section of exactly one position.
\<close>

definition sec_lo :: "int list \<Rightarrow> nat \<Rightarrow> int" where
  "sec_lo ks i = ks ! i"

definition sec_hi :: "int list \<Rightarrow> nat \<Rightarrow> int" where
  "sec_hi ks i = ks ! (Suc i mod length ks)"

definition owner :: "int list \<Rightarrow> nat \<Rightarrow> int \<Rightarrow> bool" where
  "owner ks i k \<longleftrightarrow> i < length ks \<and> in_section (sec_lo ks i) (sec_hi ks i) k"

lemma sec_hi_cycle: "i < length (k # r) \<Longrightarrow> sec_hi (k # r) i = (r @ [k]) ! i"
  by (auto simp: sec_hi_def nth_append mod_Suc less_Suc_eq)

lemma path_take_Suc:
  "i < length xs \<Longrightarrow> path a (take (Suc i) xs) = path a (take i xs) + gap ((a # xs) ! i) (xs ! i)"
proof (induction xs arbitrary: a i)
  case (Cons b bs)
  then show ?case by (cases i) auto
qed simp

lemma last_Cons_take: "i \<le> length xs \<Longrightarrow> last (a # take i xs) = (a # xs) ! i"
proof (induction xs arbitrary: a i)
  case (Cons b bs)
  then show ?case by (cases i) auto
qed simp

lemma strict_steps_unique:
  fixes f :: "nat \<Rightarrow> int"
  assumes mono: "\<forall>i < n. f i < f (Suc i)" and "f 0 < d" and "d \<le> f n"
  shows "\<exists>!i. i < n \<and> f i < d \<and> d \<le> f (Suc i)"
proof -
  have le: "f i \<le> f j" if "i \<le> j" "j \<le> n" for i j
    using that
  proof (induction j rule: dec_induct)
    case (step j)
    with mono have "f i \<le> f j" "f j < f (Suc j)" by auto
    then show ?case by simp
  qed simp
  let ?m = "LEAST j. d \<le> f j"
  have m: "d \<le> f ?m" "?m \<le> n" using assms(3) by (auto intro: LeastI Least_le)
  with assms(2) have "?m \<noteq> 0" by (metis not_less)
  then obtain i where i: "?m = Suc i" using not0_implies_Suc by blast
  then have "\<not> d \<le> f i" by (metis lessI not_less_Least)
  with i m have ex: "i < n \<and> f i < d \<and> d \<le> f (Suc i)" by simp
  moreover have "j = i" if j: "j < n \<and> f j < d \<and> d \<le> f (Suc j)" for j
  proof (rule ccontr)
    assume "j \<noteq> i"
    then have "Suc j \<le> i \<or> Suc i \<le> j" by auto
    then show False using le [of "Suc j" i] le [of "Suc i" j] j ex by auto
  qed
  ultimately show ?thesis by blast
qed

text \<open>Distance from the first key, read off section by section.\<close>

lemma owner_offset:
  assumes ring: "ring (k0 # r)" and i: "i < length (k0 # r)"
  shows "owner (k0 # r) i k \<longleftrightarrow>
    path k0 (take i (r @ [k0])) < gap k0 k \<and> gap k0 k \<le> path k0 (take (Suc i) (r @ [k0]))"
proof -
  let ?c = "r @ [k0]" and ?a = "(k0 # r) ! i"
  let ?S = "path k0 (take i ?c)" and ?d = "gap k0 k"
  have a: "?a = last (k0 # take i ?c)"
    using i last_Cons_take [of i ?c k0] by (auto simp: nth_append nth_Cons')
  have S: "path k0 (take (Suc i) ?c) = ?S + gap ?a (sec_hi (k0 # r) i)"
    using i path_take_Suc [of i ?c k0] sec_hi_cycle [OF i] by (auto simp: nth_append nth_Cons')
  have total: "path k0 ?c = MAX_KEY" using ring by (simp add: ring_Cons)
  have "path k0 ?c = path k0 (take (Suc i) ?c) + path (last (k0 # take (Suc i) ?c)) (drop (Suc i) ?c)"
    by (metis path_append append_take_drop_id)
  with total have bound: "?S + gap ?a (sec_hi (k0 # r) i) \<le> MAX_KEY"
    using S path_nonneg [of "last (k0 # take (Suc i) ?c)" "drop (Suc i) ?c"] by linarith
  have cong: "MAX_KEY dvd ?a + (?d - ?S) - k"
  proof -
    have "?a + (?d - ?S) - k = (k0 + ?d - k) - (k0 + ?S - ?a)" by simp
    then show ?thesis
      using gap_cong [of k0 k] path_cong [of k0 "take i ?c"] a by (metis dvd_diff)
  qed
  show ?thesis
  proof (cases "?S < ?d")
    case True
    then have "gap ?a k = ?d - ?S"
      using gap_le [of k0 k] path_nonneg [of k0 "take i ?c"] cong by (intro gap_unique) auto
    with True S i show ?thesis by (auto simp: owner_def in_section_def sec_lo_def)
  next
    case False
    have "gap ?a k = ?d - ?S + MAX_KEY"
    proof (rule gap_unique)
      have "?a + (?d - ?S + MAX_KEY) - k = (?a + (?d - ?S) - k) + MAX_KEY" by simp
      then show "MAX_KEY dvd ?a + (?d - ?S + MAX_KEY) - k" using cong by (simp only: dvd_add dvd_refl)
      show "1 \<le> ?d - ?S + MAX_KEY"
        using bound gap_pos [of ?a "sec_hi (k0 # r) i"] gap_pos [of k0 k] by linarith
    qed (use False in simp)
    with False bound show ?thesis
      using gap_pos [of k0 k] by (auto simp: owner_def in_section_def sec_lo_def)
  qed
qed

lemma ring_owner_unique:
  assumes "ring ks" and "ks \<noteq> []"
  shows "\<exists>!i. owner ks i k"
proof -
  obtain k0 r where ks: "ks = k0 # r" using assms(2) by (cases ks) auto
  let ?f = "\<lambda>i. path k0 (take i (r @ [k0]))"
  have total: "?f (length ks) = MAX_KEY" using assms(1) ks by (simp add: ring_Cons)
  have "\<forall>i < length ks. ?f i < ?f (Suc i)"
  proof (intro allI impI)
    fix i assume "i < length ks"
    then have "?f (Suc i) = ?f i + gap ((k0 # r @ [k0]) ! i) ((r @ [k0]) ! i)"
      using ks by (intro path_take_Suc) simp
    with gap_pos [of "(k0 # r @ [k0]) ! i" "(r @ [k0]) ! i"] show "?f i < ?f (Suc i)" by linarith
  qed
  moreover have "?f 0 < gap k0 k" using gap_pos [of k0 k] by simp
  moreover have "gap k0 k \<le> ?f (length ks)" using total gap_le [of k0 k] by simp
  ultimately have "\<exists>!i. i < length ks \<and> ?f i < gap k0 k \<and> gap k0 k \<le> ?f (Suc i)"
    by (rule strict_steps_unique)
  moreover have "owner ks i k \<longleftrightarrow> i < length ks \<and> ?f i < gap k0 k \<and> gap k0 k \<le> ?f (Suc i)" for i
    using owner_offset [of k0 r i k] assms(1) ks by (cases "i < length ks") (auto simp: owner_def)
  ultimately show ?thesis by simp
qed

text \<open>The keys of a ring are pairwise different.\<close>

lemma ring_distinct:
  assumes "ring ks" shows "distinct ks"
proof (rule ccontr)
  assume "\<not> distinct ks"
  then obtain a b where ab: "a < length ks" "b < length ks" "a \<noteq> b" "ks ! a = ks ! b"
    by (auto simp: distinct_conv_nth)
  define i j where "i = min a b" and "j = max a b"
  with ab have ij: "i < j" "j < length ks" "ks ! i = ks ! j"
    by (auto simp: min_def max_def)
  let ?n = "length ks" and ?p = "(if i = 0 then length ks else i) - 1"
  have up: "owner ks (j - 1) (ks ! j)"
    using ij by (simp add: owner_def in_section_def sec_lo_def sec_hi_def)
  have "Suc ?p = (if i = 0 then ?n else i)" "?p < ?n" using ij by auto
  then have "Suc ?p mod ?n = i" "?p < ?n" using ij by auto
  then have "owner ks ?p (ks ! i)"
    by (simp add: owner_def in_section_def sec_lo_def sec_hi_def)
  with up ij(3) ring_owner_unique [OF assms, of "ks ! j"] have "?p = j - 1" using ij(2) by fastforce
  then have "i = 0 \<and> j = ?n" using ij by (auto split: if_splits)
  with ij(2) show False by simp
qed

section \<open>Sections when the list changes\<close>

text \<open>
  When a key enters after position \<open>p\<close> the other positions keep their sections, and that of
  \<open>p\<close> falls to \<open>p\<close> and the new position; when a key leaves, its section goes to the position
  before it.
\<close>

definition index_ins :: "nat \<Rightarrow> nat \<Rightarrow> nat" where
  "index_ins p i = (if i < p then i else Suc i)"

definition index_del :: "nat \<Rightarrow> nat \<Rightarrow> nat" where
  "index_del p i = (if i < p then i else i - 1)"

definition pred_pos :: "nat \<Rightarrow> nat \<Rightarrow> nat" where
  "pred_pos n p = (if p = 0 then n - 1 else p - 1)"

lemma owner_insert_other:
  assumes "p < length ks" and "i < length ks" and "i \<noteq> p"
  shows "owner (insert_at (Suc p) c ks) (index_ins (Suc p) i) k \<longleftrightarrow> owner ks i k"
proof -
  let ?ks = "insert_at (Suc p) c ks" and ?i = "index_ins (Suc p) i"
  have lo: "sec_lo ?ks ?i = sec_lo ks i"
    using assms by (auto simp: sec_lo_def index_ins_def nth_insert_at)
  have hi: "sec_hi ?ks ?i = sec_hi ks i"
  proof (cases "i < p")
    case True
    then show ?thesis using assms by (simp add: sec_hi_def index_ins_def nth_insert_at)
  next
    case False
    then have "Suc (Suc i) mod Suc (length ks) = (if Suc i = length ks then 0 else Suc (Suc i))"
      and "Suc i mod length ks = (if Suc i = length ks then 0 else Suc i)"
      using assms by auto
    then show ?thesis using False assms by (simp add: sec_hi_def index_ins_def nth_insert_at)
  qed
  show ?thesis using assms by (auto simp: owner_def lo hi) (auto simp: index_ins_def)
qed

lemma owner_delete_other:
  assumes "p < length ks" and "2 \<le> length ks" and "i < length ks" and "i \<noteq> p" and "i \<noteq> pred_pos (length ks) p"
  shows "owner (remove_at p ks) (index_del p i) k \<longleftrightarrow> owner ks i k"
proof -
  let ?ks = "remove_at p ks" and ?i = "index_del p i" and ?n = "length ks"
  have i: "?i < ?n - 1" using assms by (auto simp: index_del_def pred_pos_def split: if_splits)
  have lo: "sec_lo ?ks ?i = sec_lo ks i"
    using assms i by (auto simp: sec_lo_def index_del_def nth_remove_at split: if_splits)
  have hi: "sec_hi ?ks ?i = sec_hi ks i"
  proof (cases "Suc i = ?n")
    case True
    then have "Suc ?i = ?n - 1" "p \<noteq> 0"
      using assms by (auto simp: index_del_def pred_pos_def split: if_splits)
    then show ?thesis using True assms by (simp add: sec_hi_def nth_remove_at)
  next
    case False
    then have "Suc ?i mod (?n - 1) = index_del p (Suc i)"
      using assms by (auto simp: index_del_def pred_pos_def split: if_splits)
    moreover have "index_del p (Suc i) < ?n - 1" "Suc i \<noteq> p"
      using False assms by (auto simp: index_del_def pred_pos_def split: if_splits)
    ultimately show ?thesis
      using False assms by (auto simp: sec_hi_def nth_remove_at index_del_def)
  qed
  show ?thesis using assms i by (simp add: owner_def lo hi)
qed

lemma unique_rest:
  assumes "\<exists>!i. P i" and "\<exists>!j. Q j" and "\<And>i. P i \<Longrightarrow> i \<noteq> a \<Longrightarrow> i \<noteq> b \<Longrightarrow> Q (f i)"
    and "\<And>j. Q j \<Longrightarrow> j \<noteq> c \<Longrightarrow> \<exists>i. P i \<and> i \<noteq> a \<and> i \<noteq> b" and "\<And>i. P i \<Longrightarrow> i \<noteq> a \<Longrightarrow> i \<noteq> b \<Longrightarrow> f i \<noteq> c"
  shows "Q c \<longleftrightarrow> P a \<or> P b"
  using assms by metis

lemma owner_delete_pred:
  assumes ring: "ring ks" "ring (remove_at p ks)" and p: "p < length ks" and n: "2 \<le> length ks"
  shows "owner (remove_at p ks) (index_del p (pred_pos (length ks) p)) k
    \<longleftrightarrow> owner ks (pred_pos (length ks) p) k \<or> owner ks p k"
proof (rule unique_rest [where f = "index_del p"])
  let ?n = "length ks" and ?q = "pred_pos (length ks) p"
  have "ks \<noteq> []" using p by auto
  then show "\<exists>!i. owner ks i k" by (rule ring_owner_unique [OF ring(1)])
  have "length (remove_at p ks) = ?n - 1" using p by simp
  then have "remove_at p ks \<noteq> []" using n by (metis One_nat_def Suc_1 diff_is_0_eq leD list.size(3) not_less_eq_eq order_refl)
  then show "\<exists>!j. owner (remove_at p ks) j k" by (rule ring_owner_unique [OF ring(2)])
  show "owner (remove_at p ks) (index_del p i) k" if "owner ks i k" "i \<noteq> ?q" "i \<noteq> p" for i
    using that owner_delete_other [OF p n _ that(3,2)] by (simp add: owner_def)
  show "index_del p i \<noteq> index_del p ?q" if "owner ks i k" "i \<noteq> ?q" "i \<noteq> p" for i
    using that p n by (auto simp: owner_def index_del_def pred_pos_def split: if_splits)
  show "\<exists>i. owner ks i k \<and> i \<noteq> ?q \<and> i \<noteq> p" if "owner (remove_at p ks) j k" "j \<noteq> index_del p ?q" for j
  proof -
    have j: "j < ?n - 1" using that(1) p by (simp add: owner_def)
    let ?i = "index_ins p j"
    have "index_del p ?i = j" "?i < ?n" "?i \<noteq> p" "?i \<noteq> ?q"
      using j that(2) p n by (auto simp: index_del_def index_ins_def split: if_splits)
    then show ?thesis using owner_delete_other [OF p n, of ?i k] that(1) by auto
  qed
qed

lemma owner_insert_split:
  assumes ring: "ring ks" "ring (insert_at (Suc p) c ks)" and p: "p < length ks"
  shows "owner ks p k \<longleftrightarrow> owner (insert_at (Suc p) c ks) p k \<or> owner (insert_at (Suc p) c ks) (Suc p) k"
proof (rule unique_rest [where f = "index_del (Suc p)"])
  let ?ks = "insert_at (Suc p) c ks"
  have "ks \<noteq> []" using p by auto
  then show "\<exists>!i. owner ks i k" by (rule ring_owner_unique [OF ring(1)])
  have "?ks \<noteq> []" by (simp add: insert_at_def)
  then show "\<exists>!j. owner ?ks j k" by (rule ring_owner_unique [OF ring(2)])
  show "owner ks (index_del (Suc p) i) k" if "owner ?ks i k" "i \<noteq> p" "i \<noteq> Suc p" for i
  proof -
    have "index_ins (Suc p) (index_del (Suc p) i) = i" "index_del (Suc p) i < length ks" "index_del (Suc p) i \<noteq> p"
      using that p by (auto simp: index_ins_def index_del_def owner_def split: if_splits)
    then show ?thesis using owner_insert_other [OF p, of "index_del (Suc p) i" c k] that by simp
  qed
  show "index_del (Suc p) i \<noteq> p" if "owner ?ks i k" "i \<noteq> p" "i \<noteq> Suc p" for i
    using that by (auto simp: index_del_def split: if_splits)
  show "\<exists>i. owner ?ks i k \<and> i \<noteq> p \<and> i \<noteq> Suc p" if "owner ks j k" "j \<noteq> p" for j
    using owner_insert_other [OF p _ that(2), of c k] that
    by (intro exI [of _ "index_ins (Suc p) j"]) (auto simp: owner_def index_ins_def)
qed

section \<open>The ring of a membership list\<close>

definition keys :: "SlaveList \<Rightarrow> int list" where
  "keys slaves = map sn_key (live slaves)"

definition ring_list :: "SlaveList \<Rightarrow> bool" where
  "ring_list slaves \<longleftrightarrow> list_ok slaves \<and> ring (keys slaves)"

lemma length_keys: "list_ok sl \<Longrightarrow> length (keys sl) = nat (sl_num sl)"
  by (simp add: keys_def length_live)

lemma sn_key_node_at: "list_ok sl \<Longrightarrow> 0 \<le> i \<Longrightarrow> i < sl_num sl \<Longrightarrow> sn_key (node_at sl i) = keys sl ! nat i"
  by (simp add: keys_def node_at_live length_live)

lemma ring_list_key:
  "ring_list sl \<Longrightarrow> 0 \<le> i \<Longrightarrow> i < sl_num sl \<Longrightarrow> ring_key (keys sl ! nat i)"
  by (auto simp: ring_list_def length_keys intro!: ring_keys [of "keys sl"])

lemma two_nodes_ring: "ring_list two_nodes"
proof -
  have "keys two_nodes = [100, 2100]" by (simp add: keys_def live_def two_nodes_def)
  then show ?thesis
    by (simp add: ring_list_def two_nodes_ok ring_Cons ring_key_def MAX_KEY_def gap_def)
qed

end
