(* ===== verification/Socket.thy ===== *)
theory Socket
  imports DbProtocol
begin

text \<open>
  \<^verbatim>\<open>common/Socket.c\<close> and \<open>ExchangePacket\<close>. What lies behind a socket is outside the program:
  it is a state \<open>'w\<close> with the system calls as functions on it, collected in the record \<open>net\<close>.
  Every definition that communicates takes a \<open>net\<close>; nothing is assumed of it but what a
  theorem says. \<open>n_recv\<close> gives \<open>None\<close> where \<open>recv\<close> returns -1 and \<open>Some []\<close> where it
  returns 0. Addresses are the values that \<open>inet_addr\<close> and \<open>accept\<close> give.
\<close>

definition MAX_BUF_LEN :: nat where "MAX_BUF_LEN = 1024"
definition LOCAL_ADDR :: int where "LOCAL_ADDR = 16777343"

record 'w net =
  n_socket :: "'w \<Rightarrow> int \<times> 'w"
  n_bind :: "int \<Rightarrow> int \<Rightarrow> int \<Rightarrow> 'w \<Rightarrow> int \<times> 'w"
  n_listen :: "int \<Rightarrow> 'w \<Rightarrow> int \<times> 'w"
  n_accept :: "int \<Rightarrow> 'w \<Rightarrow> int \<times> int \<times> 'w"
  n_connect :: "int \<Rightarrow> int \<Rightarrow> int \<Rightarrow> 'w \<Rightarrow> int \<times> 'w"
  n_send :: "int \<Rightarrow> bytes \<Rightarrow> 'w \<Rightarrow> 'w"
  n_recv :: "int \<Rightarrow> 'w \<Rightarrow> bytes option \<times> 'w"
  n_close :: "int \<Rightarrow> 'w \<Rightarrow> 'w"
  n_port :: "int \<Rightarrow> 'w \<Rightarrow> int"

section \<open>Server side\<close>

text \<open>\<open>INADDR_ANY\<close> is 0. The result is the return value, \<open>*listen_sock\<close> and the new state.\<close>

definition InitializeService :: "('w, 'z) net_scheme \<Rightarrow> int option \<Rightarrow> int \<Rightarrow> 'w \<Rightarrow> int \<times> int \<times> 'w" where
  "InitializeService net addr port w =
    (let (listen_sock, w) = n_socket net w in
     if listen_sock = -1 then (-1, listen_sock, w) else
     let (res, w) = n_bind net listen_sock (case addr of Some a \<Rightarrow> a | None \<Rightarrow> 0) port w in
     if res \<noteq> 0 then (-1, listen_sock, w) else
     let (res, w) = n_listen net listen_sock w in
     if res \<noteq> 0 then (-1, listen_sock, w) else (0, listen_sock, w))"

definition ShutdownService :: "('w, 'z) net_scheme \<Rightarrow> int \<Rightarrow> 'w \<Rightarrow> 'w" where
  "ShutdownService net listen_sock w = n_close net listen_sock w"

text \<open>On failure \<open>*ip\<close> keeps its old value.\<close>

definition ServiceStart :: "('w, 'z) net_scheme \<Rightarrow> int \<Rightarrow> int \<Rightarrow> 'w \<Rightarrow> int \<times> int \<times> int \<times> 'w" where
  "ServiceStart net listen_sock ip0 w =
    (let (accept_sock, ip, w) = n_accept net listen_sock w in
     if accept_sock = -1 then (-1, accept_sock, ip0, w) else (0, accept_sock, ip, w))"

definition ServiceStop :: "('w, 'z) net_scheme \<Rightarrow> int \<Rightarrow> 'w \<Rightarrow> 'w" where
  "ServiceStop net sockfd w = n_close net sockfd w"

definition GetPort :: "('w, 'z) net_scheme \<Rightarrow> int \<Rightarrow> 'w \<Rightarrow> int" where
  "GetPort net sockfd w = n_port net sockfd w"

section \<open>Client side\<close>

text \<open>When \<open>connect\<close> fails \<open>*psockfd\<close> holds the socket all the same.\<close>

definition OpenRemoteService :: "('w, 'z) net_scheme \<Rightarrow> int option \<Rightarrow> int \<Rightarrow> 'w \<Rightarrow> int \<times> int \<times> 'w" where
  "OpenRemoteService net addr port w =
    (let (sockfd, w) = n_socket net w in
     if sockfd = -1 then (-1, sockfd, w) else
     let (res, w) = n_connect net sockfd (case addr of Some a \<Rightarrow> a | None \<Rightarrow> LOCAL_ADDR) port w in
     if res = -1 then (-1, sockfd, w) else (0, sockfd, w))"

definition OpenRemoteService2 :: "('w, 'z) net_scheme \<Rightarrow> int \<Rightarrow> int \<Rightarrow> 'w \<Rightarrow> int \<times> int \<times> 'w" where
  "OpenRemoteService2 net ip port w = OpenRemoteService net (Some ip) port w"

definition CloseRemoteService :: "('w, 'z) net_scheme \<Rightarrow> int \<Rightarrow> 'w \<Rightarrow> 'w" where
  "CloseRemoteService net sockfd w = n_close net sockfd w"

section \<open>Messages\<close>

definition SendMsg :: "('w, 'z) net_scheme \<Rightarrow> int \<Rightarrow> bytes \<Rightarrow> 'w \<Rightarrow> 'w exec" where
  "SendMsg net sockfd buf w =
    andThen (c_assert (sockfd \<noteq> -1)) (\<lambda>_. Inr (n_send net sockfd (take MAX_BUF_LEN buf) w))"

text \<open>\<open>recv\<close> overwrites as many bytes of the buffer as it returns; the rest stays.\<close>

definition recv_into :: "('w, 'z) net_scheme \<Rightarrow> int \<Rightarrow> bytes \<Rightarrow> 'w \<Rightarrow> int \<times> bytes \<times> 'w" where
  "recv_into net sockfd buf w =
    (case n_recv net sockfd w of
       (None, w) \<Rightarrow> (-1, buf, w)
     | (Some d, w) \<Rightarrow> (int (length (take MAX_BUF_LEN d)), poke 0 (take MAX_BUF_LEN d) buf, w))"

definition RecvMsg :: "('w, 'z) net_scheme \<Rightarrow> int \<Rightarrow> bytes \<Rightarrow> 'w \<Rightarrow> (int \<times> bytes \<times> 'w) exec" where
  "RecvMsg net sockfd buf w =
    andThen (c_assert (sockfd \<noteq> -1)) (\<lambda>_. Inr (recv_into net sockfd buf w))"

text \<open>
  One request and its reply over the static buffer, which the caller passes in and gets back.
  \<open>h0\<close> is the uninitialised header on the stack: its version is sent as it is found.
\<close>

definition ExchangePacket ::
  "('w, 'z) net_scheme \<Rightarrow> db_header \<Rightarrow> bytes \<Rightarrow> cmd \<Rightarrow> int \<Rightarrow> bytes \<Rightarrow> int \<Rightarrow> int \<Rightarrow> 'w \<Rightarrow> (bytes \<times> 'w) exec" where
  "ExchangePacket net h0 szBuf cmd key append_str len sockfd w =
    (let szBuf = WriteHeader szBuf (h0\<lparr>hd_cmd := cmd_code cmd, hd_key := key\<rparr>);
         szBuf = snd (Append szBuf append_str len) in
     andThen (SendMsg net sockfd szBuf w) (\<lambda>w.
     andThen (RecvMsg net sockfd szBuf w) (\<lambda>(res, szBuf, w).
     Inr (szBuf, w))))"

lemma SendMsg_ok [simp]: "fd \<noteq> -1 \<Longrightarrow> SendMsg net fd b w = Inr (n_send net fd (take MAX_BUF_LEN b) w)"
  by (simp add: SendMsg_def)

lemma RecvMsg_ok [simp]: "fd \<noteq> -1 \<Longrightarrow> RecvMsg net fd b w = Inr (recv_into net fd b w)"
  by (simp add: RecvMsg_def)

lemma SendMsg_bad [simp]: "SendMsg net (-1) b w = Inl AssertFail"
  by (simp add: SendMsg_def)

lemma recv_into_full:
  "n_recv net fd w = (Some d, w') \<Longrightarrow> packet_buf d \<Longrightarrow> packet_buf b \<Longrightarrow>
    recv_into net fd b w = (int MAX_BUF_LEN, d, w')"
  by (simp add: recv_into_def packet_buf_def MAX_BUF_LEN_def packet_consts poke_def)

lemma take_packet [simp]: "packet_buf b \<Longrightarrow> take MAX_BUF_LEN b = b"
  by (simp add: packet_buf_def MAX_BUF_LEN_def packet_consts)

lemma packet_buf_recv_into:
  "packet_buf b \<Longrightarrow> recv_into net fd b w = (res, b', w') \<Longrightarrow> packet_buf b'"
  by (auto simp: recv_into_def packet_buf_def MAX_BUF_LEN_def packet_consts split: prod.splits option.splits)

lemma recv_into_nothing:
  "fst (n_recv net fd w) \<in> {None, Some []} \<Longrightarrow> \<exists>r w'. r \<le> 0 \<and> recv_into net fd b w = (r, b, w')"
  by (cases "n_recv net fd w") (auto simp: recv_into_def poke_def)

lemma ExchangePacket_ok:
  assumes "fd \<noteq> -1" and "packet_buf szBuf" and "length d \<le> APPENDSIZE"
  shows "ExchangePacket net h0 szBuf c key d (int (length d)) fd w =
    (case recv_into net fd (packet szBuf (h0\<lparr>hd_cmd := cmd_code c, hd_key := key\<rparr>) d)
       (n_send net fd (packet szBuf (h0\<lparr>hd_cmd := cmd_code c, hd_key := key\<rparr>) d) w) of
      (res, b, w) \<Rightarrow> Inr (b, w))"
  using assms by (simp add: ExchangePacket_def Append_packet Let_def)

text \<open>
  When the peer is gone (\<open>recv\<close> returns 0 or -1) the buffer still holds the request, so the
  caller that looks at \<open>cmd\<close> sees its own command.
\<close>

lemma ExchangePacket_no_reply:
  assumes "fd \<noteq> -1" and "packet_buf szBuf" and "length d \<le> APPENDSIZE" and "header_ok h0" and "int32 key"
    and "fst (n_recv net fd (n_send net fd
      (packet szBuf (h0\<lparr>hd_cmd := cmd_code c, hd_key := key\<rparr>) d) w)) \<in> {None, Some []}"
  shows "\<exists>b w'. ExchangePacket net h0 szBuf c key d (int (length d)) fd w = Inr (b, w')
    \<and> hd_cmd (GetHeader b) = cmd_code c"
proof -
  let ?h = "h0\<lparr>hd_cmd := cmd_code c, hd_key := key\<rparr>"
  let ?p = "packet szBuf ?h d"
  have h: "header_ok ?h" using assms(4,5) by (simp add: header_ok_def)
  obtain r w' where "recv_into net fd ?p (n_send net fd ?p w) = (r, ?p, w')"
    using recv_into_nothing [OF assms(6)] by blast
  then show ?thesis
    using assms(1-3) GetHeader_packet [OF assms(2) h assms(3)] by (auto simp: ExchangePacket_ok)
qed

end
