(* ===== verification/Master.thy ===== *)
theory Master
  imports KeyRing Socket
begin

text \<open>
  The master process, \<^verbatim>\<open>server/master.c\<close>: where a new slave goes in the key space, what leaves
  when one is taken out, how the others are told, the requests it answers and its event loop.
  The global \<open>slaves\<close> and the static \<open>pos\<close> of \<open>UpdateBackup\<close> are passed and returned.
\<close>

section \<open>The membership list\<close>

definition GetLength :: "SlaveList \<Rightarrow> int \<Rightarrow> int" where
  "GetLength slaves pos =
    (let len = sn_key (node_at slaves (c_rem (pos + 1) (sl_num slaves))) - sn_key (node_at slaves pos)
     in c_rem (len + MAX_KEY - 1) MAX_KEY + 1)"

function find_longest :: "SlaveList \<Rightarrow> int \<Rightarrow> int \<Rightarrow> int \<Rightarrow> int" where
  "find_longest slaves i maxlen index =
    (if i < sl_num slaves then
       (let len = GetLength slaves i in
        if maxlen < len then find_longest slaves (i + 1) len i
        else find_longest slaves (i + 1) maxlen index)
     else index)"
  by pat_completeness auto
termination by (relation "measure (\<lambda>(sl, i, m, x). nat (sl_num sl - i))") auto

declare find_longest.simps [simp del]

definition FindLongestSection :: "SlaveList \<Rightarrow> int" where
  "FindLongestSection slaves = find_longest slaves 0 (-1) (-1)"

text \<open>
  \<open>rnd\<close> is what \<open>rand()\<close> returns. \<open>GetLength\<close> is called after the gap is open and before
  \<open>num\<close> counts the new node, as in the code.
\<close>

definition AddToSlaveList :: "int \<Rightarrow> SlaveNode \<Rightarrow> SlaveList \<Rightarrow> (int \<times> SlaveList) exec" where
  "AddToSlaveList rnd sn slaves =
    (if sl_num slaves = 0 then
       andThen (put_node (sl_nodes slaves) 0 (sn\<lparr>sn_key := c_rem rnd MAX_KEY\<rparr>)) (\<lambda>ns.
       Inr (0, \<lparr>sl_version = sl_version slaves + 1, sl_num = sl_num slaves + 1, sl_nodes = ns\<rparr>))
     else
       (let pos = FindLongestSection slaves in
        andThen (shift_up (sl_nodes slaves) (sl_num slaves - 1) pos) (\<lambda>ns.
        let slaves = slaves\<lparr>sl_nodes := ns\<rparr>; newpos = pos + 1;
            key = c_rem (c_div (GetLength slaves pos) 2 + sn_key (node_at slaves pos)) MAX_KEY in
        andThen (put_node ns newpos (sn\<lparr>sn_key := key\<rparr>)) (\<lambda>ns.
        Inr (newpos, \<lparr>sl_version = sl_version slaves + 1, sl_num = sl_num slaves + 1, sl_nodes = ns\<rparr>)))))"

definition DelFromSlaveList :: "int \<Rightarrow> SlaveList \<Rightarrow> SlaveList exec" where
  "DelFromSlaveList pos slaves =
    andThen (shift_down (sl_nodes slaves) pos (sl_num slaves - 1)) (\<lambda>ns.
    Inr \<lparr>sl_version = sl_version slaves + 1, sl_num = sl_num slaves - 1, sl_nodes = ns\<rparr>)"

section \<open>Requests\<close>

text \<open>
  \<open>h0\<close> stands for the uninitialised header on the stack. The loop sends the same packet to
  every slave but the one at \<open>pos\<close> and collects the positions it reports on \<open>stderr\<close>.
\<close>

function notify_loop ::
  "('w, 'z) net_scheme \<Rightarrow> SlaveList \<Rightarrow> int \<Rightarrow> cmd \<Rightarrow> bytes \<Rightarrow> int \<Rightarrow> bytes \<Rightarrow> int list \<Rightarrow> 'w \<Rightarrow> (int list \<times> 'w) exec" where
  "notify_loop net slaves pos rescmd szBuf i szReplyMsg errs w =
    (if i < sl_num slaves then
       (if i = pos then notify_loop net slaves pos rescmd szBuf (i + 1) szReplyMsg errs w
        else
          (let sock = sn_sock (node_at slaves i) in
           case andThen (SendMsg net sock szBuf w) (RecvMsg net sock szReplyMsg) of
             Inl e \<Rightarrow> Inl e
           | Inr (res, szReplyMsg, w) \<Rightarrow>
               notify_loop net slaves pos rescmd szBuf (i + 1) szReplyMsg
                 (if hd_cmd (GetHeader szReplyMsg) \<noteq> cmd_code rescmd then errs @ [i] else errs) w))
     else Inr (errs, w))"
  by pat_completeness auto
termination by (relation "measure (\<lambda>(net, sl, pos, rc, b, i, r, e, w). nat (sl_num sl - i))") auto

declare notify_loop.simps [simp del]

definition NotifyAll ::
  "('w, 'z) net_scheme \<Rightarrow> db_header \<Rightarrow> SlaveList \<Rightarrow> int \<Rightarrow> cmd \<Rightarrow> cmd \<Rightarrow> 'w \<Rightarrow> (int list \<times> 'w) exec" where
  "NotifyAll net h0 slaves pos cmd rescmd w =
    (let szBuf = WriteHeader (zeros MAX_BUF_LEN) (h0\<lparr>hd_cmd := cmd_code cmd, hd_key := pos\<rparr>) in
     andThen (get_node (sl_nodes slaves) pos) (\<lambda>n.
     let szBuf = snd (Append szBuf (node_bytes n) 16) in
     notify_loop net slaves pos rescmd szBuf 0 (zeros MAX_BUF_LEN) [] w))"

text \<open>
  One request on \<open>sock\<close>. The \<open>switch\<close> gives the reply buffer; an unknown command leaves it
  all zeros, and it is sent all the same. Only a slave that registers keeps its connection.
\<close>

definition HandleRequest ::
  "('w, 'z) net_scheme \<Rightarrow> db_header \<Rightarrow> int \<Rightarrow> int \<Rightarrow> int \<Rightarrow> SlaveList \<Rightarrow> 'w \<Rightarrow> (SlaveList \<times> 'w) exec" where
  "HandleRequest net h0 rnd sock ip slaves w =
    andThen (RecvMsg net sock (zeros MAX_BUF_LEN) w) (\<lambda>(res, szBuf, w).
    let phd = GetHeader szBuf; szReplyMsg = zeros MAX_BUF_LEN in
    andThen
      (case decode_cmd (hd_cmd phd) of
         Some GET_LIST \<Rightarrow>
           (let b = WriteHeader szReplyMsg (h0\<lparr>hd_cmd := cmd_code GET_LIST_R\<rparr>) in
            Inr (snd (Append b (list_bytes slaves) (int SLAVELIST_SIZE)), slaves, w))
       | Some ADD_SLAVE \<Rightarrow>
           andThen (AddToSlaveList rnd
             \<lparr>sn_ip = ip, sn_port = hd_key phd, sn_sock = sock, sn_key = 0\<rparr> slaves) (\<lambda>(newpos, slaves).
           andThen (NotifyAll net h0 slaves newpos NEW_SLAVE NEW_SLAVE_R w) (\<lambda>(errs, w).
           let b = WriteHeader szReplyMsg (h0\<lparr>hd_cmd := cmd_code ADD_SLAVE_R, hd_key := newpos\<rparr>) in
           Inr (snd (Append b (list_bytes slaves) (int SLAVELIST_SIZE)), slaves, w)))
       | Some DEL_SLAVE \<Rightarrow>
           andThen (NotifyAll net h0 slaves (hd_key phd) RM_SLAVE RM_SLAVE_R w) (\<lambda>(errs, w).
           andThen (DelFromSlaveList (hd_key phd) slaves) (\<lambda>slaves.
           Inr (WriteHeader szReplyMsg (h0\<lparr>hd_cmd := cmd_code DEL_SLAVE_R\<rparr>), slaves, w)))
       | _ \<Rightarrow> Inr (szReplyMsg, slaves, w))
      (\<lambda>(szReplyMsg, slaves, w).
    andThen (SendMsg net sock szReplyMsg w) (\<lambda>w.
    Inr (slaves, if hd_cmd phd \<noteq> cmd_code ADD_SLAVE then ServiceStop net sock w else w))))"

text \<open>
  The handler of the five-second alarm. The result is the new \<open>pos\<close>, whether it reports an
  error on \<open>stderr\<close>, and the static buffer of \<open>ExchangePacket\<close>.
\<close>

definition UpdateBackup ::
  "('w, 'z) net_scheme \<Rightarrow> db_header \<Rightarrow> bytes \<Rightarrow> int \<Rightarrow> SlaveList \<Rightarrow> 'w \<Rightarrow> (int \<times> bool \<times> bytes \<times> 'w) exec" where
  "UpdateBackup net h0 szBuf pos slaves w =
    (if sl_num slaves = 0 then Inl DivByZero else
     let pos = c_rem (pos + 1) (sl_num slaves) in
     andThen (ExchangePacket net h0 szBuf UPDATE_BACKUP12 0 [] 0 (sn_sock (node_at slaves pos)) w)
       (\<lambda>(szBuf, w). Inr (pos, hd_cmd (GetHeader szBuf) \<noteq> cmd_code UPDATE_BACKUP12_R, szBuf, w)))"

section \<open>The event loop\<close>

text \<open>
  \<open>MasterProcess\<close> after its set-up. \<open>epoll_wait\<close> either reports a descriptor or is interrupted
  by the alarm: then it fails with \<open>errno = EINTR\<close>, leaves \<open>event\<close> as it was, and the alarm's
  handler has run. \<open>m_eintr\<close> says that \<open>errno\<close> is \<open>EINTR\<close>; the other calls of the loop are
  taken to succeed, so that none of them sets \<open>errno\<close>.
\<close>

datatype master_event = Ready int | Interrupted

record 'w master =
  m_slaves :: SlaveList
  m_pos :: int
  m_xbuf :: bytes
  m_fd :: int
  m_ip :: int
  m_eintr :: bool
  m_world :: 'w

definition master_init :: "SlaveList \<Rightarrow> int \<Rightarrow> int \<Rightarrow> 'w \<Rightarrow> 'w master" where
  "master_init slaves listen_sock ip w =
    \<lparr>m_slaves = slaves\<lparr>sl_num := 0, sl_version := 0\<rparr>, m_pos = 0, m_xbuf = zeros MAX_BUF_LEN,
     m_fd = listen_sock, m_ip = ip, m_eintr = False, m_world = w\<rparr>"

definition epoll_wait :: "('w, 'z) net_scheme \<Rightarrow> db_header \<Rightarrow> master_event \<Rightarrow> 'w master \<Rightarrow> 'w master exec" where
  "epoll_wait net h0 ev m =
    (case ev of
       Ready fd \<Rightarrow> Inr (m\<lparr>m_fd := fd\<rparr>)
     | Interrupted \<Rightarrow>
         andThen (UpdateBackup net h0 (m_xbuf m) (m_pos m) (m_slaves m) (m_world m))
           (\<lambda>(pos, err, xbuf, w).
            Inr (m\<lparr>m_pos := pos, m_xbuf := xbuf, m_eintr := True, m_world := w\<rparr>)))"

definition master_step ::
  "('w, 'z) net_scheme \<Rightarrow> db_header \<Rightarrow> int \<Rightarrow> int \<Rightarrow> master_event \<Rightarrow> 'w master \<Rightarrow> 'w master exec" where
  "master_step net h0 rnd listen_sock ev m =
    andThen (epoll_wait net h0 ev m) (\<lambda>m.
    if m_fd m = listen_sock then
      (let (r, acsock, ip, w) = ServiceStart net listen_sock (m_ip m) (m_world m) in
       andThen (HandleRequest net h0 rnd acsock ip (m_slaves m) w) (\<lambda>(slaves, w).
       Inr (m\<lparr>m_fd := acsock, m_ip := ip, m_slaves := slaves, m_world := w\<rparr>)))
    else if m_eintr m then Inr m
    else
      andThen (HandleRequest net h0 rnd (m_fd m) (m_ip m) (m_slaves m) (m_world m)) (\<lambda>(slaves, w).
      Inr (m\<lparr>m_slaves := slaves, m_world := w\<rparr>)))"

fun master_run ::
  "('w, 'z) net_scheme \<Rightarrow> db_header \<Rightarrow> int \<Rightarrow> int \<Rightarrow> master_event list \<Rightarrow> 'w master \<Rightarrow> 'w master exec" where
  "master_run net h0 rnd listen_sock [] m = Inr m"
| "master_run net h0 rnd listen_sock (ev # evs) m =
    andThen (master_step net h0 rnd listen_sock ev m) (master_run net h0 rnd listen_sock evs)"

text \<open>
  \<open>MasterProcess\<close>: either it cannot listen on port 5001 and returns, or it serves; then the result is its state after the
  events \<open>evs\<close>. \<open>slaves\<close> and \<open>ip0\<close> are what stands in the global and in the local variable.
\<close>

datatype 'w process = Returns int 'w | Serves "'w master"

definition MasterProcess ::
  "('w, 'z) net_scheme \<Rightarrow> db_header \<Rightarrow> int \<Rightarrow> SlaveList \<Rightarrow> int \<Rightarrow> master_event list \<Rightarrow> 'w \<Rightarrow> 'w process exec" where
  "MasterProcess net h0 rnd slaves ip0 evs w =
    (let (res, listen_sock, w) = InitializeService net None 5001 w in
     if res = -1 then Inr (Returns (-1) w)
     else andThen (master_run net h0 rnd listen_sock evs (master_init slaves listen_sock ip0 w)) (\<lambda>m. Inr (Serves m)))"

section \<open>What the list operations do\<close>

lemma nat_c_rem_Suc:
  "0 \<le> pos \<Longrightarrow> pos < n \<Longrightarrow> nat (c_rem (pos + 1) n) = Suc (nat pos) mod nat n"
  by (simp add: c_rem_nonneg nat_mod_distrib nat_add_distrib)

lemma c_rem_Suc_bounds: "0 \<le> pos \<Longrightarrow> pos < n \<Longrightarrow> 0 \<le> c_rem (pos + 1) n \<and> c_rem (pos + 1) n < n"
  by (simp add: c_rem_nonneg)

lemma GetLength_gap:
  assumes "ring_list sl" and "0 \<le> pos" and "pos < sl_num sl"
  shows "GetLength sl pos = gap (sec_lo (keys sl) (nat pos)) (sec_hi (keys sl) (nat pos))"
proof -
  let ?a = "keys sl ! nat pos" and ?j = "c_rem (pos + 1) (sl_num sl)"
  let ?b = "keys sl ! nat ?j"
  have j: "0 \<le> ?j" "?j < sl_num sl" using c_rem_Suc_bounds [OF assms(2,3)] by simp_all
  have ok: "list_ok sl" using assms(1) by (simp add: ring_list_def)
  have "ring_key ?a" "ring_key ?b" using assms j by (simp_all add: ring_list_key)
  then have "0 \<le> ?b - ?a + MAX_KEY - 1" by (simp add: ring_key_def MAX_KEY_def)
  then have "c_rem (?b - ?a + MAX_KEY - 1) MAX_KEY = (?b - ?a - 1) mod MAX_KEY"
    using mod_add_self2 [of "?b - ?a - 1" MAX_KEY] by (simp add: c_rem_nonneg MAX_KEY_def algebra_simps)
  moreover have "nat ?j = Suc (nat pos) mod length (keys sl)"
    using assms ok by (simp add: nat_c_rem_Suc length_keys)
  ultimately show ?thesis
    using assms ok j by (simp add: GetLength_def sn_key_node_at gap_def sec_lo_def sec_hi_def Let_def)
qed

lemma find_longest_spec:
  assumes "0 \<le> i"
  shows "let r = find_longest sl i maxlen index in
    (r = index \<and> (\<forall>j. i \<le> j \<and> j < sl_num sl \<longrightarrow> GetLength sl j \<le> maxlen))
    \<or> (i \<le> r \<and> r < sl_num sl \<and> maxlen < GetLength sl r
       \<and> (\<forall>j. i \<le> j \<and> j < sl_num sl \<longrightarrow> GetLength sl j \<le> GetLength sl r)
       \<and> (\<forall>j. i \<le> j \<and> j < r \<longrightarrow> GetLength sl j < GetLength sl r))"
  using assms
proof (induction sl i maxlen index rule: find_longest.induct)
  case (1 sl i maxlen index)
  show ?case
  proof (cases "i < sl_num sl")
    case False
    then show ?thesis by (auto simp: find_longest.simps [of sl i maxlen index])
  next
    case True
    have split: "i \<le> j \<longleftrightarrow> j = i \<or> i + 1 \<le> j" for j by auto
    show ?thesis
    proof (cases "maxlen < GetLength sl i")
      case inc: True
      with "1.IH"(1) [OF True refl inc] "1.prems" True show ?thesis
        by (simp add: find_longest.simps [of sl i maxlen index] Let_def split) force
    next
      case False
      with "1.IH"(2) [OF True refl False] "1.prems" True show ?thesis
        by (simp add: find_longest.simps [of sl i maxlen index] Let_def split) force
    qed
  qed
qed

lemma FindLongestSection_spec:
  assumes "ring_list sl" and "0 < sl_num sl"
  defines "r \<equiv> FindLongestSection sl"
  shows "0 \<le> r" and "r < sl_num sl"
    and "\<And>j. 0 \<le> j \<Longrightarrow> j < sl_num sl \<Longrightarrow> GetLength sl j \<le> GetLength sl r"
    and "\<And>j. 0 \<le> j \<Longrightarrow> j < r \<Longrightarrow> GetLength sl j < GetLength sl r"
proof -
  have "1 \<le> GetLength sl 0"
    using GetLength_gap [OF assms(1), of 0] assms(2) gap_pos by simp
  then have "\<not> GetLength sl 0 \<le> -1" by simp
  with find_longest_spec [of 0 sl "-1" "-1"] assms(2)
  have "0 \<le> r \<and> r < sl_num sl
       \<and> (\<forall>j. 0 \<le> j \<and> j < sl_num sl \<longrightarrow> GetLength sl j \<le> GetLength sl r)
       \<and> (\<forall>j. 0 \<le> j \<and> j < r \<longrightarrow> GetLength sl j < GetLength sl r)"
    unfolding r_def FindLongestSection_def Let_def by auto
  then show "0 \<le> r" and "r < sl_num sl"
    and "\<And>j. 0 \<le> j \<Longrightarrow> j < sl_num sl \<Longrightarrow> GetLength sl j \<le> GetLength sl r"
    and "\<And>j. 0 \<le> j \<Longrightarrow> j < r \<Longrightarrow> GetLength sl j < GetLength sl r"
    by auto
qed

text \<open>Some section is as long as the average.\<close>

lemma longest_large:
  assumes "ring_list sl" and "0 < sl_num sl"
  shows "MAX_KEY \<le> sl_num sl * GetLength sl (FindLongestSection sl)"
proof -
  let ?m = "GetLength sl (FindLongestSection sl)"
  have ok: "list_ok sl" and ring: "ring (keys sl)" using assms(1) by (simp_all add: ring_list_def)
  obtain k r where ks: "keys sl = k # r"
    using length_keys [OF ok] assms(2) by (cases "keys sl") auto
  have n: "int (length (k # r)) = sl_num sl" using length_keys [OF ok] ks assms(2) by auto
  have "\<forall>i < length (r @ [k]). gap ((k # r @ [k]) ! i) ((r @ [k]) ! i) \<le> ?m"
  proof (intro allI impI)
    fix i assume "i < length (r @ [k])"
    then have i: "i < length (k # r)" "int i < sl_num sl" using n by auto
    then have "(k # r @ [k]) ! i = (k # r) ! i"
      using nth_append [of "k # r" "[k]" i] by simp
    with i have "GetLength sl (int i) = gap ((k # r @ [k]) ! i) ((r @ [k]) ! i)"
      using GetLength_gap [OF assms(1), of "int i"] sec_hi_cycle [OF i(1)] ks
      by (simp add: sec_lo_def)
    then show "gap ((k # r @ [k]) ! i) ((r @ [k]) ! i) \<le> ?m"
      using FindLongestSection_spec(3) [OF assms, of "int i"] i(2) by simp
  qed
  then have "path k (r @ [k]) \<le> int (length (r @ [k])) * ?m" by (rule path_le_bound)
  then show ?thesis using ring ks n by (simp add: ring_Cons)
qed

text \<open>
  The opened gap does not disturb the two nodes that \<open>GetLength\<close> looks at, so the new key
  halves the longest section.
\<close>

lemma GetLength_after_shift:
  assumes ok: "list_ok sl" and pos: "0 \<le> pos" "pos < sl_num sl" and n: "sl_num sl < int MAX_SLAVE_NUM"
    and sh: "shift_up (sl_nodes sl) (sl_num sl - 1) pos = Inr ns"
  shows "GetLength (sl\<lparr>sl_nodes := ns\<rparr>) pos = GetLength sl pos"
    and "node_at (sl\<lparr>sl_nodes := ns\<rparr>) pos = node_at sl pos"
proof -
  have len: "length (sl_nodes sl) = MAX_SLAVE_NUM" using ok by (simp add: list_ok_def)
  have same: "ns ! nat j = sl_nodes sl ! nat j" if "0 \<le> j" "j \<le> pos + 1" "j < sl_num sl" for j
    using shift_up_spec [of pos "sl_num sl - 1" "sl_nodes sl"] that pos n sh len by auto
  have "c_rem (pos + 1) (sl_num sl) \<le> pos + 1"
    using pos by (simp add: c_rem_nonneg zmod_le_nonneg_dividend)
  then show "GetLength (sl\<lparr>sl_nodes := ns\<rparr>) pos = GetLength sl pos"
    using same [of pos] same [of "c_rem (pos + 1) (sl_num sl)"] c_rem_Suc_bounds [OF pos] pos
    by (simp add: GetLength_def node_at_def)
  show "node_at (sl\<lparr>sl_nodes := ns\<rparr>) pos = node_at sl pos"
    using same [of pos] pos by (simp add: node_at_def)
qed

definition middle_key :: "SlaveList \<Rightarrow> int \<Rightarrow> int" where
  "middle_key sl pos = (GetLength sl pos div 2 + keys sl ! nat pos) mod MAX_KEY"

lemma AddToSlaveList_first:
  assumes "list_ok sl" and "sl_num sl = 0" and "0 \<le> rnd"
  shows "\<exists>sl'. AddToSlaveList rnd sn sl = Inr (0, sl') \<and> list_ok sl'
    \<and> sl_version sl' = sl_version sl + 1 \<and> sl_num sl' = 1
    \<and> live sl' = [sn\<lparr>sn_key := rnd mod MAX_KEY\<rparr>]"
proof -
  obtain n ns where ns: "sl_nodes sl = n # ns"
    using assms(1) by (cases "sl_nodes sl") (auto simp: list_ok_def MAX_SLAVE_NUM_def)
  then show ?thesis
    using assms by (auto simp: AddToSlaveList_def put_node_def list_ok_def live_def
        MAX_SLAVE_NUM_def c_rem_nonneg MAX_KEY_def)
qed

lemma AddToSlaveList_more:
  assumes rl: "ring_list sl" and n: "0 < sl_num sl" "sl_num sl < int MAX_SLAVE_NUM"
  defines "pos \<equiv> FindLongestSection sl"
  shows "\<exists>sl'. AddToSlaveList rnd sn sl = Inr (pos + 1, sl') \<and> list_ok sl'
    \<and> sl_version sl' = sl_version sl + 1 \<and> sl_num sl' = sl_num sl + 1
    \<and> live sl' = insert_at (nat (pos + 1)) (sn\<lparr>sn_key := middle_key sl pos\<rparr>) (live sl)"
proof -
  have ok: "list_ok sl" using rl by (simp add: ring_list_def)
  have pos: "0 \<le> pos" "pos < sl_num sl"
    unfolding pos_def by (rule FindLongestSection_spec [OF rl n(1)])+
  let ?sn = "sn\<lparr>sn_key := middle_key sl pos\<rparr>"
  obtain ns where ns: "andThen (shift_up (sl_nodes sl) (sl_num sl - 1) pos) (\<lambda>ns. put_node ns (pos + 1) ?sn) = Inr ns"
    "length ns = MAX_SLAVE_NUM" "take (nat (sl_num sl + 1)) ns = insert_at (nat (pos + 1)) ?sn (live sl)"
    using open_gap [OF ok, of "pos + 1" ?sn] pos n by auto
  then obtain ns0 where ns0: "shift_up (sl_nodes sl) (sl_num sl - 1) pos = Inr ns0"
    "put_node ns0 (pos + 1) ?sn = Inr ns"
    by blast
  note GL = GetLength_after_shift [OF ok pos n(2) ns0(1)]
  have "1 \<le> GetLength sl pos" using GetLength_gap [OF rl pos] gap_pos by simp
  moreover have "0 \<le> keys sl ! nat pos"
    using ring_list_key [OF rl pos] by (simp add: ring_key_def)
  ultimately have "c_rem (c_div (GetLength sl pos) 2 + keys sl ! nat pos) MAX_KEY = middle_key sl pos"
    by (simp add: middle_key_def c_div_nonneg c_rem_nonneg MAX_KEY_def)
  then have key: "c_rem (c_div (GetLength (sl\<lparr>sl_nodes := ns0\<rparr>) pos) 2
      + sn_key (node_at (sl\<lparr>sl_nodes := ns0\<rparr>) pos)) MAX_KEY = middle_key sl pos"
    by (simp only: GL sn_key_node_at [OF ok pos])
  have "AddToSlaveList rnd sn sl = Inr (pos + 1,
      \<lparr>sl_version = sl_version sl + 1, sl_num = sl_num sl + 1, sl_nodes = ns\<rparr>)"
    using n ns0 key by (simp add: AddToSlaveList_def Let_def flip: pos_def)
  with ns(2,3) n show ?thesis by (simp add: list_ok_def live_def)
qed

lemma AddToSlaveList_full:
  assumes "ring_list sl" and "sl_num sl = int MAX_SLAVE_NUM"
  shows "AddToSlaveList rnd sn sl = Inl OutOfBounds"
proof -
  let ?p = "FindLongestSection sl"
  have p: "0 \<le> ?p" "?p < sl_num sl"
    using FindLongestSection_spec [OF assms(1)] assms(2) by (simp_all add: MAX_SLAVE_NUM_def)
  have len: "length (sl_nodes sl) = MAX_SLAVE_NUM" using assms(1) by (simp add: ring_list_def list_ok_def)
  have n0: "sl_num sl \<noteq> 0" using assms(2) by (simp add: MAX_SLAVE_NUM_def)
  show ?thesis
  proof (cases "?p = sl_num sl - 1")
    case True
    then have "shift_up (sl_nodes sl) (sl_num sl - 1) ?p = Inr (sl_nodes sl)"
      by (simp add: shift_up.simps)
    with True n0 len assms(2) show ?thesis
      by (simp add: AddToSlaveList_def Let_def put_node_def)
  next
    case False
    then have "shift_up (sl_nodes sl) (sl_num sl - 1) ?p = Inl OutOfBounds"
      using p len assms(2)
      by (simp add: shift_up.simps [of "sl_nodes sl" "int MAX_SLAVE_NUM - 1"] get_node_def put_node_def)
    with n0 show ?thesis by (simp add: AddToSlaveList_def Let_def)
  qed
qed

lemma DelFromSlaveList_spec:
  assumes "list_ok sl" and "0 \<le> pos" and "pos < sl_num sl"
  shows "\<exists>sl'. DelFromSlaveList pos sl = Inr sl' \<and> list_ok sl'
    \<and> sl_version sl' = sl_version sl + 1 \<and> sl_num sl' = sl_num sl - 1
    \<and> live sl' = remove_at (nat pos) (live sl)"
  using close_gap [OF assms] assms by (auto simp: DelFromSlaveList_def list_ok_def live_def)

section \<open>The list stays a ring\<close>

lemma split_at: "i < length xs \<Longrightarrow> take i xs @ xs ! i # drop (Suc i) xs = xs"
  by (rule id_take_nth_drop [symmetric])

lemma sec_hi_split:
  "i < length ks \<Longrightarrow> sec_hi ks i = hd (drop (Suc i) ks @ take i ks @ [ks ! i])"
proof (cases "Suc i < length ks")
  case True
  then show "i < length ks \<Longrightarrow> ?thesis" by (simp add: sec_hi_def hd_append hd_drop_conv_nth)
next
  case False
  assume i: "i < length ks"
  with False have "Suc i = length ks" by simp
  moreover have "take i ks @ [ks ! i] = take (Suc i) ks" using i by (simp add: take_Suc_conv_app_nth)
  moreover have "ks \<noteq> []" using i by auto
  ultimately show ?thesis by (simp add: sec_hi_def hd_conv_nth)
qed

text \<open>Half of a section of length at least two ends strictly inside it.\<close>

lemma half_gap:
  assumes "ring_key a" and "2 \<le> gap a b"
  defines "c \<equiv> (gap a b div 2 + a) mod MAX_KEY"
  shows "gap a c = gap a b div 2" and "ring_key c" and "c \<noteq> b" and "in_section a b c"
proof -
  have "MAX_KEY dvd a + gap a b div 2 - c"
    by (simp add: c_def add.commute)
  with assms(2) gap_le [of a b] show g: "gap a c = gap a b div 2"
    by (intro gap_unique) auto
  show "ring_key c" by (simp add: c_def ring_key_def MAX_KEY_def)
  from g assms(2) show "c \<noteq> b" by auto
  from g assms(2) show "in_section a b c" by (simp add: in_section_def)
qed

lemma longest_at_least_two:
  assumes "ring_list sl" and "0 < sl_num sl" and "sl_num sl \<le> int MAX_SLAVE_NUM"
  shows "125 \<le> GetLength sl (FindLongestSection sl)"
proof (rule ccontr)
  let ?m = "GetLength sl (FindLongestSection sl)"
  assume "\<not> 125 \<le> ?m"
  moreover have "0 \<le> ?m" using longest_large [OF assms(1,2)] assms(2)
    by (smt (verit) MAX_KEY_def mult_nonneg_nonpos)
  ultimately have "sl_num sl * ?m \<le> 32 * 124"
    using assms(2,3) by (intro mult_mono) (auto simp: MAX_SLAVE_NUM_def)
  with longest_large [OF assms(1,2)] show False by (simp add: MAX_KEY_def)
qed

lemma middle_key_in_section:
  assumes rl: "ring_list sl" and n: "0 < sl_num sl"
  defines "pos \<equiv> FindLongestSection sl"
  shows "ring_key (middle_key sl pos)"
    and "middle_key sl pos \<noteq> sec_hi (keys sl) (nat pos)"
    and "in_section (sec_lo (keys sl) (nat pos)) (sec_hi (keys sl) (nat pos)) (middle_key sl pos)"
    and "gap (sec_lo (keys sl) (nat pos)) (middle_key sl pos) = GetLength sl pos div 2"
proof -
  have pos: "0 \<le> pos" "pos < sl_num sl"
    unfolding pos_def by (rule FindLongestSection_spec [OF rl n])+
  have "sl_num sl \<le> int MAX_SLAVE_NUM" using rl by (simp add: ring_list_def list_ok_def)
  then have g: "2 \<le> gap (sec_lo (keys sl) (nat pos)) (sec_hi (keys sl) (nat pos))"
    using longest_at_least_two [OF rl n] GetLength_gap [OF rl pos] by (simp add: pos_def)
  have a: "ring_key (sec_lo (keys sl) (nat pos))"
    using ring_list_key [OF rl pos] by (simp add: sec_lo_def)
  note h = half_gap [OF a g, folded GetLength_gap [OF rl pos]]
  show "ring_key (middle_key sl pos)"
    and "middle_key sl pos \<noteq> sec_hi (keys sl) (nat pos)"
    and "in_section (sec_lo (keys sl) (nat pos)) (sec_hi (keys sl) (nat pos)) (middle_key sl pos)"
    and "gap (sec_lo (keys sl) (nat pos)) (middle_key sl pos) = GetLength sl pos div 2"
    using h by (simp_all add: middle_key_def sec_lo_def)
qed

lemma ring_insert_at:
  assumes "ring ks" and "i < length ks" and "ring_key c" and "c \<noteq> sec_hi ks i"
    and "in_section (sec_lo ks i) (sec_hi ks i) c"
  shows "ring (insert_at (Suc i) c ks)"
proof -
  have "ring (take i ks @ ks ! i # c # drop (Suc i) ks)"
    using assms by (intro ring_insert) (simp_all add: split_at sec_hi_split sec_lo_def)
  moreover have "take i ks @ ks ! i # c # drop (Suc i) ks = insert_at (Suc i) c ks"
    using assms(2) by (simp add: insert_at_def take_Suc_conv_app_nth)
  ultimately show ?thesis by simp
qed

lemma ring_remove_at: "ring ks \<Longrightarrow> i < length ks \<Longrightarrow> ring (remove_at i ks)"
  unfolding remove_at_def by (rule ring_remove [of _ "ks ! i"]) (simp add: split_at)

lemma AddToSlaveList_ring:
  assumes rl: "ring_list sl" and n: "sl_num sl < int MAX_SLAVE_NUM" and r: "0 \<le> rnd"
  shows "\<exists>p sl'. AddToSlaveList rnd sn sl = Inr (p, sl') \<and> ring_list sl'
    \<and> 0 \<le> p \<and> p \<le> sl_num sl \<and> sl_num sl' = sl_num sl + 1 \<and> sl_version sl' = sl_version sl + 1
    \<and> live sl' = insert_at (nat p) (sn\<lparr>sn_key := keys sl' ! nat p\<rparr>) (live sl)"
proof (cases "sl_num sl = 0")
  case True
  have ok: "list_ok sl" using rl by (simp add: ring_list_def)
  obtain sl' where sl': "AddToSlaveList rnd sn sl = Inr (0, sl')" "list_ok sl'"
    "sl_version sl' = sl_version sl + 1" "sl_num sl' = 1"
    "live sl' = [sn\<lparr>sn_key := rnd mod MAX_KEY\<rparr>]"
    using AddToSlaveList_first [OF ok True r] by blast
  then have "keys sl' = [rnd mod MAX_KEY]" by (simp add: keys_def)
  moreover have "live sl = []" using True by (simp add: live_def)
  ultimately show ?thesis
    using sl' True by (auto simp: ring_list_def ring_key_def MAX_KEY_def insert_at_def)
next
  case False
  let ?pos = "FindLongestSection sl"
  have n0: "0 < sl_num sl" and ok: "list_ok sl"
    using False rl by (auto simp: ring_list_def list_ok_def)
  have pos: "0 \<le> ?pos" "?pos < sl_num sl" by (rule FindLongestSection_spec [OF rl n0])+
  obtain sl' where sl': "AddToSlaveList rnd sn sl = Inr (?pos + 1, sl')" "list_ok sl'"
    "sl_version sl' = sl_version sl + 1" "sl_num sl' = sl_num sl + 1"
    "live sl' = insert_at (nat (?pos + 1)) (sn\<lparr>sn_key := middle_key sl ?pos\<rparr>) (live sl)"
    using AddToSlaveList_more [OF rl n0 n] by blast
  have Suc: "nat (?pos + 1) = Suc (nat ?pos)" using pos by simp
  have len: "nat ?pos < length (keys sl)" using pos ok by (simp add: length_keys)
  have keys: "keys sl' = insert_at (Suc (nat ?pos)) (middle_key sl ?pos) (keys sl)"
    using sl'(5) Suc by (simp add: keys_def)
  with rl len have "ring (keys sl')"
    using middle_key_in_section [OF rl n0] by (simp add: ring_insert_at ring_list_def)
  moreover have "keys sl' ! nat (?pos + 1) = middle_key sl ?pos"
    using keys len Suc by (simp add: nth_insert_at)
  ultimately show ?thesis using sl' pos by (auto simp: ring_list_def)
qed

lemma DelFromSlaveList_ring:
  assumes "ring_list sl" and "0 \<le> pos" and "pos < sl_num sl"
  shows "\<exists>sl'. DelFromSlaveList pos sl = Inr sl' \<and> ring_list sl'
    \<and> sl_version sl' = sl_version sl + 1 \<and> sl_num sl' = sl_num sl - 1
    \<and> live sl' = remove_at (nat pos) (live sl)"
proof -
  have ok: "list_ok sl" and ring: "ring (keys sl)" using assms(1) by (simp_all add: ring_list_def)
  obtain sl' where sl': "DelFromSlaveList pos sl = Inr sl'" "list_ok sl'"
    "sl_version sl' = sl_version sl + 1" "sl_num sl' = sl_num sl - 1"
    "live sl' = remove_at (nat pos) (live sl)"
    using DelFromSlaveList_spec [OF ok assms(2,3)] by blast
  then have "keys sl' = remove_at (nat pos) (keys sl)" by (simp add: keys_def)
  with ring assms(2,3) ok have "ring (keys sl')" by (simp add: ring_remove_at length_keys)
  with sl' show ?thesis by (simp add: ring_list_def)
qed

section \<open>Properties\<close>

text \<open>C16: a new slave halves the longest section: with fewer than 32 slaves and at least one,
  \<open>AddToSlaveList\<close> puts it behind the first slave whose section is the longest, at the key
  half a section further on, and bumps version and count; the list stays a ring, every other
  slave keeps its section, and the halved one is shared by its old slave and the new one.\<close>

theorem new_slave_halves_longest:
  assumes rl: "ring_list sl" and n: "0 < sl_num sl" "sl_num sl < int MAX_SLAVE_NUM"
  shows "\<exists>p sl'. AddToSlaveList rnd sn sl = Inr (int (Suc p), sl') \<and> ring_list sl'
    \<and> sl_version sl' = sl_version sl + 1 \<and> sl_num sl' = sl_num sl + 1
    \<and> (\<exists>c. live sl' = insert_at (Suc p) (sn\<lparr>sn_key := c\<rparr>) (live sl)
        \<and> gap (keys sl ! p) c = gap (sec_lo (keys sl) p) (sec_hi (keys sl) p) div 2)
    \<and> list_all (\<lambda>j. gap (sec_lo (keys sl) j) (sec_hi (keys sl) j)
          \<le> gap (sec_lo (keys sl) p) (sec_hi (keys sl) p)) [0..<nat (sl_num sl)]
    \<and> (\<forall>k. owner (keys sl) p k \<longleftrightarrow> owner (keys sl') p k \<or> owner (keys sl') (Suc p) k)"
proof -
  let ?pos = "FindLongestSection sl" and ?p = "nat (FindLongestSection sl)"
  have ok: "list_ok sl" and ring: "ring (keys sl)" using rl by (simp_all add: ring_list_def)
  note pos = FindLongestSection_spec [OF rl n(1)]
  have len: "?p < length (keys sl)" using pos(1,2) by (simp add: length_keys [OF ok])
  have Suc: "int (Suc ?p) = ?pos + 1" "nat (?pos + 1) = Suc ?p" using pos(1) by simp_all
  obtain sl' where sl': "AddToSlaveList rnd sn sl = Inr (int (Suc ?p), sl')" "list_ok sl'"
    "sl_version sl' = sl_version sl + 1" "sl_num sl' = sl_num sl + 1"
    "live sl' = insert_at (Suc ?p) (sn\<lparr>sn_key := middle_key sl ?pos\<rparr>) (live sl)"
    using AddToSlaveList_more [OF rl n, of rnd sn] unfolding Suc by blast
  have keys: "keys sl' = insert_at (Suc ?p) (middle_key sl ?pos) (keys sl)"
    using sl'(5) by (simp add: keys_def)
  note mid = middle_key_in_section [OF rl n(1)]
  have ring': "ring (keys sl')"
    using mid(1-3) ring len by (simp add: keys ring_insert_at)
  have longest: "gap (sec_lo (keys sl) j) (sec_hi (keys sl) j) \<le> gap (sec_lo (keys sl) ?p) (sec_hi (keys sl) ?p)"
    if "j < nat (sl_num sl)" for j
    using pos(3) [of "int j"] that pos(1,2) GetLength_gap [OF rl] by simp
  have half: "gap (keys sl ! ?p) (middle_key sl ?pos) = gap (sec_lo (keys sl) ?p) (sec_hi (keys sl) ?p) div 2"
    using mid(4) pos(1,2) GetLength_gap [OF rl] by (simp add: sec_lo_def)
  have "owner (keys sl) ?p k \<longleftrightarrow> owner (keys sl') ?p k \<or> owner (keys sl') (Suc ?p) k" for k
    using owner_insert_split [OF ring _ len] ring' by (simp add: keys)
  then show ?thesis using sl' ring' half longest
    by (intro exI [of _ ?p] exI [of _ sl']) (auto simp: ring_list_def list_all_iff)
qed

theorem new_slave_halves_longest_witness:
  "\<exists>p sl'. AddToSlaveList 0 \<lparr>sn_ip = 1, sn_port = 2, sn_sock = 7, sn_key = 0\<rparr> two_nodes = Inr (int (Suc p), sl')
    \<and> ring_list sl' \<and> sl_num sl' = 3"
  using new_slave_halves_longest [OF two_nodes_ring, of 0 "\<lparr>sn_ip = 1, sn_port = 2, sn_sock = 7, sn_key = 0\<rparr>"]
  by (auto simp: two_nodes_def MAX_SLAVE_NUM_def)

text \<open>C17: a slave that leaves bequeaths its section to its predecessor on the circle: with at
  least two slaves, \<open>DelFromSlaveList\<close> at a position of the list keeps a ring, bumps the
  version, gives the removed section to the position before and leaves all others alone.\<close>

theorem leaving_slave_bequeaths:
  assumes rl: "ring_list sl" and n: "2 \<le> sl_num sl" and p: "p < nat (sl_num sl)"
  defines "q \<equiv> pred_pos (nat (sl_num sl)) p"
  shows "\<exists>sl'. DelFromSlaveList (int p) sl = Inr sl' \<and> ring_list sl'
    \<and> sl_version sl' = sl_version sl + 1 \<and> sl_num sl' = sl_num sl - 1
    \<and> live sl' = remove_at p (live sl)
    \<and> (\<forall>k. owner (keys sl') (index_del p q) k \<longleftrightarrow> owner (keys sl) q k \<or> owner (keys sl) p k)
    \<and> (\<forall>i k. i < nat (sl_num sl) \<longrightarrow> i \<noteq> p \<longrightarrow> i \<noteq> q \<longrightarrow>
         (owner (keys sl') (index_del p i) k \<longleftrightarrow> owner (keys sl) i k))"
proof -
  have ok: "list_ok sl" and ring: "ring (keys sl)" using rl by (simp_all add: ring_list_def)
  obtain sl' where sl': "DelFromSlaveList (int p) sl = Inr sl'" "ring_list sl'"
    "sl_version sl' = sl_version sl + 1" "sl_num sl' = sl_num sl - 1" "live sl' = remove_at p (live sl)"
    using DelFromSlaveList_ring [OF rl _ zless_nat_eq_int_zless [THEN iffD1, OF p]] by auto
  have keys: "keys sl' = remove_at p (keys sl)" using sl'(5) by (simp add: keys_def)
  have len: "length (keys sl) = nat (sl_num sl)" by (rule length_keys [OF ok])
  have p': "p < length (keys sl)" "2 \<le> length (keys sl)" using p n by (simp_all add: len)
  have ring': "ring (remove_at p (keys sl))" using sl'(2) keys by (simp add: ring_list_def)
  show ?thesis
    using sl' owner_delete_pred [OF ring ring' p'] owner_delete_other [OF p']
    by (auto simp: keys q_def len)
qed

theorem leaving_slave_bequeaths_witness:
  "\<exists>sl'. DelFromSlaveList (int 0) two_nodes = Inr sl' \<and> ring_list sl'
    \<and> (\<forall>k. owner (keys sl') 0 k \<longleftrightarrow> owner (keys two_nodes) 1 k \<or> owner (keys two_nodes) 0 k)"
proof -
  have n: "sl_num two_nodes = 2" by (simp add: two_nodes_def)
  have "index_del 0 (pred_pos (nat (sl_num two_nodes)) 0) = 0" "pred_pos (nat (sl_num two_nodes)) 0 = 1"
    by (simp_all add: n index_del_def pred_pos_def)
  then show ?thesis using leaving_slave_bequeaths [OF two_nodes_ring, of 0] n by auto
qed

text \<open>C38: a full list is overrun: nothing in \<open>AddToSlaveList\<close> looks at \<open>MAX_SLAVE_NUM\<close>, and
  with 32 slaves registered one more \<open>ADD_SLAVE\<close> writes past the end of the array.\<close>

theorem full_list_overrun:
  assumes "ring_list sl" and "sl_num sl = int MAX_SLAVE_NUM"
  shows "AddToSlaveList rnd sn sl = Inl OutOfBounds"
  using assms by (rule AddToSlaveList_full)

definition full_list :: SlaveList where
  "full_list = \<lparr>sl_version = 32, sl_num = 32,
    sl_nodes = map (\<lambda>i. \<lparr>sn_ip = 1, sn_port = 1, sn_sock = int i + 5, sn_key = 125 * int i\<rparr>) [0..<32]\<rparr>"

theorem full_list_overrun_witness:
  "AddToSlaveList 0 \<lparr>sn_ip = 1, sn_port = 2, sn_sock = 7, sn_key = 0\<rparr> full_list = Inl OutOfBounds"
proof (rule full_list_overrun)
  have "[0..<32] = [0,1,2,3,4,5,6,7,8,9,10,11,12,13,14,15,16,17,18,19,20,21,22,23,24,25,26,27,28,29,30,31]"
    by (simp add: upt_rec)
  then show "ring_list full_list"
    by (simp add: ring_list_def list_ok_def full_list_def MAX_SLAVE_NUM_def keys_def live_def
        ring_Cons ring_key_def MAX_KEY_def gap_def)
qed (simp add: full_list_def MAX_SLAVE_NUM_def)

text \<open>The first alarm of a master that has no slaves yet divides by zero.\<close>

lemma alarm_without_slaves:
  "master_step net h0 rnd listen_sock Interrupted (master_init slaves listen_sock ip w) = Inl DivByZero"
  by (simp add: master_step_def epoll_wait_def UpdateBackup_def master_init_def)

text \<open>With \<open>errno\<close> at \<open>EINTR\<close> only the listening socket is looked at.\<close>

lemma eintr_run:
  assumes "m_eintr m" and "listen_sock \<notin> set fds"
  shows "master_run net h0 rnd listen_sock (map Ready fds) m = Inr (m\<lparr>m_fd := last (m_fd m # fds)\<rparr>)"
  using assms
proof (induction fds arbitrary: m)
  case (Cons fd fds)
  then have "master_step net h0 rnd listen_sock (Ready fd) m = Inr (m\<lparr>m_fd := fd\<rparr>)"
    by (simp add: master_step_def epoll_wait_def)
  moreover have "master_run net h0 rnd listen_sock (map Ready fds) (m\<lparr>m_fd := fd\<rparr>)
      = Inr (m\<lparr>m_fd := fd, m_fd := last (fd # fds)\<rparr>)"
    using Cons.IH [of "m\<lparr>m_fd := fd\<rparr>"] Cons.prems by simp
  ultimately show ?case by simp
qed simp

text \<open>C40: after an alarm the master hears only new connections: when the alarm's handler has run to its end during
  \<open>epoll_wait\<close>, any number of descriptors may become readable after that, a slave's \<open>DEL_SLAVE\<close> among what waits
  there: nothing is read or answered, list and world stay as the handler has left them, and only \<open>event\<close> changes.\<close>

theorem deaf_after_alarm:
  assumes "master_run net h0 rnd listen_sock evs m0 = Inr m" and "m_fd m \<noteq> listen_sock"
    and "UpdateBackup net h0 (m_xbuf m) (m_pos m) (m_slaves m) (m_world m) = Inr (pos, err, xbuf, w)"
    and "listen_sock \<notin> set fds"
  shows "master_run net h0 rnd listen_sock (evs @ Interrupted # map Ready fds) m0
    = Inr (m\<lparr>m_fd := last (m_fd m # fds), m_pos := pos, m_xbuf := xbuf, m_eintr := True, m_world := w\<rparr>)"
proof -
  let ?m = "m\<lparr>m_pos := pos, m_xbuf := xbuf, m_eintr := True, m_world := w\<rparr>"
  have "master_run net h0 rnd listen_sock (evs @ es) m0 = master_run net h0 rnd listen_sock es m" for es
    using assms(1) by (induction evs arbitrary: m0) auto
  moreover have "master_step net h0 rnd listen_sock Interrupted m = Inr ?m"
    using assms(2,3) by (simp add: master_step_def epoll_wait_def)
  ultimately show ?thesis using eintr_run [of ?m listen_sock fds net h0 rnd] assms(4) by simp
qed

text \<open>A slave that has registered on descriptor 5 leaves after the alarm, whatever the network does.\<close>

theorem deaf_after_alarm_witness:
  "\<forall>(net :: 'w net) h0 w. \<exists>pos xbuf w'. master_run net h0 0 3 [Interrupted, Ready 5] ((master_init two_nodes 3 0 w)\<lparr>m_slaves := two_nodes, m_fd := 7\<rparr>)
    = Inr ((master_init two_nodes 3 0 w)\<lparr>m_slaves := two_nodes, m_fd := 5, m_pos := pos, m_xbuf := xbuf, m_eintr := True, m_world := w'\<rparr>)"
proof (intro allI)
  fix net :: "'w net" and h0 and w :: 'w
  let ?m = "(master_init two_nodes 3 0 w)\<lparr>m_slaves := two_nodes, m_fd := 7\<rparr>"
  have "sn_sock (node_at two_nodes 1) = 6" by (simp add: two_nodes_def node_at_def)
  moreover obtain xbuf w' where "ExchangePacket net h0 (zeros MAX_BUF_LEN) UPDATE_BACKUP12 0 [] 0 6 w = Inr (xbuf, w')"
    using ExchangePacket_ok [of 6 "zeros MAX_BUF_LEN" "[]" net h0 UPDATE_BACKUP12 0 w]
    by (force simp: packet_buf_def MAX_BUF_LEN_def packet_consts split: prod.splits)
  ultimately obtain pos err where u: "UpdateBackup net h0 (m_xbuf ?m) (m_pos ?m) (m_slaves ?m) (m_world ?m) = Inr (pos, err, xbuf, w')"
    by (simp add: UpdateBackup_def master_init_def c_rem_nonneg Let_def) (simp add: two_nodes_def c_rem_nonneg)
  have "m_fd ?m \<noteq> 3" "3 \<notin> set [5 :: int]" by simp_all
  from deaf_after_alarm [OF _ this(1) u this(2), where evs = "[]" and ?m0.0 = ?m and rnd = 0]
  show "\<exists>pos xbuf w'. master_run net h0 0 3 [Interrupted, Ready 5] ?m
    = Inr ((master_init two_nodes 3 0 w)\<lparr>m_slaves := two_nodes, m_fd := 5, m_pos := pos, m_xbuf := xbuf, m_eintr := True, m_world := w'\<rparr>)"
    by auto
qed

end
