(* ===== verification/TokyoCabinet.thy ===== *)
theory TokyoCabinet
  imports Prelude "HOL-Library.AList"
begin

text \<open>
  Tokyo Cabinet is not part of the repository. Its hash database (\<open>tchdb\<close>) and its in-memory
  database (\<open>tcmdb\<close>) are records of functions that the model takes as arguments; the state of
  the hash database, the files included, is part of the world \<open>'w\<close>. The predicates
  \<open>tcmdb_laws\<close>, \<open>tchdb_laws\<close> and \<open>tchdb_reliable\<close> state what their documentation promises;
  theorems that need it name them as hypotheses. The end of the theory gives a plain
  implementation of each interface, so that such theorems have witnesses.
\<close>

section \<open>The in-memory database\<close>

record ('m, 'v) tcmdb =
  tcmdbnew :: 'm
  tcmdbput :: "'m \<Rightarrow> bytes \<Rightarrow> 'v \<Rightarrow> 'm"
  tcmdbget :: "'m \<Rightarrow> bytes \<Rightarrow> 'v option"
  tcmdbout :: "'m \<Rightarrow> bytes \<Rightarrow> bool \<times> 'm"

definition tcmdb_laws :: "('m, 'v) tcmdb \<Rightarrow> bool" where
  "tcmdb_laws tm \<longleftrightarrow>
    (\<forall>k. tcmdbget tm (tcmdbnew tm) k = None) \<and>
    (\<forall>m k v k'. tcmdbget tm (tcmdbput tm m k v) k' = (if k' = k then Some v else tcmdbget tm m k')) \<and>
    (\<forall>m k k'. tcmdbget tm (snd (tcmdbout tm m k)) k' = (if k' = k then None else tcmdbget tm m k')) \<and>
    (\<forall>m k. fst (tcmdbout tm m k) \<longleftrightarrow> tcmdbget tm m k \<noteq> None)"

lemma tcmdb_simps:
  assumes "tcmdb_laws tm"
  shows "tcmdbget tm (tcmdbnew tm) k = None"
    and "tcmdbget tm (tcmdbput tm m k v) k' = (if k' = k then Some v else tcmdbget tm m k')"
    and "tcmdbget tm (snd (tcmdbout tm m k)) k' = (if k' = k then None else tcmdbget tm m k')"
  using assms by (auto simp: tcmdb_laws_def)

section \<open>The hash database\<close>

record ('h, 'w) tchdb =
  tchdbnew :: "'w \<Rightarrow> 'h \<times> 'w"
  tchdbopen :: "'h \<Rightarrow> bytes \<Rightarrow> 'w \<Rightarrow> bool \<times> 'w"
  tchdbclose :: "'h \<Rightarrow> 'w \<Rightarrow> bool \<times> 'w"
  tchdbput :: "'h \<Rightarrow> bytes \<Rightarrow> bytes \<Rightarrow> 'w \<Rightarrow> bool \<times> 'w"
  tchdbget :: "'h \<Rightarrow> bytes \<Rightarrow> 'w \<Rightarrow> bytes option \<times> 'w"
  tchdbout :: "'h \<Rightarrow> bytes \<Rightarrow> 'w \<Rightarrow> bool \<times> 'w"
  tchdbrnum :: "'h \<Rightarrow> 'w \<Rightarrow> nat"
  tchdbiterinit :: "'h \<Rightarrow> 'w \<Rightarrow> bool \<times> 'w"
  tchdbiternext :: "'h \<Rightarrow> 'w \<Rightarrow> bytes option \<times> 'w"
  tchdbecode :: "'h \<Rightarrow> 'w \<Rightarrow> int"
  tchdberrmsg :: "int \<Rightarrow> bytes"

text \<open>
  The laws speak of three observations of the world: the records of a file (\<open>fil\<close>), the
  file a handle is open on (\<open>hnd\<close>) and the keys an iterator still has to deliver (\<open>pend\<close>).
  Storing and removing return whether they succeeded and change nothing when they did not;
  removing a record whose key the iterator has delivered does not disturb the iteration.
\<close>

record ('h, 'w) tc_view =
  fil :: "'w \<Rightarrow> bytes \<Rightarrow> (bytes \<rightharpoonup> bytes)"
  hnd :: "'w \<Rightarrow> 'h \<Rightarrow> bytes option"
  pend :: "'w \<Rightarrow> 'h \<Rightarrow> bytes list"

definition open_laws :: "('h, 'w) tchdb \<Rightarrow> ('h, 'w) tc_view \<Rightarrow> bool" where
  "open_laws tc v \<longleftrightarrow>
    (\<forall>w h w'. tchdbnew tc w = (h, w') \<longrightarrow>
       hnd v w h = None \<and> hnd v w' = hnd v w \<and> fil v w' = fil v w) \<and>
    (\<forall>w h n b w'. hnd v w h = None \<longrightarrow> tchdbopen tc h n w = (b, w') \<longrightarrow>
       fil v w' = fil v w \<and> hnd v w' = (if b then (hnd v w)(h := Some n) else hnd v w)) \<and>
    (\<forall>w h n b w'. hnd v w h = Some n \<longrightarrow> tchdbclose tc h w = (b, w') \<longrightarrow>
       fil v w' = fil v w \<and> hnd v w' = (hnd v w)(h := None))"

definition record_laws :: "('h, 'w) tchdb \<Rightarrow> ('h, 'w) tc_view \<Rightarrow> bool" where
  "record_laws tc v \<longleftrightarrow>
    (\<forall>w h n k x b w'. hnd v w h = Some n \<longrightarrow> tchdbput tc h k x w = (b, w') \<longrightarrow>
       hnd v w' = hnd v w
       \<and> fil v w' = (if b then (fil v w)(n := (fil v w n)(k \<mapsto> x)) else fil v w)
       \<and> (\<forall>h'. h' \<noteq> h \<longrightarrow> pend v w' h' = pend v w h')) \<and>
    (\<forall>w h n k r w'. hnd v w h = Some n \<longrightarrow> tchdbget tc h k w = (r, w') \<longrightarrow>
       r = fil v w n k \<and> hnd v w' = hnd v w \<and> fil v w' = fil v w \<and> pend v w' = pend v w) \<and>
    (\<forall>w h n k b w'. hnd v w h = Some n \<longrightarrow> tchdbout tc h k w = (b, w') \<longrightarrow>
       hnd v w' = hnd v w
       \<and> fil v w' = (if b then (fil v w)(n := (fil v w n)(k := None)) else fil v w)
       \<and> (fil v w n k = None \<longrightarrow> \<not> b)
       \<and> (\<forall>h'. h' \<noteq> h \<or> k \<notin> set (pend v w h) \<longrightarrow> pend v w' h' = pend v w h'))"

definition iter_laws :: "('h, 'w) tchdb \<Rightarrow> ('h, 'w) tc_view \<Rightarrow> bool" where
  "iter_laws tc v \<longleftrightarrow>
    (\<forall>w h n. hnd v w h = Some n \<longrightarrow>
       finite (dom (fil v w n)) \<and> tchdbrnum tc h w = card (dom (fil v w n))) \<and>
    (\<forall>w h n b w'. hnd v w h = Some n \<longrightarrow> tchdbiterinit tc h w = (b, w') \<longrightarrow>
       hnd v w' = hnd v w \<and> fil v w' = fil v w
       \<and> (b \<longrightarrow> distinct (pend v w' h) \<and> set (pend v w' h) = dom (fil v w n))) \<and>
    (\<forall>w h n r w'. hnd v w h = Some n \<longrightarrow> tchdbiternext tc h w = (r, w') \<longrightarrow>
       hnd v w' = hnd v w \<and> fil v w' = fil v w
       \<and> (case pend v w h of [] \<Rightarrow> r = None | k # ks \<Rightarrow> r = Some k \<and> pend v w' h = ks))"

definition tchdb_laws :: "('h, 'w) tchdb \<Rightarrow> ('h, 'w) tc_view \<Rightarrow> bool" where
  "tchdb_laws tc v \<longleftrightarrow> open_laws tc v \<and> record_laws tc v \<and> iter_laws tc v"

text \<open>No operation fails for want of disk or memory.\<close>

definition tchdb_reliable :: "('h, 'w) tchdb \<Rightarrow> ('h, 'w) tc_view \<Rightarrow> bool" where
  "tchdb_reliable tc v \<longleftrightarrow>
    (\<forall>w h n. hnd v w h = None \<longrightarrow> (\<forall>h'. hnd v w h' \<noteq> Some n) \<longrightarrow> fst (tchdbopen tc h n w)) \<and>
    (\<forall>w h n. hnd v w h = Some n \<longrightarrow>
       fst (tchdbclose tc h w) \<and> fst (tchdbiterinit tc h w) \<and>
       (\<forall>k x. fst (tchdbput tc h k x w)) \<and>
       (\<forall>k. fil v w n k \<noteq> None \<longrightarrow> fst (tchdbout tc h k w)))"

lemma tchdbnewD:
  "tchdb_laws tc v \<Longrightarrow> tchdbnew tc w = (h, w') \<Longrightarrow>
    hnd v w h = None \<and> hnd v w' = hnd v w \<and> fil v w' = fil v w"
  unfolding tchdb_laws_def open_laws_def by blast

lemma tchdbopenD:
  "tchdb_laws tc v \<Longrightarrow> hnd v w h = None \<Longrightarrow> tchdbopen tc h n w = (b, w') \<Longrightarrow>
    fil v w' = fil v w \<and> hnd v w' = (if b then (hnd v w)(h := Some n) else hnd v w)"
  unfolding tchdb_laws_def open_laws_def by blast

lemma tchdbcloseD:
  "tchdb_laws tc v \<Longrightarrow> hnd v w h = Some n \<Longrightarrow> tchdbclose tc h w = (b, w') \<Longrightarrow>
    fil v w' = fil v w \<and> hnd v w' = (hnd v w)(h := None)"
  unfolding tchdb_laws_def open_laws_def by blast

lemma tchdbputD:
  "tchdb_laws tc v \<Longrightarrow> hnd v w h = Some n \<Longrightarrow> tchdbput tc h k x w = (b, w') \<Longrightarrow>
    hnd v w' = hnd v w
    \<and> fil v w' = (if b then (fil v w)(n := (fil v w n)(k \<mapsto> x)) else fil v w)
    \<and> (\<forall>h'. h' \<noteq> h \<longrightarrow> pend v w' h' = pend v w h')"
  unfolding tchdb_laws_def record_laws_def by blast

lemma tchdbgetD:
  "tchdb_laws tc v \<Longrightarrow> hnd v w h = Some n \<Longrightarrow> tchdbget tc h k w = (r, w') \<Longrightarrow>
    r = fil v w n k \<and> hnd v w' = hnd v w \<and> fil v w' = fil v w \<and> pend v w' = pend v w"
  unfolding tchdb_laws_def record_laws_def by blast

lemma tchdboutD:
  "tchdb_laws tc v \<Longrightarrow> hnd v w h = Some n \<Longrightarrow> tchdbout tc h k w = (b, w') \<Longrightarrow>
    hnd v w' = hnd v w
    \<and> fil v w' = (if b then (fil v w)(n := (fil v w n)(k := None)) else fil v w)
    \<and> (fil v w n k = None \<longrightarrow> \<not> b)
    \<and> (\<forall>h'. h' \<noteq> h \<or> k \<notin> set (pend v w h) \<longrightarrow> pend v w' h' = pend v w h')"
  unfolding tchdb_laws_def record_laws_def by blast

lemma tchdbrnumD:
  "tchdb_laws tc v \<Longrightarrow> hnd v w h = Some n \<Longrightarrow>
    finite (dom (fil v w n)) \<and> tchdbrnum tc h w = card (dom (fil v w n))"
  unfolding tchdb_laws_def iter_laws_def by blast

lemma tchdbiterinitD:
  "tchdb_laws tc v \<Longrightarrow> hnd v w h = Some n \<Longrightarrow> tchdbiterinit tc h w = (b, w') \<Longrightarrow>
    hnd v w' = hnd v w \<and> fil v w' = fil v w
    \<and> (b \<longrightarrow> distinct (pend v w' h) \<and> set (pend v w' h) = dom (fil v w n))"
  unfolding tchdb_laws_def iter_laws_def by blast

lemma tchdbiternextD:
  "tchdb_laws tc v \<Longrightarrow> hnd v w h = Some n \<Longrightarrow> tchdbiternext tc h w = (r, w') \<Longrightarrow>
    hnd v w' = hnd v w \<and> fil v w' = fil v w
    \<and> (case pend v w h of [] \<Rightarrow> r = None | k # ks \<Rightarrow> r = Some k \<and> pend v w' h = ks)"
  unfolding tchdb_laws_def iter_laws_def by blast

lemma reliableD:
  assumes "tchdb_reliable tc v" and "hnd v w h = Some n"
  shows "fst (tchdbclose tc h w)" and "fst (tchdbiterinit tc h w)" and "fst (tchdbput tc h k x w)"
    and "fil v w n k \<noteq> None \<Longrightarrow> fst (tchdbout tc h k w)"
  using assms unfolding tchdb_reliable_def by blast+

lemma reliable_openD:
  "tchdb_reliable tc v \<Longrightarrow> hnd v w h = None \<Longrightarrow> \<forall>h'. hnd v w h' \<noteq> Some n \<Longrightarrow> fst (tchdbopen tc h n w)"
  unfolding tchdb_reliable_def by blast

section \<open>An instance of each interface\<close>

definition alist_mdb :: "((bytes \<times> 'v) list, 'v) tcmdb" where
  "alist_mdb =
    \<lparr>tcmdbnew = [], tcmdbput = (\<lambda>m k v. AList.update k v m), tcmdbget = map_of,
     tcmdbout = (\<lambda>m k. (map_of m k \<noteq> None, AList.delete k m))\<rparr>"

lemma alist_mdb_laws: "tcmdb_laws alist_mdb"
  by (simp add: tcmdb_laws_def alist_mdb_def update_conv' delete_conv')

record disk =
  dk_file :: "bytes \<Rightarrow> (bytes \<times> bytes) list"
  dk_hnd :: "(nat \<times> bytes) list"
  dk_pend :: "nat \<Rightarrow> bytes list"

definition empty_disk :: disk where
  "empty_disk = \<lparr>dk_file = (\<lambda>_. []), dk_hnd = [], dk_pend = (\<lambda>_. [])\<rparr>"

definition fresh_handle :: "(nat \<times> bytes) list \<Rightarrow> nat" where
  "fresh_handle al = Suc (fold max (map fst al) 0)"

definition disk_file :: "nat \<Rightarrow> disk \<Rightarrow> (bytes \<times> bytes) list" where
  "disk_file h d = (case map_of (dk_hnd d) h of None \<Rightarrow> [] | Some n \<Rightarrow> dk_file d n)"

definition disk_put :: "nat \<Rightarrow> (bytes \<times> bytes) list \<Rightarrow> disk \<Rightarrow> disk" where
  "disk_put h al d =
    (case map_of (dk_hnd d) h of None \<Rightarrow> d | Some n \<Rightarrow> d\<lparr>dk_file := (dk_file d)(n := al)\<rparr>)"

definition disk_db :: "(nat, disk) tchdb" where
  "disk_db =
    \<lparr>tchdbnew = (\<lambda>d. (fresh_handle (dk_hnd d), d)),
     tchdbopen = (\<lambda>h n d. (True, d\<lparr>dk_hnd := AList.update h n (dk_hnd d)\<rparr>)),
     tchdbclose = (\<lambda>h d. (True, d\<lparr>dk_hnd := AList.delete h (dk_hnd d)\<rparr>)),
     tchdbput = (\<lambda>h k x d. (True, disk_put h (AList.update k x (disk_file h d)) d)),
     tchdbget = (\<lambda>h k d. (map_of (disk_file h d) k, d)),
     tchdbout = (\<lambda>h k d. (map_of (disk_file h d) k \<noteq> None, disk_put h (AList.delete k (disk_file h d)) d)),
     tchdbrnum = (\<lambda>h d. length (remdups (map fst (disk_file h d)))),
     tchdbiterinit = (\<lambda>h d. (True, d\<lparr>dk_pend := (dk_pend d)(h := remdups (map fst (disk_file h d)))\<rparr>)),
     tchdbiternext = (\<lambda>h d. case dk_pend d h of [] \<Rightarrow> (None, d)
       | k # ks \<Rightarrow> (Some k, d\<lparr>dk_pend := (dk_pend d)(h := ks)\<rparr>)),
     tchdbecode = (\<lambda>h d. 0), tchdberrmsg = (\<lambda>e. [])\<rparr>"

definition disk_view :: "(nat, disk) tc_view" where
  "disk_view = \<lparr>fil = (\<lambda>d n. map_of (dk_file d n)), hnd = (\<lambda>d. map_of (dk_hnd d)), pend = dk_pend\<rparr>"

lemmas disk_defs = disk_db_def disk_view_def disk_file_def disk_put_def

lemma fold_max_ge: "x \<in> set xs \<Longrightarrow> (x::nat) \<le> fold max xs a" "a \<le> fold max xs a"
proof (induction xs arbitrary: a)
  case (Cons y ys)
  {
    case 1
    then show ?case using Cons.IH(1) Cons.IH(2) [of "max y a"] by (auto intro: order_trans [rotated])
  next
    case 2
    show ?case using Cons.IH(2) [of "max y a"] by simp
  }
qed simp_all

lemma fresh_handle: "map_of al (fresh_handle al) = None"
proof -
  have "fresh_handle al \<notin> fst ` set al"
    using fold_max_ge(1) [of _ "map fst al" 0] by (force simp: fresh_handle_def)
  then show ?thesis by (simp add: map_of_eq_None_iff)
qed

lemma disk_db_laws: "tchdb_laws disk_db disk_view"
proof -
  have "open_laws disk_db disk_view"
    by (auto simp: open_laws_def disk_defs fresh_handle update_conv' delete_conv')
  moreover have "record_laws disk_db disk_view"
    by (auto simp: record_laws_def disk_defs update_conv' delete_conv' fun_eq_iff split: if_splits)
  moreover have "iter_laws disk_db disk_view"
    by (auto simp: iter_laws_def disk_defs finite_dom_map_of dom_map_of_conv_image_fst
        length_remdups_card_conv split: list.splits)
  ultimately show ?thesis by (simp add: tchdb_laws_def)
qed

lemma disk_db_reliable: "tchdb_reliable disk_db disk_view"
  by (auto simp: tchdb_reliable_def disk_defs)

end
