(* ===== verification/Database.thy ===== *)
theory Database
  imports Prelude
begin

text \<open>
  The interface \<^verbatim>\<open>common/Database.h\<close>. Its operations form a record, because two programs
  implement them (\<^verbatim>\<open>server/tcDB.c\<close> and \<^verbatim>\<open>client/netdbapi.c\<close>) and two components use them
  without knowing which (\<^verbatim>\<open>server/HandleRequest.c\<close> and \<^verbatim>\<open>client/parseinput.c\<close>). The locale
  \<open>database\<close> states the contract: a table of strings for every open database.
\<close>

text \<open>
  A \<open>DataBase\<close> is a pointer, \<open>None\<close> standing for \<open>NULL\<close>; a value that is returned is the
  memory the pointer leads to.
\<close>

record ('d, 's) db_api =
  api_create :: "bytes \<Rightarrow> 's \<Rightarrow> ('d option \<times> 's) exec"
  api_delete :: "'d option \<Rightarrow> 's \<Rightarrow> (int \<times> 's) exec"
  api_set :: "'d option \<Rightarrow> u32 \<Rightarrow> bytes \<Rightarrow> 's \<Rightarrow> (int \<times> 's) exec"
  api_get :: "'d option \<Rightarrow> u32 \<Rightarrow> 's \<Rightarrow> (bytes option \<times> 's) exec"
  api_del :: "'d option \<Rightarrow> u32 \<Rightarrow> 's \<Rightarrow> (int \<times> 's) exec"
  api_lasterr :: "'s \<Rightarrow> bytes"

text \<open>
  \<open>opened s d n\<close> says that the handle \<open>d\<close> is in use for the database \<open>n\<close>, \<open>table s n\<close> is
  what it stores. No operation on an open database faults or fails, but for removing what is not there.
\<close>

locale database =
  fixes api :: "('d, 's) db_api"
    and inv :: "'s \<Rightarrow> bool"
    and opened :: "'s \<Rightarrow> 'd \<Rightarrow> bytes \<Rightarrow> bool"
    and table :: "'s \<Rightarrow> bytes \<Rightarrow> u32 \<rightharpoonup> bytes"
  assumes create: "inv s \<Longrightarrow> \<exists>d s'. api_create api n s = Inr (Some d, s') \<and> inv s' \<and> opened s' d n
        \<and> table s' = table s \<and> (\<forall>e m. opened s e m \<longrightarrow> opened s' e m)"
    and set: "inv s \<Longrightarrow> opened s d n \<Longrightarrow> \<exists>s'. api_set api (Some d) k x s = Inr (0, s') \<and> inv s'
        \<and> opened s' = opened s \<and> table s' = (table s)(n := (table s n)(k \<mapsto> c_str x))"
    and get: "inv s \<Longrightarrow> opened s d n \<Longrightarrow> \<exists>r s'. api_get api (Some d) k s = Inr (r, s') \<and> inv s'
        \<and> opened s' = opened s \<and> table s' = table s \<and> map_option c_str r = table s n k"
    and del: "inv s \<Longrightarrow> opened s d n \<Longrightarrow> \<exists>s'. api_del api (Some d) k s = Inr (if table s n k = None then -1 else 0, s')
        \<and> inv s' \<and> opened s' = opened s \<and> table s' = (table s)(n := (table s n)(k := None))"
begin

lemma set_get:
  assumes "inv s" and "opened s d n"
  shows "\<exists>s' r s''. api_set api (Some d) k x s = Inr (0, s') \<and> api_get api (Some d) k s' = Inr (Some r, s'') \<and> c_str r = c_str x
    \<and> inv s'' \<and> opened s'' = opened s \<and> table s'' = (table s)(n := (table s n)(k \<mapsto> c_str x))"
proof -
  obtain s' where s': "api_set api (Some d) k x s = Inr (0, s')" "inv s'" "opened s' = opened s"
    "table s' = (table s)(n := (table s n)(k \<mapsto> c_str x))"
    using set [OF assms, of k x] by blast
  then have "opened s' d n" using assms(2) by simp
  from get [OF s'(2) this, of k] show ?thesis using s' by (auto simp: map_option_eq_Some)
qed

lemma del_get:
  assumes "inv s" and "opened s d n" and "table s n k \<noteq> None"
  shows "\<exists>s' s''. api_del api (Some d) k s = Inr (0, s') \<and> api_get api (Some d) k s' = Inr (None, s'')"
proof -
  obtain s' where s': "api_del api (Some d) k s = Inr (0, s')" "inv s'" "opened s' = opened s" "table s' n k = None"
    using del [OF assms(1,2), of k] assms(3) by auto
  then have "opened s' d n" using assms(2) by simp
  from get [OF s'(2) this, of k] show ?thesis using s' by auto
qed

end

end
