(* ===== verification/TcDB.thy ===== *)
theory TcDB
  imports TokyoCabinet Database
begin

text \<open>
  The local implementation of \<^verbatim>\<open>common/Database.h\<close>, \<^verbatim>\<open>server/tcDB.c\<close>: the registry of opened
  databases with its use counters, the five operations on key/value pairs, and the two that
  move records between files. The globals \<open>mdb\<close> and \<open>lasterr\<close> are fields of \<open>db_state\<close>;
  \<open>next_name\<close> numbers the strings that \<open>strdup\<close> allocates and \<open>freed\<close> lists those that were
  given to \<open>free\<close>. A database name is passed as the C string it is, without its NUL.
\<close>

definition SUCCESS :: int where "SUCCESS = 0"
definition FAILURE :: int where "FAILURE = -1"

record 'h OpenedDB =
  od_name :: "nat \<times> bytes"
  od_hdb :: 'h
  od_counter :: int

record 'm db_state =
  mdb :: "'m option"
  next_name :: nat
  freed :: "nat list"
  lasterr :: bytes

text \<open>A \<open>DataBase\<close> is a pointer to an \<open>OpenedDB\<close>; \<open>None\<close> is \<open>NULL\<close>.\<close>

type_synonym 'h DataBase = "'h OpenedDB option"

section \<open>The registry of opened databases\<close>

definition SetLastErrorMsg :: "bytes \<Rightarrow> 'm db_state \<Rightarrow> 'm db_state" where
  "SetLastErrorMsg msg st = st\<lparr>lasterr := take 1024 (c_str msg @ zeros 1024)\<rparr>"

definition DBGetLastErrorMsg :: "'m db_state \<Rightarrow> bytes" where
  "DBGetLastErrorMsg st = lasterr st"

definition GetOpenedDB ::
  "('m, 'h OpenedDB) tcmdb \<Rightarrow> bytes \<Rightarrow> 'm db_state \<Rightarrow> 'h DataBase \<times> 'm db_state" where
  "GetOpenedDB tm name st =
    (case mdb st of
       None \<Rightarrow> (None, st\<lparr>mdb := Some (tcmdbnew tm)\<rparr>)
     | Some m \<Rightarrow>
         (case tcmdbget tm m name of
            None \<Rightarrow> (None, st)
          | Some podb \<Rightarrow>
              (let podb = podb\<lparr>od_counter := od_counter podb + 1\<rparr> in
               (Some podb, st\<lparr>mdb := Some (tcmdbput tm m name podb)\<rparr>))))"

definition AddOpenedDB ::
  "('m, 'h OpenedDB) tcmdb \<Rightarrow> bytes \<Rightarrow> 'h \<Rightarrow> 'm db_state \<Rightarrow> ('h OpenedDB \<times> 'm db_state) exec" where
  "AddOpenedDB tm name hdb st =
    (case mdb st of
       None \<Rightarrow> Inl AssertFail
     | Some m \<Rightarrow>
         (let podb = \<lparr>od_name = (next_name st, name), od_hdb = hdb, od_counter = 1\<rparr> in
          Inr (podb, st\<lparr>mdb := Some (tcmdbput tm m name podb), next_name := next_name st + 1\<rparr>)))"

text \<open>
  The caller's \<open>podb\<close> only serves to find the name; the counter is that of the registry. The
  name is freed with the last use.
\<close>

definition DelOpenedDB ::
  "('m, 'h OpenedDB) tcmdb \<Rightarrow> 'h OpenedDB \<Rightarrow> 'm db_state \<Rightarrow> (int \<times> 'm db_state) exec" where
  "DelOpenedDB tm podb st =
    (if fst (od_name podb) \<in> set (freed st) then Inl UseAfterFree else
     case mdb st of
       None \<Rightarrow> Inl NullDeref
     | Some m \<Rightarrow>
         (case tcmdbget tm m (snd (od_name podb)) of
            None \<Rightarrow> Inl NullDeref
          | Some podb \<Rightarrow>
              (let podb = podb\<lparr>od_counter := od_counter podb - 1\<rparr> in
               if od_counter podb = 0 then
                 if fst (od_name podb) \<in> set (freed st) then Inl UseAfterFree
                 else Inr (1, st\<lparr>mdb := Some (snd (tcmdbout tm m (snd (od_name podb)))),
                                 freed := fst (od_name podb) # freed st\<rparr>)
               else Inr (0, st\<lparr>mdb := Some (tcmdbput tm m (snd (od_name podb)) podb)\<rparr>))))"

section \<open>The database operations\<close>

definition DBCreate ::
  "('h, 'w) tchdb \<Rightarrow> ('m, 'h OpenedDB) tcmdb \<Rightarrow> bytes \<Rightarrow> 'm db_state \<Rightarrow> 'w
    \<Rightarrow> ('h DataBase \<times> 'm db_state \<times> 'w) exec" where
  "DBCreate tc tm dbName st w =
    (let (podb, st) = GetOpenedDB tm dbName st in
     if podb = None then
       let (hdb, w) = tchdbnew tc w; (ok, w) = tchdbopen tc hdb dbName w in
       if \<not> ok then
         Inr (None, SetLastErrorMsg (tchdberrmsg tc (tchdbecode tc hdb w)) st, w)
       else andThen (AddOpenedDB tm dbName hdb st) (\<lambda>(podb, st). Inr (Some podb, st, w))
     else Inr (podb, st, w))"

definition DBDelete ::
  "('h, 'w) tchdb \<Rightarrow> ('m, 'h OpenedDB) tcmdb \<Rightarrow> 'h DataBase \<Rightarrow> 'm db_state \<Rightarrow> 'w
    \<Rightarrow> (int \<times> 'm db_state \<times> 'w) exec" where
  "DBDelete tc tm db st w =
    (case db of
       None \<Rightarrow> Inl NullDeref
     | Some podb \<Rightarrow>
         andThen (DelOpenedDB tm podb st) (\<lambda>(r, st).
         if r = 0 then Inr (SUCCESS, st, w)
         else
           let (ok, w) = tchdbclose tc (od_hdb podb) w in
           if \<not> ok then
             Inr (FAILURE, SetLastErrorMsg (tchdberrmsg tc (tchdbecode tc (od_hdb podb) w)) st, w)
           else Inr (SUCCESS, st, w)))"

text \<open>The record stored under a key: its four bytes, and the value with its NUL.\<close>

definition key_bytes :: "u32 \<Rightarrow> bytes" where
  "key_bytes key = le32 key"

definition value_bytes :: "bytes \<Rightarrow> bytes" where
  "value_bytes value = c_str value @ [0]"

definition DBSetKeyValue ::
  "('h, 'w) tchdb \<Rightarrow> 'h DataBase \<Rightarrow> u32 \<Rightarrow> bytes \<Rightarrow> 'm db_state \<Rightarrow> 'w
    \<Rightarrow> (int \<times> 'm db_state \<times> 'w) exec" where
  "DBSetKeyValue tc db key value st w =
    (case db of
       None \<Rightarrow> Inl NullDeref
     | Some podb \<Rightarrow>
         (let (ok, w) = tchdbput tc (od_hdb podb) (key_bytes key) (value_bytes value) w in
          if \<not> ok then
            Inr (FAILURE, SetLastErrorMsg (tchdberrmsg tc (tchdbecode tc (od_hdb podb) w)) st, w)
          else Inr (SUCCESS, st, w)))"

definition DBGetKeyValue ::
  "('h, 'w) tchdb \<Rightarrow> 'h DataBase \<Rightarrow> u32 \<Rightarrow> 'm db_state \<Rightarrow> 'w
    \<Rightarrow> (bytes option \<times> 'm db_state \<times> 'w) exec" where
  "DBGetKeyValue tc db key st w =
    (case db of
       None \<Rightarrow> Inl NullDeref
     | Some podb \<Rightarrow>
         (case tchdbget tc (od_hdb podb) (key_bytes key) w of
            (Some value, w) \<Rightarrow> Inr (Some value, st, w)
          | (None, w) \<Rightarrow>
              Inr (None, SetLastErrorMsg (tchdberrmsg tc (tchdbecode tc (od_hdb podb) w)) st, w)))"

definition DBDelKeyValue ::
  "('h, 'w) tchdb \<Rightarrow> 'h DataBase \<Rightarrow> u32 \<Rightarrow> 'm db_state \<Rightarrow> 'w
    \<Rightarrow> (int \<times> 'm db_state \<times> 'w) exec" where
  "DBDelKeyValue tc db key st w =
    (case db of
       None \<Rightarrow> Inl NullDeref
     | Some podb \<Rightarrow>
         (let (ok, w) = tchdbout tc (od_hdb podb) (key_bytes key) w in
          if \<not> ok then
            Inr (FAILURE, SetLastErrorMsg (tchdberrmsg tc (tchdbecode tc (od_hdb podb) w)) st, w)
          else Inr (SUCCESS, st, w)))"

section \<open>Moving records between files\<close>

text \<open>
  What both loops do with one record: fetch the value, store it in the destination, remove it
  from the source. The results of storing and removing are not looked at; a value that is not
  there is \<open>strlen(NULL)\<close>.
\<close>

definition move_record :: "('h, 'w) tchdb \<Rightarrow> 'h \<Rightarrow> 'h \<Rightarrow> u32 \<Rightarrow> 'w \<Rightarrow> 'w exec" where
  "move_record tc srchdb desthdb key w =
    (case tchdbget tc srchdb (key_bytes key) w of
       (None, w) \<Rightarrow> Inl NullDeref
     | (Some value, w) \<Rightarrow>
         (let (_, w) = tchdbput tc desthdb (key_bytes key) (value_bytes value) w;
              (_, w) = tchdbout tc srchdb (key_bytes key) w in Inr w))"

text \<open>\<open>*(dbKey * )tchdbiternext(...)\<close>: the key is read through the pointer at once.\<close>

definition next_key :: "('h, 'w) tchdb \<Rightarrow> 'h \<Rightarrow> 'w \<Rightarrow> (u32 \<times> 'w) exec" where
  "next_key tc srchdb w =
    (case tchdbiternext tc srchdb w of
       (None, w) \<Rightarrow> Inl NullDeref
     | (Some kb, w) \<Rightarrow> if length kb < 4 then Inl OutOfBounds else Inr (un_le32 kb, w))"

definition split_range :: "u32 \<Rightarrow> u32 \<Rightarrow> u32 \<Rightarrow> bool" where
  "split_range lower_bound upper_bound key =
    (let bl = upper_bound > lower_bound in
     (bl \<and> lower_bound < key \<and> key \<le> upper_bound) \<or>
     (\<not> bl \<and> (lower_bound < key \<or> key \<le> upper_bound)))"

fun move_loop :: "('h, 'w) tchdb \<Rightarrow> (u32 \<Rightarrow> bool) \<Rightarrow> 'h \<Rightarrow> 'h \<Rightarrow> nat \<Rightarrow> 'w \<Rightarrow> 'w exec" where
  "move_loop tc sel srchdb desthdb 0 w = Inr w"
| "move_loop tc sel srchdb desthdb (Suc n) w =
    andThen (next_key tc srchdb w) (\<lambda>(key, w).
    andThen (if sel key then move_record tc srchdb desthdb key w else Inr w) (\<lambda>w.
    move_loop tc sel srchdb desthdb n w))"

definition SplitByKey ::
  "('h, 'w) tchdb \<Rightarrow> ('m, 'h OpenedDB) tcmdb \<Rightarrow> bytes \<Rightarrow> u32 \<Rightarrow> bytes \<Rightarrow> u32 \<Rightarrow> 'm db_state \<Rightarrow> 'w
    \<Rightarrow> (int \<times> 'm db_state \<times> 'w) exec" where
  "SplitByKey tc tm srcfile lower_bound destfile upper_bound st w =
    andThen (DBCreate tc tm srcfile st w) (\<lambda>(podb1, st, w).
    andThen (DBCreate tc tm destfile st w) (\<lambda>(podb2, st, w).
    (case (podb1, podb2) of
       (Some p1, Some p2) \<Rightarrow>
         (let srchdb = od_hdb p1; desthdb = od_hdb p2; sum = tchdbrnum tc srchdb w;
              (ok, w) = tchdbiterinit tc srchdb w in
          if \<not> ok then
            Inr (FAILURE, SetLastErrorMsg (tchdberrmsg tc (tchdbecode tc srchdb w)) st, w)
          else
            andThen (move_loop tc (split_range lower_bound upper_bound) srchdb desthdb sum w) (\<lambda>w.
            andThen (DBDelete tc tm podb1 st w) (\<lambda>(_, st, w).
            andThen (DBDelete tc tm podb2 st w) (\<lambda>(_, st, w).
            Inr (SUCCESS, st, w)))))
     | _ \<Rightarrow> Inl NullDeref)))"

text \<open>Unlike \<open>SplitByKey\<close>, this one leaves both databases open.\<close>

definition Merge2Files ::
  "('h, 'w) tchdb \<Rightarrow> ('m, 'h OpenedDB) tcmdb \<Rightarrow> bytes \<Rightarrow> bytes \<Rightarrow> 'm db_state \<Rightarrow> 'w
    \<Rightarrow> (int \<times> 'm db_state \<times> 'w) exec" where
  "Merge2Files tc tm srcfile destfile st w =
    andThen (DBCreate tc tm srcfile st w) (\<lambda>(podb1, st, w).
    andThen (DBCreate tc tm destfile st w) (\<lambda>(podb2, st, w).
    (case (podb1, podb2) of
       (Some p1, Some p2) \<Rightarrow>
         (let srchdb = od_hdb p1; desthdb = od_hdb p2; sum = tchdbrnum tc srchdb w;
              (ok, w) = tchdbiterinit tc srchdb w in
          if \<not> ok then
            Inr (FAILURE, SetLastErrorMsg (tchdberrmsg tc (tchdbecode tc srchdb w)) st, w)
          else
            andThen (move_loop tc (\<lambda>_. True) srchdb desthdb sum w) (\<lambda>w. Inr (SUCCESS, st, w)))
     | _ \<Rightarrow> Inl NullDeref)))"

section \<open>The registry counts uses\<close>

definition reg :: "('m, 'h OpenedDB) tcmdb \<Rightarrow> 'm db_state \<Rightarrow> bytes \<Rightarrow> 'h OpenedDB option" where
  "reg tm st name = (case mdb st of None \<Rightarrow> None | Some m \<Rightarrow> tcmdbget tm m name)"

text \<open>
  Every entry is filed under its name, has been used at least once, and its handle is open on
  the file of that name; no other handle is open; names in use have not been freed.
\<close>

definition regs_ok ::
  "(bytes \<rightharpoonup> 'h OpenedDB) \<Rightarrow> ('h \<Rightarrow> bytes option) \<Rightarrow> nat \<Rightarrow> nat set \<Rightarrow> bool" where
  "regs_ok R H n F \<longleftrightarrow>
    (\<forall>name p. R name = Some p \<longrightarrow>
       snd (od_name p) = name \<and> 1 \<le> od_counter p \<and> H (od_hdb p) = Some name \<and>
       fst (od_name p) < n \<and> fst (od_name p) \<notin> F) \<and>
    (\<forall>h name. H h = Some name \<longrightarrow> (\<exists>p. R name = Some p \<and> od_hdb p = h)) \<and>
    (\<forall>a p b q. R a = Some p \<longrightarrow> R b = Some q \<longrightarrow> fst (od_name p) = fst (od_name q) \<longrightarrow> a = b) \<and>
    (\<forall>i \<in> F. i < n)"

definition reg_ok ::
  "('m, 'h OpenedDB) tcmdb \<Rightarrow> ('h, 'w) tc_view \<Rightarrow> 'm db_state \<Rightarrow> 'w \<Rightarrow> bool" where
  "reg_ok tm v st w \<longleftrightarrow> regs_ok (reg tm st) (hnd v w) (next_name st) (set (freed st))"

lemma regs_ok_count:
  assumes "regs_ok R H n F" and "R name = Some q" and "1 \<le> c"
  shows "regs_ok (R(name \<mapsto> q\<lparr>od_counter := c\<rparr>)) H n F"
  using assms unfolding regs_ok_def
  by (intro conjI allI impI) (auto split: if_splits, (metis option.inject)+)

lemma regs_ok_add:
  assumes "regs_ok R H n F" and "R name = None" and "H h = None"
  shows "regs_ok (R(name \<mapsto> \<lparr>od_name = (n, name), od_hdb = h, od_counter = 1\<rparr>)) (H(h \<mapsto> name)) (n + 1) F"
  using assms unfolding regs_ok_def
  by (intro conjI allI impI)
    (auto split: if_splits simp: less_Suc_eq, (metis option.distinct(1) less_irrefl)+)

lemma regs_ok_del:
  assumes "regs_ok R H n F" and "R name = Some q"
  shows "regs_ok (R(name := None)) (H(od_hdb q := None)) n (insert (fst (od_name q)) F)"
  using assms unfolding regs_ok_def
  by (intro conjI allI impI) (auto split: if_splits, (metis option.inject)+)

text \<open>A \<open>DataBase\<close> that some user holds: the registry's entry, but for the counter.\<close>

definition held :: "('m, 'h OpenedDB) tcmdb \<Rightarrow> 'm db_state \<Rightarrow> 'h OpenedDB \<Rightarrow> bool" where
  "held tm st podb \<longleftrightarrow>
    (\<exists>p. reg tm st (snd (od_name podb)) = Some p \<and> od_name p = od_name podb \<and> od_hdb p = od_hdb podb)"

lemma reg_okD:
  assumes "reg_ok tm v st w" and "reg tm st name = Some p"
  shows "snd (od_name p) = name" and "1 \<le> od_counter p" and "hnd v w (od_hdb p) = Some name"
    and "fst (od_name p) < next_name st" and "fst (od_name p) \<notin> set (freed st)"
  using assms unfolding reg_ok_def regs_ok_def by blast+

lemma reg_ok_hnd:
  "reg_ok tm v st w \<Longrightarrow> hnd v w h = Some name \<Longrightarrow> \<exists>p. reg tm st name = Some p \<and> od_hdb p = h"
  unfolding reg_ok_def regs_ok_def by blast

lemma held_hnd: "reg_ok tm v st w \<Longrightarrow> held tm st p \<Longrightarrow> hnd v w (od_hdb p) = Some (snd (od_name p))"
  unfolding held_def by (metis reg_okD(3))

lemma reg_ok_world:
  "reg_ok tm v st w \<Longrightarrow> hnd v w' = hnd v w \<Longrightarrow> reg_ok tm v st w'"
  by (simp add: reg_ok_def)

lemma reg_ok_lasterr: "reg_ok tm v (SetLastErrorMsg e st) w = reg_ok tm v st w"
  by (simp add: reg_ok_def reg_def [abs_def] SetLastErrorMsg_def)

text \<open>Opening a name: the counter of its entry goes up by one, or an entry comes into being.\<close>

lemma DBCreate_again:
  assumes tm: "tcmdb_laws tm" and ok: "reg_ok tm v st w" and q: "reg tm st name = Some q"
  defines "p \<equiv> q\<lparr>od_counter := od_counter q + 1\<rparr>"
  shows "\<exists>st'. DBCreate tc tm name st w = Inr (Some p, st', w) \<and> reg_ok tm v st' w
    \<and> reg tm st' = (reg tm st)(name \<mapsto> p) \<and> freed st' = freed st"
proof -
  obtain m where m: "mdb st = Some m" "tcmdbget tm m name = Some q"
    using q by (auto simp: reg_def split: option.splits)
  let ?st = "st\<lparr>mdb := Some (tcmdbput tm m name p)\<rparr>"
  have reg': "reg tm ?st = (reg tm st)(name \<mapsto> p)"
    using m by (auto simp: reg_def tcmdb_simps [OF tm])
  moreover have "regs_ok ((reg tm st)(name \<mapsto> p)) (hnd v w) (next_name st) (set (freed st))"
    using regs_ok_count [of "reg tm st" _ _ _ name q] ok q reg_okD(2) [OF ok q]
    by (simp add: reg_ok_def p_def)
  moreover have "DBCreate tc tm name st w = Inr (Some p, ?st, w)"
    using m by (simp add: DBCreate_def GetOpenedDB_def p_def Let_def)
  ultimately show ?thesis by (auto simp: reg_ok_def)
qed

lemma DBCreate_new:
  assumes tm: "tcmdb_laws tm" and tc: "tchdb_laws tc v" and rel: "tchdb_reliable tc v"
    and ok: "reg_ok tm v st w" and none: "reg tm st name = None"
  shows "\<exists>p st' w'. DBCreate tc tm name st w = Inr (Some p, st', w') \<and> reg_ok tm v st' w'
    \<and> od_counter p = 1 \<and> snd (od_name p) = name \<and> reg tm st' = (reg tm st)(name \<mapsto> p)
    \<and> freed st' = freed st \<and> fil v w' = fil v w \<and> hnd v w (od_hdb p) = None
    \<and> hnd v w' = (hnd v w)(od_hdb p \<mapsto> name)"
proof -
  obtain m st1 where m: "GetOpenedDB tm name st = (None, st1)" "mdb st1 = Some m"
    "next_name st1 = next_name st" "freed st1 = freed st" "tcmdbget tm m = reg tm st"
    using none
    by (cases "mdb st") (auto simp: GetOpenedDB_def reg_def fun_eq_iff tcmdb_simps [OF tm] split: option.splits)
  obtain h w1 where new: "tchdbnew tc w = (h, w1)" by (cases "tchdbnew tc w")
  obtain b w2 where opn: "tchdbopen tc h name w1 = (b, w2)" by (cases "tchdbopen tc h name w1")
  have h: "hnd v w h = None" "hnd v w1 = hnd v w" "fil v w1 = fil v w"
    using tchdbnewD [OF tc new] by simp_all
  have "\<forall>h'. hnd v w1 h' \<noteq> Some name" using reg_ok_hnd [OF ok] h(2) none by force
  then have b using reliable_openD [OF rel, of w1 h name] h opn by simp
  then have w2: "hnd v w2 = (hnd v w)(h \<mapsto> name)" "fil v w2 = fil v w"
    using tchdbopenD [OF tc _ opn] h by simp_all
  let ?p = "\<lparr>od_name = (next_name st, name), od_hdb = h, od_counter = 1\<rparr>"
  let ?st = "st1\<lparr>mdb := Some (tcmdbput tm m name ?p), next_name := next_name st + 1\<rparr>"
  have run: "DBCreate tc tm name st w = Inr (Some ?p, ?st, w2)"
    using m new opn \<open>b\<close> by (simp add: DBCreate_def AddOpenedDB_def Let_def)
  have "reg tm (st1\<lparr>mdb := Some M, next_name := N\<rparr>) = tcmdbget tm M" for M N
    by (simp add: reg_def fun_eq_iff)
  then have reg': "reg tm ?st = (reg tm st)(name \<mapsto> ?p)"
    by (simp add: tcmdb_simps [OF tm] fun_eq_iff m(5))
  then have "reg_ok tm v ?st w2"
    using regs_ok_add [of "reg tm st" "hnd v w" "next_name st" "set (freed st)" name h] ok none h w2 m
    by (simp add: reg_ok_def)
  then show ?thesis using run reg' h w2 m(4) by auto
qed

text \<open>Closing a use: the counter goes down, and with the last use the file is closed.\<close>

lemma DBDelete_more:
  assumes tm: "tcmdb_laws tm" and ok: "reg_ok tm v st w"
    and q: "reg tm st (snd (od_name p)) = Some q" and n: "od_name q = od_name p" and c: "1 < od_counter q"
  shows "\<exists>st'. DBDelete tc tm (Some p) st w = Inr (SUCCESS, st', w) \<and> reg_ok tm v st' w
    \<and> reg tm st' = (reg tm st)(snd (od_name p) \<mapsto> q\<lparr>od_counter := od_counter q - 1\<rparr>)
    \<and> freed st' = freed st"
proof -
  let ?n = "snd (od_name p)" and ?q = "q\<lparr>od_counter := od_counter q - 1\<rparr>"
  obtain m where m: "mdb st = Some m" "tcmdbget tm m ?n = Some q"
    using q by (auto simp: reg_def split: option.splits)
  let ?st = "st\<lparr>mdb := Some (tcmdbput tm m ?n ?q)\<rparr>"
  have reg': "reg tm ?st = (reg tm st)(?n \<mapsto> ?q)"
    using m by (auto simp: reg_def tcmdb_simps [OF tm])
  moreover have "reg_ok tm v ?st w"
    using regs_ok_count [of "reg tm st" _ _ _ ?n q] ok q c by (simp add: reg_ok_def reg')
  ultimately show ?thesis
    using m c reg_okD(5) [OF ok q] n by (simp add: DBDelete_def DelOpenedDB_def Let_def)
qed

lemma DBDelete_last:
  assumes tm: "tcmdb_laws tm" and tc: "tchdb_laws tc v" and rel: "tchdb_reliable tc v"
    and ok: "reg_ok tm v st w"
    and q: "reg tm st (snd (od_name p)) = Some q" and n: "od_name q = od_name p"
    and h: "od_hdb q = od_hdb p" and c: "od_counter q = 1"
  shows "\<exists>st' w'. DBDelete tc tm (Some p) st w = Inr (SUCCESS, st', w') \<and> reg_ok tm v st' w'
    \<and> reg tm st' = (reg tm st)(snd (od_name p) := None) \<and> freed st' = fst (od_name p) # freed st
    \<and> fil v w' = fil v w \<and> hnd v w' = (hnd v w)(od_hdb p := None)
    \<and> (\<exists>h. hnd v w h = Some (snd (od_name p)) \<and> tchdbclose tc h w = (True, w'))"
proof -
  let ?n = "snd (od_name p)"
  obtain m where m: "mdb st = Some m" "tcmdbget tm m ?n = Some q"
    using q by (auto simp: reg_def split: option.splits)
  let ?st = "st\<lparr>mdb := Some (snd (tcmdbout tm m ?n)), freed := fst (od_name p) # freed st\<rparr>"
  obtain b w' where cl: "tchdbclose tc (od_hdb p) w = (b, w')" by (cases "tchdbclose tc (od_hdb p) w")
  have op: "hnd v w (od_hdb p) = Some ?n" using reg_okD(3) [OF ok q] h by simp
  then have b using reliableD(1) [OF rel op] cl by simp
  have w': "fil v w' = fil v w" "hnd v w' = (hnd v w)(od_hdb p := None)"
    using tchdbcloseD [OF tc op cl] by simp_all
  have reg': "reg tm ?st = (reg tm st)(?n := None)"
    using m by (auto simp: reg_def tcmdb_simps [OF tm])
  moreover have "reg_ok tm v ?st w'"
    using regs_ok_del [of "reg tm st" _ _ _ ?n q] ok q n h w' by (simp add: reg_ok_def reg')
  moreover have "DBDelete tc tm (Some p) st w = Inr (SUCCESS, ?st, w')"
    using m c n reg_okD(5) [OF ok q] cl \<open>b\<close> by (simp add: DBDelete_def DelOpenedDB_def Let_def)
  ultimately show ?thesis using w' cl op \<open>b\<close> by auto
qed

section \<open>Records by key\<close>

text \<open>
  What a file holds, seen through the interface: \<open>content\<close> maps a key to the bytes stored
  under it. A file the program wrote has four-byte keys and C strings for values.
\<close>

definition content :: "('h, 'w) tc_view \<Rightarrow> 'w \<Rightarrow> bytes \<Rightarrow> u32 \<rightharpoonup> bytes" where
  "content v w n key = fil v w n (key_bytes key)"

definition db_file_ok :: "('h, 'w) tc_view \<Rightarrow> 'w \<Rightarrow> bytes \<Rightarrow> bool" where
  "db_file_ok v w n \<longleftrightarrow> dom (fil v w n) \<subseteq> range key_bytes
    \<and> (\<forall>x \<in> ran (fil v w n). value_bytes x = x)"

lemma key_bytes_inj [simp]: "key_bytes a = key_bytes b \<longleftrightarrow> a = b"
  by (metis key_bytes_def un_le32_le32')

lemma un_le32_key_bytes [simp]: "un_le32 (key_bytes k) = k"
  by (simp add: key_bytes_def)

lemma length_key_bytes [simp]: "length (key_bytes k) = 4"
  by (simp add: key_bytes_def)

lemma value_bytes_idem [simp]: "value_bytes (value_bytes x) = value_bytes x"
  using c_str_no_nul [of x] by (simp add: value_bytes_def)

lemma c_str_value_bytes [simp]: "c_str (value_bytes x) = c_str x"
  using c_str_no_nul [of x] by (simp add: value_bytes_def)

lemma content_upd [simp]:
  "fil v w' = (fil v w)(n := (fil v w n)(key_bytes k := x)) \<Longrightarrow>
    content v w' = (content v w)(n := (content v w n)(k := x))"
  by (auto simp: content_def fun_eq_iff)

lemma DBSetKeyValue_spec:
  assumes tc: "tchdb_laws tc v" and h: "hnd v w (od_hdb p) = Some n"
    and run: "DBSetKeyValue tc (Some p) key value st w = Inr (r, st', w')"
  shows "hnd v w' = hnd v w
    \<and> (r = SUCCESS \<and> st' = st \<and> content v w' = (content v w)(n := (content v w n)(key \<mapsto> value_bytes value))
         \<and> fil v w' = (fil v w)(n := (fil v w n)(key_bytes key \<mapsto> value_bytes value))
       \<or> r = FAILURE \<and> content v w' = content v w \<and> fil v w' = fil v w)"
proof -
  obtain b w1 where put: "tchdbput tc (od_hdb p) (key_bytes key) (value_bytes value) w = (b, w1)"
    by (cases "tchdbput tc (od_hdb p) (key_bytes key) (value_bytes value) w")
  show ?thesis
    using tchdbputD [OF tc h put] run put
    by (cases b) (auto simp: DBSetKeyValue_def content_def fun_eq_iff)
qed

lemma DBGetKeyValue_spec:
  assumes tc: "tchdb_laws tc v" and h: "hnd v w (od_hdb p) = Some n"
  shows "\<exists>st' w'. DBGetKeyValue tc (Some p) key st w = Inr (content v w n key, st', w')
    \<and> fil v w' = fil v w \<and> hnd v w' = hnd v w \<and> (content v w n key \<noteq> None \<longrightarrow> st' = st)
    \<and> mdb st' = mdb st \<and> freed st' = freed st \<and> next_name st' = next_name st"
proof -
  obtain r w1 where get: "tchdbget tc (od_hdb p) (key_bytes key) w = (r, w1)"
    by (cases "tchdbget tc (od_hdb p) (key_bytes key) w")
  show ?thesis
    using tchdbgetD [OF tc h get] get
    by (cases "fil v w n (key_bytes key)") (auto simp: DBGetKeyValue_def content_def SetLastErrorMsg_def)
qed

lemma DBDelKeyValue_spec:
  assumes tc: "tchdb_laws tc v" and h: "hnd v w (od_hdb p) = Some n"
    and run: "DBDelKeyValue tc (Some p) key st w = Inr (r, st', w')"
  shows "hnd v w' = hnd v w
    \<and> (r = SUCCESS \<and> st' = st \<and> content v w n key \<noteq> None
         \<and> content v w' = (content v w)(n := (content v w n)(key := None))
       \<or> r = FAILURE \<and> content v w' = content v w)"
proof -
  obtain b w1 where out: "tchdbout tc (od_hdb p) (key_bytes key) w = (b, w1)"
    by (cases "tchdbout tc (od_hdb p) (key_bytes key) w")
  show ?thesis
    using tchdboutD [OF tc h out] run out
    by (cases b) (auto simp: DBDelKeyValue_def content_def fun_eq_iff)
qed

section \<open>Moving records\<close>

text \<open>
  The loop over an iterator that will deliver the keys \<open>ks\<close>: the selected records go over to
  the destination, all others stay where they are.
\<close>

definition moved ::
  "(bytes \<Rightarrow> bytes \<rightharpoonup> bytes) \<Rightarrow> bytes \<Rightarrow> bytes \<Rightarrow> bytes set \<Rightarrow> (bytes \<Rightarrow> bytes \<rightharpoonup> bytes)" where
  "moved F ns nd S = F
    (ns := (\<lambda>b. if b \<in> S then None else F ns b),
     nd := (\<lambda>b. if b \<in> S then map_option value_bytes (F ns b) else F nd b))"

lemma moved_empty: "moved F ns nd {} = F"
  by (simp add: moved_def)

lemma moved_step:
  "F ns k = Some x \<Longrightarrow> ns \<noteq> nd \<Longrightarrow> k \<notin> S \<Longrightarrow>
    moved (F(nd := (F nd)(k \<mapsto> value_bytes x), ns := (F ns)(k := None))) ns nd S
      = moved F ns nd (insert k S)"
  by (auto simp: moved_def fun_eq_iff)

lemma move_loop_spec:
  assumes tc: "tchdb_laws tc v" and rel: "tchdb_reliable tc v"
    and "hnd v w hs = Some ns" and "hnd v w hd' = Some nd" and nsd: "ns \<noteq> nd"
    and "pend v w hs = map key_bytes ks" and "distinct ks" and "set ks \<subseteq> dom (content v w ns)"
  shows "\<exists>w'. move_loop tc sel hs hd' (length ks) w = Inr w' \<and> hnd v w' = hnd v w
    \<and> fil v w' = moved (fil v w) ns nd (key_bytes ` {k \<in> set ks. sel k})"
  using assms(3-)
proof (induction ks arbitrary: w)
  case Nil
  then show ?case by (simp add: moved_empty)
next
  case (Cons k ks)
  obtain r w1 where nxt: "tchdbiternext tc hs w = (r, w1)" by (cases "tchdbiternext tc hs w")
  have w1: "r = Some (key_bytes k)" "pend v w1 hs = map key_bytes ks" "hnd v w1 = hnd v w" "fil v w1 = fil v w"
    using tchdbiternextD [OF tc Cons.prems(1) nxt] Cons.prems(4) by simp_all
  have key: "next_key tc hs w = Inr (k, w1)" using nxt w1 by (simp add: next_key_def)
  have ne: "hs \<noteq> hd'" using Cons.prems(1,2,3) by auto
  show ?case
  proof (cases "sel k")
    case False
    have "\<exists>w'. move_loop tc sel hs hd' (length ks) w1 = Inr w' \<and> hnd v w' = hnd v w1
      \<and> fil v w' = moved (fil v w1) ns nd (key_bytes ` {k \<in> set ks. sel k})"
      using Cons.prems w1 by (intro Cons.IH) (auto simp: content_def [abs_def])
    moreover have "{j \<in> set (k # ks). sel j} = {j \<in> set ks. sel j}" using False by auto
    ultimately show ?thesis using False key w1(3,4) by simp
  next
    case True
    obtain x where x: "fil v w ns (key_bytes k) = Some x" using Cons.prems(6) by (auto simp: content_def)
    obtain r2 w2 where get: "tchdbget tc hs (key_bytes k) w1 = (r2, w2)"
      by (cases "tchdbget tc hs (key_bytes k) w1")
    have w2: "r2 = Some x" "hnd v w2 = hnd v w" "fil v w2 = fil v w" "pend v w2 = pend v w1"
      using tchdbgetD [OF tc _ get] Cons.prems(1) w1 x by simp_all
    obtain b3 w3 where put: "tchdbput tc hd' (key_bytes k) (value_bytes x) w2 = (b3, w3)"
      by (cases "tchdbput tc hd' (key_bytes k) (value_bytes x) w2")
    have "hnd v w2 hd' = Some nd" using Cons.prems(2) w2 by simp
    then have b3: "b3" and w3: "hnd v w3 = hnd v w"
      "fil v w3 = (fil v w)(nd := (fil v w nd)(key_bytes k \<mapsto> value_bytes x))" "pend v w3 hs = map key_bytes ks"
      using tchdbputD [OF tc _ put] reliableD(3) [OF rel, of w2 hd' nd "key_bytes k" "value_bytes x"]
        put w2 w1 ne by auto
    obtain b4 w4 where out: "tchdbout tc hs (key_bytes k) w3 = (b4, w4)"
      by (cases "tchdbout tc hs (key_bytes k) w3")
    have h3: "hnd v w3 hs = Some ns" and f3: "fil v w3 ns (key_bytes k) = Some x"
      using Cons.prems(1,3) w3 x by auto
    have "k \<notin> set ks" using Cons.prems(5) by simp
    then have "key_bytes k \<notin> set (pend v w3 hs)" using w3(3) by auto
    then have w4: "hnd v w4 = hnd v w" "pend v w4 hs = map key_bytes ks"
      "fil v w4 = (fil v w)(nd := (fil v w nd)(key_bytes k \<mapsto> value_bytes x),
         ns := (fil v w ns)(key_bytes k := None))"
      using tchdboutD [OF tc h3 out] reliableD(4) [OF rel h3, of "key_bytes k"] f3 out w3 Cons.prems(3)
      by (auto simp: fun_upd_twist)
    have mv: "move_record tc hs hd' k w1 = Inr w4"
      using get put out w2(1) by (simp add: move_record_def)
    have "\<exists>w'. move_loop tc sel hs hd' (length ks) w4 = Inr w' \<and> hnd v w' = hnd v w4
      \<and> fil v w' = moved (fil v w4) ns nd (key_bytes ` {k \<in> set ks. sel k})"
      using Cons.prems w4 \<open>k \<notin> set ks\<close> by (intro Cons.IH) (auto simp: content_def [abs_def])
    then obtain w' where w': "move_loop tc sel hs hd' (length ks) w4 = Inr w'" "hnd v w' = hnd v w4"
      "fil v w' = moved (fil v w4) ns nd (key_bytes ` {k \<in> set ks. sel k})"
      by blast
    have "moved (fil v w4) ns nd (key_bytes ` {k \<in> set ks. sel k})
        = moved (fil v w) ns nd (insert (key_bytes k) (key_bytes ` {k \<in> set ks. sel k}))"
      unfolding w4(3) by (rule moved_step [where F = "fil v w", OF x Cons.prems(3)]) (use \<open>k \<notin> set ks\<close> in auto)
    moreover have "insert (key_bytes k) (key_bytes ` {k \<in> set ks. sel k}) = key_bytes ` {j \<in> set (k # ks). sel j}"
      using True by auto
    ultimately have "fil v w' = moved (fil v w) ns nd (key_bytes ` {j \<in> set (k # ks). sel j})"
      using w'(3) by simp
    with True key mv w' w4(1) show ?thesis by simp
  qed
qed

section \<open>Opening and closing, in one lemma each\<close>

definition uses :: "'h OpenedDB option \<Rightarrow> int" where
  "uses r = (case r of None \<Rightarrow> 0 | Some p \<Rightarrow> od_counter p)"

definition one_more :: "'h OpenedDB option \<Rightarrow> 'h OpenedDB \<Rightarrow> bool" where
  "one_more old p \<longleftrightarrow> (case old of None \<Rightarrow> od_counter p = 1 | Some q \<Rightarrow> p = q\<lparr>od_counter := od_counter q + 1\<rparr>)"

definition one_less :: "'h OpenedDB \<Rightarrow> 'h OpenedDB option" where
  "one_less q = (if od_counter q = 1 then None else Some (q\<lparr>od_counter := od_counter q - 1\<rparr>))"

lemma one_more_less:
  "one_more old p \<Longrightarrow> (\<forall>q. old = Some q \<longrightarrow> 1 \<le> od_counter q) \<Longrightarrow> one_less p = old"
  by (auto simp: one_more_def one_less_def split: option.splits)

lemma DBCreate_ok:
  assumes tm: "tcmdb_laws tm" and tc: "tchdb_laws tc v" and rel: "tchdb_reliable tc v"
    and ok: "reg_ok tm v st w"
  shows "\<exists>p st' w'. DBCreate tc tm name st w = Inr (Some p, st', w') \<and> reg_ok tm v st' w'
    \<and> one_more (reg tm st name) p \<and> snd (od_name p) = name \<and> reg tm st' = (reg tm st)(name \<mapsto> p)
    \<and> fil v w' = fil v w \<and> freed st' = freed st \<and> hnd v w' = (hnd v w)(od_hdb p \<mapsto> name)"
proof (cases "reg tm st name")
  case None
  then show ?thesis using DBCreate_new [OF tm tc rel ok None] by (auto simp: one_more_def)
next
  case (Some q)
  have "(hnd v w)(od_hdb q \<mapsto> name) = hnd v w"
    using reg_okD(3) [OF ok Some] by auto
  then show ?thesis
    using DBCreate_again [OF tm ok Some, of tc] reg_okD(1) [OF ok Some] Some
    by (auto simp: one_more_def)
qed

lemma DBDelete_ok:
  assumes tm: "tcmdb_laws tm" and tc: "tchdb_laws tc v" and rel: "tchdb_reliable tc v"
    and ok: "reg_ok tm v st w"
    and q: "reg tm st (snd (od_name p)) = Some q" and n: "od_name q = od_name p" and h: "od_hdb q = od_hdb p"
  shows "\<exists>st' w'. DBDelete tc tm (Some p) st w = Inr (SUCCESS, st', w') \<and> reg_ok tm v st' w'
    \<and> reg tm st' = (reg tm st)(snd (od_name p) := one_less q) \<and> fil v w' = fil v w
    \<and> hnd v w' = (if od_counter q = 1 then (hnd v w)(od_hdb p := None) else hnd v w)
    \<and> (od_counter q = 1 \<longrightarrow> (\<exists>h. hnd v w h = Some (snd (od_name p)) \<and> tchdbclose tc h w = (True, w')))"
proof (cases "od_counter q = 1")
  case True
  then show ?thesis using DBDelete_last [OF tm tc rel ok q n h True] by (auto simp: one_less_def)
next
  case False
  then have "1 < od_counter q" using reg_okD(2) [OF ok q] by simp
  then show ?thesis using DBDelete_more [OF tm ok q n, of tc] False by (auto simp: one_less_def)
qed

text \<open>The common part of \<open>SplitByKey\<close> and \<open>Merge2Files\<close>: open both files, run the loop.\<close>

lemma move_all_spec:
  assumes tc: "tchdb_laws tc v" and rel: "tchdb_reliable tc v"
    and hs: "hnd v w hs = Some ns" and hd: "hnd v w hd' = Some nd" and ne: "ns \<noteq> nd"
    and keys: "dom (fil v w ns) \<subseteq> range key_bytes"
  shows "\<exists>w1 w'. tchdbiterinit tc hs w = (True, w1)
    \<and> move_loop tc sel hs hd' (tchdbrnum tc hs w) w1 = Inr w' \<and> hnd v w' = hnd v w
    \<and> fil v w' = moved (fil v w) ns nd (key_bytes ` {k. content v w ns k \<noteq> None \<and> sel k})"
proof -
  obtain b w1 where init: "tchdbiterinit tc hs w = (b, w1)" by (cases "tchdbiterinit tc hs w")
  then have b using reliableD(2) [OF rel hs] by simp
  have w1: "hnd v w1 = hnd v w" "fil v w1 = fil v w" "distinct (pend v w1 hs)"
    "set (pend v w1 hs) = dom (fil v w ns)"
    using tchdbiterinitD [OF tc hs init] \<open>b\<close> by simp_all
  let ?ks = "map un_le32 (pend v w1 hs)"
  have pk: "pend v w1 hs = map key_bytes ?ks"
  proof -
    have "map (\<lambda>b. key_bytes (un_le32 b)) (pend v w1 hs) = pend v w1 hs"
      by (rule map_idI) (use keys w1(4) in auto)
    then show ?thesis by (simp add: comp_def)
  qed
  have set: "set ?ks = {k. content v w ns k \<noteq> None}"
  proof -
    have inv: "key_bytes (un_le32 b) = b" if "b \<in> dom (fil v w ns)" for b
      using that keys by auto
    have "k \<in> un_le32 ` D \<longleftrightarrow> key_bytes k \<in> D" if "\<And>b. b \<in> D \<Longrightarrow> key_bytes (un_le32 b) = b" for k D
      using that by (metis image_iff un_le32_key_bytes)
    from this [of "dom (fil v w ns)", OF inv] have "k \<in> set ?ks \<longleftrightarrow> fil v w ns (key_bytes k) \<noteq> None" for k
      using w1(4) by (simp add: domIff)
    then show ?thesis by (auto simp: content_def)
  qed
  have "length ?ks = tchdbrnum tc hs w"
    using tchdbrnumD [OF tc hs] w1(3,4) distinct_card by fastforce
  moreover have "distinct ?ks"
    using w1(3) pk by (metis distinct_map)
  moreover have "set ?ks \<subseteq> dom (content v w1 ns)"
    using set w1(2) by (auto simp: content_def [abs_def])
  ultimately obtain w' where "move_loop tc sel hs hd' (tchdbrnum tc hs w) w1 = Inr w'" "hnd v w' = hnd v w"
    "fil v w' = moved (fil v w) ns nd (key_bytes ` {k \<in> set ?ks. sel k})"
    using move_loop_spec [OF tc rel, of w1 hs ns hd' nd ?ks sel] hs hd ne pk w1(1,2) by auto
  then show ?thesis using init \<open>b\<close> set by auto
qed

lemma content_moved:
  assumes fil: "fil v w' = moved (fil v w) ns nd (key_bytes ` {k. content v w ns k \<noteq> None \<and> sel k})"
    and ok: "db_file_ok v w ns" and ne: "ns \<noteq> nd"
  shows "content v w' ns = content v w ns |` {k. \<not> sel k}"
    and "content v w' nd = content v w nd ++ (content v w ns |` {k. sel k})"
    and "\<And>n. n \<noteq> ns \<Longrightarrow> n \<noteq> nd \<Longrightarrow> content v w' n = content v w n"
proof -
  let ?S = "key_bytes ` {k. content v w ns k \<noteq> None \<and> sel k}"
  have mem: "key_bytes k \<in> ?S \<longleftrightarrow> content v w ns k \<noteq> None \<and> sel k" for k by auto
  have val: "map_option value_bytes (content v w ns k) = content v w ns k" for k
    using ok by (cases "content v w ns k") (auto simp: db_file_ok_def content_def intro: ranI)
  show "content v w' ns = content v w ns |` {k. \<not> sel k}"
    by (rule ext) (auto simp: content_def [of v w'] fil moved_def ne mem restrict_map_def
        simp flip: content_def)
  show "content v w' nd = content v w nd ++ (content v w ns |` {k. sel k})"
    by (rule ext) (auto simp: content_def [of v w'] fil moved_def ne [symmetric] mem val restrict_map_def
        map_add_def simp flip: content_def split: option.splits)
  show "content v w' n = content v w n" if "n \<noteq> ns" "n \<noteq> nd" for n
    using that by (simp add: content_def [abs_def] fil moved_def)
qed

lemma db_file_ok_moved:
  assumes "fil v w' = moved (fil v w) ns nd S" and "db_file_ok v w ns" and "db_file_ok v w n"
  shows "db_file_ok v w' n"
proof -
  have d: "fil v w m b = Some x \<Longrightarrow> m = ns \<or> m = n \<Longrightarrow> b \<in> range key_bytes \<and> value_bytes x = x" for m b x
    using assms(2,3) by (auto simp: db_file_ok_def ran_def subset_iff)
  have "b \<in> range key_bytes \<and> value_bytes x = x" if "fil v w' n b = Some x" for b x
    using that d unfolding assms(1) moved_def by (auto split: if_splits)
  then show ?thesis by (force simp: db_file_ok_def ran_def)
qed

lemma SplitByKey_spec:
  assumes tm: "tcmdb_laws tm" and tc: "tchdb_laws tc v" and rel: "tchdb_reliable tc v"
    and ok: "reg_ok tm v st w" and ne: "src \<noteq> dest" and fok: "db_file_ok v w src"
  shows "\<exists>st' w'. SplitByKey tc tm src lo dest up st w = Inr (SUCCESS, st', w')
    \<and> reg_ok tm v st' w' \<and> reg tm st' = reg tm st
    \<and> content v w' src = content v w src |` {k. \<not> split_range lo up k}
    \<and> content v w' dest = content v w dest ++ (content v w src |` {k. split_range lo up k})
    \<and> (\<forall>n. n \<noteq> src \<longrightarrow> n \<noteq> dest \<longrightarrow> content v w' n = content v w n)
    \<and> (reg tm st dest = None \<longrightarrow> (\<exists>h d. hnd v d h = Some dest \<and> tchdbclose tc h d = (True, w')))
    \<and> (db_file_ok v w dest \<longrightarrow> db_file_ok v w' dest)"
proof -
  obtain p1 st1 w1 where c1: "DBCreate tc tm src st w = Inr (Some p1, st1, w1)" "reg_ok tm v st1 w1"
    "one_more (reg tm st src) p1" "snd (od_name p1) = src" "reg tm st1 = (reg tm st)(src \<mapsto> p1)"
    "fil v w1 = fil v w" "hnd v w1 = (hnd v w)(od_hdb p1 \<mapsto> src)"
    using DBCreate_ok [OF tm tc rel ok, of src] by blast
  obtain p2 st2 w2 where c2: "DBCreate tc tm dest st1 w1 = Inr (Some p2, st2, w2)" "reg_ok tm v st2 w2"
    "one_more (reg tm st1 dest) p2" "snd (od_name p2) = dest" "reg tm st2 = (reg tm st1)(dest \<mapsto> p2)"
    "fil v w2 = fil v w1" "hnd v w2 = (hnd v w1)(od_hdb p2 \<mapsto> dest)"
    using DBCreate_ok [OF tm tc rel c1(2), of dest] by blast
  have r1: "reg tm st2 src = Some p1" and r2: "reg tm st2 dest = Some p2"
    using c1(5) c2(5) ne by auto
  have h: "hnd v w2 (od_hdb p1) = Some src" "hnd v w2 (od_hdb p2) = Some dest"
    using reg_okD(3) [OF c2(2) r1] reg_okD(3) [OF c2(2) r2] by simp_all
  have keys: "dom (fil v w2 src) \<subseteq> range key_bytes"
    using fok c1(6) c2(6) by (simp add: db_file_ok_def)
  have ct: "content v w2 = content v w" using c1(6) c2(6) by (simp add: content_def fun_eq_iff)
  obtain w3 w4 where m: "tchdbiterinit tc (od_hdb p1) w2 = (True, w3)"
    "move_loop tc (split_range lo up) (od_hdb p1) (od_hdb p2) (tchdbrnum tc (od_hdb p1) w2) w3 = Inr w4"
    "hnd v w4 = hnd v w2"
    "fil v w4 = moved (fil v w2) src dest (key_bytes ` {k. content v w2 src k \<noteq> None \<and> split_range lo up k})"
    using move_all_spec [OF tc rel h ne keys] by blast
  have ok4: "reg_ok tm v st2 w4" using c2(2) m(3) by (rule reg_ok_world)
  obtain st5 w5 where d1: "DBDelete tc tm (Some p1) st2 w4 = Inr (SUCCESS, st5, w5)" "reg_ok tm v st5 w5"
    "reg tm st5 = (reg tm st2)(src := one_less p1)" "fil v w5 = fil v w4"
    using DBDelete_ok [OF tm tc rel ok4, of p1 p1] r1 c1(4) by auto
  have "reg tm st5 dest = Some p2" using d1(3) r2 ne by simp
  then obtain st6 w6 where d2: "DBDelete tc tm (Some p2) st5 w5 = Inr (SUCCESS, st6, w6)" "reg_ok tm v st6 w6"
    "reg tm st6 = (reg tm st5)(dest := one_less p2)" "fil v w6 = fil v w5"
    "od_counter p2 = 1 \<Longrightarrow> \<exists>h. hnd v w5 h = Some dest \<and> tchdbclose tc h w5 = (True, w6)"
    using DBDelete_ok [OF tm tc rel d1(2), of p2 p2] c2(4) by auto
  have "one_less p1 = reg tm st src"
    using one_more_less [OF c1(3)] reg_okD(2) [OF ok, of src] by simp
  moreover have "one_less p2 = reg tm st dest"
    using one_more_less [OF c2(3)] reg_okD(2) [OF c1(2), of dest] c1(5) ne by simp
  ultimately have reg6: "reg tm st6 = reg tm st"
    unfolding d2(3) d1(3) c2(5) c1(5) using ne by (auto simp: fun_eq_iff)
  have run: "SplitByKey tc tm src lo dest up st w = Inr (SUCCESS, st6, w6)"
    using c1(1) c2(1) m(1,2) d1(1) d2(1) by (simp add: SplitByKey_def Let_def)
  have fil6: "fil v w6 = moved (fil v w) src dest (key_bytes ` {k. content v w src k \<noteq> None \<and> split_range lo up k})"
    using d2(4) d1(4) m(4) c2(6) c1(6) ct by simp
  have closed: "\<exists>h d. hnd v d h = Some dest \<and> tchdbclose tc h d = (True, w6)" if "reg tm st dest = None"
    using d2(5) c2(3) c1(5) ne that by (auto simp: one_more_def)
  show ?thesis
    by (intro exI [of _ st6] exI [of _ w6] conjI allI impI)
      (use run d2(2) reg6 closed content_moved [OF fil6 fok ne] db_file_ok_moved [OF fil6 fok] in blast)+
qed

lemma Merge2Files_spec:
  assumes tm: "tcmdb_laws tm" and tc: "tchdb_laws tc v" and rel: "tchdb_reliable tc v"
    and ok: "reg_ok tm v st w" and ne: "src \<noteq> dest" and fok: "db_file_ok v w src"
  shows "\<exists>st' w'. Merge2Files tc tm src dest st w = Inr (SUCCESS, st', w') \<and> reg_ok tm v st' w'
    \<and> uses (reg tm st' src) = uses (reg tm st src) + 1
    \<and> uses (reg tm st' dest) = uses (reg tm st dest) + 1
    \<and> content v w' src = Map.empty
    \<and> content v w' dest = content v w dest ++ content v w src
    \<and> (\<forall>n. n \<noteq> src \<longrightarrow> n \<noteq> dest \<longrightarrow> content v w' n = content v w n)
    \<and> ((\<forall>n. db_file_ok v w n) \<longrightarrow> (\<forall>n. db_file_ok v w' n))"
proof -
  obtain p1 st1 w1 where c1: "DBCreate tc tm src st w = Inr (Some p1, st1, w1)" "reg_ok tm v st1 w1"
    "one_more (reg tm st src) p1" "snd (od_name p1) = src" "reg tm st1 = (reg tm st)(src \<mapsto> p1)"
    "fil v w1 = fil v w" "hnd v w1 = (hnd v w)(od_hdb p1 \<mapsto> src)"
    using DBCreate_ok [OF tm tc rel ok, of src] by blast
  obtain p2 st2 w2 where c2: "DBCreate tc tm dest st1 w1 = Inr (Some p2, st2, w2)" "reg_ok tm v st2 w2"
    "one_more (reg tm st1 dest) p2" "snd (od_name p2) = dest" "reg tm st2 = (reg tm st1)(dest \<mapsto> p2)"
    "fil v w2 = fil v w1" "hnd v w2 = (hnd v w1)(od_hdb p2 \<mapsto> dest)"
    using DBCreate_ok [OF tm tc rel c1(2), of dest] by blast
  have r1: "reg tm st2 src = Some p1" and r2: "reg tm st2 dest = Some p2"
    using c1(5) c2(5) ne by auto
  have h: "hnd v w2 (od_hdb p1) = Some src" "hnd v w2 (od_hdb p2) = Some dest"
    using reg_okD(3) [OF c2(2) r1] reg_okD(3) [OF c2(2) r2] by simp_all
  have keys: "dom (fil v w2 src) \<subseteq> range key_bytes"
    using fok c1(6) c2(6) by (simp add: db_file_ok_def)
  have ct: "content v w2 = content v w" using c1(6) c2(6) by (simp add: content_def fun_eq_iff)
  obtain w3 w4 where m: "tchdbiterinit tc (od_hdb p1) w2 = (True, w3)"
    "move_loop tc (\<lambda>_. True) (od_hdb p1) (od_hdb p2) (tchdbrnum tc (od_hdb p1) w2) w3 = Inr w4"
    "hnd v w4 = hnd v w2"
    "fil v w4 = moved (fil v w2) src dest (key_bytes ` {k. content v w2 src k \<noteq> None \<and> True})"
    using move_all_spec [OF tc rel h ne keys, of "\<lambda>_. True"] by blast
  have ok4: "reg_ok tm v st2 w4" using c2(2) m(3) by (rule reg_ok_world)
  have "Merge2Files tc tm src dest st w = Inr (SUCCESS, st2, w4)"
    using c1(1) c2(1) m(1,2) by (simp add: Merge2Files_def Let_def)
  moreover have "fil v w4 = moved (fil v w) src dest (key_bytes ` {k. content v w src k \<noteq> None \<and> True})"
    using m(4) c2(6) c1(6) ct by simp
  moreover have "uses (Some p1) = uses (reg tm st src) + 1" "uses (Some p2) = uses (reg tm st dest) + 1"
    using c1(3) c2(3) c1(5) ne by (auto simp: one_more_def uses_def split: option.splits)
  moreover have "(\<forall>n. db_file_ok v w n) \<longrightarrow> (\<forall>n. db_file_ok v w4 n)"
    using db_file_ok_moved [OF calculation(2)] by blast
  ultimately show ?thesis using content_moved [OF _ fok ne, of w4 "\<lambda>_. True"] ok4 r1 r2
    by (simp add: restrict_map_def)
qed

section \<open>An implementation of \<open>Database.h\<close>\<close>

definition tc_api ::
  "('h, 'w) tchdb \<Rightarrow> ('m, 'h OpenedDB) tcmdb \<Rightarrow> ('h OpenedDB, 'm db_state \<times> 'w) db_api" where
  "tc_api tc tm =
    \<lparr>api_create = (\<lambda>n (st, w). DBCreate tc tm n st w),
     api_delete = (\<lambda>db (st, w). DBDelete tc tm db st w),
     api_set = (\<lambda>db k x (st, w). DBSetKeyValue tc db k x st w),
     api_get = (\<lambda>db k (st, w). DBGetKeyValue tc db k st w),
     api_del = (\<lambda>db k (st, w). DBDelKeyValue tc db k st w),
     api_lasterr = (\<lambda>(st, w). DBGetLastErrorMsg st)\<rparr>"

text \<open>The library's promises hold throughout a run, so they are part of the invariant.\<close>

definition tc_inv ::
  "('h, 'w) tchdb \<Rightarrow> ('m, 'h OpenedDB) tcmdb \<Rightarrow> ('h, 'w) tc_view \<Rightarrow> 'm db_state \<times> 'w \<Rightarrow> bool" where
  "tc_inv tc tm v = (\<lambda>(st, w). tcmdb_laws tm \<and> tchdb_laws tc v \<and> tchdb_reliable tc v \<and> reg_ok tm v st w)"

definition tc_opened ::
  "('m, 'h OpenedDB) tcmdb \<Rightarrow> 'm db_state \<times> 'w \<Rightarrow> 'h OpenedDB \<Rightarrow> bytes \<Rightarrow> bool" where
  "tc_opened tm = (\<lambda>(st, w) d n. held tm st d \<and> snd (od_name d) = n)"

definition tc_table :: "('h, 'w) tc_view \<Rightarrow> 'm db_state \<times> 'w \<Rightarrow> bytes \<Rightarrow> u32 \<rightharpoonup> bytes" where
  "tc_table v = (\<lambda>(st, w) n k. map_option c_str (content v w n k))"

lemmas tc_defs = tc_api_def tc_inv_def tc_opened_def tc_table_def

lemma table_upd:
  "content v w' = (content v w)(n := (content v w n)(k := x)) \<Longrightarrow>
    tc_table v (st', w') = (tc_table v (st, w))(n := (tc_table v (st, w) n)(k := map_option c_str x))"
  by (auto simp: tc_table_def fun_eq_iff)

lemma held_cong: "mdb st' = mdb st \<Longrightarrow> held tm st' = held tm st"
  by (simp add: held_def [abs_def] reg_def)

lemma reg_ok_cong:
  "mdb st' = mdb st \<Longrightarrow> freed st' = freed st \<Longrightarrow> next_name st' = next_name st \<Longrightarrow> hnd v w' = hnd v w \<Longrightarrow>
    reg_ok tm v st' w' = reg_ok tm v st w"
  by (simp add: reg_ok_def reg_def [abs_def])

lemma DBSetKeyValue_runs: "\<exists>r st' w'. DBSetKeyValue tc (Some p) k x st w = Inr (r, st', w')"
  by (cases "tchdbput tc (od_hdb p) (key_bytes k) (value_bytes x) w"; cases "fst (tchdbput tc (od_hdb p) (key_bytes k) (value_bytes x) w)")
    (simp_all add: DBSetKeyValue_def)

lemma DBDelKeyValue_runs: "\<exists>r st' w'. DBDelKeyValue tc (Some p) k st w = Inr (r, st', w')"
  by (cases "tchdbout tc (od_hdb p) (key_bytes k) w"; cases "fst (tchdbout tc (od_hdb p) (key_bytes k) w)")
    (simp_all add: DBDelKeyValue_def)

text \<open>Whatever an operation on records returns, it leaves the registry alone.\<close>

lemma DBSetKeyValue_st:
  "DBSetKeyValue tc (Some p) k x st w = Inr (r, st', w') \<Longrightarrow>
    mdb st' = mdb st \<and> freed st' = freed st \<and> next_name st' = next_name st"
  by (auto simp: DBSetKeyValue_def SetLastErrorMsg_def split: prod.splits if_splits)

lemma DBDelKeyValue_st:
  "DBDelKeyValue tc (Some p) k st w = Inr (r, st', w') \<Longrightarrow>
    mdb st' = mdb st \<and> freed st' = freed st \<and> next_name st' = next_name st"
  by (auto simp: DBDelKeyValue_def SetLastErrorMsg_def split: prod.splits if_splits)

lemma tc_create:
  assumes "tc_inv tc tm v s"
  shows "\<exists>d s'. api_create (tc_api tc tm) n s = Inr (Some d, s') \<and> tc_inv tc tm v s' \<and> tc_opened tm s' d n
    \<and> tc_table v s' = tc_table v s \<and> (\<forall>e m. tc_opened tm s e m \<longrightarrow> tc_opened tm s' e m)"
proof -
  obtain st w where s: "s = (st, w)" by (cases s)
  have inv: "tcmdb_laws tm" "tchdb_laws tc v" "tchdb_reliable tc v" "reg_ok tm v st w"
    using assms s by (simp_all add: tc_inv_def)
  obtain p st' w' where p: "DBCreate tc tm n st w = Inr (Some p, st', w')" "reg_ok tm v st' w'"
    "one_more (reg tm st n) p" "snd (od_name p) = n" "reg tm st' = (reg tm st)(n \<mapsto> p)" "fil v w' = fil v w"
    using DBCreate_ok [OF inv, of n] by blast
  have "held tm st e \<Longrightarrow> held tm st' e" for e
    using p(3,5) by (auto simp: held_def one_more_def)
  then show ?thesis
    using s p inv by (auto simp: tc_defs held_def content_def fun_eq_iff)
qed

lemma tc_set:
  assumes "tc_inv tc tm v s" and "tc_opened tm s d n"
  shows "\<exists>s'. api_set (tc_api tc tm) (Some d) k x s = Inr (0, s') \<and> tc_inv tc tm v s' \<and> tc_opened tm s' = tc_opened tm s
    \<and> tc_table v s' = (tc_table v s)(n := (tc_table v s n)(k \<mapsto> c_str x))"
proof -
  obtain st w where s: "s = (st, w)" by (cases s)
  have inv: "tcmdb_laws tm" "tchdb_laws tc v" "tchdb_reliable tc v" "reg_ok tm v st w"
    "held tm st d" "snd (od_name d) = n"
    using assms s by (simp_all add: tc_inv_def tc_opened_def)
  have h: "hnd v w (od_hdb d) = Some n" using held_hnd [OF inv(4,5)] inv(6) by simp
  obtain w' where run: "DBSetKeyValue tc (Some d) k x st w = Inr (SUCCESS, st, w')"
    using reliableD(3) [OF inv(3) h, of "key_bytes k" "value_bytes x"] by (cases "tchdbput tc (od_hdb d) (key_bytes k) (value_bytes x) w") (auto simp: DBSetKeyValue_def)
  note spec = DBSetKeyValue_spec [OF inv(2) h run]
  have "tc_inv tc tm v (st, w')" "tc_opened tm (st, w') = tc_opened tm (st, w)"
    using inv spec reg_ok_cong [of st st v w' w tm] by (simp_all add: tc_inv_def tc_opened_def)
  moreover have "tc_table v (st, w') = (tc_table v (st, w))(n := (tc_table v (st, w) n)(k \<mapsto> c_str x))"
    using spec table_upd [of v w' w n k "Some (value_bytes x)" st st] by (simp add: SUCCESS_def FAILURE_def)
  ultimately show ?thesis using run s by (simp add: tc_api_def SUCCESS_def)
qed

lemma tc_get:
  assumes "tc_inv tc tm v s" and "tc_opened tm s d n"
  shows "\<exists>r s'. api_get (tc_api tc tm) (Some d) k s = Inr (r, s') \<and> tc_inv tc tm v s'
    \<and> tc_opened tm s' = tc_opened tm s \<and> tc_table v s' = tc_table v s \<and> map_option c_str r = tc_table v s n k"
proof -
  obtain st w where s: "s = (st, w)" by (cases s)
  have inv: "tcmdb_laws tm" "tchdb_laws tc v" "tchdb_reliable tc v" "reg_ok tm v st w"
    "held tm st d" "snd (od_name d) = n"
    using assms s by (simp_all add: tc_inv_def tc_opened_def)
  have h: "hnd v w (od_hdb d) = Some n" using held_hnd [OF inv(4,5)] inv(6) by simp
  obtain st' w' where run: "DBGetKeyValue tc (Some d) k st w = Inr (content v w n k, st', w')"
    "fil v w' = fil v w" "hnd v w' = hnd v w" "mdb st' = mdb st" "freed st' = freed st" "next_name st' = next_name st"
    using DBGetKeyValue_spec [OF inv(2) h, of k st] by blast
  then show ?thesis
    using s inv reg_ok_cong [of st' st v w' w tm] held_cong [of st' st tm]
    by (auto simp: tc_defs content_def fun_eq_iff)
qed

lemma tc_del:
  assumes "tc_inv tc tm v s" and "tc_opened tm s d n"
  shows "\<exists>s'. api_del (tc_api tc tm) (Some d) k s = Inr (if tc_table v s n k = None then -1 else 0, s') \<and> tc_inv tc tm v s'
    \<and> tc_opened tm s' = tc_opened tm s \<and> tc_table v s' = (tc_table v s)(n := (tc_table v s n)(k := None))"
proof -
  obtain st w where s: "s = (st, w)" by (cases s)
  have inv: "tcmdb_laws tm" "tchdb_laws tc v" "tchdb_reliable tc v" "reg_ok tm v st w"
    "held tm st d" "snd (od_name d) = n"
    using assms s by (simp_all add: tc_inv_def tc_opened_def)
  have h: "hnd v w (od_hdb d) = Some n" using held_hnd [OF inv(4,5)] inv(6) by simp
  obtain r st' w' where run: "DBDelKeyValue tc (Some d) k st w = Inr (r, st', w')"
    using DBDelKeyValue_runs [of tc d k st w] by blast
  note st' = DBDelKeyValue_st [OF run]
  note spec = DBDelKeyValue_spec [OF inv(2) h run]
  have r: "r = (if content v w n k = None then -1 else 0)"
    using run spec reliableD(4) [OF inv(3) h, of "key_bytes k"]
    by (auto simp: DBDelKeyValue_def SUCCESS_def FAILURE_def content_def split: prod.splits if_splits) (metis not_None_eq)
  have "tc_inv tc tm v (st', w')" "tc_opened tm (st', w') = tc_opened tm (st, w)"
    using inv st' spec reg_ok_cong [of st' st v w' w tm] held_cong [of st' st tm]
    by (simp_all add: tc_inv_def tc_opened_def)
  moreover have "content v w' = (content v w)(n := (content v w n)(k := None))" using spec r by (auto simp: SUCCESS_def FAILURE_def fun_eq_iff split: if_splits)
  then have "tc_table v (st', w') = (tc_table v (st, w))(n := (tc_table v (st, w) n)(k := None))"
    using table_upd [of v w' w n k None st' st] by simp
  ultimately show ?thesis using run s r by (auto simp: tc_api_def tc_table_def)
qed

lemma tc_delete:
  assumes "tc_inv tc tm v s" and "tc_opened tm s d n"
  shows "\<exists>s'. api_delete (tc_api tc tm) (Some d) s = Inr (SUCCESS, s') \<and> tc_inv tc tm v s' \<and> tc_table v s' = tc_table v s"
proof -
  obtain st w where s: "s = (st, w)" by (cases s)
  have inv: "tcmdb_laws tm" "tchdb_laws tc v" "tchdb_reliable tc v" "reg_ok tm v st w" "held tm st d"
    using assms s by (simp_all add: tc_inv_def tc_opened_def)
  then obtain q where q: "reg tm st (snd (od_name d)) = Some q" "od_name q = od_name d" "od_hdb q = od_hdb d"
    by (auto simp: held_def)
  obtain st' w' where "DBDelete tc tm (Some d) st w = Inr (SUCCESS, st', w')" "reg_ok tm v st' w'" "fil v w' = fil v w"
    using DBDelete_ok [OF inv(1-4) q] by blast
  then show ?thesis using s inv by (auto simp: tc_defs content_def fun_eq_iff)
qed

interpretation tcdb: database "tc_api tc tm" "tc_inv tc tm v" "tc_opened tm" "tc_table v"
  by unfold_locales (rule tc_create tc_set tc_get tc_del; assumption)+

section \<open>Properties\<close>

definition no_dbs :: "'m db_state" where
  "no_dbs = \<lparr>mdb = None, next_name = 0, freed = [], lasterr = zeros 1024\<rparr>"

definition a_db :: bytes where "a_db = ascii ''a.db''"
definition b_db :: bytes where "b_db = ascii ''b.db''"

definition two_records :: disk where
  "two_records = empty_disk\<lparr>dk_file := (\<lambda>n. if n = a_db then [(key_bytes 5, [65, 0]), (key_bytes 9, [66, 0])] else [])\<rparr>"

lemma two_records_ok:
  "reg_ok alist_mdb disk_view no_dbs two_records" "db_file_ok disk_view two_records a_db" "a_db \<noteq> b_db"
  by (auto simp: reg_ok_def regs_ok_def reg_def no_dbs_def disk_view_def two_records_def empty_disk_def
      db_file_ok_def value_bytes_def c_str_def a_db_def b_db_def ran_def split: if_splits)

lemmas two_records_facts = alist_mdb_laws disk_db_laws disk_db_reliable two_records_ok

text \<open>C15: \<open>SplitByKey\<close> moves exactly the records of its key range: afterwards the source holds
  the records outside the range, the destination what it held and the records inside the range on
  top, every other file is as it was, and the registry of opened databases too.\<close>

theorem split_moves_range:
  assumes "tcmdb_laws tm" and "tchdb_laws tc v" and "tchdb_reliable tc v"
    and "reg_ok tm v st w" and "src \<noteq> dest" and "db_file_ok v w src"
  shows "\<exists>st' w'. SplitByKey tc tm src lo dest up st w = Inr (SUCCESS, st', w')
    \<and> reg tm st' = reg tm st
    \<and> content v w' src = content v w src |` {k. \<not> split_range lo up k}
    \<and> content v w' dest = content v w dest ++ (content v w src |` {k. split_range lo up k})
    \<and> (\<forall>n. n \<noteq> src \<longrightarrow> n \<noteq> dest \<longrightarrow> content v w' n = content v w n)"
  using SplitByKey_spec [OF assms] by blast

theorem split_moves_range_witness:
  "\<exists>(st' :: (bytes \<times> nat OpenedDB) list db_state) w'.
    SplitByKey disk_db alist_mdb a_db 6 b_db 10 no_dbs two_records = Inr (SUCCESS, st', w')
    \<and> content disk_view w' a_db 5 = Some [65, 0] \<and> content disk_view w' a_db 9 = None
    \<and> content disk_view w' b_db 9 = Some [66, 0]"
proof -
  have c: "content disk_view two_records a_db 5 = Some [65, 0]" "content disk_view two_records a_db 9 = Some [66, 0]"
    by (simp_all add: content_def disk_view_def two_records_def)
  have r: "split_range 6 10 9" "\<not> split_range 6 10 5" by (simp_all add: split_range_def)
  obtain st' :: "(bytes \<times> nat OpenedDB) list db_state" and w' where
    "SplitByKey disk_db alist_mdb a_db 6 b_db 10 no_dbs two_records = Inr (SUCCESS, st', w')"
    "content disk_view w' a_db = content disk_view two_records a_db |` {k. \<not> split_range 6 10 k}"
    "content disk_view w' b_db = content disk_view two_records b_db ++
      (content disk_view two_records a_db |` {k. split_range 6 10 k})"
    using split_moves_range [OF two_records_facts(1-4,6,5), of 6 10] by blast
  then show ?thesis using c r by (simp add: map_add_def)
qed

text \<open>C29: \<open>Merge2Files\<close> empties the source into the destination, the source's records winning,
  and touches no other file; but it returns with both databases one use more than before.\<close>

theorem merge_moves_all:
  assumes "tcmdb_laws tm" and "tchdb_laws tc v" and "tchdb_reliable tc v"
    and "reg_ok tm v st w" and "src \<noteq> dest" and "db_file_ok v w src"
  shows "\<exists>st' w'. Merge2Files tc tm src dest st w = Inr (SUCCESS, st', w')
    \<and> content v w' src = Map.empty \<and> content v w' dest = content v w dest ++ content v w src
    \<and> (\<forall>n. n \<noteq> src \<longrightarrow> n \<noteq> dest \<longrightarrow> content v w' n = content v w n)
    \<and> uses (reg tm st' src) = uses (reg tm st src) + 1 \<and> uses (reg tm st' dest) = uses (reg tm st dest) + 1"
  using Merge2Files_spec [OF assms] by blast

theorem merge_moves_all_witness:
  "\<exists>(st' :: (bytes \<times> nat OpenedDB) list db_state) w'.
    Merge2Files disk_db alist_mdb a_db b_db no_dbs two_records = Inr (SUCCESS, st', w')
    \<and> content disk_view w' a_db = Map.empty \<and> content disk_view w' b_db 5 = Some [65, 0]
    \<and> uses (reg alist_mdb st' a_db) = 1"
proof -
  have c: "content disk_view two_records a_db 5 = Some [65, 0]"
    by (simp add: content_def disk_view_def two_records_def)
  have u: "uses (reg alist_mdb (no_dbs :: (bytes \<times> nat OpenedDB) list db_state) a_db) = 0"
    by (simp add: uses_def reg_def no_dbs_def)
  obtain st' :: "(bytes \<times> nat OpenedDB) list db_state" and w' where
    "Merge2Files disk_db alist_mdb a_db b_db no_dbs two_records = Inr (SUCCESS, st', w')"
    "content disk_view w' a_db = Map.empty"
    "content disk_view w' b_db = content disk_view two_records b_db ++ content disk_view two_records a_db"
    "uses (reg alist_mdb st' a_db) = uses (reg alist_mdb (no_dbs :: (bytes \<times> nat OpenedDB) list db_state) a_db) + 1"
    using merge_moves_all [OF two_records_facts(1-4,6,5)] by blast
  then show ?thesis using c u by (simp add: map_add_def)
qed

text \<open>C30: opening and closing a database undo each other: after \<open>DBCreate\<close> and a \<open>DBDelete\<close> of the
  handle it returned, the registry, the files' records and the open handles are what they were,
  whether the name was in use before or not.\<close>

theorem open_close_balance:
  assumes "tcmdb_laws tm" and "tchdb_laws tc v" and "tchdb_reliable tc v" and "reg_ok tm v st w"
  shows "\<exists>p st1 w1 st2 w2. DBCreate tc tm name st w = Inr (Some p, st1, w1)
    \<and> hnd v w1 (od_hdb p) = Some name
    \<and> DBDelete tc tm (Some p) st1 w1 = Inr (SUCCESS, st2, w2)
    \<and> reg tm st2 = reg tm st \<and> fil v w2 = fil v w \<and> reg_ok tm v st2 w2"
proof -
  obtain p st1 w1 where p: "DBCreate tc tm name st w = Inr (Some p, st1, w1)" "reg_ok tm v st1 w1"
    "one_more (reg tm st name) p" "snd (od_name p) = name" "reg tm st1 = (reg tm st)(name \<mapsto> p)"
    "fil v w1 = fil v w" "hnd v w1 = (hnd v w)(od_hdb p \<mapsto> name)"
    using DBCreate_ok [OF assms, of name] by blast
  have r1: "reg tm st1 (snd (od_name p)) = Some p" using p(4,5) by simp
  obtain st2 w2 where d: "DBDelete tc tm (Some p) st1 w1 = Inr (SUCCESS, st2, w2)" "reg_ok tm v st2 w2"
    "reg tm st2 = (reg tm st1)(name := one_less p)" "fil v w2 = fil v w1"
    using DBDelete_ok [OF assms(1-3) p(2) r1] p(4) by auto
  have "one_less p = reg tm st name"
    using one_more_less [OF p(3)] reg_okD(2) [OF assms(4)] by blast
  then have "reg tm st2 = reg tm st" using d(3) p(5) by auto
  then show ?thesis using p d by auto
qed

theorem open_close_balance_witness:
  "\<exists>p (st1 :: (bytes \<times> nat OpenedDB) list db_state) w1 st2 w2.
    DBCreate disk_db alist_mdb a_db no_dbs two_records = Inr (Some p, st1, w1)
    \<and> hnd disk_view w1 (od_hdb p) = Some a_db
    \<and> DBDelete disk_db alist_mdb (Some p) st1 w1 = Inr (SUCCESS, st2, w2)
    \<and> reg alist_mdb st2 = reg alist_mdb (no_dbs :: (bytes \<times> nat OpenedDB) list db_state)"
  using open_close_balance [OF two_records_facts(1-4), of a_db] by blast

text \<open>C31: what is set can be read back: on an open database \<open>DBSetKeyValue\<close> succeeds and
  \<open>DBGetKeyValue\<close> of the key then returns the string, up to its NUL; \<open>DBDelKeyValue\<close> of that key
  succeeds as well, and afterwards \<open>DBGetKeyValue\<close> returns \<open>NULL\<close>.\<close>

theorem set_del_get:
  assumes "tc_inv tc tm v (st, w)" and "tc_opened tm (st, w) d n"
  shows "\<exists>st1 w1 r st2 w2 st3 w3 st4 w4. DBSetKeyValue tc (Some d) k x st w = Inr (SUCCESS, st1, w1)
    \<and> DBGetKeyValue tc (Some d) k st1 w1 = Inr (Some r, st2, w2) \<and> c_str r = c_str x
    \<and> DBDelKeyValue tc (Some d) k st2 w2 = Inr (SUCCESS, st3, w3)
    \<and> DBGetKeyValue tc (Some d) k st3 w3 = Inr (None, st4, w4)"
proof -
  obtain s1 r s2 where sg: "api_set (tc_api tc tm) (Some d) k x (st, w) = Inr (0, s1)"
    "api_get (tc_api tc tm) (Some d) k s1 = Inr (Some r, s2)" "c_str r = c_str x"
    "tc_inv tc tm v s2" "tc_opened tm s2 = tc_opened tm (st, w)" "tc_table v s2 n k = Some (c_str x)"
    using tcdb.set_get [OF assms, of k x] by auto
  then have "tc_opened tm s2 d n" "tc_table v s2 n k \<noteq> None" using assms(2) by simp_all
  from tcdb.del_get [OF sg(4) this] show ?thesis
    using sg(1-3) by (cases s1; cases s2) (fastforce simp: tc_api_def SUCCESS_def)
qed

theorem set_del_get_witness:
  "\<exists>d (st :: (bytes \<times> nat OpenedDB) list db_state) w st1 w1 r st2 w2.
    DBSetKeyValue disk_db (Some d) 7 [72, 105, 0, 3] st w = Inr (SUCCESS, st1, w1)
    \<and> DBGetKeyValue disk_db (Some d) 7 st1 w1 = Inr (Some r, st2, w2) \<and> c_str r = [72, 105]"
proof -
  have "tc_inv disk_db alist_mdb disk_view (no_dbs :: (bytes \<times> nat OpenedDB) list db_state, two_records)"
    using two_records_facts by (simp add: tc_inv_def)
  from tc_create [OF this, of a_db] obtain d and st :: "(bytes \<times> nat OpenedDB) list db_state" and w where
    ok: "tc_inv disk_db alist_mdb disk_view (st, w)" "tc_opened alist_mdb (st, w) d a_db"
    by auto
  have "c_str [72, 105, 0, 3] = [72, 105]" by (simp add: c_str_def)
  with set_del_get [OF ok, of 7 "[72, 105, 0, 3]"] show ?thesis by metis
qed

end
