(* ===== verification/Slave.thy ===== *)
theory Slave
  imports KeyRing Socket TcDB
begin

text \<open>
  The slave process, \<^verbatim>\<open>server/slave.c\<close>: its copy of the membership list and its own position,
  file transfer, the shell commands that rotate the backup files, what it asks of other slaves
  and what it answers to slaves and master. The globals are the record \<open>slave\<close>; files and the
  shell are part of the world, reached through \<open>os\<close>.
\<close>

section \<open>Environment and state\<close>

text \<open>
  \<open>o_read\<close> is \<open>fopen(name, "r")\<close> with the bytes the file holds, \<open>o_create\<close> is \<open>fopen(name,
  "w")\<close>, \<open>o_write\<close> is \<open>fwrite\<close> at the end of a file open for writing. \<open>o_cancel\<close> is
  \<open>pthread_cancel\<close>; of an identifier that no thread has, some C libraries return \<open>ESRCH\<close>, and some fault.
\<close>

record 'w os = "'w net" +
  o_read :: "bytes \<Rightarrow> 'w \<Rightarrow> bytes option"
  o_create :: "bytes \<Rightarrow> 'w \<Rightarrow> bool \<times> 'w"
  o_write :: "bytes \<Rightarrow> bytes \<Rightarrow> 'w \<Rightarrow> int \<times> 'w"
  o_system :: "bytes \<Rightarrow> 'w \<Rightarrow> int \<times> 'w"
  o_cancel :: "int \<Rightarrow> 'w \<Rightarrow> (int \<times> 'w) exec"

text \<open>
  What a slave's operations are given: the operating system, Tokyo Cabinet, the contents of
  uninitialised packet headers, and the fuel of the one loop that need not end.
\<close>

record ('h, 'm, 'w) env =
  e_os :: "'w os"
  e_tc :: "('h, 'w) tchdb"
  e_tm :: "('m, 'h OpenedDB) tcmdb"
  e_hdr :: db_header
  e_fuel :: nat

record 'm slave =
  s_slaves :: SlaveList
  s_pos :: int
  s_file_tmp :: bytes
  s_file_master :: bytes
  s_xbuf :: bytes
  s_port :: int
  s_master_sock :: int
  s_listen_sock :: int
  s_db :: "'m db_state"

definition MAX_FILENAME_LEN :: nat where "MAX_FILENAME_LEN = 128"
definition BACKUP1_DIR :: bytes where "BACKUP1_DIR = ascii ''backup1''"
definition BACKUP2_DIR :: bytes where "BACKUP2_DIR = ascii ''backup2''"
definition BACKUP_POSTFIX :: bytes where "BACKUP_POSTFIX = ascii ''.bac''"

section \<open>The membership list\<close>

definition GetVersion :: "'m slave \<Rightarrow> u32" where
  "GetVersion s = sl_version (s_slaves s)"

definition SendSlaveList :: "('h, 'm, 'w) env \<Rightarrow> int \<Rightarrow> 'm slave \<Rightarrow> 'w \<Rightarrow> 'w exec" where
  "SendSlaveList env sockfd s w =
    (let szBuf = WriteHeader (zeros MAX_BUF_LEN)
           ((e_hdr env)\<lparr>hd_cmd := cmd_code UPDATE_VERSION, hd_version := sint (sl_version (s_slaves s))\<rparr>);
         szBuf = snd (Append szBuf (list_bytes (s_slaves s)) (int SLAVELIST_SIZE)) in
     SendMsg (e_os env) sockfd szBuf w)"

definition AddNewSlave :: "int \<Rightarrow> SlaveNode \<Rightarrow> SlaveList \<Rightarrow> SlaveList exec" where
  "AddNewSlave pos sn slaves =
    andThen (shift_up (sl_nodes slaves) (sl_num slaves - 1) (pos - 1)) (\<lambda>ns.
    andThen (put_node ns pos sn) (\<lambda>ns.
    Inr \<lparr>sl_version = sl_version slaves + 1, sl_num = sl_num slaves + 1, sl_nodes = ns\<rparr>))"

definition RemoveSlave :: "int \<Rightarrow> SlaveList \<Rightarrow> SlaveList exec" where
  "RemoveSlave pos slaves =
    andThen (shift_down (sl_nodes slaves) pos (sl_num slaves - 1)) (\<lambda>ns.
    Inr \<lparr>sl_version = sl_version slaves + 1, sl_num = sl_num slaves - 1, sl_nodes = ns\<rparr>)"

section \<open>File transfer\<close>

definition slave_exchange ::
  "('h, 'm, 'w) env \<Rightarrow> cmd \<Rightarrow> int \<Rightarrow> bytes \<Rightarrow> int \<Rightarrow> int \<Rightarrow> 'm slave \<Rightarrow> 'w \<Rightarrow> ('m slave \<times> 'w) exec" where
  "slave_exchange env cmd key d len sockfd s w =
    andThen (ExchangePacket (e_os env) (e_hdr env) (s_xbuf s) cmd key d len sockfd w) (\<lambda>(b, w).
    Inr (s\<lparr>s_xbuf := b\<rparr>, w))"

text \<open>The header the last exchange left in the static buffer.\<close>

definition reply :: "'m slave \<Rightarrow> db_header" where
  "reply s = GetHeader (s_xbuf s)"

text \<open>
  The loop of \<open>SendFile\<close>: the stream stands at \<open>finish_size\<close>, and \<open>fread\<close> delivers at most
  \<open>APPENDSIZE\<close> bytes. A stream that delivered nothing would make the loop run on.
\<close>

function send_loop ::
  "('h, 'm, 'w) env \<Rightarrow> int \<Rightarrow> bytes \<Rightarrow> int \<Rightarrow> int \<Rightarrow> 'm slave \<Rightarrow> 'w \<Rightarrow> (int \<times> 'm slave \<times> 'w) exec" where
  "send_loop env sockfd data finish_size flen s w =
    (if finish_size < flen then
       (let szBuf = take APPENDSIZE (drop (nat finish_size) data); len = int (length szBuf) in
        if len = 0 then Inl Hangs
        else
          (case slave_exchange env FILETRANS len szBuf len sockfd s w of
             Inl e \<Rightarrow> Inl e
           | Inr (s, w) \<Rightarrow>
               if hd_cmd (reply s) \<noteq> cmd_code FILETRANS_R then Inr (-1, s, w)
               else send_loop env sockfd data (finish_size + len) flen s w))
     else Inr (0, s, w))"
  by pat_completeness auto
termination
  by (relation "measure (\<lambda>(env, sockfd, data, finish_size, flen, s, w). nat (flen - finish_size))")
    (auto simp: Let_def)

declare send_loop.simps [simp del]

definition SendFile ::
  "('h, 'm, 'w) env \<Rightarrow> int \<Rightarrow> bytes \<Rightarrow> cmd \<Rightarrow> 'm slave \<Rightarrow> 'w \<Rightarrow> (int \<times> 'm slave \<times> 'w) exec" where
  "SendFile env sockfd filename rescmd s w =
    (case o_read (e_os env) filename w of
       None \<Rightarrow> Inr (-1, s, w)
     | Some data \<Rightarrow>
         (let flen = to_s32 (int (length data)) in
          andThen (slave_exchange env rescmd flen (s_file_master s @ [0])
              (int (length (s_file_master s)) + 1) sockfd s w) (\<lambda>(s, w).
          if hd_cmd (reply s) \<noteq> cmd_code FILETRANS_R then Inr (-1, s, w)
          else send_loop env sockfd data 0 flen s w)))"

text \<open>
  The loop of \<open>RecvFile\<close>. \<open>fp\<close> says whether \<open>fopen\<close> gave a stream. A \<open>key\<close> that is negative
  or larger than the rest of the buffer makes \<open>fwrite\<close> read outside it. Chunks of size 0 keep
  the loop going, hence the fuel.
\<close>

fun recv_loop ::
  "nat \<Rightarrow> ('h, 'm, 'w) env \<Rightarrow> int \<Rightarrow> bytes \<Rightarrow> bool \<Rightarrow> int \<Rightarrow> int \<Rightarrow> 'm slave \<Rightarrow> 'w
    \<Rightarrow> (int \<times> 'm slave \<times> 'w) exec" where
  "recv_loop 0 env sockfd filename fp finish_size total_size s w =
    (if finish_size < total_size then Inl Hangs else Inr (0, s, w))"
| "recv_loop (Suc n) env sockfd filename fp finish_size total_size s w =
    (if finish_size < total_size then
       andThen (slave_exchange env FILETRANS_R 0 [] 0 sockfd s w) (\<lambda>(s, w).
       let key = hd_key (reply s) in
       if \<not> fp then Inl NullDeref
       else if key < 0 \<or> key > int APPENDSIZE then Inl OutOfBounds
       else
         let (write_len, w) = o_write (e_os env) filename (take (nat key) (GetAppend (s_xbuf s))) w in
         if write_len < key then Inr (-1, s, w)
         else recv_loop n env sockfd filename fp (finish_size + key) total_size s w)
     else Inr (0, s, w))"

definition RecvFile ::
  "('h, 'm, 'w) env \<Rightarrow> int \<Rightarrow> bytes \<Rightarrow> int \<Rightarrow> 'm slave \<Rightarrow> 'w \<Rightarrow> (int \<times> 'm slave \<times> 'w) exec" where
  "RecvFile env sockfd filename len s w =
    (let (fp, w) = o_create (e_os env) filename w in
     andThen (recv_loop (e_fuel env) env sockfd filename fp 0 len s w) (\<lambda>(res, s, w).
     if res = -1 then Inr (-1, s, w)
     else
       (let szBuf = WriteHeader (zeros MAX_BUF_LEN) ((e_hdr env)\<lparr>hd_cmd := cmd_code FILETRANS_R\<rparr>) in
        andThen (SendMsg (e_os env) sockfd szBuf w) (\<lambda>w.
        if \<not> fp then Inl NullDeref else Inr (0, s, w)))))"

section \<open>File names and shell commands\<close>

text \<open>A string copied into an array of \<open>n\<close> characters.\<close>

definition fits :: "nat \<Rightarrow> bytes \<Rightarrow> bytes exec" where
  "fits n str = (if length str < n then Inr str else Inl OutOfBounds)"

definition shell_cmd :: "bytes \<Rightarrow> bytes \<Rightarrow> bytes \<Rightarrow> bytes \<Rightarrow> bytes \<Rightarrow> bytes" where
  "shell_cmd cmd srcdir srcfname destdir destfname =
    cmd @ ascii '' '' @ srcdir @ (if srcdir \<noteq> [] then ascii ''//'' else []) @ srcfname
    @ (if srcdir \<noteq> [] \<and> srcfname \<noteq> [] then BACKUP_POSTFIX else []) @ ascii '' '' @ destdir
    @ (if destdir \<noteq> [] then ascii ''//'' else []) @ destfname
    @ (if destdir \<noteq> [] \<and> destfname \<noteq> [] then BACKUP_POSTFIX else [])"

definition ExeShellCmd ::
  "('h, 'm, 'w) env \<Rightarrow> bytes \<Rightarrow> bytes \<Rightarrow> bytes \<Rightarrow> bytes \<Rightarrow> bytes \<Rightarrow> 'w \<Rightarrow> (bytes \<times> 'w) exec" where
  "ExeShellCmd env cmd srcdir srcfname destdir destfname w =
    andThen (fits (2 * MAX_FILENAME_LEN) (shell_cmd cmd srcdir srcfname destdir destfname)) (\<lambda>fullcmd.
    Inr (fullcmd, if cmd \<noteq> [] then snd (o_system (e_os env) fullcmd w) else w))"

definition GetFileName :: "int \<Rightarrow> bytes \<Rightarrow> bytes exec" where
  "GetFileName k filename =
    (if k = 0 then fits MAX_FILENAME_LEN filename
     else if k = 1 then fits MAX_FILENAME_LEN (BACKUP1_DIR @ ascii ''//'' @ filename @ BACKUP_POSTFIX)
     else if k = 2 then fits MAX_FILENAME_LEN (BACKUP2_DIR @ ascii ''//'' @ filename @ BACKUP_POSTFIX)
     else Inl OutOfBounds)"

end
