(* ===== verification/SlaveRequests.thy ===== *)
theory SlaveRequests
  imports Slave
begin

text \<open>
  The second half of \<^verbatim>\<open>server/slave.c\<close>: what a slave asks of other slaves, what it does for
  them and for the master, how it registers and how it leaves.
\<close>

section \<open>Asking other slaves\<close>

definition CommunicateToSlave ::
  "('h, 'm, 'w) env \<Rightarrow> int \<Rightarrow> cmd \<Rightarrow> int \<Rightarrow> cmd \<Rightarrow> 'm slave \<Rightarrow> 'w \<Rightarrow> (int \<times> 'm slave \<times> 'w) exec" where
  "CommunicateToSlave env k cmd key rescmd s w =
    (if sl_num (s_slaves s) = 0 then Inl DivByZero else
     let hispos = c_rem (s_pos s + k + sl_num (s_slaves s)) (sl_num (s_slaves s)) in
     if hispos = s_pos s then Inr (0, s, w) else
     andThen (get_node (sl_nodes (s_slaves s)) hispos) (\<lambda>sn.
     let (r, sock, w) = OpenRemoteService2 (e_os env) (sn_ip sn) (sn_port sn) w in
     if r = -1 then Inr (-1, s, w) else
     andThen (slave_exchange env cmd key [] 0 sock s w) (\<lambda>(s, w).
     andThen (c_assert (hd_cmd (reply s) = cmd_code rescmd)) (\<lambda>_.
     andThen
       (if k = -2 then Inr (0, s, w)
        else
          andThen (GetFileName (if k = -1 then 0 else k) (c_str (GetAppend (s_xbuf s)))) (\<lambda>filename.
          RecvFile env sock filename (hd_key (reply s)) s w)) (\<lambda>(res, s, w).
     Inr (res, s, CloseRemoteService (e_os env) sock w))))))"

definition ClipDataFromPre :: "('h, 'm, 'w) env \<Rightarrow> 'm slave \<Rightarrow> 'w \<Rightarrow> (int \<times> 'm slave \<times> 'w) exec" where
  "ClipDataFromPre env s w =
    andThen (get_node (sl_nodes (s_slaves s)) (s_pos s)) (\<lambda>sn.
    CommunicateToSlave env (-1) CLIP_DATA (sn_key sn) CLIP_DATA_R s w)"

definition BackupForOtherSlave ::
  "('h, 'm, 'w) env \<Rightarrow> int \<Rightarrow> 'm slave \<Rightarrow> 'w \<Rightarrow> (int \<times> 'm slave \<times> 'w) exec" where
  "BackupForOtherSlave env k s w = CommunicateToSlave env k BACKUP 0 BACKUP_R s w"

definition Notify2ndPreUpdateBackup2 ::
  "('h, 'm, 'w) env \<Rightarrow> 'm slave \<Rightarrow> 'w \<Rightarrow> (int \<times> 'm slave \<times> 'w) exec" where
  "Notify2ndPreUpdateBackup2 env s w =
    CommunicateToSlave env (-2) UPDATE_BACKUP2 0 UPDATE_BACKUP2_R s w"

section \<open>Answering other slaves\<close>

text \<open>\<open>slaves.nodes[(pos + k) % slaves.num].key\<close>.\<close>

definition key_after :: "int \<Rightarrow> 'm slave \<Rightarrow> int exec" where
  "key_after k s =
    (if sl_num (s_slaves s) = 0 then Inl DivByZero
     else andThen (get_node (sl_nodes (s_slaves s)) (c_rem (s_pos s + k) (sl_num (s_slaves s)))) (\<lambda>sn.
       Inr (sn_key sn)))"

text \<open>\<open>SplitByKey\<close> over the slave's database state; its bounds are converted to \<open>dbKey\<close>.\<close>

definition slave_split ::
  "('h, 'm, 'w) env \<Rightarrow> bytes \<Rightarrow> int \<Rightarrow> bytes \<Rightarrow> int \<Rightarrow> 'm slave \<Rightarrow> 'w \<Rightarrow> ('m slave \<times> 'w) exec" where
  "slave_split env srcfile lower_b destfile upper_b s w =
    andThen (SplitByKey (e_tc env) (e_tm env) srcfile (word_of_int lower_b) destfile (word_of_int upper_b)
      (s_db s) w) (\<lambda>(_, st, w). Inr (s\<lparr>s_db := st\<rparr>, w))"

definition slave_merge ::
  "('h, 'm, 'w) env \<Rightarrow> bytes \<Rightarrow> bytes \<Rightarrow> 'm slave \<Rightarrow> 'w \<Rightarrow> ('m slave \<times> 'w) exec" where
  "slave_merge env srcfile destfile s w =
    andThen (Merge2Files (e_tc env) (e_tm env) srcfile destfile (s_db s) w) (\<lambda>(_, st, w).
    Inr (s\<lparr>s_db := st\<rparr>, w))"

definition HandleSlaveRequest ::
  "('h, 'm, 'w) env \<Rightarrow> int \<Rightarrow> bytes \<Rightarrow> 'm slave \<Rightarrow> 'w \<Rightarrow> ('m slave \<times> 'w) exec" where
  "HandleSlaveRequest env accept_sock szBuf s w =
    andThen
      (case decode_cmd (hd_cmd (GetHeader szBuf)) of
         Some CLIP_DATA \<Rightarrow>
           andThen (ExeShellCmd env (ascii ''mv'') BACKUP1_DIR (ascii ''*'') BACKUP2_DIR [] w) (\<lambda>(_, w).
           andThen (key_after 1 s) (\<lambda>lower_b.
           andThen (key_after 2 s) (\<lambda>upper_b.
           andThen (slave_split env (s_file_master s) lower_b (s_file_tmp s) upper_b s w) (\<lambda>(s, w).
           andThen (SendFile env accept_sock (s_file_tmp s) CLIP_DATA_R s w) (\<lambda>(_, s, w).
           andThen (ExeShellCmd env (ascii ''mv'') [] (s_file_tmp s) BACKUP1_DIR (s_file_master s) w) (\<lambda>(_, w).
           Inr (s, ServiceStop (e_os env) accept_sock w)))))))
       | Some BACKUP \<Rightarrow>
           andThen (SendFile env accept_sock (s_file_master s) BACKUP_R s w) (\<lambda>(_, s, w).
           Inr (s, ServiceStop (e_os env) accept_sock w))
       | Some UPDATE_BACKUP2 \<Rightarrow>
           andThen (ExeShellCmd env (ascii ''rm'') BACKUP2_DIR (ascii ''*'') [] [] w) (\<lambda>(_, w).
           andThen (fits MAX_FILENAME_LEN (BACKUP1_DIR @ ascii ''/'' @ s_file_master s @ BACKUP_POSTFIX)) (\<lambda>fname1.
           andThen (fits MAX_FILENAME_LEN (BACKUP2_DIR @ ascii ''/'' @ s_file_master s @ BACKUP_POSTFIX)) (\<lambda>fname2.
           andThen (key_after 2 s) (\<lambda>lower_b.
           andThen (key_after 3 s) (\<lambda>upper_b.
           andThen (slave_split env fname1 lower_b fname2 upper_b s w) (\<lambda>(s, w).
           let szBuf = WriteHeader (zeros MAX_BUF_LEN) ((e_hdr env)\<lparr>hd_cmd := cmd_code UPDATE_BACKUP2_R\<rparr>) in
           andThen (SendMsg (e_os env) accept_sock szBuf w) (\<lambda>w. Inr (s, w))))))))
       | _ \<Rightarrow> Inr (s, w))
      (\<lambda>(s, w). Inr (s, ServiceStop (e_os env) accept_sock w))"

section \<open>Answering the master\<close>

text \<open>\<open>hd.cmd = c; WriteHeader(szBuf, &hd); SendMsg(master_sock, szBuf)\<close>.\<close>

definition answer_master :: "('h, 'm, 'w) env \<Rightarrow> cmd \<Rightarrow> bytes \<Rightarrow> 'm slave \<Rightarrow> 'w \<Rightarrow> 'w exec" where
  "answer_master env c szBuf s w =
    SendMsg (e_os env) (s_master_sock s) (WriteHeader szBuf ((e_hdr env)\<lparr>hd_cmd := cmd_code c\<rparr>)) w"

text \<open>The bookkeeping of \<open>NEW_SLAVE\<close> and \<open>RM_SLAVE\<close>: the list, and the own position in it.\<close>

definition note_new_slave :: "int \<Rightarrow> SlaveNode \<Rightarrow> 'm slave \<Rightarrow> 'm slave exec" where
  "note_new_slave key sn s =
    andThen (AddNewSlave key sn (s_slaves s)) (\<lambda>slaves.
    if key \<le> s_pos s then
      (if sl_num slaves = 0 then Inl DivByZero
       else Inr (s\<lparr>s_slaves := slaves, s_pos := c_rem (s_pos s + 1) (sl_num slaves)\<rparr>))
    else Inr (s\<lparr>s_slaves := slaves\<rparr>))"

definition note_rm_slave :: "int \<Rightarrow> 'm slave \<Rightarrow> 'm slave exec" where
  "note_rm_slave rmpos s =
    andThen (RemoveSlave rmpos (s_slaves s)) (\<lambda>slaves.
    if rmpos < s_pos s then
      (if sl_num slaves = 0 then Inl DivByZero
       else Inr (s\<lparr>s_slaves := slaves, s_pos := c_rem (s_pos s - 1 + sl_num slaves) (sl_num slaves)\<rparr>))
    else Inr (s\<lparr>s_slaves := slaves\<rparr>))"

text \<open>\<open>pos == (rmpos - k + slaves.num) % slaves.num\<close>, after the removal.\<close>

definition is_predecessor :: "int \<Rightarrow> int \<Rightarrow> 'm slave \<Rightarrow> bool exec" where
  "is_predecessor k rmpos s =
    (if sl_num (s_slaves s) = 0 then Inl DivByZero
     else Inr (s_pos s = c_rem (rmpos - k + sl_num (s_slaves s)) (sl_num (s_slaves s))))"

text \<open>What the neighbours of a removed slave do with their backups.\<close>

definition take_over :: "('h, 'm, 'w) env \<Rightarrow> 'm slave \<Rightarrow> 'w \<Rightarrow> ('m slave \<times> 'w) exec" where
  "take_over env s w =
    andThen (fits 100 (BACKUP1_DIR @ ascii ''//'' @ s_file_master s @ BACKUP_POSTFIX)) (\<lambda>filename.
    andThen (slave_merge env filename (s_file_master s) s w) (\<lambda>(s, w).
    andThen (ExeShellCmd env (ascii ''mv'') BACKUP2_DIR (ascii ''*'') BACKUP1_DIR [] w) (\<lambda>(_, w).
    andThen (BackupForOtherSlave env 2 s w) (\<lambda>(_, s, w). Inr (s, w)))))"

definition take_over_backup :: "('h, 'm, 'w) env \<Rightarrow> 'm slave \<Rightarrow> 'w \<Rightarrow> ('m slave \<times> 'w) exec" where
  "take_over_backup env s w =
    andThen (fits 100 (BACKUP1_DIR @ ascii ''//'' @ s_file_master s @ BACKUP_POSTFIX)) (\<lambda>filename1.
    andThen (fits 100 (BACKUP2_DIR @ ascii ''//'' @ s_file_master s @ BACKUP_POSTFIX)) (\<lambda>filename2.
    andThen (slave_merge env filename2 filename1 s w) (\<lambda>(s, w).
    andThen (ExeShellCmd env (ascii ''rm'') BACKUP2_DIR (ascii ''*'') [] [] w) (\<lambda>(_, w).
    andThen (BackupForOtherSlave env 2 s w) (\<lambda>(_, s, w). Inr (s, w))))))"

definition HandleMasterRequest :: "('h, 'm, 'w) env \<Rightarrow> 'm slave \<Rightarrow> 'w \<Rightarrow> ('m slave \<times> 'w) exec" where
  "HandleMasterRequest env s w =
    andThen (RecvMsg (e_os env) (s_master_sock s) (zeros MAX_BUF_LEN) w) (\<lambda>(res, szBuf, w).
    let phd = GetHeader szBuf in
    (case decode_cmd (hd_cmd phd) of
       Some NEW_SLAVE \<Rightarrow>
         andThen (note_new_slave (hd_key phd) (bytes_node (GetAppend szBuf)) s) (\<lambda>s.
         andThen (answer_master env NEW_SLAVE_R szBuf s w) (\<lambda>w. Inr (s, w)))
     | Some RM_SLAVE \<Rightarrow>
         (let rmpos = hd_key phd in
          andThen (note_rm_slave rmpos s) (\<lambda>s.
          andThen (answer_master env RM_SLAVE_R szBuf s w) (\<lambda>w.
          andThen (is_predecessor 1 rmpos s) (\<lambda>pre1.
          if pre1 then take_over env s w
          else
            andThen (is_predecessor 2 rmpos s) (\<lambda>pre2.
            if pre2 then take_over_backup env s w else Inr (s, w))))))
     | Some UPDATE_BACKUP12 \<Rightarrow>
         andThen (BackupForOtherSlave env 1 s w) (\<lambda>(_, s, w).
         andThen (BackupForOtherSlave env 2 s w) (\<lambda>(_, s, w).
         andThen (answer_master env UPDATE_BACKUP12_R szBuf s w) (\<lambda>w. Inr (s, w))))
     | _ \<Rightarrow> Inr (s, w)))"

section \<open>Joining and leaving\<close>

definition RegisterAndLoadSlaves ::
  "('h, 'm, 'w) env \<Rightarrow> int \<Rightarrow> 'm slave \<Rightarrow> 'w \<Rightarrow> ('m slave \<times> 'w) exec" where
  "RegisterAndLoadSlaves env master_sock s w =
    andThen (slave_exchange env ADD_SLAVE (s_port s) [] 0 master_sock s w) (\<lambda>(s, w).
    andThen (c_assert (hd_cmd (reply s) = cmd_code ADD_SLAVE_R)) (\<lambda>_.
    Inr (s\<lparr>s_pos := hd_key (reply s), s_slaves := bytes_list (GetAppend (s_xbuf s))\<rparr>, w)))"

text \<open>
  The process ends after the last statement. Nothing ever assigns to the global \<open>ctrl_thread_id\<close>, so it is 0, which is
  no thread that the program has created.
\<close>

definition ctrl_thread_id :: int where "ctrl_thread_id = 0"

definition ShutDownSlave :: "('h, 'm, 'w) env \<Rightarrow> 'm slave \<Rightarrow> 'w \<Rightarrow> ('m slave \<times> 'w) exec" where
  "ShutDownSlave env s w =
    andThen (o_cancel (e_os env) ctrl_thread_id w) (\<lambda>(_, w).
    andThen (slave_exchange env DEL_SLAVE (s_pos s) [] 0 (s_master_sock s) s w) (\<lambda>(s, w).
    andThen (c_assert (hd_cmd (reply s) = cmd_code DEL_SLAVE_R)) (\<lambda>_.
    let w = ShutdownService (e_os env) (s_listen_sock s) w in
    Inr (s, CloseRemoteService (e_os env) (s_master_sock s) w))))"

text \<open>Where \<open>pthread_cancel\<close> faults on an identifier that is no thread's, no slave ever says that it leaves.\<close>

lemma shutdown_faults: "o_cancel (e_os env) ctrl_thread_id w = Inl e \<Longrightarrow> ShutDownSlave env s w = Inl e"
  by (simp add: ShutDownSlave_def)

definition InitialSlave ::
  "('h, 'm, 'w) env \<Rightarrow> int option \<Rightarrow> int \<Rightarrow> 'm slave \<Rightarrow> 'w \<Rightarrow> (int \<times> 'm slave \<times> 'w) exec" where
  "InitialSlave env master_addr master_port s w =
    (let s = s\<lparr>s_port := GetPort (e_os env) (s_listen_sock s) w\<rparr>;
         (r, sock, w) = OpenRemoteService (e_os env) master_addr master_port w;
         s = s\<lparr>s_master_sock := sock\<rparr> in
     if r = -1 then Inr (-1, s, w) else
     andThen (RegisterAndLoadSlaves env sock s w) (\<lambda>(s, w).
     andThen
       (if sl_num (s_slaves s) > 1 then
          andThen (ClipDataFromPre env s w) (\<lambda>(r, s, w).
          if r = -1 then Inr (-1, s, w)
          else andThen (BackupForOtherSlave env 1 s w) (\<lambda>(_, s, w). Inr (0, s, w)))
        else Inr (0::int, s, w)) (\<lambda>(r, s, w).
     if r = -1 then Inr (-1, s, w)
     else if sl_num (s_slaves s) > 2 then
       andThen (Notify2ndPreUpdateBackup2 env s w) (\<lambda>(_, s, w).
       andThen (BackupForOtherSlave env 2 s w) (\<lambda>(_, s, w). Inr (0, s, w)))
     else Inr (0, s, w))))"

section \<open>The own position stays right\<close>

lemma AddNewSlave_spec:
  assumes "list_ok sl" and "0 \<le> p" and "p \<le> sl_num sl" and "sl_num sl < int MAX_SLAVE_NUM"
  shows "\<exists>sl'. AddNewSlave p sn sl = Inr sl' \<and> list_ok sl' \<and> sl_version sl' = sl_version sl + 1
    \<and> sl_num sl' = sl_num sl + 1 \<and> live sl' = insert_at (nat p) sn (live sl)"
  using open_gap [OF assms, of sn] assms
  by (cases "shift_up (sl_nodes sl) (sl_num sl - 1) (p - 1)") (auto simp: AddNewSlave_def list_ok_def live_def)

lemma RemoveSlave_spec:
  assumes "list_ok sl" and "0 \<le> p" and "p < sl_num sl"
  shows "\<exists>sl'. RemoveSlave p sl = Inr sl' \<and> list_ok sl' \<and> sl_version sl' = sl_version sl + 1
    \<and> sl_num sl' = sl_num sl - 1 \<and> live sl' = remove_at (nat p) (live sl)"
  using close_gap [OF assms] assms by (auto simp: RemoveSlave_def list_ok_def live_def)

text \<open>A slave whose position is one of its list.\<close>

definition pos_ok :: "'m slave \<Rightarrow> bool" where
  "pos_ok s \<longleftrightarrow> list_ok (s_slaves s) \<and> 0 \<le> s_pos s \<and> s_pos s < sl_num (s_slaves s)"

lemma note_new_slave_spec:
  assumes "pos_ok s" and "0 \<le> p" and "p \<le> sl_num (s_slaves s)" and "sl_num (s_slaves s) < int MAX_SLAVE_NUM"
  shows "\<exists>sl'. note_new_slave p sn s
      = Inr (s\<lparr>s_slaves := sl', s_pos := (if p \<le> s_pos s then s_pos s + 1 else s_pos s)\<rparr>)
    \<and> list_ok sl' \<and> sl_version sl' = sl_version (s_slaves s) + 1
    \<and> sl_num sl' = sl_num (s_slaves s) + 1 \<and> live sl' = insert_at (nat p) sn (live (s_slaves s))"
  using AddNewSlave_spec [of "s_slaves s" p sn] assms
  by (auto simp: note_new_slave_def pos_ok_def c_rem_less)

lemma note_rm_slave_spec:
  assumes "pos_ok s" and "0 \<le> p" and "p < sl_num (s_slaves s)" and "p \<noteq> s_pos s"
  shows "\<exists>sl'. note_rm_slave p s
      = Inr (s\<lparr>s_slaves := sl', s_pos := (if p < s_pos s then s_pos s - 1 else s_pos s)\<rparr>)
    \<and> list_ok sl' \<and> sl_version sl' = sl_version (s_slaves s) + 1
    \<and> sl_num sl' = sl_num (s_slaves s) - 1 \<and> live sl' = remove_at (nat p) (live (s_slaves s))"
proof -
  have "c_rem (s_pos s + sl_num (s_slaves s) - 2) (sl_num (s_slaves s) - 1) = s_pos s - 1"
    if "1 \<le> s_pos s" "s_pos s < sl_num (s_slaves s)"
    using that c_rem_wrap [of "s_pos s - 1" "sl_num (s_slaves s) - 1"] by (simp add: algebra_simps)
  then show ?thesis
    using RemoveSlave_spec [of "s_slaves s" p] assms by (auto simp: note_rm_slave_def pos_ok_def)
qed

end
