(* ===== verification/NetDbApi.thy ===== *)
theory NetDbApi
  imports KeyRing Socket Database
begin

text \<open>
  The distributed implementation of \<^verbatim>\<open>common/Database.h\<close>, \<^verbatim>\<open>client/netdbapi.c\<close>: a \<open>DataBase\<close> is
  a pointer to a membership list with the client's own sockets, fetched from the master; every
  key/value operation goes to the slave whose section holds the key, and is repeated with a fresh list when
  that slave is gone or has a newer list.
\<close>

section \<open>State\<close>

text \<open>
  What the operations are given: the network, the contents of uninitialised memory (a header,
  a list from \<open>malloc\<close>, a packet buffer), and the fuel for the \<open>REDO\<close> loops.
\<close>

record 'w cenv =
  ce_net :: "'w net"
  ce_hdr :: db_header
  ce_list :: SlaveList
  ce_buf :: bytes
  ce_fuel :: nat

text \<open>The globals, the static buffer of \<open>ExchangePacket\<close> and the lists \<open>malloc\<close> gave out.\<close>

record 'w client =
  cl_master_sock :: int
  cl_master_addr :: "int option"
  cl_master_port :: int
  cl_dbname :: bytes
  cl_xbuf :: bytes
  cl_next :: nat
  cl_lists :: "nat \<rightharpoonup> SlaveList"
  cl_w :: 'w

section \<open>Connections to all slaves\<close>

text \<open>\<open>netdbapi.c\<close> has an \<open>ExchangePacket\<close> of its own, the text of that in \<open>slave.c\<close> with a buffer of its own.\<close>

definition cl_exchange :: "'w cenv \<Rightarrow> cmd \<Rightarrow> int \<Rightarrow> bytes \<Rightarrow> int \<Rightarrow> int \<Rightarrow> 'w client \<Rightarrow> 'w client exec" where
  "cl_exchange ce cmd key append_str len sockfd c =
    andThen (ExchangePacket (ce_net ce) (ce_hdr ce) (cl_xbuf c) cmd key append_str len sockfd (cl_w c)) (\<lambda>(b, w).
    Inr (c\<lparr>cl_xbuf := b, cl_w := w\<rparr>))"

definition ReadCloudNodes :: "'w cenv \<Rightarrow> SlaveList \<Rightarrow> 'w client \<Rightarrow> (int \<times> SlaveList \<times> 'w client) exec" where
  "ReadCloudNodes ce slaves c =
    (let (r, sock, w) = OpenRemoteService (ce_net ce) (cl_master_addr c) (cl_master_port c) (cl_w c);
         c = c\<lparr>cl_master_sock := sock, cl_w := w\<rparr> in
     if r = -1 then Inr (-1, slaves, c) else
     andThen (cl_exchange ce GET_LIST 0 [] 0 sock c) (\<lambda>c.
     andThen (c_assert (hd_cmd (GetHeader (cl_xbuf c)) = cmd_code GET_LIST_R)) (\<lambda>_.
     Inr (0, bytes_list (GetAppend (cl_xbuf c)), c))))"

definition set_sock :: "int \<Rightarrow> int \<Rightarrow> SlaveList \<Rightarrow> SlaveList exec" where
  "set_sock i sock slaves =
    andThen (get_node (sl_nodes slaves) i) (\<lambda>n.
    andThen (put_node (sl_nodes slaves) i (n\<lparr>sn_sock := sock\<rparr>)) (\<lambda>ns. Inr (slaves\<lparr>sl_nodes := ns\<rparr>)))"

lemma set_sock_num: "set_sock i sock slaves = Inr slaves' \<Longrightarrow> sl_num slaves' = sl_num slaves"
  by (auto simp: set_sock_def)

text \<open>One turn of the loop in \<open>OpenAllCloudNodes\<close>; \<open>False\<close> is its \<open>return -1\<close>.\<close>

definition open_node ::
  "'w cenv \<Rightarrow> bytes \<Rightarrow> int \<Rightarrow> bytes \<Rightarrow> SlaveList \<Rightarrow> 'w \<Rightarrow> (bool \<times> bytes \<times> SlaveList \<times> 'w) exec" where
  "open_node ce buf i recvBuf slaves w =
    andThen (get_node (sl_nodes slaves) i) (\<lambda>n.
    let (r, sock, w) = OpenRemoteService2 (ce_net ce) (sn_ip n) (sn_port n) w in
    andThen (set_sock i sock slaves) (\<lambda>slaves.
    if r = -1 then Inr (False, recvBuf, slaves, w) else
    andThen (SendMsg (ce_net ce) sock buf w) (\<lambda>w.
    andThen (RecvMsg (ce_net ce) sock recvBuf w) (\<lambda>(res, recvBuf, w).
    Inr (hd_cmd (GetHeader recvBuf) = cmd_code OPEN_R, recvBuf, slaves, w)))))"

lemma open_node_num:
  "open_node ce buf i rb slaves w = Inr (ok, rb', slaves', w') \<Longrightarrow> sl_num slaves' = sl_num slaves"
  by (auto simp: open_node_def Let_def dest!: set_sock_num split: prod.splits if_splits)

function open_loop ::
  "'w cenv \<Rightarrow> bytes \<Rightarrow> int \<Rightarrow> bytes \<Rightarrow> SlaveList \<Rightarrow> 'w \<Rightarrow> (int \<times> SlaveList \<times> 'w) exec" where
  "open_loop ce buf i recvBuf slaves w =
    (if i < sl_num slaves then
       (case open_node ce buf i recvBuf slaves w of
          Inl e \<Rightarrow> Inl e
        | Inr (ok, recvBuf, slaves', w) \<Rightarrow>
            if ok then open_loop ce buf (i + 1) recvBuf slaves' w else Inr (-1, slaves', w))
     else Inr (0, slaves, w))"
  by pat_completeness auto
termination
  by (relation "measure (\<lambda>(ce, buf, i, rb, slaves, w). nat (sl_num slaves - i))")
    (auto dest!: open_node_num)

declare open_loop.simps [simp del]

text \<open>The result of \<open>ReadCloudNodes\<close> is not looked at.\<close>

definition OpenAllCloudNodes :: "'w cenv \<Rightarrow> SlaveList \<Rightarrow> 'w client \<Rightarrow> (int \<times> SlaveList \<times> 'w client) exec" where
  "OpenAllCloudNodes ce slaves c =
    andThen (ReadCloudNodes ce slaves c) (\<lambda>(res, slaves, c).
    let buf = WriteHeader (ce_buf ce) ((ce_hdr ce)\<lparr>hd_cmd := cmd_code OPEN, hd_version := 0\<rparr>);
        buf = snd (Append buf (cl_dbname c @ [0]) (int (length (cl_dbname c)) + 1)) in
    andThen (open_loop ce buf 0 (ce_buf ce) slaves (cl_w c)) (\<lambda>(r, slaves, w).
    Inr (r, slaves, c\<lparr>cl_w := w\<rparr>)))"

function close_loop ::
  "'w cenv \<Rightarrow> bytes \<Rightarrow> int \<Rightarrow> int \<Rightarrow> bytes \<Rightarrow> SlaveList \<Rightarrow> 'w \<Rightarrow> (int \<times> 'w) exec" where
  "close_loop ce buf except_sock i recvBuf slaves w =
    (if i < sl_num slaves then
       (case get_node (sl_nodes slaves) i of
          Inl e \<Rightarrow> Inl e
        | Inr n \<Rightarrow>
            if sn_sock n = except_sock then close_loop ce buf except_sock (i + 1) recvBuf slaves w
            else
              (case andThen (SendMsg (ce_net ce) (sn_sock n) buf w) (RecvMsg (ce_net ce) (sn_sock n) recvBuf) of
                 Inl e \<Rightarrow> Inl e
               | Inr (res, recvBuf, w) \<Rightarrow>
                   if hd_cmd (GetHeader recvBuf) = cmd_code CMDFAIL then Inr (-1, w)
                   else close_loop ce buf except_sock (i + 1) recvBuf slaves
                     (CloseRemoteService (ce_net ce) (sn_sock n) w)))
     else Inr (0, w))"
  by pat_completeness auto
termination by (relation "measure (\<lambda>(ce, buf, ex, i, rb, slaves, w). nat (sl_num slaves - i))") auto

declare close_loop.simps [simp del]

definition CloseAllCloudNodes :: "'w cenv \<Rightarrow> SlaveList \<Rightarrow> int \<Rightarrow> 'w \<Rightarrow> (int \<times> 'w) exec" where
  "CloseAllCloudNodes ce slaves except_sock w =
    (let buf = WriteHeader (ce_buf ce)
           ((ce_hdr ce)\<lparr>hd_cmd := cmd_code CLOSE, hd_version := sint (sl_version slaves)\<rparr>) in
     close_loop ce buf except_sock 0 (ce_buf ce) slaves w)"

section \<open>Where a key lives\<close>

text \<open>
  The bounds are \<open>int\<close>s that are compared with the unsigned key as unsigned numbers. The
  result is the index whose socket the code points to.
\<close>

definition holds_key :: "int \<Rightarrow> int \<Rightarrow> int \<Rightarrow> bool" where
  "holds_key lower_b upper_b key \<longleftrightarrow>
    (lower_b < upper_b \<and> to_u32 lower_b < key \<and> key \<le> to_u32 upper_b)
    \<or> (lower_b > upper_b \<and> (to_u32 lower_b < key \<or> key \<le> to_u32 upper_b))
    \<or> lower_b = upper_b"

function socket_loop :: "SlaveList \<Rightarrow> int \<Rightarrow> int \<Rightarrow> int exec" where
  "socket_loop slaves key i =
    (if i < sl_num slaves then
       (case get_node (sl_nodes slaves) i of
          Inl e \<Rightarrow> Inl e
        | Inr n \<Rightarrow>
            (case get_node (sl_nodes slaves) (c_rem (i + 1) (sl_num slaves)) of
               Inl e \<Rightarrow> Inl e
             | Inr m \<Rightarrow> if holds_key (sn_key n) (sn_key m) key then Inr i else socket_loop slaves key (i + 1)))
     else Inr (sl_num slaves))"
  by pat_completeness auto
termination by (relation "measure (\<lambda>(slaves, key, i). nat (sl_num slaves - i))") auto

declare socket_loop.simps [simp del]

definition GetSocket :: "SlaveList \<Rightarrow> u32 \<Rightarrow> int exec" where
  "GetSocket slaves key =
    andThen (socket_loop slaves (uint key mod MAX_KEY) 0) (\<lambda>index.
    andThen (c_assert (index \<noteq> sl_num slaves)) (\<lambda>_. Inr index))"

section \<open>The operations\<close>

text \<open>Using a list through its pointer.\<close>

definition with_list :: "nat option \<Rightarrow> 'w client \<Rightarrow> (nat \<Rightarrow> SlaveList \<Rightarrow> 'r exec) \<Rightarrow> 'r exec" where
  "with_list hdb c f =
    (case hdb of
       None \<Rightarrow> Inl NullDeref
     | Some p \<Rightarrow> (case cl_lists c p of None \<Rightarrow> Inl UseAfterFree | Some slaves \<Rightarrow> f p slaves))"

text \<open>A list that could not be opened stays allocated.\<close>

definition DBCreate :: "'w cenv \<Rightarrow> bytes \<Rightarrow> 'w client \<Rightarrow> (nat option \<times> 'w client) exec" where
  "DBCreate ce dbName c =
    (if length dbName < 1024 then
       (let c = c\<lparr>cl_dbname := dbName\<rparr>; p = cl_next c; c = c\<lparr>cl_next := p + 1\<rparr> in
        andThen (OpenAllCloudNodes ce (ce_list ce) c) (\<lambda>(r, slaves, c).
        let c = c\<lparr>cl_lists := (cl_lists c)(p \<mapsto> slaves)\<rparr> in
        if r = -1 then Inr (None, c) else Inr (Some p, c)))
     else Inl OutOfBounds)"

definition DBDelete :: "'w cenv \<Rightarrow> nat option \<Rightarrow> 'w client \<Rightarrow> (int \<times> 'w client) exec" where
  "DBDelete ce hdb c =
    with_list hdb c (\<lambda>p slaves.
    andThen (CloseAllCloudNodes ce slaves (-1) (cl_w c)) (\<lambda>(res, w).
    Inr (res, c\<lparr>cl_lists := (cl_lists c)(p := None), cl_w := w\<rparr>)))"

text \<open>
  What the three operations on a key have in common, from \<open>REDO\<close> to the reply: \<open>value\<close> is the string that
  \<open>SET\<close> appends. The results of closing and opening are not looked at.
\<close>

definition reopen :: "'w cenv \<Rightarrow> SlaveList \<Rightarrow> int \<Rightarrow> 'w client \<Rightarrow> (SlaveList \<times> 'w client) exec" where
  "reopen ce slaves except_sock c =
    andThen (CloseAllCloudNodes ce slaves except_sock (cl_w c)) (\<lambda>(_, w).
    andThen (OpenAllCloudNodes ce slaves (c\<lparr>cl_w := w\<rparr>)) (\<lambda>(_, slaves, c). Inr (slaves, c)))"

definition key_packet :: "'w cenv \<Rightarrow> cmd \<Rightarrow> u32 \<Rightarrow> bytes option \<Rightarrow> SlaveList \<Rightarrow> bytes \<Rightarrow> bytes" where
  "key_packet ce cmd key value slaves buf =
    (let buf = WriteHeader buf
           ((ce_hdr ce)\<lparr>hd_cmd := cmd_code cmd, hd_key := sint key, hd_version := sint (sl_version slaves)\<rparr>) in
     case value of
       None \<Rightarrow> buf
     | Some v \<Rightarrow> snd (Append buf (c_str v @ [0]) (int (length (c_str v)) + 1)))"

fun redo_loop ::
  "nat \<Rightarrow> 'w cenv \<Rightarrow> cmd \<Rightarrow> u32 \<Rightarrow> bytes option \<Rightarrow> bytes \<Rightarrow> SlaveList \<Rightarrow> 'w client
    \<Rightarrow> (bytes \<times> SlaveList \<times> 'w client) exec" where
  "redo_loop 0 ce cmd key value buf slaves c = Inl Hangs"
| "redo_loop (Suc n) ce cmd key value buf slaves c =
    andThen (GetSocket slaves key) (\<lambda>i.
    andThen (get_node (sl_nodes slaves) i) (\<lambda>node.
    let sock = sn_sock node; buf = key_packet ce cmd key value slaves buf in
    andThen (SendMsg (ce_net ce) sock buf (cl_w c)) (\<lambda>w.
    andThen (RecvMsg (ce_net ce) sock buf w) (\<lambda>(res, buf, w).
    let c = c\<lparr>cl_w := w\<rparr> in
    if res \<le> 0 then
      andThen (reopen ce slaves sock c) (\<lambda>(slaves, c). redo_loop n ce cmd key value buf slaves c)
    else if hd_cmd (GetHeader buf) = cmd_code UPDATE_VERSION then
      andThen (reopen ce slaves (-1) c) (\<lambda>(slaves, c). redo_loop n ce cmd key value buf slaves c)
    else Inr (buf, slaves, c)))))"

definition key_request ::
  "'w cenv \<Rightarrow> cmd \<Rightarrow> nat option \<Rightarrow> u32 \<Rightarrow> bytes option \<Rightarrow> 'w client \<Rightarrow> (bytes \<times> 'w client) exec" where
  "key_request ce cmd hdb key value c =
    with_list hdb c (\<lambda>p slaves.
    andThen (redo_loop (ce_fuel ce) ce cmd key value (ce_buf ce) slaves c) (\<lambda>(buf, slaves, c).
    Inr (buf, c\<lparr>cl_lists := (cl_lists c)(p \<mapsto> slaves)\<rparr>)))"

definition DBSetKeyValue ::
  "'w cenv \<Rightarrow> nat option \<Rightarrow> u32 \<Rightarrow> bytes \<Rightarrow> 'w client \<Rightarrow> (int \<times> 'w client) exec" where
  "DBSetKeyValue ce hdb key value c =
    andThen (key_request ce SET hdb key (Some value) c) (\<lambda>(buf, c).
    Inr (if hd_cmd (GetHeader buf) = cmd_code CMDFAIL then -1 else 0, c))"

text \<open>
  The pointer that is returned leads into the function's own stack frame, which is gone by then: \<open>DeadFrame b\<close> is such a
  pointer, \<open>b\<close> being what stood there when the function returned. To read through it is a fault.
\<close>

datatype dbValue = Null | DeadFrame bytes

definition DBGetKeyValue ::
  "'w cenv \<Rightarrow> nat option \<Rightarrow> u32 \<Rightarrow> 'w client \<Rightarrow> (dbValue \<times> 'w client) exec" where
  "DBGetKeyValue ce hdb key c =
    andThen (key_request ce GET hdb key None c) (\<lambda>(buf, c).
    Inr (if hd_cmd (GetHeader buf) = cmd_code CMDFAIL then Null else DeadFrame (GetAppend buf), c))"

text \<open>What a caller gets that looks at the string behind the pointer.\<close>

definition read_value :: "dbValue \<times> 's \<Rightarrow> (bytes option \<times> 's) exec" where
  "read_value = (\<lambda>(p, s). case p of Null \<Rightarrow> Inr (None, s) | DeadFrame b \<Rightarrow> Inl UseAfterFree)"

lemma read_value_simps [simp]: "read_value (Null, s) = Inr (None, s)" "read_value (DeadFrame b, s) = Inl UseAfterFree"
  by (simp_all add: read_value_def)

definition DBDelKeyValue :: "'w cenv \<Rightarrow> nat option \<Rightarrow> u32 \<Rightarrow> 'w client \<Rightarrow> (int \<times> 'w client) exec" where
  "DBDelKeyValue ce hdb key c =
    andThen (key_request ce DEL hdb key None c) (\<lambda>(buf, c).
    Inr (if hd_cmd (GetHeader buf) = cmd_code CMDFAIL then -1 else 0, c))"

section \<open>Routing\<close>

lemma holds_key_iff:
  "ring_key a \<Longrightarrow> ring_key b \<Longrightarrow> ring_key k \<Longrightarrow> holds_key a b k \<longleftrightarrow> in_section a b k"
  by (auto simp: holds_key_def in_section_iff ring_key_def MAX_KEY_def to_u32_small)

lemma get_node_live:
  assumes "ring_list sl" and "0 \<le> i" and "i < sl_num sl"
  shows "\<exists>n. get_node (sl_nodes sl) i = Inr n \<and> n = live sl ! nat i \<and> sn_key n = keys sl ! nat i"
proof -
  have "list_ok sl" using assms(1) by (simp add: ring_list_def)
  then have "i < int (length (sl_nodes sl))" "nat i < length (live sl)"
    using assms(2,3) by (simp_all add: list_ok_def length_live)
  then show ?thesis using assms(2,3) by (simp add: get_node_def keys_def) (simp add: live_def)
qed

lemma next_index:
  assumes "0 \<le> i" and "i < n"
  shows "0 \<le> c_rem (i + 1) n" and "c_rem (i + 1) n < n" and "nat (c_rem (i + 1) n) = Suc (nat i) mod nat n"
proof -
  have e: "c_rem (i + 1) n = (i + 1) mod n" using assms by (intro c_rem_nonneg) auto
  show "0 \<le> c_rem (i + 1) n" and "c_rem (i + 1) n < n" using assms by (simp_all add: e)
  have "nat ((i + 1) mod n) = nat (i + 1) mod nat n" using assms by (intro nat_mod_distrib) auto
  then show "nat (c_rem (i + 1) n) = Suc (nat i) mod nat n" using assms by (simp add: e nat_add_distrib)
qed

lemma owner_iff:
  assumes "ring_list sl" and "0 \<le> i" and "i < sl_num sl"
  shows "owner (keys sl) (nat i) k
    \<longleftrightarrow> in_section (keys sl ! nat i) (keys sl ! nat (c_rem (i + 1) (sl_num sl))) k"
proof -
  have "length (keys sl) = nat (sl_num sl)" using assms(1) by (simp add: ring_list_def length_keys)
  then show ?thesis using assms next_index [OF assms(2,3)] by (simp add: owner_def sec_lo_def sec_hi_def)
qed

lemma socket_loop_spec:
  assumes "ring_list sl" and "ring_key k" and "0 \<le> i"
  shows "(\<exists>j. socket_loop sl k i = Inr j \<and> 0 \<le> j \<and> j < sl_num sl \<and> owner (keys sl) (nat j) k)
    \<or> socket_loop sl k i = Inr (sl_num sl) \<and> (\<forall>j. i \<le> j \<longrightarrow> j < sl_num sl \<longrightarrow> \<not> owner (keys sl) (nat j) k)"
  using assms
proof (induction sl k i rule: socket_loop.induct)
  case (1 sl k i)
  show ?case
  proof (cases "i < sl_num sl")
    case True
    let ?j = "c_rem (i + 1) (sl_num sl)"
    note nx = next_index [OF \<open>0 \<le> i\<close> True]
    obtain n where n: "get_node (sl_nodes sl) i = Inr n" "sn_key n = keys sl ! nat i"
      using get_node_live [OF 1(2,4) True] by blast
    obtain m where m: "get_node (sl_nodes sl) ?j = Inr m" "sn_key m = keys sl ! nat ?j"
      using get_node_live [OF 1(2) nx(1,2)] by blast
    have hk: "holds_key (sn_key n) (sn_key m) k \<longleftrightarrow> owner (keys sl) (nat i) k"
      using holds_key_iff [OF ring_list_key [OF 1(2,4) True] ring_list_key [OF 1(2) nx(1,2)] 1(3)]
        owner_iff [OF 1(2,4) True] n m by simp
    show ?thesis
    proof (cases "owner (keys sl) (nat i) k")
      case own: True
      then show ?thesis using True n m hk 1(4) by (simp add: socket_loop.simps [of sl k i])
    next
      case False
      then have step: "socket_loop sl k i = socket_loop sl k (i + 1)"
        using True n m hk by (simp add: socket_loop.simps [of sl k i])
      have "\<not> holds_key (sn_key n) (sn_key m) k" using hk False by simp
      from 1(1) [OF True n(1) m(1) this 1(2,3)] 1(4)
      have "(\<exists>j. socket_loop sl k (i + 1) = Inr j \<and> 0 \<le> j \<and> j < sl_num sl \<and> owner (keys sl) (nat j) k)
        \<or> socket_loop sl k (i + 1) = Inr (sl_num sl)
          \<and> (\<forall>j. i + 1 \<le> j \<longrightarrow> j < sl_num sl \<longrightarrow> \<not> owner (keys sl) (nat j) k)" by simp
      moreover have "\<not> owner (keys sl) (nat j) k"
        if "\<forall>j. i + 1 \<le> j \<longrightarrow> j < sl_num sl \<longrightarrow> \<not> owner (keys sl) (nat j) k" "i \<le> j" "j < sl_num sl" for j
        using that False by (cases "i = j") auto
      ultimately show ?thesis unfolding step by blast
    qed
  next
    case False
    then show ?thesis by (simp add: socket_loop.simps [of sl k i])
  qed
qed

lemma GetSocket_owner:
  assumes "ring_list sl" and "0 < sl_num sl"
  shows "\<exists>i. GetSocket sl key = Inr i \<and> 0 \<le> i \<and> i < sl_num sl \<and> owner (keys sl) (nat i) (uint key mod MAX_KEY)"
proof -
  let ?k = "uint key mod MAX_KEY"
  have k: "ring_key ?k" by (simp add: ring_key_def MAX_KEY_def)
  have len: "length (keys sl) = nat (sl_num sl)" using assms(1) by (simp add: ring_list_def length_keys)
  then have "keys sl \<noteq> []" using assms(2) by auto
  then obtain j where j: "owner (keys sl) j ?k"
    using ring_owner_unique [of "keys sl" ?k] assms(1) by (auto simp: ring_list_def)
  then have "int j < sl_num sl" using len by (simp add: owner_def zless_nat_eq_int_zless)
  with j have "\<not> (\<forall>j. 0 \<le> j \<longrightarrow> j < sl_num sl \<longrightarrow> \<not> owner (keys sl) (nat j) ?k)"
    by (metis nat_int of_nat_0_le_iff)
  with socket_loop_spec [OF assms(1) k, of 0] show ?thesis
    by (auto simp: GetSocket_def)
qed

section \<open>Properties\<close>

text \<open>C18: every key goes to exactly one slave: on a list that is a ring, \<open>GetSocket\<close> returns the
  index of the one slave whose section holds the key modulo \<open>MAX_KEY\<close>; its assertion and
  its array accesses never fail.\<close>

theorem key_has_one_socket:
  assumes "ring_list sl" and "0 < sl_num sl"
  shows "\<exists>i. GetSocket sl key = Inr i \<and> 0 \<le> i \<and> i < sl_num sl
    \<and> (\<forall>j. owner (keys sl) j (uint key mod MAX_KEY) \<longleftrightarrow> j = nat i)"
proof -
  obtain i where i: "GetSocket sl key = Inr i" "0 \<le> i" "i < sl_num sl" "owner (keys sl) (nat i) (uint key mod MAX_KEY)"
    using GetSocket_owner [OF assms] by blast
  have "ring (keys sl)" "keys sl \<noteq> []" using assms(1) i(4) by (auto simp: ring_list_def owner_def)
  with ring_owner_unique i show ?thesis by blast
qed

theorem key_has_one_socket_witness:
  "\<exists>i. GetSocket two_nodes 1000 = Inr i \<and> 0 \<le> i \<and> i < 2
    \<and> (\<forall>j. owner (keys two_nodes) j (uint (1000::u32) mod MAX_KEY) \<longleftrightarrow> j = nat i)"
  using key_has_one_socket [OF two_nodes_ring, of 1000] by (simp add: two_nodes_def)

lemma key_request_once:
  assumes "ring_list sl" and "0 < sl_num sl" and "GetSocket sl key = Inr i" and "cl_lists c p = Some sl"
    and "sn_sock (live sl ! nat i) = sock" and "sock \<noteq> -1" and "0 < ce_fuel ce"
    and "packet_buf (key_packet ce cmd key value sl (ce_buf ce))"
    and "n_recv (ce_net ce) sock (n_send (ce_net ce) sock (key_packet ce cmd key value sl (ce_buf ce)) (cl_w c)) = (Some b, w)"
    and "packet_buf b" and "hd_cmd (GetHeader b) \<noteq> cmd_code UPDATE_VERSION"
  shows "key_request ce cmd (Some p) key value c = Inr (b, c\<lparr>cl_w := w\<rparr>)"
proof -
  let ?p = "key_packet ce cmd key value sl (ce_buf ce)"
  obtain n where fuel: "ce_fuel ce = Suc n" using assms(7) by (cases "ce_fuel ce") auto
  have i: "0 \<le> i" "i < sl_num sl" using GetSocket_owner [OF assms(1,2), of key] assms(3) by auto
  have "get_node (sl_nodes sl) i = Inr (live sl ! nat i)" using get_node_live [OF assms(1) i] by auto
  moreover have "recv_into (ce_net ce) sock ?p (n_send (ce_net ce) sock ?p (cl_w c)) = (int MAX_BUF_LEN, b, w)"
    by (rule recv_into_full [OF assms(9,10,8)])
  moreover have "0 < int MAX_BUF_LEN" by (simp add: MAX_BUF_LEN_def)
  moreover have "(cl_lists c)(p \<mapsto> sl) = cl_lists c" using assms(4) by auto
  ultimately show ?thesis
    using assms(3-6,8,11) by (simp add: key_request_def with_list_def fuel Let_def)
qed

text \<open>C19: a key that is set goes to its slave with its value: \<open>b\<close> is the packet of \<open>SET\<close>, the key, the list's version and
  the string with its NUL, and reads back as just these. When the list is a ring and the key's owner answers this packet, on its
  socket, at once and with anything but \<open>UPDATE_VERSION\<close> (whatever any other packet or socket would do), \<open>DBSetKeyValue\<close>
  sends it, ends with that answer and returns 0, or -1 for \<open>CMDFAIL\<close>.\<close>

theorem set_reaches_owner:
  assumes "ring_list sl" and "0 < sl_num sl" and "GetSocket sl key = Inr i" and "cl_lists c p = Some sl"
    and "sn_sock (live sl ! nat i) = sock" and "sock \<noteq> -1" and "0 < ce_fuel ce"
    and "packet_buf (ce_buf ce)" and "header_ok (ce_hdr ce)" and "length (c_str value) < APPENDSIZE"
    and b_def: "b = packet (ce_buf ce) ((ce_hdr ce)\<lparr>hd_cmd := cmd_code SET, hd_key := sint key, hd_version := sint (sl_version sl)\<rparr>)
      (c_str value @ [0])"
    and "n_recv (ce_net ce) sock (n_send (ce_net ce) sock b (cl_w c)) = (Some reply, w)"
    and "packet_buf reply" and "hd_cmd (GetHeader reply) \<noteq> cmd_code UPDATE_VERSION"
  shows "DBSetKeyValue ce (Some p) key value c
      = Inr (if hd_cmd (GetHeader reply) = cmd_code CMDFAIL then -1 else 0, c\<lparr>cl_w := w\<rparr>)
    \<and> hd_cmd (GetHeader b) = cmd_code SET \<and> word_of_int (hd_key (GetHeader b)) = key
    \<and> word_of_int (hd_version (GetHeader b)) = sl_version sl \<and> c_str (GetAppend b) = c_str value"
proof -
  let ?h = "(ce_hdr ce)\<lparr>hd_cmd := cmd_code SET, hd_key := sint key, hd_version := sint (sl_version sl)\<rparr>"
  let ?d = "c_str value @ [0]"
  have d: "length ?d \<le> APPENDSIZE" using assms(10) by simp
  have "int32 (sint w)" for w :: u32 using sint_ge [of w] sint_lt [of w] by (simp add: int32_def)
  then have h: "header_ok ?h" by (simp add: header_ok_def)
  have b: "key_packet ce SET key (Some value) sl (ce_buf ce) = b"
    using Append_packet [OF assms(8) d, of ?h] by (simp add: key_packet_def b_def add.commute)
  have buf: "packet_buf b" unfolding b_def by (rule packet_buf_packet [OF assms(8) d])
  have "key_request ce SET (Some p) key (Some value) c = Inr (reply, c\<lparr>cl_w := w\<rparr>)"
    using assms(12-14) buf by (intro key_request_once [OF assms(1-7)]) (simp_all add: b)
  moreover have "c_str (GetAppend b) = c_str value"
    using c_str_no_nul [of "value"] by (simp add: b_def GetAppend_packet [OF assms(8) d])
  moreover have "GetHeader b = ?h\<lparr>hd_size := 16 + int (length ?d)\<rparr>"
    unfolding b_def by (rule GetHeader_packet [OF assms(8) h d])
  ultimately show ?thesis by (simp add: DBSetKeyValue_def Let_def)
qed

text \<open>A value of 1008 characters or more is lost: \<open>Append\<close> refuses it, the result is not
  looked at, and the packet that is sent is the bare header over whatever the buffer held.\<close>

lemma long_value_lost:
  assumes "packet_buf (ce_buf ce)" and "APPENDSIZE \<le> length (c_str value)" and "length (c_str value) < 2 ^ 31"
  shows "hd_size (GetHeader (key_packet ce SET key (Some value) sl (ce_buf ce))) = 16
    \<and> GetAppend (key_packet ce SET key (Some value) sl (ce_buf ce)) = GetAppend (ce_buf ce)"
proof -
  have "to_u64 (int (length (c_str value)) + 1) > int APPENDSIZE"
    using assms(2,3) by (simp add: to_u64_small)
  then show ?thesis
    using assms(1) by (simp add: key_packet_def Append_def Let_def hd_size_WriteHeader GetAppend_WriteHeader)
qed

lemma long_value_lost_example:
  "\<forall>net. GetAppend (key_packet \<lparr>ce_net = net, ce_hdr = \<lparr>hd_size = 0, hd_cmd = 0, hd_key = 0, hd_version = 0\<rparr>,
      ce_list = two_nodes, ce_buf = zeros MAXPACKETLEN, ce_fuel = 1\<rparr> SET 5 (Some (replicate 1008 65)) two_nodes
      (zeros MAXPACKETLEN))
    = GetAppend (zeros MAXPACKETLEN)"
proof
  fix net :: "'w net"
  let ?ce = "\<lparr>ce_net = net, ce_hdr = \<lparr>hd_size = 0, hd_cmd = 0, hd_key = 0, hd_version = 0\<rparr>,
    ce_list = two_nodes, ce_buf = zeros MAXPACKETLEN, ce_fuel = 1\<rparr>"
  have "c_str (replicate 1008 65) = replicate 1008 65" by (rule c_str_idem) simp
  then have len: "length (c_str (replicate 1008 65)) = 1008" by simp
  show "GetAppend (key_packet ?ce SET 5 (Some (replicate 1008 65)) two_nodes (zeros MAXPACKETLEN))
    = GetAppend (zeros MAXPACKETLEN)"
    using long_value_lost [of ?ce "replicate 1008 65" 5 two_nodes] len by (simp add: packet_consts packet_buf_def)
qed

definition reply_net :: "bytes \<Rightarrow> nat net" where
  "reply_net b = \<lparr>n_socket = (\<lambda>w. (3, w)), n_bind = (\<lambda>_ _ _ w. (0, w)), n_listen = (\<lambda>_ w. (0, w)),
    n_accept = (\<lambda>_ w. (7, 0, w)), n_connect = (\<lambda>_ _ _ w. (0, w)), n_send = (\<lambda>_ _ w. Suc w),
    n_recv = (\<lambda>_ w. (Some b, w)), n_close = (\<lambda>_ w. w), n_port = (\<lambda>_ _. 4000)\<rparr>"

definition reply_env :: "bytes \<Rightarrow> nat cenv" where
  "reply_env b = \<lparr>ce_net = reply_net b, ce_hdr = \<lparr>hd_size = 0, hd_cmd = 0, hd_key = 0, hd_version = 0\<rparr>,
    ce_list = two_nodes, ce_buf = zeros MAXPACKETLEN, ce_fuel = 1\<rparr>"

definition a_client :: "nat client" where
  "a_client = \<lparr>cl_master_sock = 3, cl_master_addr = None, cl_master_port = 5001, cl_dbname = [97],
    cl_xbuf = zeros MAX_BUF_LEN, cl_next = 1, cl_lists = [0 \<mapsto> two_nodes], cl_w = 0\<rparr>"

definition set_done :: bytes where
  "set_done = WriteHeader (zeros MAXPACKETLEN) \<lparr>hd_size = 0, hd_cmd = cmd_code SET_R, hd_key = 0, hd_version = 0\<rparr>"

theorem set_reaches_owner_witness:
  "DBSetKeyValue (reply_env set_done) (Some 0) 1000 [72, 105, 0] a_client = Inr (0, a_client\<lparr>cl_w := 1\<rparr>)"
proof -
  let ?h = "\<lparr>hd_size = 0, hd_cmd = cmd_code SET_R, hd_key = 0, hd_version = 0\<rparr>"
  have "GetHeader set_done = ?h\<lparr>hd_size := int HEADERLEN\<rparr>"
    unfolding set_done_def by (rule GetHeader_WriteHeader) (simp_all add: header_ok_def int32_def)
  then have cmd: "hd_cmd (GetHeader set_done) = cmd_code SET_R" by simp
  have "GetSocket two_nodes 1000 = Inr 0"
    by (simp add: GetSocket_def socket_loop.simps [of _ _ 0] two_nodes_def get_node_def c_rem_nonneg holds_key_def
        MAX_KEY_def to_u32_def)
  then have s: "ring_list two_nodes" "0 < sl_num two_nodes" "GetSocket two_nodes 1000 = Inr 0"
    "sn_sock (live two_nodes ! nat 0) = 5"
    using two_nodes_ring by (simp_all add: two_nodes_def live_def)
  have l: "cl_lists a_client 0 = Some two_nodes" by (simp add: a_client_def)
  show ?thesis
    using set_reaches_owner [OF s(1-3) l s(4), of "reply_env set_done" "[72, 105, 0]", OF _ _ _ _ _ refl, of set_done 1] cmd
    by (simp add: reply_env_def reply_net_def header_ok_def int32_def c_str_def packet_consts a_client_def set_done_def packet_buf_def)
qed

end
