(* ===== verification/Cluster.thy ===== *)
theory Cluster
  imports Master SlaveRequests NetDbApi
begin

text \<open>
  The cluster as a whole: the master's list and every slave's copy of it. A slave that joins
  is answered with the master's list and its own position (\<open>ADD_SLAVE\<close> in \<^verbatim>\<open>server/master.c\<close>,
  \<open>RegisterAndLoadSlaves\<close> in \<^verbatim>\<open>server/slave.c\<close>) while \<open>NotifyAll\<close> makes all others carry out
  \<open>NEW_SLAVE\<close>; one that leaves is taken out with \<open>DEL_SLAVE\<close>, and the others carry out
  \<open>RM_SLAVE\<close>. The master serves one request at a time and waits for every reply, so each is one step.
\<close>

section \<open>What it is to follow the master\<close>

text \<open>
  The contract of a copy: it adds and removes nodes by position, counts versions, and keeps
  its own position right.
\<close>

locale replica =
  fixes ok :: "'s \<Rightarrow> bool"
    and nodes :: "'s \<Rightarrow> SlaveNode list"
    and version :: "'s \<Rightarrow> u32"
    and own :: "'s \<Rightarrow> nat"
    and add :: "int \<Rightarrow> SlaveNode \<Rightarrow> 's \<Rightarrow> 's exec"
    and del :: "int \<Rightarrow> 's \<Rightarrow> 's exec"
  assumes add: "ok s \<Longrightarrow> p \<le> length (nodes s) \<Longrightarrow> length (nodes s) < MAX_SLAVE_NUM \<Longrightarrow>
      \<exists>s'. add (int p) n s = Inr s' \<and> ok s' \<and> nodes s' = insert_at p n (nodes s)
        \<and> version s' = version s + 1 \<and> own s' = index_ins p (own s)"
    and del: "ok s \<Longrightarrow> p < length (nodes s) \<Longrightarrow> p \<noteq> own s \<Longrightarrow>
      \<exists>s'. del (int p) s = Inr s' \<and> ok s' \<and> nodes s' = remove_at p (nodes s)
        \<and> version s' = version s + 1 \<and> own s' = index_del p (own s)"
begin

definition follows :: "SlaveNode list \<Rightarrow> u32 \<Rightarrow> nat \<Rightarrow> 's \<Rightarrow> bool" where
  "follows ns v i s \<longleftrightarrow> ok s \<and> nodes s = ns \<and> version s = v \<and> own s = i"

lemma follows_add:
  "follows ns v i s \<Longrightarrow> p \<le> length ns \<Longrightarrow> length ns < MAX_SLAVE_NUM \<Longrightarrow>
    \<exists>s'. add (int p) n s = Inr s' \<and> follows (insert_at p n ns) (v + 1) (index_ins p i) s'"
  using add [of s p n] by (auto simp: follows_def)

lemma follows_del:
  "follows ns v i s \<Longrightarrow> p < length ns \<Longrightarrow> p \<noteq> i \<Longrightarrow>
    \<exists>s'. del (int p) s = Inr s' \<and> follows (remove_at p ns) (v + 1) (index_del p i) s'"
  using del [of s p] by (auto simp: follows_def)

end

interpretation rep: replica pos_ok "\<lambda>s. live (s_slaves s)" "\<lambda>s. sl_version (s_slaves s)" "\<lambda>s. nat (s_pos s)"
  note_new_slave note_rm_slave
proof (unfold_locales, goal_cases)
  case (1 s p n)
  then have ok: "list_ok (s_slaves s)" and num: "sl_num (s_slaves s) = int (length (live (s_slaves s)))"
    by (simp_all add: pos_ok_def sl_num_live)
  then have "int p \<le> sl_num (s_slaves s)" "sl_num (s_slaves s) < int MAX_SLAVE_NUM" using 1 by simp_all
  from note_new_slave_spec [OF 1(1) _ this, of n] 1(1) show ?case
    by (auto simp: pos_ok_def index_ins_def)
next
  case (2 s p)
  then have num: "sl_num (s_slaves s) = int (length (live (s_slaves s)))" by (simp add: pos_ok_def sl_num_live)
  then have "int p < sl_num (s_slaves s)" "int p \<noteq> s_pos s" using 2 by auto
  from note_rm_slave_spec [OF 2(1) _ this] 2(1) this show ?case
    by (auto simp: pos_ok_def index_del_def)
qed

section \<open>The steps of the cluster\<close>

text \<open>The slaves are named by the sockets on which the master knows them.\<close>

record 'm cluster =
  cs_list :: SlaveList
  cs_slaves :: "int \<rightharpoonup> 'm slave"

text \<open>\<open>notified\<close> runs a slave's part of \<open>NotifyAll\<close> on all slaves but one.\<close>

definition notified :: "('m slave \<Rightarrow> 'm slave exec) \<Rightarrow> int \<Rightarrow> (int \<rightharpoonup> 'm slave) \<Rightarrow> (int \<rightharpoonup> 'm slave) \<Rightarrow> bool" where
  "notified f but old new \<longleftrightarrow>
    (\<forall>fd. fd \<noteq> but \<longrightarrow>
      (case old fd of None \<Rightarrow> new fd = None | Some s \<Rightarrow> (\<exists>s'. f s = Inr s' \<and> new fd = Some s')))"

inductive cstep :: "'m cluster \<Rightarrow> 'm cluster \<Rightarrow> bool" where
  Join: "AddToSlaveList rnd sn (cs_list c) = Inr (p, sl) \<Longrightarrow> 0 \<le> rnd \<Longrightarrow>
    cs_slaves c (sn_sock sn) = None \<Longrightarrow>
    notified (note_new_slave p (node_at sl p)) (sn_sock sn) (cs_slaves c) new \<Longrightarrow>
    new (sn_sock sn) = Some s \<Longrightarrow> s_slaves s = sl \<Longrightarrow> s_pos s = p \<Longrightarrow>
    sl_num (cs_list c) < int MAX_SLAVE_NUM \<Longrightarrow>
    cstep c \<lparr>cs_list = sl, cs_slaves = new\<rparr>"
| Leave: "0 \<le> p \<Longrightarrow> p < sl_num (cs_list c) \<Longrightarrow> DelFromSlaveList p (cs_list c) = Inr sl \<Longrightarrow>
    notified (note_rm_slave p) (sn_sock (node_at (cs_list c) p)) (cs_slaves c) new \<Longrightarrow>
    new (sn_sock (node_at (cs_list c) p)) = None \<Longrightarrow>
    cstep c \<lparr>cs_list = sl, cs_slaves = new\<rparr>"

inductive_simps cstep_iff: "cstep c c'"

inductive creach :: "'m cluster \<Rightarrow> bool" where
  Empty: "list_ok sl \<Longrightarrow> sl_num sl = 0 \<Longrightarrow> creach \<lparr>cs_list = sl, cs_slaves = Map.empty\<rparr>"
| Next: "creach c \<Longrightarrow> cstep c c' \<Longrightarrow> creach c'"

section \<open>All copies agree\<close>

definition socks :: "SlaveList \<Rightarrow> int list" where
  "socks sl = map sn_sock (live sl)"

definition cluster_ok :: "'m cluster \<Rightarrow> bool" where
  "cluster_ok c \<longleftrightarrow> ring_list (cs_list c) \<and> distinct (socks (cs_list c))
    \<and> dom (cs_slaves c) = set (socks (cs_list c))
    \<and> (\<forall>i s. i < length (live (cs_list c)) \<longrightarrow> cs_slaves c (socks (cs_list c) ! i) = Some s \<longrightarrow>
         rep.follows (live (cs_list c)) (sl_version (cs_list c)) i s)"

lemma cluster_okD:
  assumes "cluster_ok c" and "cs_slaves c fd = Some s"
  shows "\<exists>i < length (live (cs_list c)). socks (cs_list c) ! i = fd
    \<and> rep.follows (live (cs_list c)) (sl_version (cs_list c)) i s"
proof -
  have "fd \<in> set (socks (cs_list c))" using assms by (auto simp: cluster_ok_def)
  then obtain i where "i < length (socks (cs_list c))" "socks (cs_list c) ! i = fd"
    by (auto simp: in_set_conv_nth)
  then show ?thesis using assms by (auto simp: cluster_ok_def socks_def)
qed

lemma notified_dom: "notified f but old new \<Longrightarrow> dom new - {but} = dom old - {but}"
  by (auto simp: notified_def dom_def split: option.splits)

lemma notifiedD:
  "notified f but old new \<Longrightarrow> new fd = Some s' \<Longrightarrow> fd \<noteq> but \<Longrightarrow> \<exists>s. old fd = Some s \<and> f s = Inr s'"
  by (force simp: notified_def split: option.splits)

lemma cstep_join:
  assumes ok: "cluster_ok c" and add: "AddToSlaveList rnd sn (cs_list c) = Inr (p, sl)" "0 \<le> rnd"
    and new: "cs_slaves c (sn_sock sn) = None" "notified (note_new_slave p (node_at sl p)) (sn_sock sn) (cs_slaves c) new"
    and s: "new (sn_sock sn) = Some s" "s_slaves s = sl" "s_pos s = p" and n: "sl_num (cs_list c) < int MAX_SLAVE_NUM"
  shows "cluster_ok \<lparr>cs_list = sl, cs_slaves = new\<rparr>"
proof -
  let ?L = "live (cs_list c)"
  have rl: "ring_list (cs_list c)" using ok by (simp add: cluster_ok_def)
  obtain n where sl: "ring_list sl" "0 \<le> p" "p \<le> sl_num (cs_list c)" "sl_num sl = sl_num (cs_list c) + 1"
    "sl_version sl = sl_version (cs_list c) + 1" "live sl = insert_at (nat p) n ?L" "sn_sock n = sn_sock sn"
    using AddToSlaveList_ring [OF rl n add(2), of sn] add(1) by auto
  define q where "q = nat p"
  have len: "int (length ?L) = sl_num (cs_list c)" using rl by (simp add: ring_list_def sl_num_live)
  have q: "int q = p" "q \<le> length ?L" "length ?L < MAX_SLAVE_NUM" using sl(2,3) len n by (simp_all add: q_def)
  have lv: "live sl = insert_at q n ?L" using sl(6) by (simp add: q_def)
  have at: "node_at sl p = n"
    using node_at_live [of p sl] sl(2-4) lv q by (simp add: q_def [symmetric] nth_insert_at)
  have sk: "socks sl = insert_at q (sn_sock sn) (socks (cs_list c))"
    using lv sl(7) by (simp add: socks_def)
  have fresh: "sn_sock sn \<notin> set (socks (cs_list c))" using ok new(1) by (auto simp: cluster_ok_def)
  have d: "distinct (socks sl)" using ok fresh by (simp add: sk cluster_ok_def)
  have "dom new = insert (sn_sock sn) (dom (cs_slaves c))"
    using notified_dom [OF new(2)] s(1) new(1) by auto
  then have dom: "dom new = set (socks sl)" using ok by (simp add: sk cluster_ok_def)
  have "rep.follows (live sl) (sl_version sl) i t" if i: "i < length (live sl)" "new (socks sl ! i) = Some t" for i t
  proof (cases "i = q")
    case True
    have "socks sl ! q = sn_sock sn" using q(2) unfolding sk by (simp add: nth_insert_at socks_def)
    then have "t = s" using True i(2) s(1) by simp
    moreover have "pos_ok s" using s(2,3) sl(1-4) by (simp add: pos_ok_def ring_list_def)
    ultimately show ?thesis using True s(2,3) by (simp add: rep.follows_def q_def)
  next
    case False
    let ?fd = "socks sl ! i"
    have "?fd \<noteq> sn_sock sn"
      using d i(1) False q(2) sk by (metis length_insert_at length_map less_Suc_eq_le nth_eq_iff_index_eq nth_insert_at socks_def order_less_irrefl)
    then obtain t0 where t0: "cs_slaves c ?fd = Some t0" "note_new_slave p n t0 = Inr t"
      using notifiedD [OF new(2) i(2)] at by auto
    obtain j where j: "j < length ?L" "socks (cs_list c) ! j = ?fd" "rep.follows ?L (sl_version (cs_list c)) j t0"
      using cluster_okD [OF ok t0(1)] by blast
    have "socks sl ! index_ins q j = ?fd" "index_ins q j < length (live sl)"
      using j(1,2) q(2) by (auto simp: sk lv index_ins_def nth_insert_at socks_def)
    then have "index_ins q j = i"
      using d i(1) by (metis length_map nth_eq_iff_index_eq socks_def)
    then show ?thesis
      using rep.follows_add [OF j(3) q(2,3), of n] t0(2) q(1) sl(5) lv by auto
  qed
  then show ?thesis using sl(1) d dom by (simp add: cluster_ok_def)
qed

lemma cstep_leave:
  assumes ok: "cluster_ok c" and p: "0 \<le> p" "p < sl_num (cs_list c)" and del: "DelFromSlaveList p (cs_list c) = Inr sl"
    and new: "notified (note_rm_slave p) (sn_sock (node_at (cs_list c) p)) (cs_slaves c) new"
    and gone: "new (sn_sock (node_at (cs_list c) p)) = None"
  shows "cluster_ok \<lparr>cs_list = sl, cs_slaves = new\<rparr>"
proof -
  let ?L = "live (cs_list c)"
  have rl: "ring_list (cs_list c)" using ok by (simp add: cluster_ok_def)
  have sl: "ring_list sl" "sl_version sl = sl_version (cs_list c) + 1" "live sl = remove_at (nat p) ?L"
    using DelFromSlaveList_ring [OF rl p] del by auto
  define q where "q = nat p"
  have len: "int (length ?L) = sl_num (cs_list c)" using rl by (simp add: ring_list_def sl_num_live)
  have q: "int q = p" "q < length ?L" using p len by (simp_all add: q_def)
  have lv: "live sl = remove_at q ?L" using sl(3) by (simp add: q_def)
  have fd: "sn_sock (node_at (cs_list c) p) = socks (cs_list c) ! q"
    using node_at_live [OF p] q by (simp add: socks_def q_def)
  have sk: "socks sl = remove_at q (socks (cs_list c))" using lv by (simp add: socks_def)
  have d0: "distinct (socks (cs_list c))" using ok by (simp add: cluster_ok_def)
  then have d: "distinct (socks sl)" by (simp add: sk distinct_remove_at)
  have q': "q < length (socks (cs_list c))" using q by (simp add: socks_def)
  have "set (socks (cs_list c)) = insert (socks (cs_list c) ! q) (set (socks sl))"
    using set_append [of "take q (socks (cs_list c))" "socks (cs_list c) ! q # drop (Suc q) (socks (cs_list c))"] q'
    by (simp add: sk remove_at_def id_take_nth_drop [symmetric])
  then have dom: "dom new = set (socks sl)"
    using notified_dom [OF new] gone ok remove_at_distinct_notin [OF d0 q'] by (auto simp: cluster_ok_def fd sk)
  have "rep.follows (live sl) (sl_version sl) i t" if i: "i < length (live sl)" "new (socks sl ! i) = Some t" for i t
  proof -
    let ?fd = "socks sl ! i"
    have "?fd \<noteq> socks (cs_list c) ! q" using i(2) gone fd by auto
    then obtain t0 where t0: "cs_slaves c ?fd = Some t0" "note_rm_slave p t0 = Inr t"
      using notifiedD [OF new i(2)] fd by auto
    obtain j where j: "j < length ?L" "socks (cs_list c) ! j = ?fd" "rep.follows ?L (sl_version (cs_list c)) j t0"
      using cluster_okD [OF ok t0(1)] by blast
    have jq: "j \<noteq> q" using j(2) \<open>?fd \<noteq> _\<close> by auto
    then have b: "index_del q j < length (live sl)" using j(1) q(2) by (auto simp: lv index_del_def)
    then have "index_del q j < length (socks (cs_list c)) - 1" using q(2) by (simp add: lv socks_def)
    then have "socks sl ! index_del q j = ?fd"
      using j(1,2) q' jq by (auto simp: sk nth_remove_at index_del_def)
    then have "index_del q j = i"
      using d i(1) b by (metis length_map nth_eq_iff_index_eq socks_def)
    then show ?thesis
      using rep.follows_del [OF j(3) q(2)] jq t0(2) q(1) sl(2) lv by auto
  qed
  then show ?thesis using sl(1) d dom by (simp add: cluster_ok_def)
qed

lemma creach_ok: "creach c \<Longrightarrow> cluster_ok c"
proof (induction rule: creach.induct)
  case (Empty sl)
  then show ?case by (simp add: cluster_ok_def ring_list_def keys_def live_def socks_def)
next
  case (Next c c')
  from Next.hyps(2) Next.IH show ?case
    by cases (blast intro: cstep_join cstep_leave)+
qed

lemma follows_list:
  assumes "rep.follows (live sl) v i s" and "ring_list sl"
  shows "ring_list (s_slaves s)" and "keys (s_slaves s) = keys sl" and "sl_num (s_slaves s) = sl_num sl"
    and "s_pos s = int i"
proof -
  have f: "pos_ok s" "live (s_slaves s) = live sl" "nat (s_pos s) = i" using assms(1) by (simp_all add: rep.follows_def)
  show "keys (s_slaves s) = keys sl" using f(2) by (simp add: keys_def)
  then show "ring_list (s_slaves s)" using f(1) assms(2) by (simp add: ring_list_def pos_ok_def)
  show "sl_num (s_slaves s) = sl_num sl"
    using f(1,2) assms(2) sl_num_live [of "s_slaves s"] sl_num_live [of sl] by (simp add: pos_ok_def ring_list_def)
  show "s_pos s = int i" using f(1,3) by (auto simp: pos_ok_def)
qed

lemma GetSocket_same:
  assumes "ring_list sl" and "ring_list sl'" and "keys sl' = keys sl" and "sl_num sl' = sl_num sl" and "0 < sl_num sl"
  shows "GetSocket sl' key = GetSocket sl key"
proof -
  obtain i where i: "GetSocket sl key = Inr i" "0 \<le> i" "owner (keys sl) (nat i) (uint key mod MAX_KEY)"
    using GetSocket_owner [OF assms(1,5)] by blast
  obtain j where j: "GetSocket sl' key = Inr j" "0 \<le> j" "owner (keys sl) (nat j) (uint key mod MAX_KEY)"
    using GetSocket_owner [OF assms(2)] assms(3-5) by force
  have "ring (keys sl)" "keys sl \<noteq> []" using assms(1) i(3) by (auto simp: ring_list_def owner_def)
  then have "nat i = nat j" using ring_owner_unique i(3) j(3) by blast
  then show ?thesis using i j by simp
qed

lemma notified_exists:
  assumes "\<And>fd s. fd \<noteq> but \<Longrightarrow> old fd = Some s \<Longrightarrow> \<exists>s'. f s = Inr s'"
  shows "notified f but old ((\<lambda>fd. case old fd of None \<Rightarrow> None | Some s \<Rightarrow> Some (projr (f s)))(but := x))"
  unfolding notified_def
proof (intro allI impI)
  fix fd assume "fd \<noteq> but"
  then show "case old fd of None \<Rightarrow> ((\<lambda>fd. case old fd of None \<Rightarrow> None | Some s \<Rightarrow> Some (projr (f s)))(but := x)) fd = None
    | Some s \<Rightarrow> \<exists>s'. f s = Inr s' \<and> ((\<lambda>fd. case old fd of None \<Rightarrow> None | Some s \<Rightarrow> Some (projr (f s)))(but := x)) fd = Some s'"
    using assms [of fd] by (cases "old fd") auto
qed

lemma join_enabled:
  fixes sn :: SlaveNode
  assumes ok: "cluster_ok c" and n: "sl_num (cs_list c) < int MAX_SLAVE_NUM" and fresh: "cs_slaves c (sn_sock sn) = None"
  shows "\<exists>c'. cstep c c' \<and> dom (cs_slaves c') = insert (sn_sock sn) (dom (cs_slaves c))"
proof -
  have rl: "ring_list (cs_list c)" using ok by (simp add: cluster_ok_def)
  have len: "int (length (live (cs_list c))) = sl_num (cs_list c)" using rl by (simp add: ring_list_def sl_num_live)
  obtain p sl where add: "AddToSlaveList 0 sn (cs_list c) = Inr (p, sl)" "0 \<le> p" "p \<le> sl_num (cs_list c)"
    using AddToSlaveList_ring [OF rl n, of 0 sn] by auto
  let ?f = "note_new_slave p (node_at sl p)"
  let ?x = "\<lparr>s_slaves = sl, s_pos = p, s_file_tmp = [], s_file_master = [], s_xbuf = [], s_port = 0,
    s_master_sock = 0, s_listen_sock = 0, s_db = no_dbs\<rparr>"
  let ?new = "(\<lambda>fd. case cs_slaves c fd of None \<Rightarrow> None | Some s \<Rightarrow> Some (projr (?f s)))(sn_sock sn := Some ?x)"
  have "\<exists>s'. ?f s = Inr s'" if s: "cs_slaves c fd = Some s" for fd s
  proof -
    obtain i where "rep.follows (live (cs_list c)) (sl_version (cs_list c)) i s"
      using cluster_okD [OF ok s] by blast
    moreover have "nat p \<le> length (live (cs_list c))" "length (live (cs_list c)) < MAX_SLAVE_NUM"
      using add(2,3) n len by linarith+
    ultimately show ?thesis using rep.follows_add [of _ _ i s "nat p" "node_at sl p"] add(2) by auto
  qed
  then have "notified ?f (sn_sock sn) (cs_slaves c) ?new" by (intro notified_exists) blast
  then have "cstep c \<lparr>cs_list = sl, cs_slaves = ?new\<rparr>"
    by (intro Join [OF add(1) _ fresh _ _ _ _ n, of ?new ?x]) simp_all
  moreover have "dom ?new = insert (sn_sock sn) (dom (cs_slaves c))" by (auto split: option.splits)
  ultimately show ?thesis by (metis cluster.select_convs(2))
qed

lemma leave_enabled:
  assumes ok: "cluster_ok c" and "cs_slaves c fd \<noteq> None"
  shows "\<exists>c'. cstep c c' \<and> dom (cs_slaves c') = dom (cs_slaves c) - {fd}"
proof -
  have rl: "ring_list (cs_list c)" using ok by (simp add: cluster_ok_def)
  have len: "int (length (live (cs_list c))) = sl_num (cs_list c)" using rl by (simp add: ring_list_def sl_num_live)
  obtain s where s: "cs_slaves c fd = Some s" using assms(2) by auto
  obtain i where i: "i < length (live (cs_list c))" "socks (cs_list c) ! i = fd" using cluster_okD [OF ok s] by blast
  have p: "0 \<le> int i" "int i < sl_num (cs_list c)" using i(1) len by simp_all
  obtain sl where del: "DelFromSlaveList (int i) (cs_list c) = Inr sl"
    using DelFromSlaveList_ring [OF rl p] by blast
  have fd: "sn_sock (node_at (cs_list c) (int i)) = fd"
    using i node_at_live [OF p] by (simp add: socks_def)
  let ?f = "note_rm_slave (int i)"
  let ?new = "(\<lambda>fd. case cs_slaves c fd of None \<Rightarrow> None | Some s \<Rightarrow> Some (projr (?f s)))(fd := None)"
  have "\<exists>s'. ?f t = Inr s'" if t: "gd \<noteq> fd" "cs_slaves c gd = Some t" for gd t
  proof -
    obtain j where j: "socks (cs_list c) ! j = gd" "rep.follows (live (cs_list c)) (sl_version (cs_list c)) j t"
      using cluster_okD [OF ok t(2)] by blast
    then have "i \<noteq> j" using t(1) i(2) by auto
    with rep.follows_del [OF j(2) i(1)] show ?thesis by auto
  qed
  then have "notified ?f fd (cs_slaves c) ?new" by (intro notified_exists) blast
  then have "cstep c \<lparr>cs_list = sl, cs_slaves = ?new\<rparr>"
    using Leave [OF p del, of ?new] by (simp add: fd)
  moreover have "dom ?new = dom (cs_slaves c) - {fd}" by (auto split: option.splits)
  ultimately show ?thesis by (metis cluster.select_convs(2))
qed

section \<open>Properties\<close>

text \<open>C1: all copies of the membership list agree: in every state of the cluster that joins and
  departures can lead to, the list of every slave is the master's, with the same version, each
  slave's \<open>pos\<close> is the index at which the list has it, and the keys form a ring.\<close>

theorem replicas_agree:
  assumes "creach c" and "cs_slaves c fd = Some s"
  shows "live (s_slaves s) = live (cs_list c) \<and> sl_version (s_slaves s) = sl_version (cs_list c)
    \<and> 0 \<le> s_pos s \<and> s_pos s < sl_num (cs_list c) \<and> sn_sock (live (cs_list c) ! nat (s_pos s)) = fd
    \<and> ring (keys (cs_list c))"
proof -
  have ok: "cluster_ok c" by (rule creach_ok [OF assms(1)])
  obtain i where i: "i < length (live (cs_list c))" "socks (cs_list c) ! i = fd"
    "rep.follows (live (cs_list c)) (sl_version (cs_list c)) i s"
    using cluster_okD [OF ok assms(2)] by blast
  then show ?thesis
    using ok follows_list(4) [OF i(3)]
    by (auto simp: rep.follows_def cluster_ok_def ring_list_def socks_def sl_num_live)
qed

text \<open>C12: every key has one server, and all agree which: in every reachable cluster with a
  slave, exactly one slave finds itself when it routes the key by its own list, and routing by
  the list of any slave gives the same index as routing by the master's.\<close>

theorem one_server_per_key:
  assumes "creach c" and "0 < sl_num (cs_list c)"
  shows "(\<exists>!fd. \<exists>s. cs_slaves c fd = Some s \<and> GetSocket (s_slaves s) key = Inr (s_pos s))
    \<and> (\<forall>fd s. cs_slaves c fd = Some s \<longrightarrow> GetSocket (s_slaves s) key = GetSocket (cs_list c) key)"
proof -
  have ok: "cluster_ok c" by (rule creach_ok [OF assms(1)])
  then have rl: "ring_list (cs_list c)" by (simp add: cluster_ok_def)
  have same: "GetSocket (s_slaves s) key = GetSocket (cs_list c) key" if s: "cs_slaves c fd = Some s" for fd s
  proof -
    obtain i where "rep.follows (live (cs_list c)) (sl_version (cs_list c)) i s"
      using cluster_okD [OF ok s] by blast
    from follows_list [OF this rl] show ?thesis by (intro GetSocket_same [OF rl]) (use assms(2) in auto)
  qed
  obtain i where i: "GetSocket (cs_list c) key = Inr i" "0 \<le> i" "i < sl_num (cs_list c)"
    using GetSocket_owner [OF rl assms(2)] by blast
  have len: "nat i < length (socks (cs_list c))"
    using i rl by (simp add: socks_def ring_list_def sl_num_live)
  let ?fd = "socks (cs_list c) ! nat i"
  have "?fd \<in> dom (cs_slaves c)" using ok len by (simp add: cluster_ok_def)
  then obtain s where s: "cs_slaves c ?fd = Some s" by auto
  have pos: "s_pos t = i \<longleftrightarrow> fd = ?fd" if t: "cs_slaves c fd = Some t" for fd t
  proof -
    obtain j where j: "j < length (live (cs_list c))" "socks (cs_list c) ! j = fd"
      "rep.follows (live (cs_list c)) (sl_version (cs_list c)) j t"
      using cluster_okD [OF ok t] by blast
    have "fd = ?fd \<longleftrightarrow> j = nat i"
      using j(1,2) len ok nth_eq_iff_index_eq [of "socks (cs_list c)" j "nat i"]
      by (auto simp: cluster_ok_def) (auto simp: socks_def)
    then show ?thesis using follows_list(4) [OF j(3) rl] i(2) by auto
  qed
  have "\<exists>!fd. \<exists>s. cs_slaves c fd = Some s \<and> GetSocket (s_slaves s) key = Inr (s_pos s)"
  proof (rule ex1I [of _ ?fd])
    show "\<exists>s. cs_slaves c ?fd = Some s \<and> GetSocket (s_slaves s) key = Inr (s_pos s)"
      using s same [OF s] pos [OF s] i(1) by auto
    fix fd assume "\<exists>s. cs_slaves c fd = Some s \<and> GetSocket (s_slaves s) key = Inr (s_pos s)"
    then obtain t where t: "cs_slaves c fd = Some t" "GetSocket (s_slaves t) key = Inr (s_pos t)" by blast
    then have "s_pos t = i" using same [OF t(1)] i(1) by simp
    then show "fd = ?fd" using pos [OF t(1)] by simp
  qed
  then show ?thesis using same by blast
qed

text \<open>Membership changes are never stuck: in every reachable cluster with fewer than 32
  slaves a new one can join, and any slave can leave; no slave faults on the notification.\<close>

lemma join_and_leave_enabled:
  fixes sn :: SlaveNode
  assumes "creach c"
  shows "(sl_num (cs_list c) < int MAX_SLAVE_NUM \<longrightarrow> cs_slaves c (sn_sock sn) = None \<longrightarrow>
      (\<exists>c'. cstep c c' \<and> dom (cs_slaves c') = insert (sn_sock sn) (dom (cs_slaves c))))
    \<and> (cs_slaves c fd \<noteq> None \<longrightarrow> (\<exists>c'. cstep c c' \<and> dom (cs_slaves c') = dom (cs_slaves c) - {fd}))"
  using join_enabled [OF creach_ok [OF assms]] leave_enabled [OF creach_ok [OF assms]] by blast

subsection \<open>Witnesses\<close>

text \<open>One slave in an empty cluster.\<close>

definition no_slaves :: SlaveList where
  "no_slaves = two_nodes\<lparr>sl_num := 0, sl_version := 0\<rparr>"

definition first_node :: SlaveNode where
  "first_node = \<lparr>sn_ip = 1, sn_port = 4001, sn_sock = 5, sn_key = 0\<rparr>"

lemma cluster_of_one: "\<exists>c :: nat cluster. creach c \<and> dom (cs_slaves c) = {5} \<and> 0 < sl_num (cs_list c)"
proof -
  have "list_ok no_slaves" "sl_num no_slaves = 0" by (simp_all add: no_slaves_def two_nodes_def list_ok_def MAX_SLAVE_NUM_def)
  then have r: "creach \<lparr>cs_list = no_slaves, cs_slaves = (Map.empty :: int \<rightharpoonup> nat slave)\<rparr>" by (rule Empty)
  from join_enabled [OF creach_ok [OF r], of first_node] obtain c :: "nat cluster" where
    c: "cstep \<lparr>cs_list = no_slaves, cs_slaves = Map.empty\<rparr> c" "dom (cs_slaves c) = {5}"
    by (auto simp: no_slaves_def MAX_SLAVE_NUM_def first_node_def)
  from Next [OF r c(1)] have rc: "creach c" .
  have ok: "cluster_ok c" by (rule creach_ok [OF rc])
  obtain s where "cs_slaves c 5 = Some s" using c(2) by auto
  from cluster_okD [OF ok this] have "0 < length (live (cs_list c))" by (cases "live (cs_list c)") auto
  moreover have "list_ok (cs_list c)" using ok by (simp add: cluster_ok_def ring_list_def)
  ultimately have "0 < sl_num (cs_list c)" by (simp add: length_live)
  with rc c(2) show ?thesis by blast
qed

theorem replicas_agree_witness:
  "\<exists>(c :: nat cluster) s. cs_slaves c 5 = Some s \<and> live (s_slaves s) = live (cs_list c) \<and> 0 \<le> s_pos s"
proof -
  obtain c :: "nat cluster" where c: "creach c" "dom (cs_slaves c) = {5}" using cluster_of_one by blast
  then obtain s where s: "cs_slaves c 5 = Some s" by auto
  have "live (s_slaves s) = live (cs_list c) \<and> 0 \<le> s_pos s"
    using replicas_agree [OF c(1) s] by simp
  with s show ?thesis by blast
qed

theorem one_server_per_key_witness:
  "\<exists>c :: nat cluster. dom (cs_slaves c) = {5}
    \<and> (\<exists>!fd. \<exists>s. cs_slaves c fd = Some s \<and> GetSocket (s_slaves s) 1234 = Inr (s_pos s))"
proof -
  obtain c :: "nat cluster" where c: "creach c" "dom (cs_slaves c) = {5}" "0 < sl_num (cs_list c)"
    using cluster_of_one by blast
  from one_server_per_key [OF c(1,3), of 1234] c(2) show ?thesis by blast
qed

lemma join_and_leave_enabled_example:
  "\<exists>c c' :: nat cluster. cstep c c' \<and> dom (cs_slaves c) = {5} \<and> dom (cs_slaves c') = {}"
proof -
  obtain c :: "nat cluster" where c: "creach c" "dom (cs_slaves c) = {5}" using cluster_of_one by blast
  then have five: "cs_slaves c 5 \<noteq> None" by auto
  note leave = join_and_leave_enabled [OF c(1), of first_node 5, THEN conjunct2, rule_format, OF five]
  then obtain c' where "cstep c c'" "dom (cs_slaves c') = {5} - {5}" unfolding c(2) by (elim exE conjE)
  with c(2) show ?thesis by (intro exI [of _ c] exI [of _ c']) simp
qed

end
