(* ===== verification/CircularQueue.thy ===== *)
theory CircularQueue
  imports Socket
begin

text \<open>
  The request queue between the main thread and the workers, \<^verbatim>\<open>server/CircularQueue.c\<close>, with the
  semaphore that \<^verbatim>\<open>server/dbserver.c\<close> and \<^verbatim>\<open>server/HandleRequest.c\<close> keep beside it. \<open>EnQueue\<close>
  and \<open>DeQueue\<close> hold the mutex from beginning to end and are single steps. \<open>DeQueue\<close> returns
  a pointer into the array, here the slot's index; a node holds a pointer to a buffer, here an
  address of the store \<open>heap\<close>.
\<close>

section \<open>Nodes and buffers\<close>

text \<open>\<open>void *app\<close> of a handle: what the code stores there, or the stack's garbage.\<close>

datatype 'a app = Uninit | App 'a

record 'a ClientSockHandle =
  hc_sock :: int
  hc_ip :: int
  hc_app :: "'a app"

record 'a QueueNode =
  qn_hcsock :: "'a ClientSockHandle"
  qn_buf :: nat

record heap =
  hp_next :: nat
  hp_mem :: "nat \<rightharpoonup> bytes"

definition malloc :: "bytes \<Rightarrow> heap \<Rightarrow> nat \<times> heap" where
  "malloc junk hp = (hp_next hp, \<lparr>hp_next = hp_next hp + 1, hp_mem = (hp_mem hp)(hp_next hp \<mapsto> junk)\<rparr>)"

section \<open>The queue\<close>

definition MAX_QUEUE_LEN :: nat where "MAX_QUEUE_LEN = 10"

text \<open>The globals \<open>Q\<close>, \<open>head\<close> and \<open>tail\<close>.\<close>

record 'n queue =
  q_nodes :: "'n list"
  q_head :: nat
  q_tail :: nat

fun init_loop :: "bytes \<Rightarrow> nat \<Rightarrow> 'a QueueNode list \<Rightarrow> heap \<Rightarrow> 'a QueueNode list \<times> heap" where
  "init_loop junk 0 Q hp = (Q, hp)"
| "init_loop junk (Suc n) Q hp =
    (let i = MAX_QUEUE_LEN - Suc n; (buf, hp) = malloc junk hp in
     init_loop junk n (Q[i := (Q ! i)\<lparr>qn_buf := buf\<rparr>]) hp)"

definition InitQueue :: "bytes \<Rightarrow> 'a QueueNode queue \<Rightarrow> heap \<Rightarrow> 'a QueueNode queue \<times> heap" where
  "InitQueue junk q hp =
    (let (Q, hp) = init_loop junk MAX_QUEUE_LEN (q_nodes q) hp in (q\<lparr>q_nodes := Q\<rparr>, hp))"

definition isQueueFull :: "'n queue \<Rightarrow> bool" where
  "isQueueFull q \<longleftrightarrow> q_head q = (q_tail q + 1) mod MAX_QUEUE_LEN"

definition isQueueEmpty :: "'n queue \<Rightarrow> bool" where
  "isQueueEmpty q \<longleftrightarrow> q_head q = q_tail q"

definition EnQueue :: "'n \<Rightarrow> 'n queue \<Rightarrow> 'n queue exec" where
  "EnQueue node q =
    andThen (c_assert (\<not> isQueueFull q)) (\<lambda>_.
    Inr (q\<lparr>q_nodes := (q_nodes q)[q_tail q := node], q_tail := (q_tail q + 1) mod MAX_QUEUE_LEN\<rparr>))"

definition DeQueue :: "'n queue \<Rightarrow> (nat \<times> 'n queue) exec" where
  "DeQueue q =
    andThen (c_assert (\<not> isQueueEmpty q)) (\<lambda>_.
    let pnode = q_head q in Inr (pnode, q\<lparr>q_head := (q_head q + 1) mod MAX_QUEUE_LEN\<rparr>))"

section \<open>What a queue promises\<close>

text \<open>
  The abstract specification: a list of at most \<open>cap\<close> nodes, the oldest first. \<open>deq\<close> hands
  out the node itself.
\<close>

locale bounded_queue =
  fixes enq :: "'n \<Rightarrow> 'q \<Rightarrow> 'q exec"
    and deq :: "'q \<Rightarrow> ('n \<times> 'q) exec"
    and inv :: "'q \<Rightarrow> bool"
    and items :: "'q \<Rightarrow> 'n list"
    and cap :: nat
  assumes enq_room: "inv q \<Longrightarrow> length (items q) < cap \<Longrightarrow>
      \<exists>q'. enq n q = Inr q' \<and> inv q' \<and> items q' = items q @ [n]"
    and enq_full: "inv q \<Longrightarrow> \<not> length (items q) < cap \<Longrightarrow> enq n q = Inl AssertFail"
    and deq_some: "inv q \<Longrightarrow> items q = n # ns \<Longrightarrow> \<exists>q'. deq q = Inr (n, q') \<and> inv q' \<and> items q' = ns"
    and deq_none: "inv q \<Longrightarrow> items q = [] \<Longrightarrow> deq q = Inl AssertFail"

text \<open>A run of operations and what it takes out; \<open>None\<close> in the list stands for a \<open>DeQueue\<close>.\<close>

fun run_ops ::
  "('n \<Rightarrow> 'q \<Rightarrow> 'q exec) \<Rightarrow> ('q \<Rightarrow> ('n \<times> 'q) exec) \<Rightarrow> 'n option list \<Rightarrow> 'q \<Rightarrow> ('n list \<times> 'q) exec" where
  "run_ops enq deq [] q = Inr ([], q)"
| "run_ops enq deq (Some n # ops) q = andThen (enq n q) (run_ops enq deq ops)"
| "run_ops enq deq (None # ops) q =
    andThen (deq q) (\<lambda>(n, q). andThen (run_ops enq deq ops q) (\<lambda>(ns, q). Inr (n # ns, q)))"

definition entered :: "'n option list \<Rightarrow> 'n list" where
  "entered ops = map the (filter (\<lambda>x. x \<noteq> None) ops)"

lemma entered_simps [simp]:
  "entered [] = []" "entered (Some n # ops) = n # entered ops" "entered (None # ops) = entered ops"
  by (simp_all add: entered_def)

context bounded_queue
begin

lemma enq_cases:
  assumes "inv q" and "enq n q = Inr q'"
  shows "inv q' \<and> items q' = items q @ [n]"
  using enq_room [OF assms(1), of n] enq_full [OF assms(1), of n] assms(2)
  by (cases "length (items q) < cap") auto

lemma deq_cases:
  assumes "inv q" and "deq q = Inr (n, q')"
  shows "inv q' \<and> items q = n # items q'"
  using deq_some [OF assms(1)] deq_none [OF assms(1)] assms(2)
  by (cases "items q") fastforce+

lemma fifo:
  "inv q \<Longrightarrow> run_ops enq deq ops q = Inr (out, q') \<Longrightarrow>
    inv q' \<and> items q @ entered ops = out @ items q'"
proof (induction ops arbitrary: q out)
  case (Cons op ops)
  show ?case
  proof (cases op)
    case None
    with Cons.prems(2) obtain n q1 ns where q1: "deq q = Inr (n, q1)"
      "run_ops enq deq ops q1 = Inr (ns, q')" "out = n # ns" by auto
    then show ?thesis using deq_cases [OF Cons.prems(1) q1(1)] Cons.IH [of q1 ns] None by simp
  next
    case (Some n)
    with Cons.prems(2) obtain q1 where q1: "enq n q = Inr q1" "run_ops enq deq ops q1 = Inr (out, q')" by auto
    then show ?thesis using enq_cases [OF Cons.prems(1) q1(1)] Cons.IH [of q1 out] Some by simp
  qed
qed simp

lemma no_fault_below:
  assumes "inv q" and "length (items q) + length ns \<le> cap"
  shows "\<exists>q'. run_ops enq deq (map Some ns) q = Inr ([], q') \<and> inv q' \<and> items q' = items q @ ns"
  using assms
proof (induction ns arbitrary: q)
  case (Cons n ns)
  then obtain q1 where "enq n q = Inr q1" "inv q1" "items q1 = items q @ [n]"
    using enq_room [of q n] by auto
  then show ?case using Cons.IH [of q1] Cons.prems by simp
qed simp

end

section \<open>The circular array keeps the promise\<close>

definition queue_ok :: "'n queue \<Rightarrow> bool" where
  "queue_ok q \<longleftrightarrow> length (q_nodes q) = MAX_QUEUE_LEN \<and> q_head q < MAX_QUEUE_LEN \<and> q_tail q < MAX_QUEUE_LEN"

text \<open>The waiting nodes, from \<open>head\<close> up to \<open>tail\<close> around the array.\<close>

definition waiting :: "'n queue \<Rightarrow> nat" where
  "waiting q = (q_tail q + MAX_QUEUE_LEN - q_head q) mod MAX_QUEUE_LEN"

definition contents :: "'n queue \<Rightarrow> 'n list" where
  "contents q = map (\<lambda>i. q_nodes q ! ((q_head q + i) mod MAX_QUEUE_LEN)) [0..<waiting q]"

text \<open>\<open>DeQueue\<close> as its caller uses it: the node that the pointer leads to.\<close>

definition deq_node :: "'n queue \<Rightarrow> ('n \<times> 'n queue) exec" where
  "deq_node q = andThen (DeQueue q) (\<lambda>(pnode, q). Inr (q_nodes q ! pnode, q))"

lemma length_contents [simp]: "length (contents q) = waiting q"
  by (simp add: contents_def)

lemma waiting_less: "waiting q < MAX_QUEUE_LEN"
  by (simp add: waiting_def MAX_QUEUE_LEN_def)

lemma distance:
  assumes "h < MAX_QUEUE_LEN" and "t < MAX_QUEUE_LEN"
  shows "(t + MAX_QUEUE_LEN - h) mod MAX_QUEUE_LEN = (if h \<le> t then t - h else t + MAX_QUEUE_LEN - h)"
proof (cases "h \<le> t")
  case True
  then have "t + MAX_QUEUE_LEN - h = (t - h) + MAX_QUEUE_LEN" by simp
  then show ?thesis using assms True by (simp only: mod_add_self2) simp
qed (use assms in simp)

lemma waiting_cases:
  "queue_ok q \<Longrightarrow> waiting q =
    (if q_head q \<le> q_tail q then q_tail q - q_head q else q_tail q + MAX_QUEUE_LEN - q_head q)"
  by (simp add: waiting_def queue_ok_def distance)

lemma next_slot: "i < 10 \<Longrightarrow> Suc i mod 10 = (if i = 9 then 0 else Suc i)"
  by (simp add: mod_Suc)

lemma tail_eq: "queue_ok q \<Longrightarrow> q_tail q = (q_head q + waiting q) mod MAX_QUEUE_LEN"
  by (simp add: queue_ok_def waiting_def MAX_QUEUE_LEN_def mod_simps)

lemma full_iff: "queue_ok q \<Longrightarrow> isQueueFull q \<longleftrightarrow> waiting q = 9"
  by (auto simp: waiting_cases isQueueFull_def queue_ok_def next_slot MAX_QUEUE_LEN_def split: if_splits)

lemma empty_iff: "queue_ok q \<Longrightarrow> isQueueEmpty q \<longleftrightarrow> waiting q = 0"
  by (auto simp: waiting_cases isQueueEmpty_def queue_ok_def)

text \<open>The slots in use are different from the one at \<open>tail\<close>.\<close>

lemma slot_not_tail:
  assumes "queue_ok q" and "i < waiting q"
  shows "(q_head q + i) mod MAX_QUEUE_LEN \<noteq> q_tail q"
proof
  assume e: "(q_head q + i) mod MAX_QUEUE_LEN = q_tail q"
  have m: "waiting q < 10" "i < 10" "q_head q < 10" "q_tail q < 10"
    using assms waiting_less [of q] by (simp_all add: MAX_QUEUE_LEN_def queue_ok_def)
  show False
    using e assms m by (cases "q_head q + i < 10")
      (auto simp: waiting_cases MAX_QUEUE_LEN_def mod_if split: if_splits)
qed

lemma EnQueue_room:
  assumes "queue_ok q" and "waiting q < 9"
  shows "\<exists>q'. EnQueue n q = Inr q' \<and> queue_ok q' \<and> contents q' = contents q @ [n]"
proof -
  let ?q = "q\<lparr>q_nodes := (q_nodes q)[q_tail q := n], q_tail := Suc (q_tail q) mod MAX_QUEUE_LEN\<rparr>"
  have run: "EnQueue n q = Inr ?q" using full_iff [OF assms(1)] assms by (simp add: EnQueue_def)
  have ok: "queue_ok ?q" using assms(1) by (simp add: queue_ok_def MAX_QUEUE_LEN_def)
  have w: "waiting ?q = Suc (waiting q)"
    using assms(2) waiting_cases [OF ok] waiting_cases [OF assms(1)] assms(1)
    by (auto simp: next_slot queue_ok_def MAX_QUEUE_LEN_def split: if_splits)
  have "contents ?q = contents q @ [n]"
    using slot_not_tail [OF assms(1), THEN not_sym] assms(1) tail_eq [OF assms(1), symmetric]
    by (auto simp: contents_def queue_ok_def w)
  with run ok show ?thesis by blast
qed

lemma contents_Cons:
  assumes "queue_ok q" and "waiting q = Suc m"
  shows "contents q = q_nodes q ! q_head q #
    map (\<lambda>i. q_nodes q ! ((q_head q + Suc i) mod MAX_QUEUE_LEN)) [0..<m]"
proof -
  have "[0..<Suc m] = 0 # map Suc [0..<m]" by (metis map_Suc_upt upt_conv_Cons zero_less_Suc)
  then show ?thesis using assms by (simp add: contents_def queue_ok_def del: upt_Suc)
qed

lemma deq_node_some:
  assumes "queue_ok q" and "contents q = n # ns"
  shows "\<exists>q'. deq_node q = Inr (n, q') \<and> queue_ok q' \<and> contents q' = ns"
proof -
  let ?q = "q\<lparr>q_head := Suc (q_head q) mod MAX_QUEUE_LEN\<rparr>"
  have w: "waiting q = Suc (length ns)" using assms(2) length_contents [of q] by simp
  have run: "deq_node q = Inr (n, ?q)"
    using w empty_iff [OF assms(1)] contents_Cons [OF assms(1) w] assms(2)
    by (simp add: deq_node_def DeQueue_def Let_def)
  have ok: "queue_ok ?q" using assms(1) by (simp add: queue_ok_def MAX_QUEUE_LEN_def)
  have w': "waiting ?q = length ns"
    using w waiting_cases [OF ok] waiting_cases [OF assms(1)] assms(1)
    by (auto simp: next_slot queue_ok_def MAX_QUEUE_LEN_def split: if_splits)
  have "contents ?q = ns"
    using contents_Cons [OF assms(1) w] assms(2) by (simp add: contents_def w' mod_simps)
  with run ok show ?thesis by blast
qed

lemma EnQueue_refuses: "queue_ok q \<Longrightarrow> \<not> waiting q < 9 \<Longrightarrow> EnQueue n q = Inl AssertFail"
  using full_iff [of q] waiting_less [of q] by (simp add: EnQueue_def MAX_QUEUE_LEN_def)

lemma deq_node_none: "queue_ok q \<Longrightarrow> contents q = [] \<Longrightarrow> deq_node q = Inl AssertFail"
  using empty_iff [of q] length_contents [of q] by (simp add: deq_node_def DeQueue_def)

interpretation lq: bounded_queue EnQueue deq_node queue_ok contents "MAX_QUEUE_LEN - 1"
  by unfold_locales
    (use EnQueue_room EnQueue_refuses deq_node_some deq_node_none in
      \<open>simp_all add: MAX_QUEUE_LEN_def\<close>)

section \<open>Main thread, workers and the semaphore\<close>

text \<open>
  One step of either kind of thread: the main thread runs \<open>EnQueue(&qn); sem_post(&MSG_SEM)\<close>,
  a worker \<open>sem_wait(&MSG_SEM); pnode = DeQueue()\<close>. \<open>y_posting\<close> says that the main thread is
  between its two calls, \<open>y_ready\<close> counts the workers that are between theirs.
\<close>

definition THREADS_NUM :: nat where "THREADS_NUM = 2"

record 'n qsys =
  y_q :: "'n queue"
  y_sem :: nat
  y_posting :: bool
  y_ready :: nat

inductive qstep :: "'n qsys \<Rightarrow> 'n qsys \<Rightarrow> bool" where
  Enter: "\<not> y_posting s \<Longrightarrow> EnQueue n (y_q s) = Inr q \<Longrightarrow> qstep s (s\<lparr>y_q := q, y_posting := True\<rparr>)"
| Post: "y_posting s \<Longrightarrow> qstep s (s\<lparr>y_posting := False, y_sem := y_sem s + 1\<rparr>)"
| Wait: "0 < y_sem s \<Longrightarrow> y_ready s < THREADS_NUM \<Longrightarrow>
    qstep s (s\<lparr>y_sem := y_sem s - 1, y_ready := y_ready s + 1\<rparr>)"
| Leave: "0 < y_ready s \<Longrightarrow> deq_node (y_q s) = Inr (n, q) \<Longrightarrow>
    qstep s (s\<lparr>y_q := q, y_ready := y_ready s - 1\<rparr>)"

inductive_simps qstep_iff: "qstep s t"

inductive qreach :: "'n qsys \<Rightarrow> bool" where
  Start: "queue_ok q \<Longrightarrow> contents q = [] \<Longrightarrow>
    qreach \<lparr>y_q = q, y_sem = 0, y_posting = False, y_ready = 0\<rparr>"
| Step: "qreach s \<Longrightarrow> qstep s t \<Longrightarrow> qreach t"

lemma qreach_inv:
  "qreach s \<Longrightarrow> queue_ok (y_q s)
    \<and> waiting (y_q s) = y_sem s + y_ready s + (if y_posting s then 1 else 0)"
proof (induction rule: qreach.induct)
  case (Start q)
  then show ?case using length_contents [of q] by simp
next
  case (Step s t)
  from Step.hyps(2) show ?case
  proof cases
    case (Enter n q)
    then show ?thesis using lq.enq_cases [of "y_q s" n q] Step.IH length_contents [of q] by simp
  next
    case (Leave n q)
    then have "queue_ok q" "contents (y_q s) = n # contents q"
      using lq.deq_cases [of "y_q s" n q] Step.IH by simp_all
    moreover from this have "waiting (y_q s) = Suc (waiting q)"
      using length_contents [of "y_q s"] length_contents [of q] by simp
    ultimately show ?thesis using Leave Step.IH by auto
  qed (use Step.IH in auto)
qed

text \<open>The slot that was just handed out is behind all that \<open>EnQueue\<close> may write.\<close>

lemma EnQueue_behind:
  assumes "queue_ok q" and "EnQueue n q = Inr q'" and "Suc p mod MAX_QUEUE_LEN = q_head q" and "p < MAX_QUEUE_LEN"
  shows "q_nodes q' ! p = q_nodes q ! p" and "q_head q' = q_head q" and "queue_ok q'"
proof -
  have q': "\<not> isQueueFull q" "q' = q\<lparr>q_nodes := (q_nodes q)[q_tail q := n], q_tail := (q_tail q + 1) mod MAX_QUEUE_LEN\<rparr>"
    using assms(2) by (auto simp: EnQueue_def)
  then have "q_tail q \<noteq> p" using assms(3) by (auto simp: isQueueFull_def)
  then show "q_nodes q' ! p = q_nodes q ! p" and "q_head q' = q_head q" and "queue_ok q'"
    using q'(2) assms(1) by (auto simp: queue_ok_def MAX_QUEUE_LEN_def)
qed

lemma enqs_behind:
  "queue_ok q \<Longrightarrow> Suc p mod MAX_QUEUE_LEN = q_head q \<Longrightarrow> p < MAX_QUEUE_LEN \<Longrightarrow>
    run_ops EnQueue deq_node (map Some ns) q = Inr (out, q') \<Longrightarrow> q_nodes q' ! p = q_nodes q ! p"
proof (induction ns arbitrary: q)
  case (Cons n ns)
  then obtain q1 where q1: "EnQueue n q = Inr q1" "run_ops EnQueue deq_node (map Some ns) q1 = Inr (out, q')"
    by auto
  show ?case using EnQueue_behind [OF Cons.prems(1) q1(1) Cons.prems(2,3)] Cons.IH [of q1] q1(2) Cons.prems by simp
qed simp

section \<open>Properties\<close>

text \<open>C27: requests leave the queue in the order in which they entered: whatever the calls of
  \<open>EnQueue\<close> and \<open>DeQueue\<close>, as long as no assertion fails the nodes taken out are the first
  of those put in, and the rest is still waiting.\<close>

theorem queue_fifo:
  assumes "queue_ok q" and "contents q = []" and "run_ops EnQueue deq_node ops q = Inr (out, q')"
  shows "entered ops = out @ contents q' \<and> length (contents q') < MAX_QUEUE_LEN"
  using lq.fifo [OF assms(1,3)] assms(2) by (simp add: waiting_less)

definition small_queue :: "nat queue" where
  "small_queue = \<lparr>q_nodes = replicate 10 0, q_head = 8, q_tail = 8\<rparr>"

theorem queue_fifo_witness:
  "\<exists>q'. run_ops EnQueue deq_node [Some 5, Some 6, None, Some 7, None] small_queue = Inr ([5, 6], q')
    \<and> entered [Some 5, Some 6, None, Some 7, None] = [5, 6] @ contents q'
    \<and> length (contents q') < MAX_QUEUE_LEN"
proof -
  have "queue_ok small_queue" and "contents small_queue = []"
    by (simp_all add: queue_ok_def small_queue_def MAX_QUEUE_LEN_def contents_def waiting_def)
  moreover obtain q' where "run_ops EnQueue deq_node [Some 5, Some 6, None, Some 7, None] small_queue
      = Inr ([5, 6], q')"
    by (simp add: small_queue_def EnQueue_def deq_node_def DeQueue_def isQueueFull_def isQueueEmpty_def
        MAX_QUEUE_LEN_def Let_def)
  ultimately show ?thesis using queue_fifo by blast
qed

text \<open>Nine requests fit and the tenth stops the server: \<open>EnQueue\<close> succeeds exactly while
  fewer than nine nodes wait, and its assertion fails otherwise.\<close>

lemma queue_capacity:
  assumes "queue_ok q"
  shows "(case EnQueue n q of Inr q' \<Rightarrow> length (contents q) < 9 \<and> contents q' = contents q @ [n]
    | Inl e \<Rightarrow> length (contents q) = 9 \<and> e = AssertFail)"
proof (cases "waiting q < 9")
  case True
  then show ?thesis using EnQueue_room [OF assms True, of n] by auto
next
  case False
  then show ?thesis using EnQueue_refuses [OF assms False] waiting_less [of q] by (simp add: MAX_QUEUE_LEN_def)
qed

lemma queue_capacity_example:
  "(case EnQueue 1 small_queue of Inr q' \<Rightarrow> length (contents small_queue) < 9 \<and> contents q' = contents small_queue @ [1]
    | Inl e \<Rightarrow> length (contents small_queue) = 9 \<and> e = AssertFail)"
  by (rule queue_capacity) (simp add: queue_ok_def small_queue_def MAX_QUEUE_LEN_def)

text \<open>C26: the semaphore never lets a worker into an empty queue: in every state that the main
  thread and the two workers can reach, a worker that has passed \<open>sem_wait\<close> finds a node,
  so the assertion of \<open>DeQueue\<close> holds.\<close>

theorem worker_finds_node:
  assumes "qreach s" and "0 < y_ready s"
  shows "\<exists>pnode q'. DeQueue (y_q s) = Inr (pnode, q')
    \<and> length (contents (y_q s)) = y_sem s + y_ready s + (if y_posting s then 1 else 0)"
  using qreach_inv [OF assms(1)] assms(2) empty_iff [of "y_q s"] by (simp add: DeQueue_def Let_def)

theorem worker_finds_node_witness:
  "\<exists>s :: nat qsys. y_ready s = 1 \<and> (\<exists>pnode q'. DeQueue (y_q s) = Inr (pnode, q')
    \<and> length (contents (y_q s)) = y_sem s + y_ready s + (if y_posting s then 1 else 0))"
proof -
  let ?q = "small_queue\<lparr>q_nodes := (q_nodes small_queue)[8 := 3], q_tail := 9\<rparr>"
  have "qreach \<lparr>y_q = small_queue, y_sem = 0, y_posting = False, y_ready = 0\<rparr>"
    by (rule Start) (simp_all add: queue_ok_def small_queue_def MAX_QUEUE_LEN_def contents_def waiting_def)
  moreover have "EnQueue 3 small_queue = Inr ?q"
    by (simp add: EnQueue_def isQueueFull_def small_queue_def MAX_QUEUE_LEN_def)
  ultimately have "qreach \<lparr>y_q = ?q, y_sem = 0, y_posting = True, y_ready = 0\<rparr>"
    using Step [OF _ Enter] by fastforce
  then have "qreach \<lparr>y_q = ?q, y_sem = 1, y_posting = False, y_ready = 0\<rparr>"
    using Step [OF _ Post] by fastforce
  then have s: "qreach \<lparr>y_q = ?q, y_sem = 0, y_posting = False, y_ready = 1\<rparr>"
    using Step [OF _ Wait] by (fastforce simp: THREADS_NUM_def)
  from worker_finds_node [OF s] show ?thesis
    by (intro exI [of _ "\<lparr>y_q = ?q, y_sem = 0, y_posting = False, y_ready = 1\<rparr>"]) simp
qed

text \<open>The node behind the pointer that \<open>DeQueue\<close> returns stays what it was while the
  main thread enters more requests, however many it can, until the next \<open>DeQueue\<close>: the
  worker may copy \<open>pnode->hcsock\<close> after the mutex is released.\<close>

lemma dequeued_slot_stable:
  assumes "queue_ok q" and "DeQueue q = Inr (pnode, q1)"
    and "run_ops EnQueue deq_node (map Some ns) q1 = Inr (out, q2)"
  shows "q_nodes q2 ! pnode = q_nodes q ! pnode"
proof -
  have q1: "pnode = q_head q" "q1 = q\<lparr>q_head := (q_head q + 1) mod MAX_QUEUE_LEN\<rparr>"
    using assms(2) by (auto simp: DeQueue_def Let_def)
  then show ?thesis using enqs_behind [OF _ _ _ assms(3), of pnode] assms(1)
    by (simp add: queue_ok_def MAX_QUEUE_LEN_def)
qed

lemma dequeued_slot_stable_example:
  "q_nodes ((\<lambda>r. snd (projr r)) (run_ops EnQueue deq_node (map Some [1, 2])
      (small_queue\<lparr>q_nodes := [7, 0, 0, 0, 0, 0, 0, 0, 0, 0], q_head := 1, q_tail := 1\<rparr>))) ! 0 = 7"
proof -
  let ?q = "small_queue\<lparr>q_nodes := [7, 0, 0, 0, 0, 0, 0, 0, 0, 0], q_head := 0, q_tail := 1\<rparr>"
  let ?q1 = "small_queue\<lparr>q_nodes := [7, 0, 0, 0, 0, 0, 0, 0, 0, 0], q_head := 1, q_tail := 1\<rparr>"
  have "queue_ok ?q" by (simp add: queue_ok_def MAX_QUEUE_LEN_def)
  moreover have "DeQueue ?q = Inr (0, ?q1)"
    by (simp add: DeQueue_def isQueueEmpty_def MAX_QUEUE_LEN_def)
  moreover obtain out q2 where r: "run_ops EnQueue deq_node (map Some [1, 2]) ?q1 = Inr (out, q2)"
    by (simp add: EnQueue_def isQueueFull_def MAX_QUEUE_LEN_def)
  ultimately have "q_nodes q2 ! 0 = q_nodes ?q ! 0" by (rule dequeued_slot_stable)
  then show ?thesis unfolding r by simp
qed

end
