(* ===== verification/ServerSocket.thy ===== *)
theory ServerSocket
  imports CircularQueue TokyoCabinet
begin

text \<open>
  \<^verbatim>\<open>server/MemoryDB.c\<close> and \<^verbatim>\<open>server/serversocket.c\<close>: the table of client connections, kept in an
  in-memory database under the four bytes of the socket number, and the operations on a
  connection that read and update it. The global \<open>MDB\<close> is passed and returned.
\<close>

section \<open>The in-memory database\<close>

definition MDBCreate :: "('k, 'v) tcmdb \<Rightarrow> 'k" where
  "MDBCreate sm = tcmdbnew sm"

text \<open>After \<open>tcmdbdel\<close> there is no database any more.\<close>

definition MDBClose :: "'k \<Rightarrow> 'k option" where
  "MDBClose mdb = None"

definition MDBSet :: "('k, 'v) tcmdb \<Rightarrow> 'k \<Rightarrow> bytes \<Rightarrow> 'v \<Rightarrow> 'k" where
  "MDBSet sm mdb kbuf vbuf = tcmdbput sm mdb kbuf vbuf"

definition MDBDel :: "('k, 'v) tcmdb \<Rightarrow> 'k \<Rightarrow> bytes \<Rightarrow> 'k" where
  "MDBDel sm mdb kbuf = snd (tcmdbout sm mdb kbuf)"

definition MDBGet :: "('k, 'v) tcmdb \<Rightarrow> 'k \<Rightarrow> bytes \<Rightarrow> 'v option" where
  "MDBGet sm mdb kbuf = tcmdbget sm mdb kbuf"

text \<open>The contract of \<^verbatim>\<open>server/MemoryDB.h\<close>: a map from byte strings.\<close>

locale mem_db =
  fixes ok :: "'k \<Rightarrow> bool"
    and set :: "'k \<Rightarrow> bytes \<Rightarrow> 'v \<Rightarrow> 'k"
    and del :: "'k \<Rightarrow> bytes \<Rightarrow> 'k"
    and get :: "'k \<Rightarrow> bytes \<Rightarrow> 'v option"
  assumes set_ok: "ok m \<Longrightarrow> ok (set m k x)" and del_ok: "ok m \<Longrightarrow> ok (del m k)"
    and get_set: "ok m \<Longrightarrow> get (set m k x) k' = (if k' = k then Some x else get m k')"
    and get_del: "ok m \<Longrightarrow> get (del m k) k' = (if k' = k then None else get m k')"
begin

lemma as_map: "ok m \<Longrightarrow> get (set m k x) = (get m)(k \<mapsto> x)" "ok m \<Longrightarrow> get (del m k) = (get m)(k := None)"
  by (auto simp: get_set get_del)

lemma del_set: "ok m \<Longrightarrow> get m k = None \<Longrightarrow> get (del (set m k x) k) = get m"
  by (auto simp: get_set get_del set_ok)

end

interpretation mdb: mem_db "\<lambda>_. tcmdb_laws sm" "MDBSet sm" "MDBDel sm" "MDBGet sm"
  by unfold_locales (simp_all add: MDBSet_def MDBDel_def MDBGet_def tcmdb_simps)

section \<open>Connections\<close>

text \<open>The result of \<open>InitializeService\<close> is not looked at: the service is always reported as started.\<close>

definition DBInitializeService ::
  "('w, 'z) net_scheme \<Rightarrow> ('k, 'v) tcmdb \<Rightarrow> int option \<Rightarrow> int \<Rightarrow> 'w \<Rightarrow> int \<times> int \<times> 'k \<times> 'w" where
  "DBInitializeService net sm addr port w =
    (let (res, sockfd, w) = InitializeService net addr port w in (0, sockfd, MDBCreate sm, w))"

definition DBShutdownService :: "('w, 'z) net_scheme \<Rightarrow> int \<Rightarrow> 'k \<Rightarrow> 'w \<Rightarrow> 'k option \<times> 'w" where
  "DBShutdownService net sockfd mdb w = (let mdb = MDBClose mdb in (mdb, ShutdownService net sockfd w))"

text \<open>\<open>ip0\<close> is what stands in the uninitialised handle; \<open>app\<close> is not set.\<close>

definition DBServiceStart ::
  "('w, 'z) net_scheme \<Rightarrow> ('k, 'd ClientSockHandle) tcmdb \<Rightarrow> int \<Rightarrow> int \<Rightarrow> 'k \<Rightarrow> 'w
    \<Rightarrow> 'd ClientSockHandle \<times> 'k \<times> 'w" where
  "DBServiceStart net sm ip0 sockfd mdb w =
    (let (res, sock, ip, w) = ServiceStart net sockfd ip0 w;
         hcsock = \<lparr>hc_sock = sock, hc_ip = ip, hc_app = Uninit\<rparr> in
     (hcsock, MDBSet sm mdb (int_bytes sock) hcsock, w))"

definition DBServiceStop ::
  "('w, 'z) net_scheme \<Rightarrow> ('k, 'd ClientSockHandle) tcmdb \<Rightarrow> int \<Rightarrow> 'k \<Rightarrow> 'w \<Rightarrow> ('k \<times> 'w) exec" where
  "DBServiceStop net sm sockfd mdb w =
    (case MDBGet sm mdb (int_bytes sockfd) of
       None \<Rightarrow> Inl NullDeref
     | Some phcsock \<Rightarrow>
         (let w = ServiceStop net (hc_sock phcsock) w in
          Inr (MDBDel sm mdb (int_bytes (hc_sock phcsock)), w)))"

definition DBSendMsg ::
  "('w, 'z) net_scheme \<Rightarrow> ('k, 'd ClientSockHandle) tcmdb \<Rightarrow> 'd ClientSockHandle \<Rightarrow> bytes \<Rightarrow> 'k \<Rightarrow> 'w
    \<Rightarrow> ('k \<times> 'w) exec" where
  "DBSendMsg net sm hcsock buf mdb w =
    andThen (c_assert (hc_sock hcsock \<noteq> -1)) (\<lambda>_.
    let w = n_send net (hc_sock hcsock) (take MAX_BUF_LEN buf) w in
    Inr (MDBSet sm mdb (int_bytes (hc_sock hcsock)) hcsock, w))"

definition DBRecvMsg ::
  "('w, 'z) net_scheme \<Rightarrow> ('k, 'd ClientSockHandle) tcmdb \<Rightarrow> int \<Rightarrow> bytes \<Rightarrow> 'k \<Rightarrow> 'w
    \<Rightarrow> ('d ClientSockHandle option \<times> bytes \<times> 'w) exec" where
  "DBRecvMsg net sm sockfd buf mdb w =
    andThen (c_assert (sockfd \<noteq> -1)) (\<lambda>_.
    let (res, buf, w) = recv_into net sockfd buf w in
    Inr (MDBGet sm mdb (int_bytes sockfd), buf, w))"

lemma int_bytes_inj: "int32 a \<Longrightarrow> int32 b \<Longrightarrow> int_bytes a = int_bytes b \<longleftrightarrow> a = b"
  by (metis bytes_int_int_bytes')

section \<open>Properties\<close>

text \<open>A connection is known exactly while it is open: after \<open>DBServiceStart\<close> the handle is
  found under the new socket and every other socket's entry is as before; after a
  \<open>DBServiceStop\<close> of it the table has no entry for it, and a second stop dereferences \<open>NULL\<close>.\<close>

lemma connection_known:
  assumes "tcmdb_laws sm" and "DBServiceStart net sm ip0 lsock mdb w = (hcsock, mdb1, w1)"
    and "int32 (hc_sock hcsock)" and "int32 other" and "other \<noteq> hc_sock hcsock"
  shows "MDBGet sm mdb1 (int_bytes (hc_sock hcsock)) = Some hcsock
    \<and> MDBGet sm mdb1 (int_bytes other) = MDBGet sm mdb (int_bytes other)
    \<and> (\<exists>mdb2. DBServiceStop net sm (hc_sock hcsock) mdb1 w1
          = Inr (mdb2, ServiceStop net (hc_sock hcsock) w1)
        \<and> MDBGet sm mdb2 (int_bytes other) = MDBGet sm mdb (int_bytes other)
        \<and> (\<forall>w2. DBServiceStop net sm (hc_sock hcsock) mdb2 w2 = Inl NullDeref))"
proof -
  have mdb1: "mdb1 = MDBSet sm mdb (int_bytes (hc_sock hcsock)) hcsock"
    using assms(2) by (auto simp: DBServiceStart_def Let_def split: prod.splits)
  show ?thesis
    using assms(1) int_bytes_inj [OF assms(4,3)] assms(5)
    by (simp add: mdb1 DBServiceStop_def mdb.as_map)
qed

definition quiet_net :: "nat net" where
  "quiet_net = \<lparr>n_socket = (\<lambda>w. (3, w)), n_bind = (\<lambda>_ _ _ w. (0, w)), n_listen = (\<lambda>_ w. (0, w)),
    n_accept = (\<lambda>_ w. (7, 16777343, Suc w)), n_connect = (\<lambda>_ _ _ w. (0, w)), n_send = (\<lambda>_ _ w. w),
    n_recv = (\<lambda>_ w. (None, w)), n_close = (\<lambda>_ w. w), n_port = (\<lambda>_ _. 4000)\<rparr>"

lemma connection_known_example:
  "\<exists>hcsock :: nat ClientSockHandle. \<exists>mdb1 w1.
    DBServiceStart quiet_net alist_mdb 0 3 [] 0 = (hcsock, mdb1, w1)
    \<and> MDBGet alist_mdb mdb1 (int_bytes 7) = Some hcsock
    \<and> (\<exists>mdb2. DBServiceStop quiet_net alist_mdb 7 mdb1 w1 = Inr (mdb2, w1)
        \<and> DBServiceStop quiet_net alist_mdb 7 mdb2 w1 = Inl NullDeref)"
proof -
  obtain hcsock :: "nat ClientSockHandle" and mdb1 w1 where
    s: "DBServiceStart quiet_net alist_mdb 0 3 [] 0 = (hcsock, mdb1, w1)" "hc_sock hcsock = 7"
    by (simp add: DBServiceStart_def ServiceStart_def quiet_net_def Let_def)
  have i: "int32 (hc_sock hcsock)" "int32 8" "8 \<noteq> hc_sock hcsock" by (simp_all add: s(2) int32_def)
  show ?thesis
    using connection_known [OF alist_mdb_laws s(1) i] s by (auto simp: ServiceStop_def quiet_net_def)
qed

end
