(* ===== verification/Worker.thy ===== *)
theory Worker
  imports ServerSocket Slave
begin

text \<open>
  A worker thread, \<^verbatim>\<open>server/HandleRequest.c\<close>: one round of \<open>HandleDBRequest\<close> from the node it
  took out of the queue to the reply it sends. What outlives a round is the record \<open>worker\<close>:
  the reply buffer, the string a \<open>GET\<close> fetched and the header, which stands uninitialised on the stack
  before the first round. \<open>srv\<close> collects the globals a round works on. The database is any
  implementation \<open>api\<close> of \<^verbatim>\<open>common/Database.h\<close>.
\<close>

datatype mem_str = Null | Alloc bytes | Freed

record worker =
  wk_reply :: bytes
  wk_append :: mem_str
  wk_send :: db_header

record ('k, 'st, 'w) srv =
  v_file_master :: bytes
  v_file_tmp :: bytes
  v_mdb :: 'k
  v_st :: 'st
  v_w :: 'w

text \<open>A C string in a buffer; without a NUL it is read past the end.\<close>

definition c_string :: "bytes \<Rightarrow> bytes exec" where
  "c_string b = (if 0 \<in> set b then Inr (c_str b) else Inl OutOfBounds)"

text \<open>Using the pointer that came with the connection.\<close>

definition with_app :: "'d ClientSockHandle \<Rightarrow> ('d \<Rightarrow> 'r exec) \<Rightarrow> 'r exec" where
  "with_app hcsock f = (case hc_app hcsock of Uninit \<Rightarrow> Inl WildPointer | App hdb \<Rightarrow> f hdb)"

definition set_cmd :: "cmd \<Rightarrow> worker \<Rightarrow> worker" where
  "set_cmd c wk = wk\<lparr>wk_send := (wk_send wk)\<lparr>hd_cmd := cmd_code c\<rparr>\<rparr>"

definition set_db :: "'st \<times> 'w \<Rightarrow> ('k, 'st, 'w) srv \<Rightarrow> ('k, 'st, 'w) srv" where
  "set_db s v = v\<lparr>v_st := fst s, v_w := snd s\<rparr>"

section \<open>The switch\<close>

text \<open>A command that is none of the five leaves \<open>sendhd.cmd\<close> as the previous round set it.\<close>

definition request_switch ::
  "('d, 'st \<times> 'w) db_api \<Rightarrow> bytes \<Rightarrow> 'd option ClientSockHandle \<Rightarrow> worker \<Rightarrow> ('k, 'st, 'w) srv
    \<Rightarrow> ('d option ClientSockHandle \<times> worker \<times> ('k, 'st, 'w) srv) exec" where
  "request_switch api buf hcsock wk v =
    (let precvhd = GetHeader buf; s = (v_st v, v_w v); key = word_of_int (hd_key precvhd) in
     case decode_cmd (hd_cmd precvhd) of
       Some OPEN \<Rightarrow>
         andThen (c_string (GetAppend buf)) (\<lambda>name.
         andThen (fits MAX_FILENAME_LEN name) (\<lambda>master.
         andThen (fits MAX_FILENAME_LEN (name @ ascii ''~'')) (\<lambda>tmp.
         andThen (api_create api name s) (\<lambda>(hdb, s).
         Inr (hcsock\<lparr>hc_app := App hdb\<rparr>, set_cmd (if hdb = None then CMDFAIL else OPEN_R) wk,
              set_db s (v\<lparr>v_file_master := master, v_file_tmp := tmp\<rparr>))))))
     | Some CLOSE \<Rightarrow>
         with_app hcsock (\<lambda>hdb.
         andThen (api_delete api hdb s) (\<lambda>(res, s).
         Inr (hcsock, set_cmd (if res \<noteq> 0 then CMDFAIL else CLOSE_R) wk, set_db s v)))
     | Some SET \<Rightarrow>
         andThen (c_string (GetAppend buf)) (\<lambda>value.
         with_app hcsock (\<lambda>hdb.
         andThen (api_set api hdb key value s) (\<lambda>(res, s).
         Inr (hcsock, set_cmd (if res \<noteq> 0 then CMDFAIL else SET_R) wk, set_db s v))))
     | Some GET \<Rightarrow>
         with_app hcsock (\<lambda>hdb.
         andThen (api_get api hdb key s) (\<lambda>(r, s).
         Inr (case r of
           None \<Rightarrow> (hcsock, set_cmd CMDFAIL (wk\<lparr>wk_append := Null\<rparr>), set_db s v)
         | Some str \<Rightarrow> (hcsock, set_cmd GET_R (wk\<lparr>wk_append := Alloc str\<rparr>), set_db s v))))
     | Some DEL \<Rightarrow>
         with_app hcsock (\<lambda>hdb.
         andThen (api_del api hdb key s) (\<lambda>(res, s).
         Inr (hcsock, set_cmd (if res \<noteq> 0 then CMDFAIL else DEL_R) wk, set_db s v)))
     | _ \<Rightarrow> Inr (hcsock, wk, v))"

section \<open>The reply\<close>

text \<open>The return value of \<open>Append\<close> is not looked at.\<close>

definition write_reply :: "('d, 'st \<times> 'w) db_api \<Rightarrow> worker \<Rightarrow> ('k, 'st, 'w) srv \<Rightarrow> worker exec" where
  "write_reply api wk v =
    (let szReplyMsg = WriteHeader (wk_reply wk) (wk_send wk) in
     if hd_cmd (wk_send wk) = cmd_code CMDFAIL then
       (let err = c_str (api_lasterr api (v_st v, v_w v)) @ [0] in
        Inr (wk\<lparr>wk_reply := snd (Append szReplyMsg err (int (length err)))\<rparr>))
     else if hd_cmd (wk_send wk) = cmd_code GET_R then
       (case wk_append wk of
          Null \<Rightarrow> Inl NullDeref
        | Freed \<Rightarrow> Inl UseAfterFree
        | Alloc b \<Rightarrow>
            (let str = c_str b @ [0] in
             Inr (wk\<lparr>wk_reply := snd (Append szReplyMsg str (int (length str))), wk_append := Freed\<rparr>)))
     else Inr (wk\<lparr>wk_reply := szReplyMsg\<rparr>))"

definition HandleDBRequest ::
  "('w, 'z) net_scheme \<Rightarrow> ('k, 'd option ClientSockHandle) tcmdb \<Rightarrow> ('d, 'st \<times> 'w) db_api
    \<Rightarrow> 'd option ClientSockHandle \<Rightarrow> bytes \<Rightarrow> worker \<Rightarrow> ('k, 'st, 'w) srv \<Rightarrow> (worker \<times> ('k, 'st, 'w) srv) exec" where
  "HandleDBRequest net sm api hcsock buf wk v =
    andThen (request_switch api buf hcsock wk v) (\<lambda>(hcsock, wk, v).
    andThen (write_reply api wk v) (\<lambda>wk.
    andThen (DBSendMsg net sm hcsock (wk_reply wk) (v_mdb v) (v_w v)) (\<lambda>(m, w).
    let v = v\<lparr>v_mdb := m, v_w := w\<rparr> in
    if hd_cmd (wk_send wk) = cmd_code CLOSE_R then
      andThen (DBServiceStop net sm (hc_sock hcsock) (v_mdb v) (v_w v)) (\<lambda>(m, w).
      Inr (wk, v\<lparr>v_mdb := m, v_w := w\<rparr>))
    else Inr (wk, v))))"

section \<open>Starting the threads\<close>

text \<open>
  \<open>create\<close> is \<open>pthread_create\<close>, which gives 0 or an error number. A thread that cannot be created is reported on
  \<open>stderr\<close>, and the others are created all the same; the result is the list of the workers that run, and whether
  the prompt does.
\<close>

datatype thread = HandleDBRequest_thread nat | InputCmd_thread

definition InitThreads :: "(thread \<Rightarrow> 'w \<Rightarrow> int \<times> 'w) \<Rightarrow> 'w \<Rightarrow> nat list \<times> bool \<times> 'w" where
  "InitThreads create w =
    (let (ids, w) = fold (\<lambda>i (ids, w). let (res, w) = create (HandleDBRequest_thread i) w in
           (if res = 0 then ids @ [i] else ids, w)) [0..<THREADS_NUM] ([], w);
         (res, w) = create InputCmd_thread w in
     (ids, res = 0, w))"

text \<open>The thread of the prompt is not cancelled.\<close>

definition KillThreads :: "(nat \<Rightarrow> 'w \<Rightarrow> 'w) \<Rightarrow> 'w \<Rightarrow> 'w" where
  "KillThreads cancel w = fold cancel [0..<THREADS_NUM] w"

section \<open>What a client of the server sees\<close>

text \<open>
  The contract of \<^verbatim>\<open>Database.h\<close> together with a network that does not reach into the
  databases: sending a packet changes neither tables nor open handles.
\<close>

locale served_database = database api inv opened table
  for api :: "('d, 'st \<times> 'w) db_api" and inv :: "'st \<times> 'w \<Rightarrow> bool"
    and opened :: "'st \<times> 'w \<Rightarrow> 'd \<Rightarrow> bytes \<Rightarrow> bool" and table :: "'st \<times> 'w \<Rightarrow> bytes \<Rightarrow> u32 \<rightharpoonup> bytes" +
  fixes send :: "int \<Rightarrow> bytes \<Rightarrow> 'w \<Rightarrow> 'w"
  assumes send_inv: "inv (st, w) \<Longrightarrow> inv (st, send fd b w)"
    and send_opened: "inv (st, w) \<Longrightarrow> opened (st, send fd b w) = opened (st, w)"
    and send_table: "inv (st, w) \<Longrightarrow> table (st, send fd b w) = table (st, w)"

text \<open>The databases of the server's globals; a request that names a command and holds a string.\<close>

definition db_of :: "('k, 'st, 'w) srv \<Rightarrow> 'st \<times> 'w" where
  "db_of v = (v_st v, v_w v)"

definition names :: "cmd \<Rightarrow> int \<Rightarrow> bytes \<Rightarrow> bool" where
  "names c key buf \<longleftrightarrow> hd_cmd (GetHeader buf) = cmd_code c \<and> hd_key (GetHeader buf) = key"

lemma db_of_set_db [simp]: "db_of (set_db s v) = s"
  by (simp add: db_of_def set_db_def)

lemma v_mdb_set_db [simp]: "v_mdb (set_db s v) = v_mdb v"
  by (simp add: set_db_def)

lemma set_cmd_simps [simp]:
  "hd_cmd (wk_send (set_cmd c wk)) = cmd_code c" "wk_reply (set_cmd c wk) = wk_reply wk"
  "wk_append (set_cmd c wk) = wk_append wk"
  by (simp_all add: set_cmd_def)

definition worker_ok :: "worker \<Rightarrow> bool" where
  "worker_ok wk \<longleftrightarrow> packet_buf (wk_reply wk) \<and> header_ok (wk_send wk)"

lemma worker_ok_set_cmd [simp]: "worker_ok (set_cmd c wk) = worker_ok wk"
  by (simp add: worker_ok_def set_cmd_def header_ok_def)

lemma worker_ok_append [simp]: "worker_ok (wk\<lparr>wk_append := a\<rparr>) = worker_ok wk"
  by (simp add: worker_ok_def)

text \<open>Whatever \<open>Append\<close> makes of the length, the command that \<open>WriteHeader\<close> wrote stays.\<close>

lemma hd_cmd_WriteHeader: "packet_buf b \<Longrightarrow> hd_cmd (GetHeader (WriteHeader b h)) = hd_cmd h"
  by (simp add: GetHeader_def WriteHeader_def buf_simps packet_buf_def packet_consts)

lemma hd_cmd_Append:
  assumes "packet_buf b"
  shows "hd_cmd (GetHeader (snd (Append (WriteHeader b h) d n))) = hd_cmd h"
proof -
  have len: "length (WriteHeader b h) = 1024" using assms by (simp add: packet_buf_def packet_consts)
  then have l: "4 \<le> length (poke 16 x (WriteHeader b h))" for x by (simp add: poke_def)
  have "bytes_int (peek 0 4 (WriteHeader b h)) = 16"
    using hd_size_WriteHeader [OF assms, of h] by (simp add: GetHeader_def)
  then show ?thesis
    using hd_cmd_WriteHeader [OF assms, of h] len l
    by (simp add: Append_def Let_def GetHeader_def buf_simps)
qed

lemma write_reply_cmd:
  assumes "packet_buf (wk_reply wk)" and "write_reply api wk v = Inr wk'"
  shows "hd_cmd (GetHeader (wk_reply wk')) = hd_cmd (wk_send wk) \<and> wk_send wk' = wk_send wk"
  using assms hd_cmd_WriteHeader [OF assms(1)] hd_cmd_Append [OF assms(1)]
  by (auto simp: write_reply_def Let_def split: if_splits mem_str.splits)

lemma HandleDBRequest_open_end:
  assumes "request_switch api buf hcsock wk v = Inr (hc, wk1, v1)" and "write_reply api wk1 v1 = Inr wk2"
    and "hc_sock hc \<noteq> -1" and "hd_cmd (wk_send wk2) \<noteq> cmd_code CLOSE_R"
  shows "HandleDBRequest net sm api hcsock buf wk v = Inr (wk2, v1\<lparr>v_mdb := MDBSet sm (v_mdb v1) (int_bytes (hc_sock hc)) hc,
    v_w := n_send net (hc_sock hc) (take MAX_BUF_LEN (wk_reply wk2)) (v_w v1)\<rparr>)"
  using assms by (simp add: HandleDBRequest_def DBSendMsg_def Let_def)

context served_database
begin

lemma after_send:
  assumes "inv (db_of v)"
  shows "inv (db_of (v\<lparr>v_mdb := m, v_w := send fd b (v_w v)\<rparr>))"
    and "opened (db_of (v\<lparr>v_mdb := m, v_w := send fd b (v_w v)\<rparr>)) = opened (db_of v)"
    and "table (db_of (v\<lparr>v_mdb := m, v_w := send fd b (v_w v)\<rparr>)) = table (db_of v)"
  using assms send_inv send_opened send_table by (simp_all add: db_of_def)

text \<open>A round that ends with \<open>CMDFAIL\<close> or a reply without contents cannot fault.\<close>

lemma plain_reply:
  assumes "c \<noteq> GET_R"
  shows "\<exists>wk'. write_reply api (set_cmd c wk) v = Inr wk'"
  using assms by (simp add: write_reply_def Let_def)

lemma round_end:
  assumes sw: "request_switch api buf hcsock wk v = Inr (hc, set_cmd c wk1, v1)"
    and c: "c \<noteq> GET_R" "c \<noteq> CLOSE_R" and hc: "hc_sock hc \<noteq> -1"
    and buf: "packet_buf (wk_reply wk1)" and inv: "inv (db_of v1)" and net: "n_send net = send"
  shows "\<exists>wk' v'. HandleDBRequest net sm api hcsock buf wk v = Inr (wk', v')
    \<and> hd_cmd (GetHeader (wk_reply wk')) = cmd_code c \<and> inv (db_of v')
    \<and> opened (db_of v') = opened (db_of v1) \<and> table (db_of v') = table (db_of v1)"
proof -
  obtain wk2 where w: "write_reply api (set_cmd c wk1) v1 = Inr wk2" using plain_reply [OF c(1)] by blast
  then have cmd: "hd_cmd (GetHeader (wk_reply wk2)) = cmd_code c" "wk_send wk2 = wk_send (set_cmd c wk1)"
    using write_reply_cmd [of "set_cmd c wk1"] buf by auto
  then have "hd_cmd (wk_send wk2) \<noteq> cmd_code CLOSE_R" using c(2) by simp
  from HandleDBRequest_open_end [OF sw w hc this, of net sm] show ?thesis
    using cmd(1) after_send [OF inv] by (simp add: net)
qed

lemma handle_set:
  assumes "inv (db_of v)" and "opened (db_of v) d n" and "hc_app hcsock = App (Some d)" and "hc_sock hcsock \<noteq> -1"
    and "packet_buf (wk_reply wk)" and "names SET key buf" and "0 \<in> set (GetAppend buf)" and "n_send net = send"
  shows "\<exists>wk' v'. HandleDBRequest net sm api hcsock buf wk v = Inr (wk', v') \<and> inv (db_of v')
    \<and> opened (db_of v') = opened (db_of v) \<and> hd_cmd (GetHeader (wk_reply wk')) = cmd_code SET_R
    \<and> table (db_of v') = (table (db_of v))(n := (table (db_of v) n)(word_of_int key \<mapsto> c_str (GetAppend buf)))"
proof -
  have "c_str (c_str (GetAppend buf)) = c_str (GetAppend buf)" using c_str_no_nul by (rule c_str_idem)
  then obtain s where s: "api_set api (Some d) (word_of_int key) (c_str (GetAppend buf)) (db_of v) = Inr (0, s)"
    "inv s" "opened s = opened (db_of v)"
    "table s = (table (db_of v))(n := (table (db_of v) n)(word_of_int key \<mapsto> c_str (GetAppend buf)))"
    using set [OF assms(1,2), of "word_of_int key" "c_str (GetAppend buf)"] by auto
  have "request_switch api buf hcsock wk v = Inr (hcsock, set_cmd SET_R wk, set_db s v)"
    using assms(3,6,7) s(1)
    by (simp add: request_switch_def names_def c_string_def with_app_def db_of_def Let_def)
  from round_end [OF this _ _ assms(4,5) _ assms(8), of sm] show ?thesis
    using s(2-4) by fastforce
qed

lemma handle_del:
  assumes "inv (db_of v)" and "opened (db_of v) d n" and "hc_app hcsock = App (Some d)" and "hc_sock hcsock \<noteq> -1"
    and "packet_buf (wk_reply wk)" and "names DEL key buf" and "n_send net = send"
  shows "\<exists>wk' v'. HandleDBRequest net sm api hcsock buf wk v = Inr (wk', v') \<and> inv (db_of v')
    \<and> opened (db_of v') = opened (db_of v)
    \<and> hd_cmd (GetHeader (wk_reply wk')) = cmd_code (if table (db_of v) n (word_of_int key) = None then CMDFAIL else DEL_R)
    \<and> table (db_of v') = (table (db_of v))(n := (table (db_of v) n)(word_of_int key := None))"
proof -
  let ?r = "if table (db_of v) n (word_of_int key) = None then -1 else 0"
  obtain s where s: "api_del api (Some d) (word_of_int key) (db_of v) = Inr (?r, s)"
    "inv s" "opened s = opened (db_of v)" "table s = (table (db_of v))(n := (table (db_of v) n)(word_of_int key := None))"
    using del [OF assms(1,2), of "word_of_int key"] by auto
  let ?c = "if table (db_of v) n (word_of_int key) = None then CMDFAIL else DEL_R"
  have "request_switch api buf hcsock wk v = Inr (hcsock, set_cmd ?c wk, set_db s v)"
    using assms(3,6) s(1)
    by (simp add: request_switch_def names_def with_app_def db_of_def Let_def)
  moreover have "?c \<noteq> GET_R" "?c \<noteq> CLOSE_R" "inv (db_of (set_db s v))" using s(2) by simp_all
  ultimately show ?thesis
    using round_end [of buf hcsock wk v hcsock ?c wk "set_db s v" net sm] assms(4,5,7) s(3,4) by fastforce
qed

lemma handle_get:
  assumes "inv (db_of v)" and "opened (db_of v) d n" and "hc_app hcsock = App (Some d)" and "hc_sock hcsock \<noteq> -1"
    and "packet_buf (wk_reply wk)" and "names GET key buf" and "n_send net = send"
    and fits: "\<And>x. table (db_of v) n (word_of_int key) = Some x \<Longrightarrow> length x < APPENDSIZE"
  shows "\<exists>wk' v'. HandleDBRequest net sm api hcsock buf wk v = Inr (wk', v') \<and> inv (db_of v')
    \<and> opened (db_of v') = opened (db_of v) \<and> table (db_of v') = table (db_of v)
    \<and> (case table (db_of v) n (word_of_int key) of
         None \<Rightarrow> names CMDFAIL (hd_key (GetHeader (wk_reply wk'))) (wk_reply wk')
       | Some x \<Rightarrow> names GET_R (hd_key (GetHeader (wk_reply wk'))) (wk_reply wk')
           \<and> c_str (GetAppend (wk_reply wk')) = x)"
proof -
  obtain r s where s: "api_get api (Some d) (word_of_int key) (db_of v) = Inr (r, s)"
    "inv s" "opened s = opened (db_of v)" "table s = table (db_of v)"
    "map_option c_str r = table (db_of v) n (word_of_int key)"
    using get [OF assms(1,2), of "word_of_int key"] by auto
  show ?thesis
  proof (cases r)
    case None
    then have "request_switch api buf hcsock wk v = Inr (hcsock, set_cmd CMDFAIL (wk\<lparr>wk_append := Null\<rparr>), set_db s v)"
      using assms(3,6) s(1)
      by (simp add: request_switch_def names_def with_app_def db_of_def Let_def)
    from round_end [OF this _ _ assms(4) _ _ assms(7), of sm] show ?thesis
      using s(2-5) assms(5) None by (fastforce simp: names_def)
  next
    case (Some x)
    let ?wk = "set_cmd GET_R (wk\<lparr>wk_append := Alloc x\<rparr>)" and ?str = "c_str x @ [0]"
    have sw: "request_switch api buf hcsock wk v = Inr (hcsock, ?wk, set_db s v)"
      using assms(3,6) s(1) Some
      by (simp add: request_switch_def names_def with_app_def db_of_def Let_def)
    have t: "table (db_of v) n (word_of_int key) = Some (c_str x)" using s(5) Some by simp
    then have len: "length ?str \<le> APPENDSIZE" using fits by fastforce
    let ?wk' = "?wk\<lparr>wk_reply := packet (wk_reply wk) (wk_send ?wk) ?str, wk_append := Freed\<rparr>"
    have w: "write_reply api ?wk (set_db s v) = Inr ?wk'"
      using Append_packet [OF assms(5) len, of "wk_send ?wk"] by (simp add: write_reply_def Let_def)
    have "hd_cmd (wk_send ?wk') \<noteq> cmd_code CLOSE_R" by simp
    note run = HandleDBRequest_open_end [OF sw w assms(4) this, of net sm]
    have "hd_cmd (GetHeader (wk_reply ?wk')) = cmd_code GET_R"
      using write_reply_cmd [OF _ w] assms(5) by simp
    moreover have "c_str (GetAppend (wk_reply ?wk')) = c_str x"
      using c_str_no_nul [of x] by (simp add: GetAppend_packet [OF assms(5) len])
    ultimately show ?thesis
      using run s(2-4) t after_send [of "set_db s v"] by (simp add: names_def assms(7))
  qed
qed

end

text \<open>The server's own database and network.\<close>

definition net_frame :: "('w, 'z) net_scheme \<Rightarrow> ('h, 'w) tc_view \<Rightarrow> bool" where
  "net_frame net v \<longleftrightarrow> (\<forall>fd b w. fil v (n_send net fd b w) = fil v w \<and> hnd v (n_send net fd b w) = hnd v w)"

definition srv_inv ::
  "('w, 'z) net_scheme \<Rightarrow> ('h, 'w) tchdb \<Rightarrow> ('m, 'h OpenedDB) tcmdb \<Rightarrow> ('h, 'w) tc_view \<Rightarrow> 'm db_state \<times> 'w \<Rightarrow> bool" where
  "srv_inv net tc tm v s \<longleftrightarrow> tc_inv tc tm v s \<and> net_frame net v"

lemma srv_database: "database (tc_api tc tm) (srv_inv net tc tm v) (tc_opened tm) (tc_table v)"
proof (unfold_locales, goal_cases)
  case (1 s n)
  then show ?case using tc_create [of tc tm v s n] by (auto simp: srv_inv_def)
next
  case (2 s d n k x)
  then show ?case using tc_set [of tc tm v s d n k x] by (auto simp: srv_inv_def)
next
  case (3 s d n k)
  then show ?case using tc_get [of tc tm v s d n k] by (auto simp: srv_inv_def)
next
  case (4 s d n k)
  then show ?case using tc_del [of tc tm v s d n k] by (auto simp: srv_inv_def)
qed

interpretation tcs: served_database "tc_api tc tm" "srv_inv net tc tm v" "tc_opened tm" "tc_table v" "n_send net"
proof (rule served_database.intro [OF srv_database], unfold_locales)
  fix st w fd b
  assume inv: "srv_inv net tc tm v (st, w)"
  then have f: "fil v (n_send net fd b w) = fil v w" "hnd v (n_send net fd b w) = hnd v w"
    by (simp_all add: srv_inv_def net_frame_def)
  show "srv_inv net tc tm v (st, n_send net fd b w)"
    using inv f reg_ok_world [of tm v st w "n_send net fd b w"] by (simp add: srv_inv_def tc_inv_def)
  show "tc_opened tm (st, n_send net fd b w) = tc_opened tm (st, w)" by (simp add: tc_opened_def)
  show "tc_table v (st, n_send net fd b w) = tc_table v (st, w)"
    by (simp add: tc_table_def content_def fun_eq_iff f)
qed

section \<open>Properties\<close>

lemma names_exclusive: "names c k b \<Longrightarrow> names d k' b \<Longrightarrow> c = d"
  by (metis decode_cmd_eq names_def option.inject)

lemma length_c_str_less: "0 \<in> set b \<Longrightarrow> length (c_str b) < length b"
  unfolding c_str_def by (induction b) auto

lemma c_str_in_packet: "packet_buf b \<Longrightarrow> 0 \<in> set (GetAppend b) \<Longrightarrow> length (c_str (GetAppend b)) < APPENDSIZE"
proof -
  assume "packet_buf b" and z: "0 \<in> set (GetAppend b)"
  then have "length (GetAppend b) = APPENDSIZE" by (simp add: packet_buf_def GetAppend_def packet_consts)
  moreover have "length (c_str (GetAppend b)) < length (GetAppend b)"
    using z by (intro length_c_str_less)
  ultimately show ?thesis by simp
qed

text \<open>C14: the server stores: a worker answers a \<open>SET\<close> request on an open database with \<open>SET_R\<close>, and a
  later \<open>GET\<close> request for the key, on any connection to the same database and by any worker, is
  answered with \<open>GET_R\<close> and the very string.\<close>

theorem server_set_get:
  assumes "srv_inv net tc tm vw (db_of v)" and "tc_opened tm (db_of v) d n"
    and "hc_app hc1 = App (Some d)" and "hc_sock hc1 \<noteq> -1" and "packet_buf (wk_reply wk1)"
    and "names SET key b1" and "packet_buf b1" and "0 \<in> set (GetAppend b1)"
    and "hc_app hc2 = App (Some d)" and "hc_sock hc2 \<noteq> -1" and "packet_buf (wk_reply wk2)" and "names GET key b2"
  shows "\<exists>wk1' v1 wk2' v2. HandleDBRequest net sm (tc_api tc tm) hc1 b1 wk1 v = Inr (wk1', v1)
    \<and> hd_cmd (GetHeader (wk_reply wk1')) = cmd_code SET_R
    \<and> HandleDBRequest net sm (tc_api tc tm) hc2 b2 wk2 v1 = Inr (wk2', v2)
    \<and> hd_cmd (GetHeader (wk_reply wk2')) = cmd_code GET_R
    \<and> c_str (GetAppend (wk_reply wk2')) = c_str (GetAppend b1)"
proof -
  obtain wk1' v1 where v1: "HandleDBRequest net sm (tc_api tc tm) hc1 b1 wk1 v = Inr (wk1', v1)"
    "srv_inv net tc tm vw (db_of v1)" "tc_opened tm (db_of v1) d n" "hd_cmd (GetHeader (wk_reply wk1')) = cmd_code SET_R"
    "tc_table vw (db_of v1) n (word_of_int key) = Some (c_str (GetAppend b1))"
    using tcs.handle_set [OF assms(1-6,8) refl, of sm] assms(2) by fastforce
  show ?thesis
    using tcs.handle_get [OF v1(2,3) assms(9-12) refl, of sm] v1 c_str_in_packet [OF assms(7,8)]
    by (auto simp: names_def)
qed

text \<open>C35: a stale reply: \<open>sendhd\<close> keeps its command from round to round, so when a request
  with a command that is none of the five follows a round that answered a \<open>GET\<close>, the worker
  reads the string that it has already freed.\<close>

theorem unknown_after_get:
  assumes "packet_buf (wk_reply wk)" and "HandleDBRequest net sm api hc1 b1 wk v = Inr (wk', v')"
    and "hd_cmd (GetHeader (wk_reply wk')) = cmd_code GET_R"
    and "decode_cmd (hd_cmd (GetHeader b2)) \<notin> Some ` {OPEN, CLOSE, SET, GET, DEL}"
  shows "HandleDBRequest net sm api hc2 b2 wk' v2 = Inl UseAfterFree"
proof -
  obtain hc wk1 v1 wk2 where sw: "request_switch api b1 hc1 wk v = Inr (hc, wk1, v1)"
    and w: "write_reply api wk1 v1 = Inr wk2" and wk': "wk' = wk2"
    using assms(2) by (auto simp: HandleDBRequest_def Let_def split: if_splits)
  have "wk_reply wk1 = wk_reply wk"
    using sw by (auto simp: request_switch_def with_app_def Let_def
        split: option.splits cmd.splits app.splits)
  then have cmd: "hd_cmd (wk_send wk') = cmd_code GET_R"
    using write_reply_cmd [OF _ w] assms(1,3) wk' by simp
  then have freed: "wk_append wk' = Freed"
    using w wk' by (auto simp: write_reply_def Let_def split: if_splits mem_str.splits)
  have "request_switch api b2 hc2 wk' v2 = Inr (hc2, wk', v2)"
    using assms(4) by (auto simp: request_switch_def Let_def split: option.splits cmd.splits)
  then show ?thesis
    using cmd freed by (simp add: HandleDBRequest_def write_reply_def Let_def)
qed

text \<open>A request on a connection that has not opened a database uses an uninitialised
  pointer: the handle that \<open>DBServiceStart\<close> makes has no \<open>app\<close>, and \<open>GET\<close>, \<open>DEL\<close> and
  \<open>CLOSE\<close>, and \<open>SET\<close> with a string, follow it.\<close>

lemma request_before_open:
  assumes "DBServiceStart net sm ip0 lsock m0 w = (hcsock, m1, w1)"
    and "c \<in> {GET, DEL, CLOSE} \<or> c = SET \<and> 0 \<in> set (GetAppend b)" and "names c key b"
  shows "HandleDBRequest net sm api hcsock b wk v = Inl WildPointer"
proof -
  have "hc_app hcsock = Uninit"
    using assms(1) by (auto simp: DBServiceStart_def Let_def split: prod.splits)
  then have "request_switch api b hcsock wk v = Inl WildPointer"
    using assms(2,3) by (auto simp: request_switch_def names_def with_app_def c_string_def Let_def)
  then show ?thesis by (simp add: HandleDBRequest_def)
qed

text \<open>C37: a database name of 127 characters or more, which a packet can carry, overruns
  \<open>file_tmp\<close>: nothing checks it before the copy.\<close>

theorem long_name_overruns:
  assumes "names OPEN key b" and "0 \<in> set (GetAppend b)" and "127 \<le> length (c_str (GetAppend b))"
  shows "HandleDBRequest net sm api hcsock b wk v = Inl OutOfBounds"
  using assms
  by (auto simp: HandleDBRequest_def request_switch_def names_def c_string_def fits_def MAX_FILENAME_LEN_def Let_def)

subsection \<open>Witnesses\<close>

text \<open>A network that keeps the databases on its disk, and a request packet.\<close>

definition disk_net :: "disk net" where
  "disk_net = \<lparr>n_socket = (\<lambda>w. (3, w)), n_bind = (\<lambda>_ _ _ w. (0, w)), n_listen = (\<lambda>_ w. (0, w)),
    n_accept = (\<lambda>_ w. (7, 16777343, w)), n_connect = (\<lambda>_ _ _ w. (0, w)), n_send = (\<lambda>_ _ w. w),
    n_recv = (\<lambda>_ w. (None, w)), n_close = (\<lambda>_ w. w), n_port = (\<lambda>_ _. 4000)\<rparr>"

definition request :: "cmd \<Rightarrow> int \<Rightarrow> bytes \<Rightarrow> bytes" where
  "request c key d = packet (zeros MAXPACKETLEN)
    \<lparr>hd_size = 0, hd_cmd = cmd_code c, hd_key = key, hd_version = 0\<rparr> d"

lemma request_facts:
  assumes "int32 key" and "length d \<le> 1008"
  shows "names c key (request c key d)" and "packet_buf (request c key d)"
    and "GetAppend (request c key d) = d @ zeros (1008 - length d)"
proof -
  let ?h = "\<lparr>hd_size = 0, hd_cmd = cmd_code c, hd_key = key, hd_version = 0\<rparr>"
  have h: "header_ok ?h" using assms(1) by (simp add: header_ok_def int32_def)
  have d: "length d \<le> APPENDSIZE" using assms(2) by (simp add: packet_consts)
  show "names c key (request c key d)"
    using GetHeader_packet [OF packet_buf_zeros h d] by (simp add: names_def request_def)
  show "packet_buf (request c key d)"
    using packet_buf_packet [OF packet_buf_zeros d] by (simp add: request_def)
  show "GetAppend (request c key d) = d @ zeros (1008 - length d)"
    using GetAppend_packet [OF packet_buf_zeros d]
    by (simp add: request_def GetAppend_def zeros_def packet_consts)
qed

definition new_worker :: worker where
  "new_worker = \<lparr>wk_reply = zeros MAXPACKETLEN, wk_append = Null,
    wk_send = \<lparr>hd_size = 0, hd_cmd = 0, hd_key = 0, hd_version = 0\<rparr>\<rparr>"

lemma disk_frame: "net_frame disk_net disk_view"
  by (simp add: net_frame_def disk_net_def)

lemma an_opened_db:
  "\<exists>(v :: ((bytes \<times> nat OpenedDB option ClientSockHandle) list, (bytes \<times> nat OpenedDB) list db_state, disk) srv) d.
    srv_inv disk_net disk_db alist_mdb disk_view (db_of v) \<and> tc_opened alist_mdb (db_of v) d a_db"
proof -
  have "tc_inv disk_db alist_mdb disk_view (no_dbs :: (bytes \<times> nat OpenedDB) list db_state, two_records)"
    using two_records_facts by (simp add: tc_inv_def)
  from tc_create [OF this, of a_db] obtain d and st :: "(bytes \<times> nat OpenedDB) list db_state" and w where
    "tc_inv disk_db alist_mdb disk_view (st, w)" "tc_opened alist_mdb (st, w) d a_db" by auto
  then show ?thesis
    using disk_frame by (intro exI [of _ "\<lparr>v_file_master = [], v_file_tmp = [], v_mdb = [], v_st = st, v_w = w\<rparr>"] exI [of _ d])
      (simp add: srv_inv_def db_of_def)
qed

definition a_handle :: "'d \<Rightarrow> 'd option ClientSockHandle" where
  "a_handle d = \<lparr>hc_sock = 7, hc_ip = 16777343, hc_app = App (Some d)\<rparr>"

definition set_request :: bytes where "set_request = request SET 5 [72, 105, 0]"
definition get_request :: bytes where "get_request = request GET 5 []"
definition quit_request :: bytes where "quit_request = request QUIT 0 []"

lemma int32_5: "int32 5" "int32 0"
  by (simp_all add: int32_def)

lemma set_request_facts:
  "names SET 5 set_request" "packet_buf set_request" "0 \<in> set (GetAppend set_request)"
  "c_str (GetAppend set_request) = [72, 105]"
  using request_facts [OF int32_5(1), of "[72, 105, 0]" SET] by (simp_all add: set_request_def c_str_def)

lemma get_request_facts: "names GET 5 get_request"
  using request_facts(1) [OF int32_5(1), of "[]" GET] by (simp add: get_request_def)

lemma new_worker_buf: "packet_buf (wk_reply new_worker)"
  by (simp add: new_worker_def)

type_synonym disk_srv =
  "((bytes \<times> nat OpenedDB option ClientSockHandle) list, (bytes \<times> nat OpenedDB) list db_state, disk) srv"

abbreviation disk_run ::
  "nat OpenedDB option ClientSockHandle \<Rightarrow> bytes \<Rightarrow> worker \<Rightarrow> disk_srv \<Rightarrow> (worker \<times> disk_srv) exec" where
  "disk_run \<equiv> HandleDBRequest disk_net alist_mdb (tc_api disk_db alist_mdb)"

lemma a_handle_facts: "hc_app (a_handle d) = App (Some d)" "hc_sock (a_handle d) \<noteq> -1"
  by (simp_all add: a_handle_def)

theorem server_set_get_witness:
  "\<exists>d (v :: disk_srv) wk1 v1 wk2 v2. disk_run (a_handle d) set_request new_worker v = Inr (wk1, v1)
    \<and> hd_cmd (GetHeader (wk_reply wk1)) = cmd_code SET_R
    \<and> disk_run (a_handle d) get_request new_worker v1 = Inr (wk2, v2)
    \<and> hd_cmd (GetHeader (wk_reply wk2)) = cmd_code GET_R \<and> c_str (GetAppend (wk_reply wk2)) = [72, 105]"
proof -
  obtain v :: disk_srv and d where v: "srv_inv disk_net disk_db alist_mdb disk_view (db_of v)"
    "tc_opened alist_mdb (db_of v) d a_db"
    using an_opened_db by blast
  from server_set_get [OF v a_handle_facts new_worker_buf set_request_facts(1-3) a_handle_facts new_worker_buf get_request_facts, of alist_mdb]
  show ?thesis unfolding set_request_facts(4) by blast
qed

lemma a_served_get:
  "\<exists>d (v :: disk_srv) wk2 v2. disk_run (a_handle d) get_request new_worker v = Inr (wk2, v2)
    \<and> hd_cmd (GetHeader (wk_reply wk2)) = cmd_code GET_R"
proof -
  obtain v :: disk_srv and d where v: "srv_inv disk_net disk_db alist_mdb disk_view (db_of v)"
    "tc_opened alist_mdb (db_of v) d a_db"
    using an_opened_db by blast
  note h = a_handle_facts [of d] new_worker_buf
  obtain v1 :: disk_srv where v1: "srv_inv disk_net disk_db alist_mdb disk_view (db_of v1)" "tc_opened alist_mdb (db_of v1) d a_db"
    "tc_table disk_view (db_of v1) a_db (word_of_int 5) = Some [72, 105]"
    using tcs.handle_set [OF v h set_request_facts(1,3) refl, of alist_mdb] v(2) set_request_facts(4) by fastforce
  show ?thesis
    using tcs.handle_get [OF v1(1,2) h get_request_facts refl, of alist_mdb] v1(3)
    by (auto simp: names_def APPENDSIZE_def MAXPACKETLEN_def HEADERLEN_def)
qed

theorem unknown_after_get_witness:
  "\<exists>d (v :: disk_srv) wk' v'. disk_run (a_handle d) get_request new_worker v = Inr (wk', v')
    \<and> disk_run (a_handle d) quit_request wk' v' = Inl UseAfterFree"
proof -
  have "names QUIT 0 quit_request" using request_facts(1) [OF int32_5(2), of "[]" QUIT] by (simp add: quit_request_def)
  then have "decode_cmd (hd_cmd (GetHeader quit_request)) \<notin> Some ` {OPEN, CLOSE, SET, GET, DEL}"
    by (simp add: names_def)
  then show ?thesis using a_served_get unknown_after_get [OF new_worker_buf] by blast
qed

lemma request_before_open_example:
  "\<forall>(v :: disk_srv) w. \<exists>hcsock mdb1 w1. DBServiceStart disk_net alist_mdb 0 3 [] w = (hcsock, mdb1, w1)
    \<and> disk_run hcsock get_request new_worker v = Inl WildPointer"
proof (intro allI)
  fix v :: disk_srv and w
  obtain hcsock mdb1 w1 where s: "DBServiceStart disk_net (alist_mdb :: ((bytes \<times> nat OpenedDB option ClientSockHandle) list, _) tcmdb) 0 3 [] w = (hcsock, mdb1, w1)"
    by (cases "DBServiceStart disk_net (alist_mdb :: ((bytes \<times> nat OpenedDB option ClientSockHandle) list, _) tcmdb) 0 3 [] w")
  have "disk_run hcsock get_request new_worker v = Inl WildPointer"
    by (rule request_before_open [OF s _ get_request_facts]) simp
  with s show "\<exists>hcsock mdb1 w1. DBServiceStart disk_net alist_mdb 0 3 [] w = (hcsock, mdb1, w1)
    \<and> disk_run hcsock get_request new_worker v = Inl WildPointer" by blast
qed

theorem long_name_overruns_witness:
  "\<forall>hcsock (v :: disk_srv). disk_run hcsock (request OPEN 0 (replicate 127 97)) new_worker v = Inl OutOfBounds"
proof (intro allI)
  fix hcsock and v :: disk_srv
  let ?b = "request OPEN 0 (replicate 127 97)"
  have b: "names OPEN 0 ?b" "GetAppend ?b = replicate 127 97 @ zeros 881"
    using request_facts [OF int32_5(2), of "replicate 127 97" OPEN] by simp_all
  have z: "zeros 881 = 0 # zeros 880" by (simp add: zeros_def numeral_eq_Suc)
  have "c_str (GetAppend ?b) = replicate 127 97"
    using c_str_append_nul [of "replicate 127 97" "zeros 880"] by (simp only: b(2) z) simp
  then show "disk_run hcsock ?b new_worker v = Inl OutOfBounds"
    by (intro long_name_overruns [OF b(1)]) (simp_all add: b(2) z)
qed

end
