(* ===== verification/DbServer.thy ===== *)
theory DbServer
  imports Worker SlaveRequests
begin

text \<open>
  The server process, \<^verbatim>\<open>server/dbserver.c\<close>: the main thread's event loop, which accepts
  connections, hands requests of clients to the queue, answers slaves and master itself and sends
  outdated clients the membership list; and the workers of \<^verbatim>\<open>server/HandleRequest.c\<close>, which
  empty the queue. The record \<open>server\<close> holds all globals. A round of a worker is one step; the
  buffer \<open>szBuf\<close> of \<open>main\<close> is the cell \<open>SZBUF\<close> of the store.
\<close>

definition SZBUF :: nat where "SZBUF = 0"

record epoll_event =
  ev_fd :: int
  ev_in :: bool
  ev_rdhup :: bool

record ('k, 'm, 'd, 'w) server =
  g_slave :: "'m slave"
  g_mdb :: 'k
  g_q :: "'d option QueueNode queue"
  g_heap :: heap
  g_sem :: nat
  g_epoll :: "int list"
  g_workers :: "worker list"
  g_w :: 'w

section \<open>The main thread\<close>

text \<open>
  \<open>main\<close> before its loop. \<open>q0\<close> is the array \<open>Q\<close>, \<open>s0\<close> the globals of the slave as they are
  initialised, \<open>junk\<close> what \<open>malloc\<close> returns, \<open>wk0\<close> what a worker finds on its stack, \<open>create\<close> is \<open>pthread_create\<close>.
  \<open>None\<close> is \<open>return -1\<close>. The result of \<open>InitialSlave\<close> is not looked at.
\<close>

definition main_init ::
  "('h, 'm, 'w) env \<Rightarrow> ('k, 'h OpenedDB option ClientSockHandle) tcmdb \<Rightarrow> bytes \<Rightarrow> worker
    \<Rightarrow> (thread \<Rightarrow> 'w \<Rightarrow> int \<times> 'w) \<Rightarrow> int option \<Rightarrow> int \<Rightarrow> 'h OpenedDB option QueueNode queue \<Rightarrow> 'm slave \<Rightarrow> 'w
    \<Rightarrow> ('k, 'm, 'h OpenedDB, 'w) server option exec" where
  "main_init env sm junk wk0 create master_addr master_port q0 s0 w =
    (let (res, listen_sock, m, w) = DBInitializeService (e_os env) sm None 0 w in
     if res = -1 then Inr None else
     let (q, hp) = InitQueue junk q0 \<lparr>hp_next = SZBUF + 1, hp_mem = [SZBUF \<mapsto> zeros MAX_BUF_LEN]\<rparr>;
         (ids, console, w) = InitThreads create w in
     andThen (InitialSlave env master_addr master_port (s0\<lparr>s_listen_sock := listen_sock\<rparr>) w) (\<lambda>(res, s, w).
     Inr (Some \<lparr>g_slave = s, g_mdb = m, g_q = q, g_heap = hp, g_sem = 0, g_epoll = [listen_sock, s_master_sock s],
       g_workers = map (\<lambda>i. wk0) ids, g_w = w\<rparr>)))"

text \<open>\<open>phd->cmd >= ADD_SLAVE\<close> and \<open>phd->version < GetVersion()\<close>, both on unsigned values.\<close>

definition for_slave :: "db_header \<Rightarrow> bool" where
  "for_slave phd \<longleftrightarrow> cmd_code ADD_SLAVE \<le> hd_cmd phd"

definition outdated :: "db_header \<Rightarrow> 'm slave \<Rightarrow> bool" where
  "outdated phd s \<longleftrightarrow> word_of_int (hd_version phd) < GetVersion s
    \<and> hd_cmd phd \<noteq> cmd_code OPEN \<and> hd_cmd phd \<noteq> cmd_code CLOSE"

text \<open>What the loop does with a packet of a client or another slave.\<close>

definition client_request ::
  "('h, 'm, 'w) env \<Rightarrow> ('k, 'h OpenedDB option ClientSockHandle) tcmdb \<Rightarrow> int
    \<Rightarrow> ('k, 'm, 'h OpenedDB, 'w) server \<Rightarrow> ('k, 'm, 'h OpenedDB, 'w) server exec" where
  "client_request env sm fd g =
    (case hp_mem (g_heap g) SZBUF of None \<Rightarrow> Inl WildPointer | Some szBuf \<Rightarrow>
     andThen (DBRecvMsg (e_os env) sm fd szBuf (g_mdb g) (g_w g)) (\<lambda>(phcsock, szBuf, w).
     let g = g\<lparr>g_heap := (g_heap g)\<lparr>hp_mem := (hp_mem (g_heap g))(SZBUF \<mapsto> szBuf)\<rparr>, g_w := w\<rparr>;
         phd = GetHeader szBuf in
     if for_slave phd then
       (case phcsock of
          None \<Rightarrow> Inl NullDeref
        | Some h \<Rightarrow>
            andThen (HandleSlaveRequest env (hc_sock h) szBuf (g_slave g) (g_w g)) (\<lambda>(s, w).
            Inr (g\<lparr>g_slave := s, g_w := w\<rparr>)))
     else if outdated phd (g_slave g) then
       andThen (SendSlaveList env fd (g_slave g) (g_w g)) (\<lambda>w. Inr (g\<lparr>g_w := w\<rparr>))
     else
       (case phcsock of
          None \<Rightarrow> Inl NullDeref
        | Some h \<Rightarrow>
            andThen (EnQueue \<lparr>qn_hcsock = h, qn_buf = SZBUF\<rparr> (g_q g)) (\<lambda>q.
            Inr (g\<lparr>g_q := q, g_sem := g_sem g + 1\<rparr>)))))"

text \<open>One turn of the loop. \<open>ip0\<close> is what stands in the uninitialised handle.\<close>

definition server_step ::
  "('h, 'm, 'w) env \<Rightarrow> ('k, 'h OpenedDB option ClientSockHandle) tcmdb \<Rightarrow> int \<Rightarrow> epoll_event
    \<Rightarrow> ('k, 'm, 'h OpenedDB, 'w) server \<Rightarrow> ('k, 'm, 'h OpenedDB, 'w) server exec" where
  "server_step env sm ip0 ev g =
    (if ev_fd ev = s_listen_sock (g_slave g) then
       (let (hcsock, m, w) = DBServiceStart (e_os env) sm ip0 (s_listen_sock (g_slave g)) (g_mdb g) (g_w g);
            g = g\<lparr>g_mdb := m, g_w := w\<rparr> in
        if hc_sock hcsock = -1 then Inr g else Inr (g\<lparr>g_epoll := g_epoll g @ [hc_sock hcsock]\<rparr>))
     else if ev_in ev \<and> ev_rdhup ev then
       andThen (DBServiceStop (e_os env) sm (ev_fd ev) (g_mdb g) (g_w g)) (\<lambda>(m, w).
       Inr (g\<lparr>g_mdb := m, g_w := w\<rparr>))
     else if ev_fd ev = s_master_sock (g_slave g) then
       andThen (HandleMasterRequest env (g_slave g) (g_w g)) (\<lambda>(s, w). Inr (g\<lparr>g_slave := s, g_w := w\<rparr>))
     else client_request env sm (ev_fd ev) g)"

text \<open>The handler of \<open>SIGINT\<close> that \<open>main\<close> declares: \<open>ShutDownSlave\<close> ends the process.\<close>

definition ShutDown :: "('h, 'm, 'w) env \<Rightarrow> ('k, 'm, 'h OpenedDB, 'w) server \<Rightarrow> ('k, 'm, 'h OpenedDB, 'w) server exec" where
  "ShutDown env g = andThen (ShutDownSlave env (g_slave g) (g_w g)) (\<lambda>(s, w). Inr (g\<lparr>g_slave := s, g_w := w\<rparr>))"

section \<open>The workers\<close>

text \<open>
  \<open>sem_wait\<close>, \<open>DeQueue\<close> and a round of \<open>HandleDBRequest\<close> by worker \<open>i\<close>. The packet is read
  through the node's pointer, when the round begins. A worker that waits does nothing.
\<close>

definition worker_step ::
  "('h, 'm, 'w) env \<Rightarrow> ('k, 'h OpenedDB option ClientSockHandle) tcmdb \<Rightarrow> nat
    \<Rightarrow> ('k, 'm, 'h OpenedDB, 'w) server \<Rightarrow> ('k, 'm, 'h OpenedDB, 'w) server exec" where
  "worker_step env sm i g =
    (if g_sem g = 0 then Inr g else
     andThen (DeQueue (g_q g)) (\<lambda>(pnode, q).
     let node = q_nodes q ! pnode; s = g_slave g in
     case hp_mem (g_heap g) (qn_buf node) of None \<Rightarrow> Inl WildPointer | Some buf \<Rightarrow>
     andThen (HandleDBRequest (e_os env) sm (tc_api (e_tc env) (e_tm env)) (qn_hcsock node) buf (g_workers g ! i)
       \<lparr>v_file_master = s_file_master s, v_file_tmp = s_file_tmp s, v_mdb = g_mdb g, v_st = s_db s, v_w = g_w g\<rparr>)
     (\<lambda>(wk, v).
     Inr (g\<lparr>g_q := q, g_sem := g_sem g - 1, g_workers := (g_workers g)[i := wk], g_mdb := v_mdb v, g_w := v_w v,
       g_slave := s\<lparr>s_file_master := v_file_master v, s_file_tmp := v_file_tmp v, s_db := v_st v\<rparr>\<rparr>))))"

section \<open>Dispatch\<close>

text \<open>A connection of a client: known to the table, and neither listener nor master.\<close>

definition client_of ::
  "('k, 'h OpenedDB option ClientSockHandle) tcmdb \<Rightarrow> int \<Rightarrow> 'h OpenedDB option ClientSockHandle
    \<Rightarrow> ('k, 'm, 'h OpenedDB, 'w) server \<Rightarrow> bool" where
  "client_of sm fd h g \<longleftrightarrow> fd \<noteq> -1 \<and> fd \<noteq> s_listen_sock (g_slave g) \<and> fd \<noteq> s_master_sock (g_slave g)
    \<and> MDBGet sm (g_mdb g) (int_bytes fd) = Some h"

definition incoming :: "int \<Rightarrow> epoll_event" where
  "incoming fd = \<lparr>ev_fd = fd, ev_in = True, ev_rdhup = False\<rparr>"

definition szBuf_of :: "('k, 'm, 'd, 'w) server \<Rightarrow> bytes" where
  "szBuf_of g = the (hp_mem (g_heap g) SZBUF)"

definition received :: "bytes \<Rightarrow> 'w \<Rightarrow> ('k, 'm, 'd, 'w) server \<Rightarrow> ('k, 'm, 'd, 'w) server" where
  "received b w g = g\<lparr>g_heap := (g_heap g)\<lparr>hp_mem := (hp_mem (g_heap g))(SZBUF \<mapsto> b)\<rparr>, g_w := w\<rparr>"

lemma received_simps [simp]:
  "szBuf_of (received b w g) = b" "hp_mem (g_heap (received b w g)) SZBUF = Some b" "g_slave (received b w g) = g_slave g"
  "g_q (received b w g) = g_q g" "g_mdb (received b w g) = g_mdb g" "g_sem (received b w g) = g_sem g"
  "g_w (received b w g) = w"
  by (simp_all add: received_def szBuf_of_def)

lemma client_step:
  assumes "client_of sm fd h g" and "hp_mem (g_heap g) SZBUF = Some b0"
    and "recv_into (e_os env) fd b0 (g_w g) = (r, b, w)"
  shows "server_step env sm ip0 (incoming fd) g =
    (let g = received b w g; phd = GetHeader b in
     if for_slave phd then
       andThen (HandleSlaveRequest env (hc_sock h) b (g_slave g) w) (\<lambda>(s, w). Inr (g\<lparr>g_slave := s, g_w := w\<rparr>))
     else if outdated phd (g_slave g) then
       andThen (SendSlaveList env fd (g_slave g) w) (\<lambda>w. Inr (g\<lparr>g_w := w\<rparr>))
     else andThen (EnQueue \<lparr>qn_hcsock = h, qn_buf = SZBUF\<rparr> (g_q g)) (\<lambda>q.
       Inr (g\<lparr>g_q := q, g_sem := g_sem g + 1\<rparr>)))"
  using assms
  by (simp add: server_step_def client_request_def incoming_def client_of_def DBRecvMsg_def received_def Let_def)

lemma SendSlaveList_spec:
  assumes "fd \<noteq> -1" and "header_ok (e_hdr env)" and "list_ok (s_slaves s)" and "list_all node_ok (sl_nodes (s_slaves s))"
  shows "\<exists>p. SendSlaveList env fd s w = Inr (n_send (e_os env) fd p w)
    \<and> hd_cmd (GetHeader p) = cmd_code UPDATE_VERSION
    \<and> word_of_int (hd_version (GetHeader p)) = GetVersion s \<and> bytes_list (GetAppend p) = s_slaves s"
proof -
  let ?h = "(e_hdr env)\<lparr>hd_cmd := cmd_code UPDATE_VERSION, hd_version := sint (sl_version (s_slaves s))\<rparr>"
  let ?d = "list_bytes (s_slaves s)" and ?b = "zeros MAX_BUF_LEN"
  have b: "packet_buf ?b" by (simp add: packet_buf_def MAX_BUF_LEN_def packet_consts)
  have "int32 (sint (sl_version (s_slaves s)))"
    using sint_ge [of "sl_version (s_slaves s)"] sint_lt [of "sl_version (s_slaves s)"]
    by (simp add: int32_def)
  then have h: "header_ok ?h" using assms(2) by (simp add: header_ok_def)
  have len: "length ?d = SLAVELIST_SIZE" by (rule length_list_bytes [OF assms(3)])
  then have d: "length ?d \<le> APPENDSIZE" using SLAVELIST_fits by simp
  have run: "SendSlaveList env fd s w = Inr (n_send (e_os env) fd (packet ?b ?h ?d) w)"
    using assms(1) Append_packet [OF b d, of ?h] packet_buf_packet [OF b d, of ?h]
    by (simp add: SendSlaveList_def Let_def len)
  have "bytes_list (GetAppend (packet ?b ?h ?d)) = s_slaves s"
    using assms(3,4) by (simp add: GetAppend_packet [OF b d] bytes_list_list_bytes list_all_iff)
  then show ?thesis
    using run by (intro exI [of _ "packet ?b ?h ?d"]) (simp add: GetHeader_packet [OF b h d] GetVersion_def)
qed

lemma enqueued:
  assumes "client_of sm fd h g" and "hp_mem (g_heap g) SZBUF = Some b0"
    and "recv_into (e_os env) fd b0 (g_w g) = (r, b, w)"
    and "\<not> for_slave (GetHeader b)" and "\<not> outdated (GetHeader b) (g_slave g)"
    and "queue_ok (g_q g)" and "waiting (g_q g) < 9"
  shows "\<exists>q. server_step env sm ip0 (incoming fd) g = Inr ((received b w g)\<lparr>g_q := q, g_sem := g_sem g + 1\<rparr>)
    \<and> queue_ok q \<and> contents q = contents (g_q g) @ [\<lparr>qn_hcsock = h, qn_buf = SZBUF\<rparr>]"
  using EnQueue_room [OF assms(6,7), of "\<lparr>qn_hcsock = h, qn_buf = SZBUF\<rparr>"] client_step [OF assms(1-3), of ip0] assms(4,5)
  by (auto simp: Let_def)

section \<open>Properties\<close>

text \<open>C20: a client with an outdated list is sent the current one: when the packet of a client names
  an older version and is neither \<open>OPEN\<close> nor \<open>CLOSE\<close>, the request is not carried out, the
  queue stays as it is, and the reply is an \<open>UPDATE_VERSION\<close> packet that holds the server's
  membership list with its version.\<close>

theorem outdated_client_gets_list:
  assumes "client_of sm fd h g" and "szBuf_of g = b0" and "hp_mem (g_heap g) SZBUF \<noteq> None" and "packet_buf b0"
    and "n_recv (e_os env) fd (g_w g) = (Some b, w)" and "packet_buf b"
    and "\<not> for_slave (GetHeader b)" and "outdated (GetHeader b) (g_slave g)"
    and "header_ok (e_hdr env)" and "list_ok (s_slaves (g_slave g))" and "list_all node_ok (sl_nodes (s_slaves (g_slave g)))"
  shows "\<exists>p. server_step env sm ip0 (incoming fd) g = Inr (received b (n_send (e_os env) fd p w) g)
    \<and> hd_cmd (GetHeader p) = cmd_code UPDATE_VERSION
    \<and> word_of_int (hd_version (GetHeader p)) = GetVersion (g_slave g)
    \<and> bytes_list (GetAppend p) = s_slaves (g_slave g)"
proof -
  have mem: "hp_mem (g_heap g) SZBUF = Some b0" using assms(2,3) by (auto simp: szBuf_of_def)
  have r: "recv_into (e_os env) fd b0 (g_w g) = (int MAX_BUF_LEN, b, w)"
    by (rule recv_into_full [OF assms(5,6,4)])
  have fd: "fd \<noteq> -1" using assms(1) by (simp add: client_of_def)
  from SendSlaveList_spec [OF fd assms(9-11), of w] client_step [OF assms(1) mem r, of ip0] show ?thesis
    using assms(7,8) by (auto simp: Let_def received_def)
qed

text \<open>A hang-up repeats the last request: when \<open>recv\<close> delivers nothing on a client's
  connection, the packet that is still in \<open>szBuf\<close>, whoever sent it, enters the queue once
  more, now on behalf of the connection that was closed.\<close>

lemma hangup_repeats_request:
  assumes "client_of sm fd h g" and "hp_mem (g_heap g) SZBUF = Some b0"
    and "fst (n_recv (e_os env) fd (g_w g)) \<in> {None, Some []}"
    and "\<not> for_slave (GetHeader b0)" and "\<not> outdated (GetHeader b0) (g_slave g)"
    and "queue_ok (g_q g)" and "waiting (g_q g) < 9"
  shows "\<exists>g'. server_step env sm ip0 (incoming fd) g = Inr g' \<and> szBuf_of g' = b0
    \<and> contents (g_q g') = contents (g_q g) @ [\<lparr>qn_hcsock = h, qn_buf = SZBUF\<rparr>]"
proof -
  obtain r w where r: "recv_into (e_os env) fd b0 (g_w g) = (r, b0, w)"
    using recv_into_nothing [OF assms(3)] by blast
  from enqueued [OF assms(1,2) r assms(4-7), of ip0] show ?thesis
    by (auto simp: szBuf_of_def received_def)
qed

text \<open>C34: queued requests share one buffer: when two clients' requests arrive before a worker
  takes the first, the first client's node points to the second client's packet, and the
  worker that serves the first connection carries out the second request.\<close>

theorem second_request_overwrites_first:
  assumes "client_of sm fd1 h1 g" and "hp_mem (g_heap g) SZBUF = Some b0" and "packet_buf b0"
    and "n_recv (e_os env) fd1 (g_w g) = (Some b1, w1)" and "packet_buf b1"
    and "n_recv (e_os env) fd2 w1 = (Some b2, w2)" and "packet_buf b2" and "client_of sm fd2 h2 g"
    and "list_all (\<lambda>b. \<not> for_slave (GetHeader b) \<and> \<not> outdated (GetHeader b) (g_slave g)) [b1, b2]"
    and "queue_ok (g_q g)" and "contents (g_q g) = []"
  shows "\<exists>g1 g2. server_step env sm ip0 (incoming fd1) g = Inr g1
    \<and> server_step env sm ip0 (incoming fd2) g1 = Inr g2
    \<and> map (\<lambda>n. (qn_hcsock n, hp_mem (g_heap g2) (qn_buf n))) (contents (g_q g2)) = [(h1, Some b2), (h2, Some b2)]"
proof -
  have w0: "waiting (g_q g) = 0" using assms(11) length_contents [of "g_q g"] by simp
  have r1: "recv_into (e_os env) fd1 b0 (g_w g) = (int MAX_BUF_LEN, b1, w1)"
    by (rule recv_into_full [OF assms(4,5,3)])
  obtain q1 where g1: "server_step env sm ip0 (incoming fd1) g = Inr ((received b1 w1 g)\<lparr>g_q := q1, g_sem := g_sem g + 1\<rparr>)"
    "queue_ok q1" "contents q1 = [\<lparr>qn_hcsock = h1, qn_buf = SZBUF\<rparr>]"
    using enqueued [OF assms(1,2) r1 _ _ assms(10), of ip0] w0 assms(9,11) by auto
  let ?g1 = "(received b1 w1 g)\<lparr>g_q := q1, g_sem := g_sem g + 1\<rparr>"
  have w1: "waiting q1 = 1" using g1(3) length_contents [of q1] by simp
  have c2: "client_of sm fd2 h2 ?g1" "hp_mem (g_heap ?g1) SZBUF = Some b1" "queue_ok (g_q ?g1)" "waiting (g_q ?g1) < 9"
    "\<not> for_slave (GetHeader b2)" "\<not> outdated (GetHeader b2) (g_slave ?g1)" "g_w ?g1 = w1"
    using assms(8,9) g1(2) w1 by (simp_all add: client_of_def received_def)
  have r2: "recv_into (e_os env) fd2 b1 (g_w ?g1) = (int MAX_BUF_LEN, b2, w2)"
    unfolding c2(7) by (rule recv_into_full [OF assms(6,7,5)])
  obtain q2 where g2: "server_step env sm ip0 (incoming fd2) ?g1
      = Inr ((received b2 w2 ?g1)\<lparr>g_q := q2, g_sem := g_sem ?g1 + 1\<rparr>)"
    "contents q2 = contents (g_q ?g1) @ [\<lparr>qn_hcsock = h2, qn_buf = SZBUF\<rparr>]"
    using enqueued [OF c2(1,2) r2 c2(5,6,3,4), of ip0] by auto
  show ?thesis
    using g1(1,3) g2 by (intro exI [of _ ?g1] exI [of _ "(received b2 w2 ?g1)\<lparr>g_q := q2, g_sem := g_sem ?g1 + 1\<rparr>"])
      (simp add: received_def)
qed

text \<open>A slave that loses its master crashes: a hang-up of \<open>master_sock\<close> is handled by
  \<open>DBServiceStop\<close>, which looks for a client of that socket and follows the \<open>NULL\<close> it gets.\<close>

lemma master_hangup_crashes:
  assumes "s_master_sock (g_slave g) \<noteq> s_listen_sock (g_slave g)"
    and "MDBGet sm (g_mdb g) (int_bytes (s_master_sock (g_slave g))) = None"
  shows "server_step env sm ip0 \<lparr>ev_fd = s_master_sock (g_slave g), ev_in = True, ev_rdhup = True\<rparr> g = Inl NullDeref"
  using assms by (simp add: server_step_def DBServiceStop_def)

subsection \<open>Witnesses\<close>

text \<open>A world in which each \<open>recv\<close> takes the next packet of a list.\<close>

definition feed_os :: "bytes option list os" where
  "feed_os = \<lparr>n_socket = (\<lambda>w. (3, w)), n_bind = (\<lambda>_ _ _ w. (0, w)), n_listen = (\<lambda>_ w. (0, w)),
    n_accept = (\<lambda>_ w. (7, 16777343, w)), n_connect = (\<lambda>_ _ _ w. (0, w)), n_send = (\<lambda>_ _ w. w),
    n_recv = (\<lambda>_ w. case w of [] \<Rightarrow> (None, []) | b # bs \<Rightarrow> (b, bs)), n_close = (\<lambda>_ w. w), n_port = (\<lambda>_ _. 4000),
    o_read = (\<lambda>_ _. None), o_create = (\<lambda>_ w. (True, w)), o_write = (\<lambda>_ d w. (int (length d), w)), o_system = (\<lambda>_ w. (0, w)),
    o_cancel = (\<lambda>_ w. Inr (3, w))\<rparr>"

definition feed_tc :: "(nat, bytes option list) tchdb" where
  "feed_tc = \<lparr>tchdbnew = (\<lambda>w. (0, w)), tchdbopen = (\<lambda>_ _ w. (False, w)), tchdbclose = (\<lambda>_ w. (False, w)),
    tchdbput = (\<lambda>_ _ _ w. (False, w)), tchdbget = (\<lambda>_ _ w. (None, w)), tchdbout = (\<lambda>_ _ w. (False, w)),
    tchdbrnum = (\<lambda>_ _. 0), tchdbiterinit = (\<lambda>_ w. (False, w)), tchdbiternext = (\<lambda>_ w. (None, w)),
    tchdbecode = (\<lambda>_ _. 0), tchdberrmsg = (\<lambda>_. [])\<rparr>"

definition feed_env :: "(nat, (bytes \<times> nat OpenedDB) list, bytes option list) env" where
  "feed_env = \<lparr>e_os = feed_os, e_tc = feed_tc, e_tm = alist_mdb,
    e_hdr = \<lparr>hd_size = 0, hd_cmd = 0, hd_key = 0, hd_version = 0\<rparr>, e_fuel = 10\<rparr>"

definition a_slave :: "(bytes \<times> nat OpenedDB) list slave" where
  "a_slave = \<lparr>s_slaves = two_nodes, s_pos = 0, s_file_tmp = a_db @ [126], s_file_master = a_db,
    s_xbuf = zeros MAX_BUF_LEN, s_port = 4001, s_master_sock = 4, s_listen_sock = 3, s_db = no_dbs\<rparr>"

definition conn :: "int \<Rightarrow> nat OpenedDB option ClientSockHandle" where
  "conn fd = \<lparr>hc_sock = fd, hc_ip = 16777343, hc_app = Uninit\<rparr>"

definition a_server :: "bytes \<Rightarrow> bytes option list \<Rightarrow>
    ((bytes \<times> nat OpenedDB option ClientSockHandle) list, (bytes \<times> nat OpenedDB) list, nat OpenedDB, bytes option list) server" where
  "a_server b w = \<lparr>g_slave = a_slave, g_mdb = [(int_bytes 7, conn 7), (int_bytes 8, conn 8)],
    g_q = \<lparr>q_nodes = replicate 10 \<lparr>qn_hcsock = conn 0, qn_buf = 1\<rparr>, q_head = 0, q_tail = 0\<rparr>,
    g_heap = \<lparr>hp_next = 11, hp_mem = [SZBUF \<mapsto> b]\<rparr>, g_sem = 0, g_epoll = [3, 4, 7, 8],
    g_workers = [new_worker, new_worker], g_w = w\<rparr>"

lemma a_server_clients: "client_of alist_mdb 7 (conn 7) (a_server b w)" "client_of alist_mdb 8 (conn 8) (a_server b w)"
  using int_bytes_inj [of 8 7]
  by (simp_all add: client_of_def a_server_def a_slave_def MDBGet_def alist_mdb_def int32_def)

lemma a_server_simps [simp]:
  "hp_mem (g_heap (a_server b w)) SZBUF = Some b" "g_slave (a_server b w) = a_slave" "g_w (a_server b w) = w"
  "queue_ok (g_q (a_server b w))" "contents (g_q (a_server b w)) = []" "waiting (g_q (a_server b w)) = 0"
  by (simp_all add: a_server_def queue_ok_def contents_def waiting_def MAX_QUEUE_LEN_def)

text \<open>A request that carries version 2, and one of version 0.\<close>

definition current :: "cmd \<Rightarrow> bytes" where
  "current c = packet (zeros MAXPACKETLEN) \<lparr>hd_size = 0, hd_cmd = cmd_code c, hd_key = 5, hd_version = 2\<rparr> []"

lemma current_facts:
  "packet_buf (current c)" "hd_cmd (GetHeader (current c)) = cmd_code c" "hd_version (GetHeader (current c)) = 2"
proof -
  let ?h = "\<lparr>hd_size = 0, hd_cmd = cmd_code c, hd_key = 5, hd_version = 2\<rparr>"
  have "header_ok ?h" by (simp add: header_ok_def int32_def)
  from GetHeader_packet [OF packet_buf_zeros this, of "[]"] packet_buf_packet [OF packet_buf_zeros, of "[]" ?h]
  show "packet_buf (current c)" "hd_cmd (GetHeader (current c)) = cmd_code c" "hd_version (GetHeader (current c)) = 2"
    by (simp_all add: current_def)
qed

lemma current_dispatch:
  "c \<in> {GET, DEL, SET} \<Longrightarrow> \<not> for_slave (GetHeader (current c)) \<and> \<not> outdated (GetHeader (current c)) a_slave"
  by (auto simp: for_slave_def outdated_def current_facts GetVersion_def a_slave_def two_nodes_def cmd_code_def word_le_nat_alt)

theorem outdated_client_gets_list_witness:
  "\<exists>p. server_step feed_env alist_mdb 0 (incoming 7) (a_server (zeros 1024) [Some (request GET 5 [])])
      = Inr (received (request GET 5 []) (n_send feed_os 7 p []) (a_server (zeros 1024) [Some (request GET 5 [])]))
    \<and> hd_cmd (GetHeader p) = cmd_code UPDATE_VERSION \<and> bytes_list (GetAppend p) = two_nodes"
proof -
  let ?g = "a_server (zeros 1024) [Some (request GET 5 [])]" and ?b = "request GET 5 []"
  have b: "packet_buf ?b" "names GET 5 ?b" using request_facts [of 5 "[]" GET] by (simp_all add: int32_def)
  have v: "hd_version (GetHeader ?b) = 0"
    using GetHeader_packet [OF packet_buf_zeros, of "\<lparr>hd_size = 0, hd_cmd = cmd_code GET, hd_key = 5, hd_version = 0\<rparr>" "[]"]
    by (simp add: request_def header_ok_def int32_def)
  have d: "\<not> for_slave (GetHeader ?b)" "outdated (GetHeader ?b) (g_slave ?g)"
    using b(2) v by (simp_all add: names_def for_slave_def outdated_def GetVersion_def a_slave_def two_nodes_def cmd_code_def word_le_nat_alt)
  have s: "szBuf_of ?g = zeros 1024" "hp_mem (g_heap ?g) SZBUF \<noteq> None" "packet_buf (zeros 1024)"
    by (simp_all add: szBuf_of_def packet_buf_def packet_consts)
  have n: "n_recv (e_os feed_env) 7 (g_w ?g) = (Some ?b, [])" by (simp add: feed_env_def feed_os_def)
  have l: "header_ok (e_hdr feed_env)" "list_ok (s_slaves (g_slave ?g))" "list_all node_ok (sl_nodes (s_slaves (g_slave ?g)))"
    using two_nodes_ok by (simp_all add: feed_env_def header_ok_def int32_def a_slave_def)
  have e: "e_os feed_env = feed_os" "s_slaves (g_slave ?g) = two_nodes" by (simp_all add: feed_env_def a_slave_def)
  from outdated_client_gets_list [OF a_server_clients(1) s n b(1) d l, of 0] show ?thesis unfolding e by blast
qed

lemma hangup_repeats_request_example:
  "\<exists>g'. server_step feed_env alist_mdb 0 (incoming 7) (a_server (current SET) [Some []]) = Inr g'
    \<and> szBuf_of g' = current SET \<and> contents (g_q g') = [\<lparr>qn_hcsock = conn 7, qn_buf = SZBUF\<rparr>]"
proof -
  let ?g = "a_server (current SET) [Some []]"
  have n: "fst (n_recv (e_os feed_env) 7 (g_w ?g)) \<in> {None, Some []}" by (simp add: feed_env_def feed_os_def)
  show ?thesis
    using hangup_repeats_request [OF a_server_clients(1) _ n, of "current SET" 0] current_dispatch [of SET] by simp
qed

theorem second_request_overwrites_first_witness:
  "\<exists>g1 g2. server_step feed_env alist_mdb 0 (incoming 7) (a_server (zeros 1024) [Some (current GET), Some (current DEL)]) = Inr g1
    \<and> server_step feed_env alist_mdb 0 (incoming 8) g1 = Inr g2
    \<and> map (\<lambda>n. (qn_hcsock n, hp_mem (g_heap g2) (qn_buf n))) (contents (g_q g2))
      = [(conn 7, Some (current DEL)), (conn 8, Some (current DEL))]"
proof -
  let ?g = "a_server (zeros 1024) [Some (current GET), Some (current DEL)]"
  have b: "packet_buf (zeros 1024)" by (simp add: packet_buf_def packet_consts)
  have n: "n_recv (e_os feed_env) 7 (g_w ?g) = (Some (current GET), [Some (current DEL)])"
    "n_recv (e_os feed_env) 8 [Some (current DEL)] = (Some (current DEL), [])"
    by (simp_all add: feed_env_def feed_os_def)
  show ?thesis
    by (rule second_request_overwrites_first [OF a_server_clients(1) _ b n(1) current_facts(1) n(2) current_facts(1) a_server_clients(2)])
      (use current_dispatch [of GET] current_dispatch [of DEL] in simp_all)
qed

lemma master_hangup_crashes_example:
  "server_step feed_env alist_mdb 0 \<lparr>ev_fd = 4, ev_in = True, ev_rdhup = True\<rparr> (a_server (zeros 1024) []) = Inl NullDeref"
proof -
  have "int_bytes 4 \<noteq> int_bytes 7" "int_bytes 4 \<noteq> int_bytes 8"
    using int_bytes_inj [of 4 7] int_bytes_inj [of 4 8] by (simp_all add: int32_def)
  then show ?thesis
    using master_hangup_crashes [of "a_server (zeros 1024) []" alist_mdb feed_env 0]
    by (simp add: a_slave_def a_server_def MDBGet_def alist_mdb_def)
qed

end
