(* ===== verification/FileTransfer.thy ===== *)
theory FileTransfer
  imports Slave
begin

text \<open>
  \<open>SendFile\<close> and \<open>RecvFile\<close> of \<^verbatim>\<open>server/slave.c\<close> against each other. Each side runs in a world
  of its own: packets that will arrive, packets it has sent, its files, and the addresses that it has connected to. A connection hands
  over whole packets in the order in which they were sent. \<open>party_os\<close> is that operating system.
\<close>

text \<open>
  Files lie on a disk \<open>'d\<close>: they are read and written as a whole, and the shell acts on them. \<open>fs_ok\<close> is what
  the C library promises of \<open>fopen\<close>, \<open>fwrite\<close> and \<open>fread\<close>.
\<close>

record 'd filesys =
  fs_read :: "bytes \<Rightarrow> 'd \<Rightarrow> bytes option"
  fs_put :: "bytes \<Rightarrow> bytes \<Rightarrow> 'd \<Rightarrow> 'd"
  fs_system :: "bytes \<Rightarrow> 'd \<Rightarrow> int \<times> 'd"

definition fs_ok :: "'d filesys \<Rightarrow> bool" where
  "fs_ok fs \<longleftrightarrow> (\<forall>n m b d. fs_read fs n (fs_put fs m b d) = (if n = m then Some b else fs_read fs n d))
    \<and> (\<forall>n a b d. fs_put fs n b (fs_put fs n a d) = fs_put fs n b d)"

lemma fs_okD:
  assumes "fs_ok fs"
  shows "fs_read fs n (fs_put fs m b d) = (if n = m then Some b else fs_read fs n d)"
    and "fs_put fs n b (fs_put fs n a d) = fs_put fs n b d"
  using assms by (simp_all add: fs_ok_def)

record 'd party =
  inbox :: "bytes list"
  outbox :: "bytes list"
  pdisk :: 'd
  dials :: "(int \<times> int) list"

definition party_os :: "'d filesys \<Rightarrow> 'd party os" where
  "party_os fs = \<lparr>n_socket = (\<lambda>w. (3, w)), n_bind = (\<lambda>_ _ _ w. (0, w)), n_listen = (\<lambda>_ w. (0, w)),
    n_accept = (\<lambda>_ w. (7, 0, w)), n_connect = (\<lambda>_ ip port w. (0, w\<lparr>dials := dials w @ [(ip, port)]\<rparr>)),
    n_send = (\<lambda>_ b w. w\<lparr>outbox := outbox w @ [b]\<rparr>),
    n_recv = (\<lambda>_ w. case inbox w of [] \<Rightarrow> (Some [], w) | b # bs \<Rightarrow> (Some b, w\<lparr>inbox := bs\<rparr>)),
    n_close = (\<lambda>_ w. w), n_port = (\<lambda>_ _. 4000),
    o_read = (\<lambda>n w. fs_read fs n (pdisk w)),
    o_create = (\<lambda>n w. (True, w\<lparr>pdisk := fs_put fs n [] (pdisk w)\<rparr>)),
    o_write = (\<lambda>n d w. (int (length d), w\<lparr>pdisk := fs_put fs n (the (fs_read fs n (pdisk w)) @ d) (pdisk w)\<rparr>)),
    o_system = (\<lambda>c w. let (r, d) = fs_system fs c (pdisk w) in (r, w\<lparr>pdisk := d\<rparr>)),
    o_cancel = (\<lambda>_ w. Inr (3, w))\<rparr>"

text \<open>What travels: acknowledgements, and chunks with their length as key.\<close>

definition is_ack :: "bytes \<Rightarrow> bool" where
  "is_ack p \<longleftrightarrow> packet_buf p \<and> hd_cmd (GetHeader p) = cmd_code FILETRANS_R"

definition carries :: "bytes \<Rightarrow> bytes \<Rightarrow> bool" where
  "carries p c \<longleftrightarrow> packet_buf p \<and> hd_cmd (GetHeader p) = cmd_code FILETRANS
    \<and> hd_key (GetHeader p) = int (length c) \<and> take (length c) (GetAppend p) = c \<and> length c \<le> APPENDSIZE"

fun chunks :: "bytes \<Rightarrow> bytes list" where
  "chunks [] = []"
| "chunks (b # bs) = take APPENDSIZE (b # bs) # chunks (drop (APPENDSIZE - 1) bs)"

lemma APPENDSIZE_pos: "0 < APPENDSIZE"
  by (simp add: packet_consts)

lemma chunks_step: "data \<noteq> [] \<Longrightarrow> chunks data = take APPENDSIZE data # chunks (drop APPENDSIZE data)"
  using APPENDSIZE_pos by (cases data) (auto simp: drop_Cons')

lemma concat_chunks: "concat (chunks data) = data"
proof (induction data rule: chunks.induct)
  case (2 b bs)
  have "drop (APPENDSIZE - 1) bs = drop APPENDSIZE (b # bs)" using APPENDSIZE_pos by (simp add: drop_Cons')
  then show ?case using 2 by (simp del: One_nat_def)
qed simp

lemma length_chunks: "length (chunks data) \<le> length data"
proof (induction data rule: chunks.induct)
  case (2 b bs)
  then show ?case by simp
qed simp

text \<open>A slave that talks: its buffer is a packet buffer, its uninitialised header holds integers.\<close>

definition talks :: "'d filesys \<Rightarrow> ('h, 'm, 'd party) env \<Rightarrow> int \<Rightarrow> 'm slave \<Rightarrow> bool" where
  "talks fs env sock s \<longleftrightarrow> fs_ok fs \<and> e_os env = party_os fs \<and> sock \<noteq> -1 \<and> header_ok (e_hdr env) \<and> packet_buf (s_xbuf s)"

lemma talksD:
  assumes "talks fs env sock s"
  shows "fs_ok fs" and "e_os env = party_os fs" and "sock \<noteq> -1" and "header_ok (e_hdr env)" and "packet_buf (s_xbuf s)"
  using assms by (simp_all add: talks_def)

text \<open>The packet of an exchange is written over the one that came in last: \<open>b\<close> is the static buffer.\<close>

definition packet_over :: "('h, 'm, 'w) env \<Rightarrow> cmd \<Rightarrow> int \<Rightarrow> bytes \<Rightarrow> bytes \<Rightarrow> bytes" where
  "packet_over env c key d b = packet b ((e_hdr env)\<lparr>hd_cmd := cmd_code c, hd_key := key\<rparr>) d"

lemma packet_over_facts:
  assumes "header_ok (e_hdr env)" and "packet_buf b" and "length d \<le> APPENDSIZE" and "int32 key"
  shows "packet_buf (packet_over env c key d b)"
    and "hd_cmd (GetHeader (packet_over env c key d b)) = cmd_code c"
    and "hd_key (GetHeader (packet_over env c key d b)) = key"
    and "take (length d) (GetAppend (packet_over env c key d b)) = d"
proof -
  let ?h = "(e_hdr env)\<lparr>hd_cmd := cmd_code c, hd_key := key\<rparr>"
  have h: "header_ok ?h" using assms(1,4) by (simp add: header_ok_def)
  show "packet_buf (packet_over env c key d b)"
    using packet_buf_packet [OF assms(2,3)] by (simp add: packet_over_def)
  show "hd_cmd (GetHeader (packet_over env c key d b)) = cmd_code c" "hd_key (GetHeader (packet_over env c key d b)) = key"
    using GetHeader_packet [OF assms(2) h assms(3)] by (simp_all add: packet_over_def)
  show "take (length d) (GetAppend (packet_over env c key d b)) = d"
    using take_GetAppend_packet [OF assms(2,3), of "length d" ?h] by (simp add: packet_over_def)
qed

lemma exchange_party:
  assumes "talks fs env sock s" and "length d \<le> APPENDSIZE" and "inbox w = b # bs" and "packet_buf b"
  shows "slave_exchange env c key d (int (length d)) sock s w
      = Inr (s\<lparr>s_xbuf := b\<rparr>, w\<lparr>inbox := bs, outbox := outbox w @ [packet_over env c key d (s_xbuf s)]\<rparr>)"
proof -
  note t = talksD [OF assms(1)]
  let ?p = "packet_over env c key d (s_xbuf s)" and ?w = "w\<lparr>outbox := outbox w @ [packet_over env c key d (s_xbuf s)]\<rparr>"
  have p: "packet_buf ?p" using packet_buf_packet [OF t(5) assms(2)] by (simp add: packet_over_def)
  have send: "n_send (party_os fs) sock ?p w = ?w" by (simp add: party_os_def)
  have "n_recv (party_os fs) sock ?w = (Some b, w\<lparr>inbox := bs, outbox := outbox w @ [?p]\<rparr>)"
    using assms(3) by (simp add: party_os_def)
  from recv_into_full [OF this assms(4) p] show ?thesis
    unfolding slave_exchange_def ExchangePacket_ok [OF t(3,5) assms(2)] t(2) packet_over_def [symmetric] send by simp
qed

lemma talks_xbuf [simp]: "talks fs env sock s \<Longrightarrow> packet_buf b \<Longrightarrow> talks fs env sock (s\<lparr>s_xbuf := b\<rparr>)"
  by (simp add: talks_def)

lemma int32_chunk: "length c \<le> APPENDSIZE \<Longrightarrow> int32 (int (length c))"
  by (simp add: int32_def packet_consts)

text \<open>
  What the two loops send: the sender a chunk over each acknowledgement but the last, the receiver an
  acknowledgement over what it got before.
\<close>

fun send_outs :: "('h, 'm, 'w) env \<Rightarrow> bytes \<Rightarrow> bytes list \<Rightarrow> bytes list \<Rightarrow> bytes list" where
  "send_outs env b (c # cs) (a # as) = packet_over env FILETRANS (int (length c)) c b # send_outs env a cs as"
| "send_outs env b cs as = []"

fun recv_outs :: "('h, 'm, 'w) env \<Rightarrow> bytes \<Rightarrow> bytes list \<Rightarrow> bytes list" where
  "recv_outs env b [] = []"
| "recv_outs env b (p # ps) = packet_over env FILETRANS_R 0 [] b # recv_outs env p ps"

lemma length_recv_outs [simp]: "length (recv_outs env b ps) = length ps"
  by (induction env b ps rule: recv_outs.induct) simp_all

lemma send_outs_carry:
  assumes "header_ok (e_hdr env)" and "packet_buf b" and "list_all is_ack as" and "length as = length cs"
    and "\<forall>c \<in> set cs. length c \<le> APPENDSIZE"
  shows "list_all2 carries (send_outs env b cs as) cs"
  using assms(2-)
proof (induction cs arbitrary: b as)
  case (Cons c cs)
  then obtain a as' where as: "as = a # as'" by (cases as) auto
  have c: "length c \<le> APPENDSIZE" using Cons.prems(4) by simp
  have "carries (packet_over env FILETRANS (int (length c)) c b) c"
    using packet_over_facts [OF assms(1) Cons.prems(1) c int32_chunk [OF c]] c by (simp add: carries_def)
  then show ?case using Cons as by (simp add: is_ack_def)
qed simp

lemma recv_outs_ack:
  assumes "header_ok (e_hdr env)" and "packet_buf b" and "list_all packet_buf ps"
  shows "list_all is_ack (recv_outs env b ps)"
  using assms(2,3)
proof (induction ps arbitrary: b)
  case (Cons p ps)
  have "int32 0" by (simp add: int32_def)
  then have "is_ack (packet_over env FILETRANS_R 0 [] b)"
    using packet_over_facts [OF assms(1) Cons.prems(1), of "[]" 0 FILETRANS_R] by (simp add: is_ack_def)
  then show ?case using Cons by simp
qed simp

lemma send_loop_party:
  assumes "talks fs env sock s" and "inbox w = acks @ rest" and "list_all is_ack acks"
    and "length acks = length (chunks (drop k data))" and "k \<le> length data"
  shows "\<exists>b. packet_buf b \<and> send_loop env sock data (int k) (int (length data)) s w
      = Inr (0, s\<lparr>s_xbuf := b\<rparr>, w\<lparr>inbox := rest, outbox := outbox w @ send_outs env (s_xbuf s) (chunks (drop k data)) acks\<rparr>)"
  using assms
proof (induction "length (chunks (drop k data))" arbitrary: k s w acks)
  case 0
  then have e: "drop k data = []" "k = length data" "acks = []" by (cases "drop k data"; simp)+
  have "w = w\<lparr>inbox := rest, outbox := outbox w @ []\<rparr>" using 0 e(3) by (cases w) simp
  moreover have "send_loop env sock data (int k) (int (length data)) s w = Inr (0, s, w)"
    using e(2) by (subst send_loop.simps) simp
  ultimately show ?case using talksD(5) [OF "0.prems"(1)] e(1)
    by (intro exI [of _ "s_xbuf s"]) simp
next
  case (Suc n)
  let ?d = "drop k data" and ?c = "take APPENDSIZE (drop k data)"
  have ne: "?d \<noteq> []" using Suc.hyps(2) by auto
  note ch = chunks_step [OF ne]
  have c: "length ?c \<le> APPENDSIZE" "0 < length ?c" using ne APPENDSIZE_pos by auto
  have k: "k < length data" using ne by simp
  obtain a acks' where acks: "acks = a # acks'" using Suc.prems(4) ch by (cases acks) auto
  then have a: "packet_buf a" "hd_cmd (GetHeader a) = cmd_code FILETRANS_R" using Suc.prems(3) by (simp_all add: is_ack_def)
  have inb: "inbox w = a # acks' @ rest" using Suc.prems(2) acks by simp
  let ?p = "packet_over env FILETRANS (int (length ?c)) ?c (s_xbuf s)"
  have p: "slave_exchange env FILETRANS (int (length ?c)) ?c (int (length ?c)) sock s w
      = Inr (s\<lparr>s_xbuf := a\<rparr>, w\<lparr>inbox := acks' @ rest, outbox := outbox w @ [?p]\<rparr>)"
    by (rule exchange_party [OF Suc.prems(1) c(1) inb a(1)])
  let ?k = "k + length ?c" and ?s = "s\<lparr>s_xbuf := a\<rparr>" and ?w = "w\<lparr>inbox := acks' @ rest, outbox := outbox w @ [?p]\<rparr>"
  have rest: "drop ?k data = drop APPENDSIZE ?d" by (simp add: min_def add.commute)
  have step: "send_loop env sock data (int k) (int (length data)) s w
      = send_loop env sock data (int ?k) (int (length data)) ?s ?w"
    using k c(2) p a(2) by (simp add: send_loop.simps [of env sock data "int k"] reply_def Let_def)
  have "\<exists>b. packet_buf b \<and> send_loop env sock data (int ?k) (int (length data)) ?s ?w
      = Inr (0, ?s\<lparr>s_xbuf := b\<rparr>, ?w\<lparr>inbox := rest, outbox := outbox ?w @ send_outs env (s_xbuf ?s) (chunks (drop ?k data)) acks'\<rparr>)"
  proof (rule Suc.hyps(1))
    show "n = length (chunks (drop ?k data))" using Suc.hyps(2) ch rest by simp
    show "talks fs env sock ?s" using Suc.prems(1) a(1) by simp
    show "list_all is_ack acks'" using Suc.prems(3) acks by simp
    show "length acks' = length (chunks (drop ?k data))" using Suc.prems(4) acks ch rest by simp
  qed (use k in auto)
  then show ?case unfolding step ch rest acks by simp
qed

lemma recv_loop_party:
  assumes "talks fs env sock s" and "inbox w = ps @ rest" and "list_all2 carries ps cs"
    and "length cs \<le> n" and "tot = int fin + int (length (concat cs))" and "\<forall>c \<in> set cs. c \<noteq> []"
    and "pdisk w = fs_put fs filename old d"
  shows "\<exists>b. packet_buf b \<and> recv_loop n env sock filename True (int fin) tot s w
      = Inr (0, s\<lparr>s_xbuf := b\<rparr>, w\<lparr>inbox := rest, outbox := outbox w @ recv_outs env (s_xbuf s) ps, pdisk := fs_put fs filename (old @ concat cs) d\<rparr>)"
  using assms
proof (induction cs arbitrary: ps n fin s w old)
  case Nil
  let ?w = "w\<lparr>inbox := rest, outbox := outbox w @ [], pdisk := fs_put fs filename (old @ concat []) d\<rparr>"
  have same: "?w = w" using Nil by (cases w) auto
  have "recv_loop n env sock filename True (int fin) tot s w = Inr (0, s, w)"
    using Nil by (cases n) simp_all
  then have "recv_loop n env sock filename True (int fin) tot s w = Inr (0, s, ?w)" by (simp only: same)
  then show ?case using talksD(5) [OF Nil.prems(1)] Nil.prems(3) by (intro exI [of _ "s_xbuf s"]) simp
next
  case (Cons c cs)
  obtain p ps' m where ps: "ps = p # ps'" "list_all2 carries ps' cs" "n = Suc m" "length cs \<le> m"
    using Cons.prems(3,4) by (cases n) (auto simp: list_all2_Cons2)
  have p: "packet_buf p" "hd_key (GetHeader p) = int (length c)" "take (length c) (GetAppend p) = c" "length c \<le> APPENDSIZE"
    using Cons.prems(3) ps(1) by (simp_all add: carries_def)
  have inb: "inbox w = p # ps' @ rest" using Cons.prems(2) ps(1) by simp
  let ?a = "packet_over env FILETRANS_R 0 [] (s_xbuf s)"
  have a: "slave_exchange env FILETRANS_R 0 [] 0 sock s w
      = Inr (s\<lparr>s_xbuf := p\<rparr>, w\<lparr>inbox := ps' @ rest, outbox := outbox w @ [?a]\<rparr>)"
    using exchange_party [OF Cons.prems(1) _ inb p(1), of "[]" FILETRANS_R 0] by simp
  let ?s = "s\<lparr>s_xbuf := p\<rparr>"
  let ?w = "w\<lparr>inbox := ps' @ rest, outbox := outbox w @ [?a], pdisk := fs_put fs filename (old @ c) d\<rparr>"
  note t = talksD [OF Cons.prems(1)]
  have more: "int fin < tot" using Cons.prems(5,6) by (cases c) auto
  have "o_write (party_os fs) filename c (w\<lparr>inbox := ps' @ rest, outbox := outbox w @ [?a]\<rparr>) = (int (length c), ?w)"
    using Cons.prems(7) fs_okD [OF t(1)] by (simp add: party_os_def)
  then have step: "recv_loop n env sock filename True (int fin) tot s w
      = recv_loop m env sock filename True (int (fin + length c)) tot ?s ?w"
    using more a p by (simp add: ps(3) reply_def t(2) Let_def)
  have "\<exists>b. packet_buf b \<and> recv_loop m env sock filename True (int (fin + length c)) tot ?s ?w
      = Inr (0, ?s\<lparr>s_xbuf := b\<rparr>, ?w\<lparr>inbox := rest, outbox := outbox ?w @ recv_outs env (s_xbuf ?s) ps',
          pdisk := fs_put fs filename ((old @ c) @ concat cs) d\<rparr>)"
  proof (rule Cons.IH)
    show "talks fs env sock ?s" using Cons.prems(1) p(1) by simp
  qed (use Cons.prems(5,6) ps(2,4) in auto)
  then show ?case unfolding step ps(1) by simp
qed

section \<open>Both ends\<close>

text \<open>The packets \<open>ps\<close> announce and carry the file \<open>data\<close> under the name \<open>file_master\<close>.\<close>

definition file_packets :: "cmd \<Rightarrow> bytes \<Rightarrow> bytes \<Rightarrow> bytes \<Rightarrow> bytes list \<Rightarrow> bool" where
  "file_packets c name data h ps \<longleftrightarrow>
    packet_buf h \<and> hd_cmd (GetHeader h) = cmd_code c \<and> hd_key (GetHeader h) = int (length data)
    \<and> take (Suc (length name)) (GetAppend h) = name @ [0] \<and> list_all2 carries ps (chunks data)"

lemma chunks_small: "\<forall>c \<in> set (chunks data). length c \<le> APPENDSIZE \<and> c \<noteq> []"
  using APPENDSIZE_pos by (induction data rule: chunks.induct) auto

definition announce :: "('h, 'm, 'w) env \<Rightarrow> 'm slave \<Rightarrow> cmd \<Rightarrow> bytes \<Rightarrow> bytes" where
  "announce env s c data = packet_over env c (int (length data)) (s_file_master s @ [0]) (s_xbuf s)"

lemma packets_sent:
  assumes "talks fs env sock s" and "int32 (int (length data))" and "length (s_file_master s) < APPENDSIZE"
    and "length acks = length (chunks data)" and "list_all is_ack (a # acks)"
  shows "file_packets c (s_file_master s) data (announce env s c data) (send_outs env a (chunks data) acks)"
proof -
  note t = talksD [OF assms(1)]
  have m: "length (s_file_master s @ [0]) \<le> APPENDSIZE" using assms(3) by simp
  have "packet_buf a" using assms(5) by (simp add: is_ack_def)
  then show ?thesis
    using packet_over_facts [OF t(4,5) m assms(2), of c] send_outs_carry [OF t(4), of a acks "chunks data"] assms(4,5) chunks_small [of data]
    by (simp add: file_packets_def announce_def)
qed

lemma SendFile_party:
  assumes "talks fs env sock s" and "fs_read fs name (pdisk w) = Some data" and "int32 (int (length data))"
    and "length (s_file_master s) < APPENDSIZE"
    and "inbox w = a # acks @ rest" and "length acks = length (chunks data)" and "list_all is_ack (a # acks)"
  shows "\<exists>b. packet_buf b \<and> SendFile env sock name c s w
      = Inr (0, s\<lparr>s_xbuf := b\<rparr>, w\<lparr>inbox := rest, outbox := outbox w @ announce env s c data # send_outs env a (chunks data) acks\<rparr>)"
proof -
  let ?m = "s_file_master s @ [0]" and ?h = "announce env s c data"
  note t = talksD [OF assms(1)]
  have a: "packet_buf a" "hd_cmd (GetHeader a) = cmd_code FILETRANS_R" using assms(7) by (simp_all add: is_ack_def)
  have m: "length ?m \<le> APPENDSIZE" using assms(4) by simp
  have h: "slave_exchange env c (int (length data)) ?m (int (length ?m)) sock s w
      = Inr (s\<lparr>s_xbuf := a\<rparr>, w\<lparr>inbox := acks @ rest, outbox := outbox w @ [?h]\<rparr>)"
    using exchange_party [OF assms(1) m assms(5) a(1)] by (simp add: announce_def)
  let ?s = "s\<lparr>s_xbuf := a\<rparr>" and ?w = "w\<lparr>inbox := acks @ rest, outbox := outbox w @ [?h]\<rparr>"
  have "\<exists>b. packet_buf b \<and> send_loop env sock data (int 0) (int (length data)) ?s ?w
      = Inr (0, ?s\<lparr>s_xbuf := b\<rparr>, ?w\<lparr>inbox := rest, outbox := outbox ?w @ send_outs env (s_xbuf ?s) (chunks (drop 0 data)) acks\<rparr>)"
    using assms(1,6,7) a(1) by (intro send_loop_party [where fs = fs]) simp_all
  moreover have "o_read (party_os fs) name w = Some data" using assms(2) by (simp add: party_os_def)
  moreover have "int (length (s_file_master s)) + 1 = int (length ?m)" by simp
  ultimately show ?thesis
    using h a(2) by (simp add: SendFile_def t(2) to_s32_small [OF assms(3)] reply_def Let_def add.commute)
qed

definition farewell :: "('h, 'm, 'w) env \<Rightarrow> bytes" where
  "farewell env = WriteHeader (zeros MAX_BUF_LEN) ((e_hdr env)\<lparr>hd_cmd := cmd_code FILETRANS_R\<rparr>)"

lemma farewell_ack: "header_ok (e_hdr env) \<Longrightarrow> is_ack (farewell env)"
proof -
  assume hdr: "header_ok (e_hdr env)"
  have z: "packet_buf (zeros MAX_BUF_LEN)" by (simp add: packet_buf_def MAX_BUF_LEN_def packet_consts)
  have "packet_buf (farewell env)" using z by (simp add: farewell_def)
  then show ?thesis using GetHeader_WriteHeader [OF z, of "(e_hdr env)\<lparr>hd_cmd := cmd_code FILETRANS_R\<rparr>"] hdr
    by (simp add: is_ack_def farewell_def header_ok_def)
qed

lemma RecvFile_party:
  assumes "talks fs env sock s" and "inbox w = ps @ rest" and "list_all2 carries ps (chunks data)"
    and "length (chunks data) \<le> e_fuel env"
  shows "\<exists>b. packet_buf b \<and> RecvFile env sock name (int (length data)) s w
      = Inr (0, s\<lparr>s_xbuf := b\<rparr>, w\<lparr>inbox := rest, outbox := outbox w @ recv_outs env (s_xbuf s) ps @ [farewell env],
          pdisk := fs_put fs name data (pdisk w)\<rparr>)"
proof -
  let ?w = "w\<lparr>pdisk := fs_put fs name [] (pdisk w)\<rparr>"
  note t = talksD [OF assms(1)]
  have "\<exists>b. packet_buf b \<and> recv_loop (e_fuel env) env sock name True (int 0) (int (length data)) s ?w
      = Inr (0, s\<lparr>s_xbuf := b\<rparr>, ?w\<lparr>inbox := rest, outbox := outbox ?w @ recv_outs env (s_xbuf s) ps,
          pdisk := fs_put fs name ([] @ concat (chunks data)) (pdisk w)\<rparr>)"
    using assms chunks_small [of data] by (intro recv_loop_party) (simp_all add: concat_chunks)
  then obtain b where b: "packet_buf b" "recv_loop (e_fuel env) env sock name True 0 (int (length data)) s ?w
      = Inr (0, s\<lparr>s_xbuf := b\<rparr>, w\<lparr>inbox := rest, outbox := outbox w @ recv_outs env (s_xbuf s) ps, pdisk := fs_put fs name data (pdisk w)\<rparr>)"
    by (auto simp: concat_chunks)
  have z: "packet_buf (farewell env)" using farewell_ack [OF t(4)] by (simp add: is_ack_def)
  have "o_create (party_os fs) name w = (True, ?w)" by (simp add: party_os_def)
  moreover have "n_send (party_os fs) sock (farewell env) v = v\<lparr>outbox := outbox v @ [farewell env]\<rparr>" for v by (simp add: party_os_def)
  ultimately show ?thesis
    using b z t(3) by (intro exI [of _ b]) (simp add: RecvFile_def t(2) Let_def farewell_def [symmetric])
qed

text \<open>
  A whole conversation: each packet is written over the one before, and still there are acknowledgements
  such that each side sends what the other one reads.
\<close>

lemma conversation:
  assumes "header_ok (e_hdr env)" and "header_ok (e_hdr env')" and "\<forall>c \<in> set cs. length c \<le> APPENDSIZE" and "packet_buf h"
  shows "\<exists>a acks. length acks = length cs \<and> list_all is_ack (a # acks)
    \<and> recv_outs env' h (send_outs env a cs acks) @ [farewell env'] = a # acks"
  using assms(3,4)
proof (induction cs arbitrary: h)
  case Nil
  then show ?case using farewell_ack [OF assms(2)] by (intro exI [of _ "farewell env'"] exI [of _ "[]"]) simp
next
  case (Cons c cs)
  let ?a = "packet_over env' FILETRANS_R 0 [] h"
  let ?p = "packet_over env FILETRANS (int (length c)) c ?a"
  have a: "is_ack ?a" using recv_outs_ack [OF assms(2) Cons.prems(2), of "[h]"] Cons.prems(2) by simp
  have c: "length c \<le> APPENDSIZE" using Cons.prems(1) by simp
  have "packet_buf ?p" using packet_over_facts(1) [OF assms(1) _ c int32_chunk [OF c]] a by (simp add: is_ack_def)
  with Cons.IH [of ?p] Cons.prems(1) obtain a' acks where "length acks = length cs" "list_all is_ack (a' # acks)"
    "recv_outs env' ?p (send_outs env a' cs acks) @ [farewell env'] = a' # acks" by auto
  then show ?case using a by (intro exI [of _ ?a] exI [of _ "a' # acks"]) simp
qed

text \<open>C21: What \<open>SendFile\<close> sends, \<open>RecvFile\<close> turns into the same file. A sender that gets one
  acknowledgement more than the file has chunks returns 0; its first packet carries the file's
  size and name. A receiver given that size and the rest of these packets returns 0, has the
  sender's data under its own file name, and has sent just as many acknowledgements as the
  sender needs: neither side waits for the other in the end.\<close>

theorem file_transfer:
  fixes env :: "('h, 'm, 'd party) env" and env' :: "('h2, 'm2, 'd2 party) env" and r :: "'m2 slave"
  assumes "talks fs env sock s" and "fs_read fs name (pdisk w) = Some data" and "int32 (int (length data))"
    and "length (s_file_master s) < APPENDSIZE"
    and "inbox w = acks @ rest" and "length acks = Suc (length (chunks data))" and "list_all is_ack acks"
    and "talks fs' env' sock' r" and "length (chunks data) \<le> e_fuel env'"
  shows "\<exists>s' h ps. SendFile env sock name c s w = Inr (0, s', w\<lparr>inbox := rest, outbox := outbox w @ h # ps\<rparr>)
    \<and> hd_cmd (GetHeader h) = cmd_code c
    \<and> take (Suc (length (s_file_master s))) (GetAppend h) = s_file_master s @ [0]
    \<and> (\<forall>v rest'. inbox v = ps @ rest' \<longrightarrow>
        (\<exists>r' replies. RecvFile env' sock' filename (hd_key (GetHeader h)) r v
            = Inr (0, r', v\<lparr>inbox := rest', outbox := outbox v @ replies, pdisk := fs_put fs' filename data (pdisk v)\<rparr>)
          \<and> list_all is_ack replies \<and> length replies = length acks))"
proof -
  obtain a acks' where acks: "acks = a # acks'" "length acks' = length (chunks data)" using assms(6) by (cases acks) auto
  have inb: "inbox w = a # acks' @ rest" and al: "list_all is_ack (a # acks')" using assms(5,7) acks(1) by simp_all
  let ?h = "announce env s c data" and ?ps = "send_outs env a (chunks data) acks'"
  obtain b where send: "SendFile env sock name c s w = Inr (0, s\<lparr>s_xbuf := b\<rparr>, w\<lparr>inbox := rest, outbox := outbox w @ ?h # ?ps\<rparr>)"
    using SendFile_party [OF assms(1-4) inb acks(2) al] by blast
  have fp: "file_packets c (s_file_master s) data ?h ?ps" by (rule packets_sent [OF assms(1,3,4) acks(2) al])
  then have ps: "list_all2 carries ?ps (chunks data)" "length ?ps = length (chunks data)"
    and h: "hd_key (GetHeader ?h) = int (length data)" "hd_cmd (GetHeader ?h) = cmd_code c"
      "take (Suc (length (s_file_master s))) (GetAppend ?h) = s_file_master s @ [0]"
    by (auto simp: file_packets_def dest: list_all2_lengthD)
  note t = talksD [OF assms(8)]
  have pk: "list_all packet_buf ?ps"
    using ps(1) by (auto simp: list_all_length list_all2_conv_all_nth carries_def)
  have "\<exists>r' replies. RecvFile env' sock' filename (hd_key (GetHeader ?h)) r v
            = Inr (0, r', v\<lparr>inbox := rest', outbox := outbox v @ replies, pdisk := fs_put fs' filename data (pdisk v)\<rparr>)
          \<and> list_all is_ack replies \<and> length replies = length acks" if "inbox v = ?ps @ rest'" for v rest'
    using RecvFile_party [OF assms(8) that ps(1) assms(9), of filename] recv_outs_ack [OF t(4,5) pk] farewell_ack [OF t(4)]
    by (fastforce simp: h(1) ps(2) assms(6))
  with send h(2,3) show ?thesis by blast
qed

text \<open>A disk of plain files, on which the shell does nothing.\<close>

definition plain_files :: "(bytes \<rightharpoonup> bytes) filesys" where
  "plain_files = \<lparr>fs_read = (\<lambda>n d. d n), fs_put = (\<lambda>n b d. d(n \<mapsto> b)), fs_system = (\<lambda>_ d. (0, d))\<rparr>"

lemma plain_files_ok: "fs_ok plain_files"
  by (simp add: fs_ok_def plain_files_def)

theorem file_transfer_witness:
  "\<forall>tc tm sl st. \<exists>s' h ps. SendFile (\<lparr>e_os = party_os plain_files, e_tc = tc, e_tm = tm,
        e_hdr = \<lparr>hd_size = 0, hd_cmd = 0, hd_key = 0, hd_version = 0\<rparr>, e_fuel = 0\<rparr> :: (unit, unit, (bytes \<rightharpoonup> bytes) party) env) 5
      (ascii ''tmp.db'') CLIP_DATA_R
      (\<lparr>s_slaves = sl, s_pos = 0, s_file_tmp = ascii ''tmp.db'', s_file_master = ascii ''a.db'',
        s_xbuf = zeros MAX_BUF_LEN, s_port = 0, s_master_sock = 4, s_listen_sock = 3, s_db = st\<rparr> :: unit slave)
      \<lparr>inbox = replicate 2 (WriteHeader (zeros MAX_BUF_LEN)
        \<lparr>hd_size = 0, hd_cmd = cmd_code FILETRANS_R, hd_key = 0, hd_version = 0\<rparr>),
        outbox = [], pdisk = [ascii ''tmp.db'' \<mapsto> [7, 8, 9]], dials = []\<rparr>
      = Inr (0, s', \<lparr>inbox = [], outbox = h # ps, pdisk = [ascii ''tmp.db'' \<mapsto> [7, 8, 9]], dials = []\<rparr>)
    \<and> (\<exists>r' replies. RecvFile (\<lparr>e_os = party_os plain_files, e_tc = tc, e_tm = tm,
        e_hdr = \<lparr>hd_size = 0, hd_cmd = 0, hd_key = 0, hd_version = 0\<rparr>, e_fuel = 1\<rparr> :: (unit, unit, (bytes \<rightharpoonup> bytes) party) env) 6
      (ascii ''a.db'') (hd_key (GetHeader h))
      (\<lparr>s_slaves = sl, s_pos = 0, s_file_tmp = ascii ''tmp.db'', s_file_master = ascii ''a.db'',
        s_xbuf = zeros MAX_BUF_LEN, s_port = 0, s_master_sock = 4, s_listen_sock = 3, s_db = st\<rparr> :: unit slave)
      \<lparr>inbox = ps, outbox = [], pdisk = Map.empty, dials = []\<rparr>
      = Inr (0, r', \<lparr>inbox = [], outbox = replies, pdisk = [ascii ''a.db'' \<mapsto> [7, 8, 9]], dials = []\<rparr>))"
proof (intro allI)
  fix tc :: "(unit, (bytes \<rightharpoonup> bytes) party) tchdb" and tm :: "(unit, unit OpenedDB) tcmdb" and sl and st :: "unit db_state"
  let ?s = "\<lparr>s_slaves = sl, s_pos = 0, s_file_tmp = ascii ''tmp.db'', s_file_master = ascii ''a.db'',
        s_xbuf = zeros MAX_BUF_LEN, s_port = 0, s_master_sock = 4, s_listen_sock = 3, s_db = st\<rparr> :: unit slave"
  let ?h0 = "\<lparr>hd_size = 0, hd_cmd = 0, hd_key = 0, hd_version = 0\<rparr>"
  let ?env = "\<lambda>n. \<lparr>e_os = party_os plain_files, e_tc = tc, e_tm = tm, e_hdr = ?h0, e_fuel = n\<rparr> :: (unit, unit, (bytes \<rightharpoonup> bytes) party) env"
  let ?h = "\<lparr>hd_size = 0, hd_cmd = cmd_code FILETRANS_R, hd_key = 0, hd_version = 0\<rparr>"
  let ?a = "WriteHeader (zeros MAX_BUF_LEN) ?h"
  have h0: "header_ok ?h0" "header_ok ?h" by (simp_all add: header_ok_def int32_def cmd_code_def cmd_index.simps)
  have z: "packet_buf (zeros MAX_BUF_LEN)" by (simp add: packet_buf_def MAX_BUF_LEN_def packet_consts)
  have t: "talks plain_files (?env 0) 5 ?s" "talks plain_files (?env 1) 6 ?s"
    using z plain_files_ok by (simp_all add: talks_def header_ok_def int32_def)
  have ack: "is_ack ?a" using z GetHeader_WriteHeader [OF z h0(2)] by (simp add: is_ack_def)
  have ch: "chunks [7, 8, 9] = [[7, 8, 9]]" by (simp add: packet_consts)
  let ?w = "\<lparr>inbox = replicate 2 ?a, outbox = [], pdisk = [ascii ''tmp.db'' \<mapsto> [7, 8, 9]], dials = []\<rparr> :: (bytes \<rightharpoonup> bytes) party"
  have hyp: "fs_read plain_files (ascii ''tmp.db'') (pdisk ?w) = Some [7, 8, 9]" "int32 (int (length ([7, 8, 9] :: bytes)))"
    "length (s_file_master ?s) < APPENDSIZE" "inbox ?w = replicate 2 ?a @ []"
    "length (replicate 2 ?a) = Suc (length (chunks [7, 8, 9]))" "list_all is_ack (replicate 2 ?a)"
    "length (chunks [7, 8, 9]) \<le> e_fuel (?env 1)"
    using ack by (simp_all add: ch int32_def packet_consts ascii_def numeral_2_eq_2 plain_files_def)
  obtain s' h ps where send: "SendFile (?env 0) 5 (ascii ''tmp.db'') CLIP_DATA_R ?s ?w
      = Inr (0, s', ?w\<lparr>inbox := [], outbox := outbox ?w @ h # ps\<rparr>)"
    and recv: "\<forall>v rest'. inbox v = ps @ rest' \<longrightarrow>
        (\<exists>r' replies. RecvFile (?env 1) 6 (ascii ''a.db'') (hd_key (GetHeader h)) ?s v
            = Inr (0, r', v\<lparr>inbox := rest', outbox := outbox v @ replies, pdisk := fs_put plain_files (ascii ''a.db'') [7, 8, 9] (pdisk v)\<rparr>)
          \<and> list_all is_ack replies \<and> length replies = length (replicate 2 ?a))"
    using file_transfer [OF t(1) hyp(1-6) t(2) hyp(7), of CLIP_DATA_R "ascii ''a.db''"] by blast
  have send': "SendFile (?env 0) 5 (ascii ''tmp.db'') CLIP_DATA_R ?s ?w
      = Inr (0, s', \<lparr>inbox = [], outbox = h # ps, pdisk = [ascii ''tmp.db'' \<mapsto> [7, 8, 9]], dials = []\<rparr>)"
    using send by simp
  have "\<exists>r' replies. RecvFile (?env 1) 6 (ascii ''a.db'') (hd_key (GetHeader h)) ?s
        \<lparr>inbox = ps, outbox = [], pdisk = Map.empty, dials = []\<rparr>
      = Inr (0, r', \<lparr>inbox = [], outbox = replies, pdisk = [ascii ''a.db'' \<mapsto> [7, 8, 9]], dials = []\<rparr>)"
    using recv [rule_format, of "\<lparr>inbox = ps, outbox = [], pdisk = Map.empty, dials = []\<rparr>" "[]"] by (auto simp: plain_files_def)
  with send' show "\<exists>s' h ps. SendFile (?env 0) 5 (ascii ''tmp.db'') CLIP_DATA_R ?s ?w
      = Inr (0, s', \<lparr>inbox = [], outbox = h # ps, pdisk = [ascii ''tmp.db'' \<mapsto> [7, 8, 9]], dials = []\<rparr>)
    \<and> (\<exists>r' replies. RecvFile (?env 1) 6 (ascii ''a.db'') (hd_key (GetHeader h)) ?s
        \<lparr>inbox = ps, outbox = [], pdisk = Map.empty, dials = []\<rparr>
      = Inr (0, r', \<lparr>inbox = [], outbox = replies, pdisk = [ascii ''a.db'' \<mapsto> [7, 8, 9]], dials = []\<rparr>))"
    by blast
qed

end
