(* ===== verification/Regex.thy ===== *)
theory Regex
  imports Prelude
begin

text \<open>
  The regular expressions of \<^verbatim>\<open>client/parseinput.c\<close>: \<open>regcomp\<close> with \<open>REG_EXTENDED | REG_ICASE\<close>
  and \<open>regexec\<close> of the C library, as far as the code uses them. The overall match is the leftmost
  and among those the longest; groups are not looked at. The fragment has single characters,
  \<open>.\<close>, one range in brackets, the escapes \<^verbatim>\<open>\s \w \b\<close>, the anchors, groups, and the postfix operators
  \<^verbatim>\<open>* + ? {m,n}\<close> with single digits; any other pattern is refused.
\<close>

section \<open>Expressions\<close>

datatype cls = Lit byte | Range byte byte | AnyChar | Space | WordChar

datatype rx =
    Empty
  | Chr cls
  | LineStart
  | LineEnd
  | WordBound
  | Cat rx rx
  | Opt rx
  | Rep nat nat rx
  | Many rx

definition is_digit :: "byte \<Rightarrow> bool" where
  "is_digit c \<longleftrightarrow> 48 \<le> c \<and> c \<le> 57"

definition to_lower :: "byte \<Rightarrow> byte" where
  "to_lower c = (if 65 \<le> c \<and> c \<le> 90 then c + 32 else c)"

definition to_upper :: "byte \<Rightarrow> byte" where
  "to_upper c = (if 97 \<le> c \<and> c \<le> 122 then c - 32 else c)"

definition is_word :: "byte \<Rightarrow> bool" where
  "is_word c \<longleftrightarrow> is_digit c \<or> 97 \<le> to_lower c \<and> to_lower c \<le> 122 \<or> c = 95"

definition is_space :: "byte \<Rightarrow> bool" where
  "is_space c \<longleftrightarrow> c = 32 \<or> 9 \<le> c \<and> c \<le> 13"

text \<open>Case is ignored, a newline is a character like others (no \<open>REG_NEWLINE\<close>).\<close>

fun in_cls :: "cls \<Rightarrow> byte \<Rightarrow> bool" where
  "in_cls (Lit a) c = (to_lower a = to_lower c)"
| "in_cls (Range a b) c =
    (a \<le> c \<and> c \<le> b \<or> a \<le> to_lower c \<and> to_lower c \<le> b \<or> a \<le> to_upper c \<and> to_upper c \<le> b)"
| "in_cls AnyChar c = True"
| "in_cls Space c = is_space c"
| "in_cls WordChar c = is_word c"

definition bound_at :: "bytes \<Rightarrow> nat \<Rightarrow> bool" where
  "bound_at s i \<longleftrightarrow> (0 < i \<and> i \<le> length s \<and> is_word (s ! (i - 1))) \<noteq> (i < length s \<and> is_word (s ! i))"

section \<open>What a match is\<close>

text \<open>\<open>rmatch r s i j\<close>: \<open>r\<close> matches the characters of \<open>s\<close> from \<open>i\<close> up to, not including, \<open>j\<close>.\<close>

fun rmatch :: "rx \<Rightarrow> bytes \<Rightarrow> nat \<Rightarrow> nat \<Rightarrow> bool" where
  "rmatch Empty s i j \<longleftrightarrow> j = i"
| "rmatch (Chr c) s i j \<longleftrightarrow> j = Suc i \<and> i < length s \<and> in_cls c (s ! i)"
| "rmatch LineStart s i j \<longleftrightarrow> j = i \<and> i = 0"
| "rmatch LineEnd s i j \<longleftrightarrow> j = i \<and> i = length s"
| "rmatch WordBound s i j \<longleftrightarrow> j = i \<and> bound_at s i"
| "rmatch (Cat a b) s i j \<longleftrightarrow> (rmatch a s OO rmatch b s) i j"
| "rmatch (Opt a) s i j \<longleftrightarrow> j = i \<or> rmatch a s i j"
| "rmatch (Rep m n a) s i j \<longleftrightarrow> (\<exists>k. m \<le> k \<and> k \<le> n \<and> (rmatch a s ^^ k) i j)"
| "rmatch (Many a) s i j \<longleftrightarrow> (rmatch a s)\<^sup>*\<^sup>* i j"

section \<open>The matcher\<close>

text \<open>All ends of a match that begins at \<open>i\<close>. A round of \<open>Many\<close> that consumes nothing adds nothing.\<close>

fun pow_ends :: "nat \<Rightarrow> (nat \<Rightarrow> nat list) \<Rightarrow> nat \<Rightarrow> nat list" where
  "pow_ends 0 f i = [i]"
| "pow_ends (Suc k) f i = concat (map f (pow_ends k f i))"

fun many_ends :: "nat \<Rightarrow> (nat \<Rightarrow> nat list) \<Rightarrow> nat \<Rightarrow> nat list" where
  "many_ends 0 f i = [i]"
| "many_ends (Suc n) f i = i # concat (map (many_ends n f) (filter (\<lambda>j. i < j) (f i)))"

fun ends :: "rx \<Rightarrow> bytes \<Rightarrow> nat \<Rightarrow> nat list" where
  "ends Empty s i = [i]"
| "ends (Chr c) s i = (if i < length s \<and> in_cls c (s ! i) then [Suc i] else [])"
| "ends LineStart s i = (if i = 0 then [i] else [])"
| "ends LineEnd s i = (if i = length s then [i] else [])"
| "ends WordBound s i = (if bound_at s i then [i] else [])"
| "ends (Cat a b) s i = concat (map (ends b s) (ends a s i))"
| "ends (Opt a) s i = i # ends a s i"
| "ends (Rep m n a) s i = concat (map (\<lambda>k. pow_ends k (ends a s) i) [m ..< Suc n])"
| "ends (Many a) s i = many_ends (length s - i) (ends a s) i"

text \<open>The first start that has an end, with its last end.\<close>

fun search :: "rx \<Rightarrow> bytes \<Rightarrow> nat list \<Rightarrow> (nat \<times> nat) option" where
  "search r s [] = None"
| "search r s (i # xs) =
    (case ends r s i of [] \<Rightarrow> search r s xs | j # js \<Rightarrow> Some (i, foldr max js j))"

definition regexec :: "rx \<Rightarrow> bytes \<Rightarrow> (nat \<times> nat) option" where
  "regexec r s = search r s [0 ..< Suc (length s)]"

section \<open>Patterns\<close>

text \<open>
  \<open>re_post\<close> reads a postfix operator, \<open>re_atom\<close> one item, \<open>re_seq\<close> a sequence up to its closing
  parenthesis or the end. The fuel is the length of the pattern.
\<close>

definition re_post :: "rx \<Rightarrow> string \<Rightarrow> rx \<times> string" where
  "re_post a p =
    (case p of
       [] \<Rightarrow> (a, p)
     | c # q \<Rightarrow>
         if c = CHR ''*'' then (Many a, q)
         else if c = CHR ''+'' then (Cat a (Many a), q)
         else if c = CHR ''?'' then (Opt a, q)
         else if c = CHR ''{'' then
           (case q of
              m # x # n # y # q \<Rightarrow>
                if x = CHR '','' \<and> y = CHR ''}'' then (Rep (of_char m - 48) (of_char n - 48) a, q) else (a, p)
            | _ \<Rightarrow> (a, p))
         else (a, p))"

fun re_seq :: "nat \<Rightarrow> string \<Rightarrow> (rx \<times> string) option"
  and re_atom :: "nat \<Rightarrow> string \<Rightarrow> (rx \<times> string) option" where
  "re_seq 0 p = (if p = [] then Some (Empty, []) else None)"
| "re_seq (Suc n) p =
    (if p = [] \<or> hd p = CHR '')'' then Some (Empty, p)
     else case re_atom n p of
       None \<Rightarrow> None
     | Some (a, p) \<Rightarrow>
         let (a, p) = re_post a p in
         case re_seq n p of None \<Rightarrow> None | Some (b, p) \<Rightarrow> Some (Cat a b, p))"
| "re_atom 0 p = None"
| "re_atom (Suc n) p =
    (case p of
       [] \<Rightarrow> None
     | c # p \<Rightarrow>
         if c = CHR ''^'' then Some (LineStart, p)
         else if c = CHR ''$'' then Some (LineEnd, p)
         else if c = CHR ''.'' then Some (Chr AnyChar, p)
         else if c = CHR 0x5C then
           (case p of
              [] \<Rightarrow> None
            | e # p \<Rightarrow>
                if e = CHR ''s'' then Some (Chr Space, p)
                else if e = CHR ''w'' then Some (Chr WordChar, p)
                else if e = CHR ''b'' then Some (WordBound, p)
                else if e = CHR ''.'' then Some (Chr (Lit 46), p)
                else None)
         else if c = CHR ''['' then
           (case p of
              x # d # y # e # p \<Rightarrow>
                if d = CHR ''-'' \<and> e = CHR '']'' then Some (Chr (Range (word_of_nat (of_char x)) (word_of_nat (of_char y))), p)
                else None
            | _ \<Rightarrow> None)
         else if c = CHR ''('' then
           (case re_seq n p of
              Some (a, e # p) \<Rightarrow> if e = CHR '')'' then Some (a, p) else None
            | _ \<Rightarrow> None)
         else if c \<in> set ''*+?{})|'' then None
         else Some (Chr (Lit (word_of_nat (of_char c))), p))"

text \<open>String literals cannot hold a backslash; \<open>~\<close> stands for it in the patterns.\<close>

definition re :: "string \<Rightarrow> string" where
  "re s = map (\<lambda>c. if c = CHR ''~'' then CHR 0x5C else c) s"

definition regcomp :: "string \<Rightarrow> rx option" where
  "regcomp pat = (case re_seq (Suc (length pat)) pat of Some (r, []) \<Rightarrow> Some r | _ \<Rightarrow> None)"

section \<open>The matcher finds the matches\<close>

lemma rmatch_bounds: "rmatch r s i j \<Longrightarrow> i \<le> j \<and> (j = i \<or> j \<le> length s)"
proof (induction r arbitrary: i j)
  case (Cat a b)
  then obtain m where "rmatch a s i m" "rmatch b s m j" by auto
  then show ?case using Cat.IH(1) [of i m] Cat.IH(2) [of m j] by auto
next
  case (Rep m n a)
  then obtain k where "(rmatch a s ^^ k) i j" by auto
  then show ?case
  proof (induction k arbitrary: j)
    case (Suc k)
    then show ?case using Rep.IH by (auto elim!: relpowp_Suc_E) (metis le_trans)+
  qed auto
next
  case (Many a)
  then have "(rmatch a s)\<^sup>*\<^sup>* i j" by simp
  then show ?case
  proof (induction rule: rtranclp_induct)
    case (step y z)
    then show ?case using Many.IH [of y z] by auto
  qed auto
qed auto

lemma set_pow_ends: "set (pow_ends k f i) = {j. ((\<lambda>i j. j \<in> set (f i)) ^^ k) i j}"
proof (induction k)
  case (Suc k)
  then show ?case by (auto simp: relcompp_apply)
qed auto

lemma rtranclp_first_progress:
  assumes "R\<^sup>*\<^sup>* i j" and "\<And>i j. R i j \<Longrightarrow> i \<le> (j::nat)"
  shows "j = i \<or> (\<exists>m. R i m \<and> i < m \<and> R\<^sup>*\<^sup>* m j)"
  using assms(1)
proof (induction rule: converse_rtranclp_induct)
  case (step y z)
  then show ?case using assms(2) [OF step(1)] by (cases "y = z") auto
qed simp

lemma set_many_ends:
  assumes "\<And>i j. j \<in> set (f i) \<Longrightarrow> i \<le> j \<and> (j = i \<or> j \<le> len)" and "len - i \<le> n"
  shows "set (many_ends n f i) = {j. (\<lambda>i j. j \<in> set (f i))\<^sup>*\<^sup>* i j}"
  using assms(2)
proof (induction n arbitrary: i)
  case 0
  have "j = i" if "(\<lambda>i j. j \<in> set (f i))\<^sup>*\<^sup>* i j" for j
    using rtranclp_first_progress [OF that] assms(1) 0 by fastforce
  then show ?case by auto
next
  case (Suc n)
  let ?R = "\<lambda>i j. j \<in> set (f i)"
  have IH: "set (many_ends n f m) = {j. ?R\<^sup>*\<^sup>* m j}" if "?R i m" "i < m" for m
    using Suc.IH [of m] Suc.prems assms(1) that by fastforce
  have "?R\<^sup>*\<^sup>* i j \<longleftrightarrow> j = i \<or> (\<exists>m. ?R i m \<and> i < m \<and> ?R\<^sup>*\<^sup>* m j)" for j
    using rtranclp_first_progress [of ?R i j] assms(1) by (auto intro: converse_rtranclp_into_rtranclp)
  then show ?case using IH by auto
qed

lemma set_ends: "set (ends r s i) = {j. rmatch r s i j}"
proof (induction r arbitrary: i)
  case (Rep m n a)
  have "(\<lambda>i j. j \<in> set (ends a s i)) = rmatch a s" using Rep by (intro ext) simp
  then show ?case by (auto simp: set_pow_ends less_Suc_eq_le simp del: upt_Suc)
next
  case (Many a)
  have R: "(\<lambda>i j. j \<in> set (ends a s i)) = rmatch a s" using Many by (intro ext) simp
  have "set (many_ends (length s - i) (ends a s) i) = {j. (rmatch a s)\<^sup>*\<^sup>* i j}"
    unfolding R [symmetric] by (rule set_many_ends [where len = "length s"]) (use Many rmatch_bounds in auto)
  then show ?case by simp
qed (auto simp: relcompp_apply)

lemma foldr_max_in: "(foldr max js j :: nat) \<in> insert j (set js)"
  by (induction js) (auto simp: max_def)

lemma foldr_max_ge: "x \<in> insert j (set js) \<Longrightarrow> x \<le> (foldr max js j :: nat)"
  by (induction js) (auto simp: max_def)

lemma search_spec:
  "case search r s xs of
     None \<Rightarrow> \<forall>i \<in> set xs. \<forall>j. \<not> rmatch r s i j
   | Some (i, j) \<Rightarrow> \<exists>a b. xs = a @ i # b \<and> (\<forall>i' \<in> set a. \<forall>j. \<not> rmatch r s i' j)
       \<and> rmatch r s i j \<and> (\<forall>j'. rmatch r s i j' \<longrightarrow> j' \<le> j)"
proof (induction xs)
  case (Cons i xs)
  show ?case
  proof (cases "ends r s i")
    case Nil
    then have no: "\<not> rmatch r s i j" for j using set_ends [of r s i] by auto
    show ?thesis
    proof (cases "search r s xs")
      case None
      then show ?thesis using Cons Nil no by simp
    next
      case (Some p)
      then obtain k l where p: "search r s xs = Some (k, l)" by (cases p) auto
      with Cons obtain a b where "xs = a @ k # b" "\<forall>i' \<in> set a. \<forall>j. \<not> rmatch r s i' j"
        "rmatch r s k l" "\<forall>j'. rmatch r s k j' \<longrightarrow> j' \<le> l" by auto
      then have best: "i # xs = (i # a) @ k # b \<and> (\<forall>i' \<in> set (i # a). \<forall>j. \<not> rmatch r s i' j)
          \<and> rmatch r s k l \<and> (\<forall>j'. rmatch r s k j' \<longrightarrow> j' \<le> l)" using no by simp
      have found: "search r s (i # xs) = Some (k, l)" using p Nil by simp
      show ?thesis unfolding found option.case prod.case by (intro exI) (rule best)
    qed
  next
    case (Cons j js)
    then have "{j'. rmatch r s i j'} = insert j (set js)" using set_ends [of r s i] by simp
    then have "rmatch r s i (foldr max js j)" "\<forall>j'. rmatch r s i j' \<longrightarrow> j' \<le> foldr max js j"
      using foldr_max_in [of js j] foldr_max_ge [of _ j js] by blast+
    then show ?thesis using Cons by (simp, intro exI [of _ "[]"] exI [of _ xs]) simp
  qed
qed simp

lemma upt_split: "[0 ..< n] = a @ i # b \<Longrightarrow> i < n \<and> set a = {..< i}"
proof -
  assume e: "[0 ..< n] = a @ i # b"
  then have "[0 ..< n] ! length a = i" "length a < n"
    by (simp, metis length_append length_upt diff_zero less_add_same_cancel1 list.distinct(1) length_greater_0_conv)
  then have "i = length a" by simp
  moreover have "a = take (length a) [0 ..< n]" using e by simp
  ultimately show ?thesis using \<open>length a < n\<close> by (metis atLeast0LessThan atLeast_upt le_eq_less_or_eq set_upt take_upt add_0)
qed

lemma regexec_None_iff: "regexec r s = None \<longleftrightarrow> (\<forall>i \<le> length s. \<forall>j. \<not> rmatch r s i j)"
proof
  assume "regexec r s = None"
  then show "\<forall>i \<le> length s. \<forall>j. \<not> rmatch r s i j"
    using search_spec [where r = r and s = s and xs = "[0 ..< Suc (length s)]"]
    by (auto simp: regexec_def less_Suc_eq_le simp del: upt_Suc)
next
  assume no: "\<forall>i \<le> length s. \<forall>j. \<not> rmatch r s i j"
  show "regexec r s = None"
  proof (cases "regexec r s")
    case (Some p)
    then show ?thesis
      using no search_spec [where r = r and s = s and xs = "[0 ..< Suc (length s)]"]
      by (cases p) (auto simp: regexec_def dest!: upt_split simp del: upt_Suc)
  qed
qed

lemma regexec_SomeD:
  assumes "regexec r s = Some (i, j)"
  shows "i \<le> length s \<and> rmatch r s i j \<and> (\<forall>i' < i. \<forall>j'. \<not> rmatch r s i' j') \<and> (\<forall>j'. rmatch r s i j' \<longrightarrow> j' \<le> j)"
  using assms search_spec [where r = r and s = s and xs = "[0 ..< Suc (length s)]"]
  by (auto simp: regexec_def less_Suc_eq_le dest!: upt_split simp del: upt_Suc)

lemma regexec_eqI:
  assumes "i \<le> length s" and "rmatch r s i j" and "\<And>i' j'. i' < i \<Longrightarrow> \<not> rmatch r s i' j'"
    and "\<And>j'. rmatch r s i j' \<Longrightarrow> j' \<le> j"
  shows "regexec r s = Some (i, j)"
proof (cases "regexec r s")
  case None
  then show ?thesis using assms by (auto simp: regexec_None_iff)
next
  case (Some p)
  then obtain k l where p: "regexec r s = Some (k, l)" by (cases p) auto
  from regexec_SomeD [OF p] have kl: "rmatch r s k l" "\<forall>i' < k. \<forall>j'. \<not> rmatch r s i' j'" "\<forall>j'. rmatch r s k j' \<longrightarrow> j' \<le> l"
    by auto
  have "k = i" using kl(1,2) assms(2,3) by (metis linorder_neqE_nat)
  moreover from this have "l = j" using kl assms(2,4) by (metis le_antisym)
  ultimately show ?thesis using p by simp
qed

lemma regexec_end: "regexec r s = Some (i, j) \<Longrightarrow> i \<le> j \<and> j \<le> length s"
  using regexec_SomeD [of r s i j] rmatch_bounds [of r s i j] by auto

section \<open>Runs of one class of characters\<close>

text \<open>The characters from \<open>i\<close> up to \<open>j\<close> are all of class \<open>c\<close>.\<close>

definition run :: "cls \<Rightarrow> bytes \<Rightarrow> nat \<Rightarrow> nat \<Rightarrow> bool" where
  "run c s i j \<longleftrightarrow> i \<le> j \<and> (\<forall>k. i \<le> k \<longrightarrow> k < j \<longrightarrow> k < length s \<and> in_cls c (s ! k))"

lemma run_refl [simp]: "run c s i i"
  by (simp add: run_def)

lemma run_Suc: "run c s i (Suc j) \<longleftrightarrow> i = Suc j \<or> run c s i j \<and> j < length s \<and> in_cls c (s ! j)"
  by (auto simp: run_def le_Suc_eq less_Suc_eq)

lemma run_ge: "run c s i j \<Longrightarrow> i \<le> j"
  by (simp add: run_def)

lemma run_le: "run c s i j \<Longrightarrow> i \<noteq> j \<Longrightarrow> j \<le> length s"
  by (cases j) (auto simp: run_Suc)

lemma runD: "run c s i j \<Longrightarrow> i \<le> k \<Longrightarrow> k < j \<Longrightarrow> k < length s \<and> in_cls c (s ! k)"
  by (simp add: run_def)

lemma rmatch_pow_Chr: "(rmatch (Chr c) s ^^ k) i j \<longleftrightarrow> j = i + k \<and> run c s i j"
proof (induction k arbitrary: j)
  case (Suc k)
  have "(rmatch (Chr c) s ^^ Suc k) i j \<longleftrightarrow> (\<exists>m. (m = i + k \<and> run c s i m) \<and> rmatch (Chr c) s m j)"
    by (simp only: relpowp.simps relcompp_apply Suc)
  also have "\<dots> \<longleftrightarrow> j = i + Suc k \<and> run c s i j" by (auto simp: run_Suc)
  finally show ?case .
qed auto

lemma rmatch_Rep_Chr [simp]:
  "rmatch (Rep m n (Chr c)) s i j \<longleftrightarrow> run c s i j \<and> m \<le> j - i \<and> j - i \<le> n"
proof -
  have "rmatch (Rep m n (Chr c)) s i j \<longleftrightarrow> (\<exists>k. m \<le> k \<and> k \<le> n \<and> j = i + k \<and> run c s i j)"
    by (auto simp: rmatch_pow_Chr)
  also have "\<dots> \<longleftrightarrow> run c s i j \<and> m \<le> j - i \<and> j - i \<le> n"
    using run_ge [of c s i j] by (auto intro!: exI [of _ "j - i"])
  finally show ?thesis .
qed

lemma rmatch_Many_Chr [simp]: "rmatch (Many (Chr c)) s i j \<longleftrightarrow> run c s i j"
  by (auto simp: rtranclp_is_Sup_relpowp rmatch_pow_Chr) (metis le_add_diff_inverse run_ge)

declare rmatch.simps(8,9) [simp del]

lemma run_split: "i \<le> j \<Longrightarrow> j \<le> k \<Longrightarrow> run c s i k \<longleftrightarrow> run c s i j \<and> run c s j k"
  by (auto simp: run_def)

lemma rmatch_Plus_Chr [simp]: "rmatch (Cat (Chr c) (Many (Chr c))) s i j \<longleftrightarrow> i < j \<and> run c s i j"
proof -
  have "run c s i (Suc i) \<longleftrightarrow> i < length s \<and> in_cls c (s ! i)" by (simp add: run_Suc)
  moreover have "i < j \<Longrightarrow> run c s i j \<longleftrightarrow> run c s i (Suc i) \<and> run c s (Suc i) j" by (rule run_split) auto
  ultimately show ?thesis using run_ge [of c s "Suc i" j] by (auto simp: relcompp_apply)
qed

lemma rmatch_Cat_iff: "rmatch (Cat a b) s i j \<longleftrightarrow> (\<exists>m. rmatch a s i m \<and> rmatch b s m j)"
  by (simp add: relcompp_apply)

abbreviation one_or_more :: "cls \<Rightarrow> rx" where
  "one_or_more c \<equiv> Cat (Chr c) (Many (Chr c))"

text \<open>One step through a sequence, by its first item.\<close>

lemma match_steps:
  "rmatch (Cat WordBound b) s i j \<longleftrightarrow> bound_at s i \<and> rmatch b s i j"
  "rmatch (Cat LineStart b) s i j \<longleftrightarrow> i = 0 \<and> rmatch b s 0 j"
  "rmatch (Cat LineEnd b) s i j \<longleftrightarrow> i = length s \<and> rmatch b s i j"
  "rmatch (Cat (Chr c) b) s i j \<longleftrightarrow> i < length s \<and> in_cls c (s ! i) \<and> rmatch b s (Suc i) j"
  "rmatch (Cat (Many (Chr c)) b) s i j \<longleftrightarrow> (\<exists>m. run c s i m \<and> rmatch b s m j)"
  "rmatch (Cat (one_or_more c) b) s i j \<longleftrightarrow> (\<exists>m. i < m \<and> run c s i m \<and> rmatch b s m j)"
  "rmatch (Cat (Rep k n (Chr c)) b) s i j
    \<longleftrightarrow> (\<exists>m. run c s i m \<and> k \<le> m - i \<and> m - i \<le> n \<and> rmatch b s m j)"
  "rmatch (Cat (Opt a) b) s i j \<longleftrightarrow> rmatch b s i j \<or> (\<exists>m. rmatch a s i m \<and> rmatch b s m j)"
proof -
  show "rmatch (Cat (one_or_more c) b) s i j \<longleftrightarrow> (\<exists>m. i < m \<and> run c s i m \<and> rmatch b s m j)"
    unfolding rmatch_Cat_iff [of "one_or_more c"] rmatch_Plus_Chr by blast
qed (auto simp: rmatch_Cat_iff)

declare rmatch.simps(6) [simp del]

end
