(* ===== verification/ParseInput.thy ===== *)
theory ParseInput
  imports Regex Database
begin

text \<open>
  The command parser of the client, \<^verbatim>\<open>client/parseinput.c\<close>: one input line is matched against
  three patterns, taken apart by further patterns, and carried out on the database that is open.
  The database is any implementation of \<^verbatim>\<open>common/Database.h\<close>.
\<close>

section \<open>State\<close>

datatype printed = Stdout bytes | Stderr bytes

text \<open>The globals \<open>hdb\<close> and \<open>DBName\<close>, what has been printed, and the state of the database.\<close>

record ('d, 's) cmdline =
  cm_hdb :: "'d option"
  cm_name :: bytes
  cm_out :: "printed list"
  cm_db :: 's

definition MAX_INPUT_LEN :: nat where "MAX_INPUT_LEN = 1024"

definition say :: "bytes \<Rightarrow> ('d, 's) cmdline \<Rightarrow> ('d, 's) cmdline" where
  "say b c = c\<lparr>cm_out := cm_out c @ [Stdout b]\<rparr>"

definition complain :: "string \<Rightarrow> ('d, 's) cmdline \<Rightarrow> ('d, 's) cmdline" where
  "complain msg c = c\<lparr>cm_out := cm_out c @ [Stderr (ascii msg @ [10])]\<rparr>"

section \<open>The C library\<close>

definition strcasecmp :: "bytes \<Rightarrow> string \<Rightarrow> bool" where
  "strcasecmp s t \<longleftrightarrow> map to_lower s = map to_lower (ascii t)"

definition decimal :: "bytes \<Rightarrow> int" where
  "decimal s = foldl (\<lambda>n c. 10 * n + (uint c - 48)) 0 (takeWhile is_digit s)"

text \<open>\<open>atoi\<close> is \<open>strtol\<close>, which stops at the limits of \<open>long\<close>, converted to \<open>int\<close>.\<close>

definition atoi :: "bytes \<Rightarrow> int" where
  "atoi str =
    (let s = dropWhile is_space str in
     to_s32
       (if s \<noteq> [] \<and> hd s = 45 then max (- (2 ^ 63)) (- decimal (tl s))
        else min (2 ^ 63 - 1) (decimal (if s \<noteq> [] \<and> hd s = 43 then tl s else s))))"

section \<open>Matching\<close>

text \<open>\<open>None\<close> is the result -1; otherwise \<open>*start\<close> and \<open>*end\<close> are given.\<close>

definition RegMatch :: "string \<Rightarrow> bytes \<Rightarrow> (nat \<times> nat) option" where
  "RegMatch pat str = (case regcomp pat of None \<Rightarrow> None | Some reg \<Rightarrow> regexec reg str)"

definition Check :: "string \<Rightarrow> bytes \<Rightarrow> int" where
  "Check pat str = (if RegMatch pat str = None then -1 else 0)"

text \<open>
  The match goes to \<open>match\<close>, an array of \<open>MAX_INPUT_LEN\<close> characters, and \<open>str\<close> is moved up to what
  stands behind it. Without a match both stay as they are.
\<close>

definition GetMatch :: "string \<Rightarrow> bytes \<Rightarrow> bytes \<Rightarrow> (int \<times> bytes \<times> bytes) exec" where
  "GetMatch pat str match =
    (case RegMatch pat str of
       None \<Rightarrow> Inr (-1, str, match)
     | Some (s, e) \<Rightarrow>
         if e - s < MAX_INPUT_LEN then Inr (0, drop e str, take (e - s) (drop s str))
         else Inl OutOfBounds)"

definition HelpPrompt :: "('d, 's) cmdline \<Rightarrow> ('d, 's) cmdline" where
  "HelpPrompt c = foldl (\<lambda>c l. say (ascii l @ [10]) c) c
    [''open dbName     ----open a database named dbName.'',
     ''close           ----close the current database.'',
     ''quit/exit       ----quit.'',
     ''set key value   ----insert a key/value tuple into the current database.'',
     ''get key         ----get the key/value tuple from the current database.'',
     ''del(ete) key    ----delete the key/value tuple from the current database.'']"

section \<open>Commands\<close>

definition no_db :: "('d, 's) cmdline \<Rightarrow> (int \<times> ('d, 's) cmdline) exec" where
  "no_db c = Inr (-1, complain ''Please open a database first.'' c)"

definition parse_two ::
  "('d, 's) db_api \<Rightarrow> bytes \<Rightarrow> bytes \<Rightarrow> ('d, 's) cmdline \<Rightarrow> (int \<times> ('d, 's) cmdline) exec" where
  "parse_two api s match c =
    andThen (GetMatch (re ''~b~w{3,5}~b'') s match) (\<lambda>(_, s, match).
    if strcasecmp match ''set'' then
      if cm_hdb c = None then no_db c
      else
        andThen (GetMatch (re ''~b[0-9]+~b'') s match) (\<lambda>(_, s, match).
        let key = word_of_int (atoi match) in
        andThen (GetMatch (re ''~b.+'') s match) (\<lambda>(r, s, match).
        if r \<noteq> 0 then Inr (-1, complain ''Invaild value.'' c)
        else
          andThen (api_set api (cm_hdb c) key match (cm_db c)) (\<lambda>(res, db).
          Inr (res, c\<lparr>cm_db := db\<rparr>))))
    else Inr (-1, complain ''Wrong command with two parameters.'' c))"

definition parse_one ::
  "('d, 's) db_api \<Rightarrow> bytes \<Rightarrow> bytes \<Rightarrow> ('d, 's) cmdline \<Rightarrow> (int \<times> ('d, 's) cmdline) exec" where
  "parse_one api s match c =
    andThen (GetMatch (re ''~b~w{3,5}~b'') s match) (\<lambda>(_, s, match).
    if strcasecmp match ''open'' then
      if cm_hdb c \<noteq> None then Inr (-1, complain ''Please close current database first.'' c)
      else
        andThen (GetMatch (re ''~b~w+~.~w*db~b'') s match) (\<lambda>(_, s, match).
        andThen (api_create api match (cm_db c)) (\<lambda>(hdb, db).
        Inr (if hdb \<noteq> None then 0 else -1, c\<lparr>cm_name := match, cm_hdb := hdb, cm_db := db\<rparr>)))
    else if strcasecmp match ''get'' then
      if cm_hdb c = None then no_db c
      else
        andThen (GetMatch (re ''~b[0-9]+~b'') s match) (\<lambda>(r, s, match).
        if r \<noteq> 0 then Inr (-1, complain ''Key should be numbers.'' c)
        else
          andThen (api_get api (cm_hdb c) (word_of_int (atoi match)) (cm_db c)) (\<lambda>(v, db).
          case v of
            Some v \<Rightarrow> Inr (0, say (c_str v @ [10]) (c\<lparr>cm_db := db\<rparr>))
          | None \<Rightarrow> Inr (-1, c\<lparr>cm_db := db\<rparr>)))
    else if strcasecmp match ''del'' \<or> strcasecmp match ''delete'' then
      if cm_hdb c = None then no_db c
      else
        andThen (GetMatch (re ''~b[0-9]+~b'') s match) (\<lambda>(r, s, match).
        if r \<noteq> 0 then Inr (-1, complain ''Key should be numbers.'' c)
        else
          andThen (api_del api (cm_hdb c) (word_of_int (atoi match)) (cm_db c)) (\<lambda>(res, db).
          Inr (res, c\<lparr>cm_db := db\<rparr>)))
    else Inr (-1, complain ''Wrong command with one paramaters.'' c))"

definition parse_none ::
  "('d, 's) db_api \<Rightarrow> bytes \<Rightarrow> bytes \<Rightarrow> ('d, 's) cmdline \<Rightarrow> (int \<times> ('d, 's) cmdline) exec" where
  "parse_none api s match c =
    andThen (GetMatch (re ''~b~w{3,5}~b'') s match) (\<lambda>(_, s, match).
    if strcasecmp match ''close'' then
      if cm_hdb c = None then no_db c
      else
        andThen (api_delete api (cm_hdb c) (cm_db c)) (\<lambda>(res, db).
        Inr (res, c\<lparr>cm_hdb := None, cm_name := [], cm_db := db\<rparr>))
    else if strcasecmp match ''exit'' \<or> strcasecmp match ''quit'' then
      if cm_hdb c \<noteq> None then Inr (-1, complain ''Please close database first.'' c) else Inr (1, c)
    else if strcasecmp match ''help'' then Inr (0, HelpPrompt c)
    else Inr (-1, complain ''Wrong command with none parameter.'' c))"

text \<open>\<open>junk\<close> is what \<open>malloc\<close> left in \<open>match\<close>, as a string. \<open>input\<close> has no NUL.\<close>

definition Parse ::
  "('d, 's) db_api \<Rightarrow> bytes \<Rightarrow> bytes \<Rightarrow> ('d, 's) cmdline \<Rightarrow> (int \<times> ('d, 's) cmdline) exec" where
  "Parse api junk input c =
    andThen
      (if 0 = Check (re ''^~s*~w{3,5}~s+[0-9]+~s+.+$'') input then parse_two api input junk c
       else if 0 = Check (re ''^~s*~w{3,5}~s+~w+(~.~w*db)?~s*$'') input then parse_one api input junk c
       else if 0 = Check (re ''^~s*~w{3,5}~s*$'') input then parse_none api input junk c
       else Inr (-1, complain ''Incorrect format.'' c)) (\<lambda>(res, c).
    andThen (c_assert (res \<noteq> -1000)) (\<lambda>_. Inr (res, c)))"

end
