(* ===== verification/InputCmd.thy ===== *)
theory InputCmd
  imports ParseInput
begin

text \<open>
  The command loop of the client, \<^verbatim>\<open>client/inputcmd.c\<close>: prompt, read a line with \<open>fgets\<close>, parse it,
  until a command quits. Standard input is the list of the bytes that are still to come.
\<close>

section \<open>Reading lines\<close>

text \<open>
  \<open>fgets(buf, n, stdin)\<close>: up to \<open>n - 1\<close> characters, a newline being the last; \<open>None\<close> is the
  \<open>NULL\<close> it returns at the end of the input.
\<close>

definition fgets :: "nat \<Rightarrow> bytes \<Rightarrow> (bytes \<times> bytes) option" where
  "fgets n stdin =
    (let chunk = take (n - 1) stdin; line = takeWhile (\<lambda>c. c \<noteq> 10) chunk;
         line = (if length line < length chunk then line @ [10] else line) in
     if stdin = [] then None else Some (line, drop (length line) stdin))"

lemma fgets_progress:
  assumes "fgets n stdin = Some (line, stdin')" and "1 < n"
  shows "length stdin' < length stdin"
proof -
  have ne: "stdin \<noteq> []" using assms(1) by (auto simp: fgets_def)
  then obtain c cs where s: "take (n - 1) stdin = c # cs" using assms(2) by (cases "take (n - 1) stdin") auto
  have "line \<noteq> []" using assms(1) ne s by (auto simp: fgets_def Let_def split: if_splits)
  moreover have "stdin' = drop (length line) stdin" using assms(1) ne by (auto simp: fgets_def Let_def)
  ultimately show ?thesis using ne by simp
qed

section \<open>The loop\<close>

definition prompt :: "('d, 's) cmdline \<Rightarrow> ('d, 's) cmdline" where
  "prompt c = say (ascii ''Nezha::'' @ c_str (cm_name c) @ ascii ''>>'') c"

text \<open>\<open>if (input[len-1] == '\n') input[len-1] = '\0'\<close>.\<close>

definition chop :: "bytes \<Rightarrow> bytes" where
  "chop input = (if last input = 10 then butlast input else input)"

text \<open>
  The result is what is left of the standard input. \<open>strlen(NULL)\<close> after the end of the input is
  \<open>NullDeref\<close>. \<open>junk\<close> is the contents of the array \<open>Parse\<close> allocates.
\<close>

function input_loop ::
  "('d, 's) db_api \<Rightarrow> bytes \<Rightarrow> bytes \<Rightarrow> ('d, 's) cmdline \<Rightarrow> (bytes \<times> ('d, 's) cmdline) exec" where
  "input_loop api junk stdin c =
    (let c = prompt c in
     case fgets MAX_INPUT_LEN stdin of
       None \<Rightarrow> Inl NullDeref
     | Some (line, stdin) \<Rightarrow>
         (let input = c_str line in
          if input = [] \<or> hd input = 10 then input_loop api junk stdin c
          else
            (case Parse api junk (chop input) c of
               Inl e \<Rightarrow> Inl e
             | Inr (res, c) \<Rightarrow> if res = 1 then Inr (stdin, c) else input_loop api junk stdin c)))"
  by pat_completeness auto
termination
  by (relation "measure (\<lambda>(api, junk, stdin, c). length stdin)")
    (auto simp: MAX_INPUT_LEN_def dest: fgets_progress)

declare input_loop.simps [simp del]

text \<open>\<open>DBName\<close> is allocated and printed before anything is stored in it: \<open>name\<close> is what it holds.\<close>

definition InputCmd ::
  "('d, 's) db_api \<Rightarrow> bytes \<Rightarrow> bytes \<Rightarrow> bytes \<Rightarrow> ('d, 's) cmdline \<Rightarrow> (int \<times> bytes \<times> ('d, 's) cmdline) exec" where
  "InputCmd api junk name stdin c =
    andThen (input_loop api junk stdin (c\<lparr>cm_name := name\<rparr>)) (\<lambda>(stdin, c). Inr (0, stdin, c))"

end
