(* ===== verification/Commands.thy ===== *)
theory Commands
  imports InputCmd TcDB
begin

text \<open>
  What the command lines of the client do: which lines the patterns of \<open>Parse\<close> accept, what the
  commands do to the database, and the loop of \<open>InputCmd\<close> over several lines.
\<close>

section \<open>The patterns\<close>

abbreviation digit :: cls where
  "digit \<equiv> Range 48 57"

lemma pat_two: "regcomp (re ''^~s*~w{3,5}~s+[0-9]+~s+.+$'')
  = Some (Cat LineStart (Cat (Many (Chr Space)) (Cat (Rep 3 5 (Chr WordChar)) (Cat (one_or_more Space)
      (Cat (one_or_more digit) (Cat (one_or_more Space) (Cat (one_or_more AnyChar) (Cat LineEnd Empty))))))))"
  by code_simp

lemma pat_one: "regcomp (re ''^~s*~w{3,5}~s+~w+(~.~w*db)?~s*$'')
  = Some (Cat LineStart (Cat (Many (Chr Space)) (Cat (Rep 3 5 (Chr WordChar)) (Cat (one_or_more Space)
      (Cat (one_or_more WordChar)
        (Cat (Opt (Cat (Chr (Lit 46)) (Cat (Many (Chr WordChar)) (Cat (Chr (Lit 100)) (Cat (Chr (Lit 98)) Empty)))))
          (Cat (Many (Chr Space)) (Cat LineEnd Empty))))))))"
  by code_simp

lemma pat_none: "regcomp (re ''^~s*~w{3,5}~s*$'')
  = Some (Cat LineStart (Cat (Many (Chr Space)) (Cat (Rep 3 5 (Chr WordChar)) (Cat (Many (Chr Space)) (Cat LineEnd Empty)))))"
  by code_simp

lemma pat_word: "regcomp (re ''~b~w{3,5}~b'')
  = Some (Cat WordBound (Cat (Rep 3 5 (Chr WordChar)) (Cat WordBound Empty)))"
  by code_simp

lemma pat_number: "regcomp (re ''~b[0-9]+~b'') = Some (Cat WordBound (Cat (one_or_more digit) (Cat WordBound Empty)))"
  by code_simp

lemma pat_rest: "regcomp (re ''~b.+'') = Some (Cat WordBound (Cat (one_or_more AnyChar) Empty))"
  by code_simp

lemma pat_db: "regcomp (re ''~b~w+~.~w*db~b'')
  = Some (Cat WordBound (Cat (one_or_more WordChar) (Cat (Chr (Lit 46)) (Cat (Many (Chr WordChar))
      (Cat (Chr (Lit 100)) (Cat (Chr (Lit 98)) (Cat WordBound Empty)))))))"
  by code_simp

section \<open>Taking a line apart\<close>

lemma is_digit_word: "is_digit c \<Longrightarrow> is_word c"
  by (simp add: is_word_def)

lemma in_digit [simp]: "in_cls digit c \<longleftrightarrow> is_digit c"
proof -
  have "48 \<le> to_lower c \<and> to_lower c \<le> 57 \<longrightarrow> 48 \<le> c \<and> c \<le> 57"
    by (auto simp: to_lower_def) unat_arith+
  moreover have "48 \<le> to_upper c \<and> to_upper c \<le> 57 \<longrightarrow> 48 \<le> c \<and> c \<le> 57"
    by (auto simp: to_upper_def) unat_arith+
  ultimately show ?thesis by (auto simp: is_digit_def)
qed

declare in_cls.simps(2) [simp del]

text \<open>What separates words; and where a word stops.\<close>

definition gap :: "bytes \<Rightarrow> bool" where
  "gap p \<longleftrightarrow> list_all (\<lambda>c. \<not> is_word c) p"

definition word_ends :: "bytes \<Rightarrow> bool" where
  "word_ends t \<longleftrightarrow> t = [] \<or> \<not> is_word (hd t)"

lemma gap_append [simp]: "gap (p @ q) \<longleftrightarrow> gap p \<and> gap q"
  by (simp add: gap_def)

lemma gap_Nil [simp]: "gap []"
  by (simp add: gap_def)

lemma gap_word_ends: "gap p \<Longrightarrow> p \<noteq> [] \<Longrightarrow> word_ends (p @ t)"
  by (cases p) (simp_all add: gap_def word_ends_def)

lemma space_not_word: "is_space c \<Longrightarrow> \<not> is_word c"
  by (auto simp: is_space_def is_word_def is_digit_def to_lower_def split: if_splits) unat_arith+

lemma spaces_gap: "list_all is_space p \<Longrightarrow> gap p"
  by (auto simp: gap_def list_all_iff space_not_word)

lemma no_bound_in_gap: "gap p \<Longrightarrow> i < length p \<Longrightarrow> \<not> bound_at (p @ t) i"
  by (auto simp: bound_at_def nth_append gap_def list_all_length)

lemma bound_behind_gap: "gap p \<Longrightarrow> w \<noteq> [] \<Longrightarrow> is_word (hd w) \<Longrightarrow> bound_at (p @ w @ t) (length p)"
  by (cases w; cases p rule: rev_cases) (auto simp: bound_at_def nth_append gap_def)

lemma bound_after:
  "w \<noteq> [] \<Longrightarrow> is_word (last w) \<Longrightarrow> word_ends t \<Longrightarrow> bound_at (p @ w @ t) (length p + length w)"
  by (cases w rule: rev_cases) (auto simp: bound_at_def nth_append word_ends_def hd_conv_nth)

lemma run_prefix: "list_all (in_cls c) w \<Longrightarrow> run c (p @ w @ t) (length p) (length p + length w)"
  by (auto simp: run_def nth_append list_all_length)

lemma run_stops:
  assumes "run c (p @ t) i j" and "i \<le> length p" and "t = [] \<or> \<not> in_cls c (hd t)"
  shows "j \<le> length p"
proof (rule ccontr)
  assume "\<not> j \<le> length p"
  then have "length p < length (p @ t) \<and> in_cls c ((p @ t) ! length p)"
    using runD [OF assms(1), of "length p"] assms(2) by simp
  then show False using assms(3) by (auto simp: hd_conv_nth nth_append)
qed

text \<open>Every pattern of \<open>GetMatch\<close> begins with \<^verbatim>\<open>\b\<close>, so a match begins behind the gap or not at all.\<close>

lemma GetMatch_behind_gap:
  assumes "regcomp pat = Some (Cat WordBound r)" and "gap p" and "w \<noteq> []" and "is_word (hd w)"
    and "rmatch r (p @ w @ t) (length p) (length p + length w)"
    and "\<And>j. rmatch r (p @ w @ t) (length p) j \<Longrightarrow> j \<le> length p + length w" and "length w < MAX_INPUT_LEN"
  shows "GetMatch pat (p @ w @ t) match = Inr (0, t, w)"
proof -
  have "regexec (Cat WordBound r) (p @ w @ t) = Some (length p, length p + length w)"
    using assms no_bound_in_gap [OF assms(2), of _ "w @ t"] bound_behind_gap [OF assms(2-4), of t]
    by (intro regexec_eqI) (auto simp: match_steps(1))
  then show ?thesis using assms(1,7) by (simp add: GetMatch_def RegMatch_def)
qed

lemma GetMatch_word:
  assumes "gap p" and "list_all is_word w" and "3 \<le> length w" and "length w \<le> 5" and "word_ends t"
  shows "GetMatch (re ''~b~w{3,5}~b'') (p @ w @ t) match = Inr (0, t, w)"
proof (rule GetMatch_behind_gap [OF pat_word assms(1)])
  show w: "w \<noteq> []" "is_word (hd w)" using assms(2,3) by (cases w; auto)+
  have lw: "is_word (last w)" using assms(2) w(1) by (simp add: list_all_iff)
  have iff: "rmatch (Cat (Rep 3 5 (Chr WordChar)) (Cat WordBound Empty)) s i j
      \<longleftrightarrow> run WordChar s i j \<and> 3 \<le> j - i \<and> j - i \<le> 5 \<and> bound_at s j" for s i j
    by (auto simp: match_steps)
  show "rmatch (Cat (Rep 3 5 (Chr WordChar)) (Cat WordBound Empty)) (p @ w @ t) (length p) (length p + length w)"
    using run_prefix [of WordChar w p t] bound_after [OF w(1) lw assms(5), of p] assms(2-4)
    by (simp add: iff list_all_iff)
  show "j \<le> length p + length w"
    if "rmatch (Cat (Rep 3 5 (Chr WordChar)) (Cat WordBound Empty)) (p @ w @ t) (length p) j" for j
    using that assms(5) run_stops [of WordChar "p @ w" t "length p" j] by (auto simp: iff word_ends_def)
  show "length w < MAX_INPUT_LEN" using assms(4) by (simp add: MAX_INPUT_LEN_def)
qed

lemma GetMatch_number:
  assumes "gap p" and "list_all is_digit ds" and "ds \<noteq> []" and "length ds < MAX_INPUT_LEN" and "word_ends t"
  shows "GetMatch (re ''~b[0-9]+~b'') (p @ ds @ t) match = Inr (0, t, ds)"
proof (rule GetMatch_behind_gap [OF pat_number assms(1,3)])
  have d: "is_word (last ds)" "is_word (hd ds)"
    using assms(2,3) is_digit_word by (auto simp: list_all_iff)
  show "is_word (hd ds)" by (rule d(2))
  have iff: "rmatch (Cat (one_or_more digit) (Cat WordBound Empty)) s i j \<longleftrightarrow> i < j \<and> run digit s i j \<and> bound_at s j" for s i j
    by (auto simp: match_steps)
  show "rmatch (Cat (one_or_more digit) (Cat WordBound Empty)) (p @ ds @ t) (length p) (length p + length ds)"
    using run_prefix [of digit ds p t] bound_after [OF assms(3) d(1) assms(5), of p] assms(2,3)
    by (simp add: iff list_all_iff)
  show "j \<le> length p + length ds"
    if "rmatch (Cat (one_or_more digit) (Cat WordBound Empty)) (p @ ds @ t) (length p) j" for j
    using that assms(5) run_stops [of digit "p @ ds" t "length p" j] is_digit_word
    by (auto simp: iff word_ends_def)
qed (rule assms(4))

lemma GetMatch_rest:
  assumes "gap p" and "v \<noteq> []" and "is_word (hd v)" and "length v < MAX_INPUT_LEN"
  shows "GetMatch (re ''~b.+'') (p @ v) match = Inr (0, [], v)"
proof -
  have iff: "rmatch (Cat (one_or_more AnyChar) Empty) s i j \<longleftrightarrow> i < j \<and> j \<le> length s" for s i j
    using run_le [of AnyChar s i j] by (auto simp: match_steps run_def)
  have "GetMatch (re ''~b.+'') (p @ v @ []) match = Inr (0, [], v)"
    by (rule GetMatch_behind_gap [OF pat_rest assms(1-3)]) (use assms(2,4) in \<open>simp_all add: iff\<close>)
  then show ?thesis by simp
qed

text \<open>A database name: word characters, a dot, word characters that end in \<open>db\<close>.\<close>

lemma match_db: "rmatch (Cat (one_or_more WordChar) (Cat (Chr (Lit 46)) (Cat (Many (Chr WordChar))
      (Cat (Chr (Lit 100)) (Cat (Chr (Lit 98)) (Cat WordBound Empty)))))) s i j
    \<longleftrightarrow> (\<exists>m n. i < m \<and> run WordChar s i m \<and> m < length s \<and> in_cls (Lit 46) (s ! m) \<and> run WordChar s (Suc m) n
        \<and> n < length s \<and> in_cls (Lit 100) (s ! n) \<and> Suc n < length s \<and> in_cls (Lit 98) (s ! Suc n)
        \<and> j = Suc (Suc n) \<and> bound_at s j)"
  by (auto simp: match_steps simp del: in_cls.simps)

lemma GetMatch_db:
  assumes "gap p" and "list_all is_word stem" and "stem \<noteq> []" and "list_all is_word ext"
    and "length stem + length ext + 3 < MAX_INPUT_LEN"
  defines "name \<equiv> stem @ [46] @ ext @ [100, 98]"
  shows "GetMatch (re ''~b~w+~.~w*db~b'') (p @ name) match = Inr (0, [], name)"
proof -
  let ?r = "Cat (one_or_more WordChar) (Cat (Chr (Lit 46)) (Cat (Many (Chr WordChar))
      (Cat (Chr (Lit 100)) (Cat (Chr (Lit 98)) (Cat WordBound Empty)))))"
  let ?m = "length p + length stem" and ?s = "p @ name @ []"
  have len: "length ?s = ?m + length ext + 3" by (simp add: name_def)
  have ne: "name \<noteq> []" "is_word (hd name)" "is_word (last name)"
    using assms(2,3) by (auto simp: name_def list_all_iff) (simp add: is_word_def to_lower_def)
  have "GetMatch (re ''~b~w+~.~w*db~b'') (p @ name @ []) match = Inr (0, [], name)"
  proof (rule GetMatch_behind_gap [OF pat_db assms(1) ne(1,2)])
    have "run WordChar ?s (length p) ?m"
      using run_prefix [of WordChar stem p "[46] @ ext @ [100, 98]"] assms(2) by (simp add: name_def list_all_iff)
    moreover have "run WordChar ?s (Suc ?m) (Suc ?m + length ext)"
      using run_prefix [of WordChar ext "p @ stem @ [46]" "[100, 98]"] assms(4) by (simp add: name_def list_all_iff)
    moreover have "bound_at ?s (length p + length name)"
      using bound_after [OF ne(1,3), of "[]" p] by (simp add: word_ends_def)
    ultimately show "rmatch ?r ?s (length p) (length p + length name)"
      using assms(3) len unfolding match_db
      by (intro exI [of _ ?m] exI [of _ "Suc ?m + length ext"]) (simp add: name_def nth_append)
    show "j \<le> length p + length name" if "rmatch ?r ?s (length p) j" for j
      using rmatch_bounds [OF that] by auto
    show "length name < MAX_INPUT_LEN" using assms(5) by (simp add: name_def)
  qed
  then show ?thesis by simp
qed

lemma GetMatch_no_db:
  assumes "\<forall>c \<in> set s. \<not> in_cls (Lit 46) c"
  shows "GetMatch (re ''~b~w+~.~w*db~b'') s match = Inr (-1, s, match)"
proof -
  have "regexec (Cat WordBound (Cat (one_or_more WordChar) (Cat (Chr (Lit 46)) (Cat (Many (Chr WordChar))
      (Cat (Chr (Lit 100)) (Cat (Chr (Lit 98)) (Cat WordBound Empty))))))) s = None"
    using assms unfolding regexec_None_iff by (auto simp: match_steps(1) match_db simp del: in_cls.simps)
  then show ?thesis by (simp add: GetMatch_def RegMatch_def pat_db)
qed

section \<open>Which lines the patterns accept\<close>

lemma Check_iff: "regcomp pat = Some r \<Longrightarrow> 0 = Check pat s \<longleftrightarrow> (\<exists>i j. i \<le> length s \<and> rmatch r s i j)"
  by (auto simp: Check_def RegMatch_def regexec_None_iff)

lemma two_iff: "0 = Check (re ''^~s*~w{3,5}~s+[0-9]+~s+.+$'') s \<longleftrightarrow>
  (\<exists>a b c d e. run Space s 0 a \<and> run WordChar s a b \<and> 3 \<le> b - a \<and> b - a \<le> 5 \<and> b < c \<and> run Space s b c
    \<and> c < d \<and> run digit s c d \<and> d < e \<and> run Space s d e \<and> e < length s)"
proof -
  have any: "rmatch (Cat LineEnd Empty) s m j \<and> run AnyChar s e m \<longleftrightarrow> m = length s \<and> j = m \<and> run AnyChar s e (length s)" for e m j
    by (auto simp: match_steps)
  have "e < length s \<Longrightarrow> run AnyChar s e (length s)" for e by (simp add: run_def)
  then show ?thesis unfolding Check_iff [OF pat_two] match_steps by (simp add: any) blast
qed

lemma one_iff: "0 = Check (re ''^~s*~w{3,5}~s+~w+(~.~w*db)?~s*$'') s \<longleftrightarrow>
  (\<exists>a b c d e. run Space s 0 a \<and> run WordChar s a b \<and> 3 \<le> b - a \<and> b - a \<le> 5 \<and> b < c \<and> run Space s b c
    \<and> c < d \<and> run WordChar s c d
    \<and> (e = d \<or> d < length s \<and> in_cls (Lit 46) (s ! d) \<and> (\<exists>n. run WordChar s (Suc d) n \<and> n < length s \<and> in_cls (Lit 100) (s ! n)
        \<and> Suc n < length s \<and> in_cls (Lit 98) (s ! Suc n) \<and> e = Suc (Suc n)))
    \<and> run Space s e (length s))"
  unfolding Check_iff [OF pat_one] match_steps by (simp del: in_cls.simps) blast

lemma one_dbI:
  "run Space s 0 a \<Longrightarrow> run WordChar s a b \<Longrightarrow> 3 \<le> b - a \<Longrightarrow> b - a \<le> 5 \<Longrightarrow> b < c \<Longrightarrow> run Space s b c \<Longrightarrow>
    c < d \<Longrightarrow> run WordChar s c d \<Longrightarrow> d < length s \<Longrightarrow> in_cls (Lit 46) (s ! d) \<Longrightarrow> run WordChar s (Suc d) n \<Longrightarrow> n < length s \<Longrightarrow>
    in_cls (Lit 100) (s ! n) \<Longrightarrow> Suc n < length s \<Longrightarrow> in_cls (Lit 98) (s ! Suc n) \<Longrightarrow>
    run Space s (Suc (Suc n)) (length s) \<Longrightarrow> 0 = Check (re ''^~s*~w{3,5}~s+~w+(~.~w*db)?~s*$'') s"
  unfolding one_iff by blast

lemma none_iff: "0 = Check (re ''^~s*~w{3,5}~s*$'') s \<longleftrightarrow>
  (\<exists>a b. run Space s 0 a \<and> run WordChar s a b \<and> 3 \<le> b - a \<and> b - a \<le> 5 \<and> run Space s b (length s))"
  unfolding Check_iff [OF pat_none] match_steps by simp blast

text \<open>Lines that begin with a word between spaces: \<open>g\<close> and \<open>h\<close> are the spaces, \<open>w\<close> the word.\<close>

definition front :: "bytes \<Rightarrow> bytes \<Rightarrow> bytes \<Rightarrow> bool" where
  "front g w h \<longleftrightarrow> list_all is_space g \<and> list_all is_word w \<and> 3 \<le> length w \<and> length w \<le> 5 \<and> list_all is_space h"

lemma front_nth:
  assumes "front g w h"
  shows "k < length g \<Longrightarrow> is_space ((g @ w @ h @ x) ! k)"
    and "length g \<le> k \<Longrightarrow> k < length g + length w \<Longrightarrow> is_word ((g @ w @ h @ x) ! k)"
    and "length g + length w \<le> k \<Longrightarrow> k < length g + length w + length h \<Longrightarrow> is_space ((g @ w @ h @ x) ! k)"
    and "length g + length w + length h \<le> k \<Longrightarrow> (g @ w @ h @ x) ! k = x ! (k - (length g + length w + length h))"
  using assms by (auto simp: front_def list_all_length nth_append)

lemma front_space:
  assumes "front g w h" and "\<forall>c \<in> set x. \<not> is_space c" and "k < length (g @ w @ h @ x)" and "is_space ((g @ w @ h @ x) ! k)"
  shows "k < length g \<or> length g + length w \<le> k \<and> k < length g + length w + length h"
proof (rule ccontr)
  assume n: "\<not> ?thesis"
  then consider "length g \<le> k" "k < length g + length w" | "length g + length w + length h \<le> k" by linarith
  then show False
  proof cases
    case 1
    then show False using front_nth(2) [OF assms(1) 1] space_not_word assms(4) by blast
  next
    case 2
    then have "x ! (k - (length g + length w + length h)) \<in> set x" using assms(3) by (intro nth_mem) simp
    then show False using front_nth(4) [OF assms(1) 2, of x] assms(2,4) by metis
  qed
qed

lemma front_word:
  assumes "front g w h" and "k < length (g @ w @ h @ x)" and "is_word ((g @ w @ h @ x) ! k)"
  shows "length g \<le> k \<and> k < length g + length w \<or> length g + length w + length h \<le> k"
  using front_nth(1,3) [OF assms(1), of k x] space_not_word assms(3) by (meson not_le)

lemma run_nth: "run c s i j \<Longrightarrow> i < j \<Longrightarrow> i < length s \<and> in_cls c (s ! i)"
  by (simp add: run_def)

text \<open>The second word begins behind \<open>h\<close>.\<close>

lemma second_word:
  assumes "front g w h" and "\<forall>c \<in> set x. \<not> is_space c" and "run WordChar (g @ w @ h @ x) a b" and "3 \<le> b - a"
    and "run Space (g @ w @ h @ x) b c" and "b < c" and "c < length (g @ w @ h @ x)" and "is_word ((g @ w @ h @ x) ! c)"
  shows "length g + length w + length h \<le> c"
proof -
  have a: "a < b" using assms(4) by simp
  have "length g \<le> a" using front_word [OF assms(1), of a x] run_nth [OF assms(3) a] by auto
  moreover have "b < length g \<or> length g + length w \<le> b"
    using front_space [OF assms(1,2), of b] run_nth [OF assms(5,6)] by auto
  ultimately show ?thesis using a assms(6) front_word [OF assms(1,7,8)] by linarith
qed

lemma reject_two:
  assumes "front g w h" and "\<forall>c \<in> set x. \<not> is_space c"
  shows "\<not> 0 = Check (re ''^~s*~w{3,5}~s+[0-9]+~s+.+$'') (g @ w @ h @ x)"
proof
  assume "0 = Check (re ''^~s*~w{3,5}~s+[0-9]+~s+.+$'') (g @ w @ h @ x)"
  then obtain a b c d e where r: "run WordChar (g @ w @ h @ x) a b" "3 \<le> b - a" "run Space (g @ w @ h @ x) b c" "b < c"
    "c < d" "run digit (g @ w @ h @ x) c d" "d < e" "run Space (g @ w @ h @ x) d e"
    unfolding two_iff by blast
  have c: "c < length (g @ w @ h @ x)" "is_word ((g @ w @ h @ x) ! c)"
    using run_nth [OF r(6,5)] is_digit_word by auto
  have "length g + length w + length h \<le> c" by (rule second_word [OF assms r(1-4) c])
  then show False using r(5) front_space [OF assms, of d] run_nth [OF r(8,7)] by auto
qed

lemma reject_one:
  assumes "front g w h"
  shows "\<not> 0 = Check (re ''^~s*~w{3,5}~s+~w+(~.~w*db)?~s*$'') (g @ w @ h)"
proof
  assume "0 = Check (re ''^~s*~w{3,5}~s+~w+(~.~w*db)?~s*$'') (g @ w @ h)"
  then obtain a b c d where r: "run WordChar (g @ w @ h @ []) a b" "3 \<le> b - a" "run Space (g @ w @ h @ []) b c" "b < c"
    "c < d" "run WordChar (g @ w @ h @ []) c d"
    unfolding one_iff by auto
  have c: "c < length (g @ w @ h @ [])" "is_word ((g @ w @ h @ []) ! c)" using run_nth [OF r(6,5)] by auto
  then show False using second_word [OF assms _ r(1-4) c] by simp
qed

lemma front_runs:
  assumes "front g w h"
  shows "run Space (g @ w @ h @ x) 0 (length g)" and "run WordChar (g @ w @ h @ x) (length g) (length g + length w)"
    and "run Space (g @ w @ h @ x) (length g + length w) (length g + length w + length h)"
  using assms run_prefix [of Space g "[]" "w @ h @ x"] run_prefix [of WordChar w g "h @ x"]
    run_prefix [of Space h "g @ w" x] by (simp_all add: front_def list_all_iff add.assoc)

lemma accept_two:
  assumes "front g w h" and "h \<noteq> []" and "list_all is_digit ds" and "ds \<noteq> []" and "list_all is_space h2" and "h2 \<noteq> []" and "v \<noteq> []"
  shows "0 = Check (re ''^~s*~w{3,5}~s+[0-9]+~s+.+$'') (g @ w @ h @ ds @ h2 @ v)"
proof -
  let ?c = "length g + length w + length h"
  have "run digit (g @ w @ h @ ds @ h2 @ v) ?c (?c + length ds)"
    using run_prefix [of digit ds "g @ w @ h" "h2 @ v"] assms(3) by (simp add: list_all_iff add.assoc)
  moreover have "run Space (g @ w @ h @ ds @ h2 @ v) (?c + length ds) (?c + length ds + length h2)"
    using run_prefix [of Space h2 "g @ w @ h @ ds" v] assms(5) by (simp add: list_all_iff add.assoc)
  ultimately show ?thesis using front_runs [OF assms(1), of "ds @ h2 @ v"] assms(1,2,4,6,7) unfolding two_iff
    by (intro exI [of _ "length g"] exI [of _ "length g + length w"] exI [of _ ?c] exI [of _ "?c + length ds"]
        exI [of _ "?c + length ds + length h2"]) (simp add: front_def)
qed

lemma accept_one_word:
  assumes "front g w h" and "h \<noteq> []" and "list_all is_word x" and "x \<noteq> []"
  shows "0 = Check (re ''^~s*~w{3,5}~s+~w+(~.~w*db)?~s*$'') (g @ w @ h @ x)"
proof -
  let ?c = "length g + length w + length h"
  have "run WordChar (g @ w @ h @ x) ?c (?c + length x)"
    using run_prefix [of WordChar x "g @ w @ h" "[]"] assms(3) by (simp add: list_all_iff add.assoc)
  then show ?thesis using front_runs [OF assms(1), of x] assms(1,2,4) unfolding one_iff
    by (intro exI [of _ "length g"] exI [of _ "length g + length w"] exI [of _ ?c] exI [of _ "?c + length x"])
      (simp add: front_def add.assoc)
qed

lemma accept_one_db:
  assumes "front g w h" and "h \<noteq> []" and "list_all is_word stem" and "stem \<noteq> []" and "list_all is_word ext"
  shows "0 = Check (re ''^~s*~w{3,5}~s+~w+(~.~w*db)?~s*$'') (g @ w @ h @ stem @ [46] @ ext @ [100, 98])"
proof -
  let ?c = "length g + length w + length h" and ?s = "g @ w @ h @ stem @ [46] @ ext @ [100, 98]"
  let ?d = "?c + length stem"
  have "run WordChar ?s ?c ?d"
    using run_prefix [of WordChar stem "g @ w @ h" "[46] @ ext @ [100, 98]"] assms(3) by (simp add: list_all_iff add.assoc)
  moreover have "run WordChar ?s (Suc ?d) (Suc ?d + length ext)"
    using run_prefix [of WordChar ext "g @ w @ h @ stem @ [46]" "[100, 98]"] assms(5) by (simp add: list_all_iff add.assoc)
  moreover have "?s ! ?d = 46" "?s ! (Suc ?d + length ext) = 100" "?s ! Suc (Suc ?d + length ext) = 98"
    "length ?s = Suc (Suc (Suc ?d + length ext))"
    by (simp_all add: nth_append)
  moreover have "run Space ?s (Suc (Suc (Suc ?d + length ext))) (length ?s)" by (simp add: run_def)
  moreover have "in_cls (Lit 46) 46" "in_cls (Lit 100) 100" "in_cls (Lit 98) 98" by simp_all
  moreover have "?c < ?d" "length g + length w < ?c" "3 \<le> length g + length w - length g" "length g + length w - length g \<le> 5"
    using assms(1,2,4) by (simp_all add: front_def)
  ultimately show ?thesis
    using one_dbI [OF front_runs(1,2) [OF assms(1), of "stem @ [46] @ ext @ [100, 98]"] _ _ _
        front_runs(3) [OF assms(1), of "stem @ [46] @ ext @ [100, 98]"], of ?d "Suc ?d + length ext"]
    by (simp del: in_cls.simps)
qed

lemma accept_none:
  assumes "front g w h"
  shows "0 = Check (re ''^~s*~w{3,5}~s*$'') (g @ w @ h)"
  using front_runs [OF assms, of "[]"] assms unfolding none_iff
  by (intro exI [of _ "length g"] exI [of _ "length g + length w"]) (simp add: front_def add.assoc)

section \<open>The commands\<close>

text \<open>Command words are compared without regard to case.\<close>

definition letters :: "string \<Rightarrow> bool" where
  "letters t \<longleftrightarrow> list_all (\<lambda>c. 97 \<le> to_lower c \<and> to_lower c \<le> 122) (ascii t)"

lemma strcasecmp_word:
  assumes "strcasecmp w t" and "letters t"
  shows "list_all is_word w" and "length w = length t"
proof -
  have e: "map to_lower w = map to_lower (ascii t)" using assms(1) by (simp add: strcasecmp_def)
  have "to_lower ` set w = to_lower ` set (ascii t)" using arg_cong [OF e, of set] by simp
  moreover have "\<forall>c \<in> to_lower ` set (ascii t). 97 \<le> c \<and> c \<le> 122"
    using assms(2) by (auto simp: letters_def list_all_iff)
  ultimately have "\<forall>c \<in> to_lower ` set w. 97 \<le> c \<and> c \<le> 122" by simp
  then show "list_all is_word w" by (auto simp: list_all_iff is_word_def)
  show "length w = length t" using arg_cong [OF e, of length] by (simp add: ascii_def)
qed

lemma strcasecmp_other: "strcasecmp w t \<Longrightarrow> strcasecmp w u \<longleftrightarrow> map to_lower (ascii t) = map to_lower (ascii u)"
  by (simp add: strcasecmp_def)

lemma letters [simp]: "letters ''set''" "letters ''get''" "letters ''del''" "letters ''open''" "letters ''close''"
  "letters ''exit''" "letters ''quit''" "letters ''help''"
  by (simp_all add: letters_def to_lower_def)

lemma front_command:
  assumes "strcasecmp w t" and "letters t" and "3 \<le> length t" and "length t \<le> 5" and "list_all is_space g" and "list_all is_space h"
  shows "front g w h"
  using strcasecmp_word [OF assms(1,2)] assms(3-6) by (simp add: front_def)

lemma front_GetMatch:
  assumes "front g w h" and "h \<noteq> [] \<or> x = []"
  shows "GetMatch (re ''~b~w{3,5}~b'') (g @ w @ h @ x) match = Inr (0, h @ x, w)"
proof -
  have "word_ends (h @ x)"
    using assms spaces_gap [of h] gap_word_ends [of h x] gap_word_ends [of h "[]"]
    by (cases "h = []") (auto simp: front_def word_ends_def)
  then show ?thesis using assms(1) spaces_gap [of g] by (intro GetMatch_word) (auto simp: front_def)
qed

definition finish :: "(int \<times> ('d, 's) cmdline) exec \<Rightarrow> (int \<times> ('d, 's) cmdline) exec" where
  "finish r = andThen r (\<lambda>(res, c). andThen (c_assert (res \<noteq> -1000)) (\<lambda>_. Inr (res, c)))"

lemma finish_simps [simp]:
  "finish (Inl e) = Inl e"
  "res \<noteq> -1000 \<Longrightarrow> finish (Inr (res, c)) = Inr (res, c)"
  by (simp_all add: finish_def)

lemma Parse_two:
  "0 = Check (re ''^~s*~w{3,5}~s+[0-9]+~s+.+$'') s \<Longrightarrow> Parse api junk s c = finish (parse_two api s junk c)"
  by (simp add: Parse_def finish_def)

lemma Parse_one:
  "\<not> 0 = Check (re ''^~s*~w{3,5}~s+[0-9]+~s+.+$'') s \<Longrightarrow> 0 = Check (re ''^~s*~w{3,5}~s+~w+(~.~w*db)?~s*$'') s \<Longrightarrow>
    Parse api junk s c = finish (parse_one api s junk c)"
  by (simp add: Parse_def finish_def)

lemma Parse_none:
  assumes "front g w h"
  shows "Parse api junk (g @ w @ h) c = finish (parse_none api (g @ w @ h) junk c)"
  using reject_two [OF assms, of "[]"] reject_one [OF assms] accept_none [OF assms]
  by (simp add: Parse_def finish_def)

lemma Parse_set:
  assumes "strcasecmp w ''set''" and "list_all is_space g" and "list_all is_space h" and "h \<noteq> []"
    and "list_all is_digit ds" and "ds \<noteq> []" and "list_all is_space h2" and "h2 \<noteq> []" and "gap u"
    and "v \<noteq> []" and "is_word (hd v)" and "length ds < MAX_INPUT_LEN" and "length v < MAX_INPUT_LEN"
    and "cm_hdb c = Some d"
  shows "Parse api junk (g @ w @ h @ ds @ h2 @ u @ v) c
    = finish (andThen (api_set api (Some d) (word_of_int (atoi ds)) v (cm_db c)) (\<lambda>(res, db). Inr (res, c\<lparr>cm_db := db\<rparr>)))"
proof -
  have f: "front g w h" by (rule front_command [OF assms(1)]) (use assms(2,3) in simp_all)
  have number: "GetMatch (re ''~b[0-9]+~b'') (h @ ds @ h2 @ u @ v) m = Inr (0, h2 @ u @ v, ds)" for m
    using assms(3,5-8,12) spaces_gap gap_word_ends [of h2 "u @ v"] by (intro GetMatch_number) simp_all
  have rest: "GetMatch (re ''~b.+'') ((h2 @ u) @ v) m = Inr (0, [], v)" for m
    using assms(7,9-11,13) spaces_gap by (intro GetMatch_rest) simp_all
  have "parse_two api (g @ w @ h @ ds @ h2 @ u @ v) junk c
    = andThen (api_set api (Some d) (word_of_int (atoi ds)) v (cm_db c)) (\<lambda>(res, db). Inr (res, c\<lparr>cm_db := db\<rparr>))"
    using number rest assms(1,4,14) by (simp add: parse_two_def front_GetMatch [OF f] Let_def)
  then show ?thesis
    using Parse_two [OF accept_two [OF f assms(4-8), of "u @ v"], of api junk c] assms(10) by simp
qed

lemma digits_words: "list_all is_digit ds \<Longrightarrow> list_all is_word ds"
  by (simp add: list_all_iff is_digit_word)

lemma word_no_space: "list_all is_word x \<Longrightarrow> \<forall>c \<in> set x. \<not> is_space c"
  using space_not_word by (auto simp: list_all_iff)

lemma Parse_keyed:
  assumes "front g w h" and "h \<noteq> []" and "list_all is_digit ds" and "ds \<noteq> []"
  shows "Parse api junk (g @ w @ h @ ds) c = finish (parse_one api (g @ w @ h @ ds) junk c)"
  using assms digits_words word_no_space by (intro Parse_one reject_two accept_one_word) auto

lemma GetMatch_key:
  assumes "list_all is_space h" and "list_all is_digit ds" and "ds \<noteq> []" and "length ds < MAX_INPUT_LEN"
  shows "GetMatch (re ''~b[0-9]+~b'') (h @ ds) m = Inr (0, [], ds)"
  using GetMatch_number [of h ds "[]" m] assms spaces_gap by (simp add: word_ends_def)

lemma Parse_get:
  assumes "strcasecmp w ''get''" and "list_all is_space g" and "list_all is_space h" and "h \<noteq> []"
    and "list_all is_digit ds" and "ds \<noteq> []" and "length ds < MAX_INPUT_LEN" and "cm_hdb c = Some d"
  shows "Parse api junk (g @ w @ h @ ds) c
    = finish (andThen (api_get api (Some d) (word_of_int (atoi ds)) (cm_db c)) (\<lambda>(v, db).
        case v of Some v \<Rightarrow> Inr (0, say (c_str v @ [10]) (c\<lparr>cm_db := db\<rparr>)) | None \<Rightarrow> Inr (-1, c\<lparr>cm_db := db\<rparr>)))"
proof -
  have f: "front g w h" by (rule front_command [OF assms(1)]) (use assms(2,3) in simp_all)
  show ?thesis using GetMatch_key [OF assms(3,5-7)] assms(1,4,8)
    by (simp add: Parse_keyed [OF f assms(4-6)] parse_one_def front_GetMatch [OF f] strcasecmp_other [OF assms(1)] to_lower_def)
qed

lemma Parse_del:
  assumes "strcasecmp w ''del''" and "list_all is_space g" and "list_all is_space h" and "h \<noteq> []"
    and "list_all is_digit ds" and "ds \<noteq> []" and "length ds < MAX_INPUT_LEN" and "cm_hdb c = Some d"
  shows "Parse api junk (g @ w @ h @ ds) c
    = finish (andThen (api_del api (Some d) (word_of_int (atoi ds)) (cm_db c)) (\<lambda>(res, db). Inr (res, c\<lparr>cm_db := db\<rparr>)))"
proof -
  have f: "front g w h" by (rule front_command [OF assms(1)]) (use assms(2,3) in simp_all)
  show ?thesis using GetMatch_key [OF assms(3,5-7)] assms(1,4,8)
    by (simp add: Parse_keyed [OF f assms(4-6)] parse_one_def front_GetMatch [OF f] strcasecmp_other [OF assms(1)] to_lower_def)
qed

lemma Parse_open:
  assumes "strcasecmp w ''open''" and "list_all is_space g" and "list_all is_space h" and "h \<noteq> []"
    and "list_all is_word stem" and "stem \<noteq> []" and "list_all is_word ext" and "length stem + length ext + 3 < MAX_INPUT_LEN"
    and "cm_hdb c = None"
  defines "name \<equiv> stem @ [46] @ ext @ [100, 98]"
  shows "Parse api junk (g @ w @ h @ name) c
    = finish (andThen (api_create api name (cm_db c)) (\<lambda>(hdb, db).
        Inr (if hdb \<noteq> None then 0 else -1, c\<lparr>cm_name := name, cm_hdb := hdb, cm_db := db\<rparr>)))"
proof -
  have f: "front g w h" by (rule front_command [OF assms(1)]) (use assms(2,3) in simp_all)
  have "\<forall>c \<in> set name. \<not> is_space c"
    using word_no_space [OF assms(5)] word_no_space [OF assms(7)] by (auto simp: name_def is_space_def)
  then have "Parse api junk (g @ w @ h @ name) c = finish (parse_one api (g @ w @ h @ name) junk c)"
    using reject_two [OF f] accept_one_db [OF f assms(4-7)] by (intro Parse_one) (auto simp: name_def)
  then show ?thesis
    using GetMatch_db [OF spaces_gap [OF assms(3)] assms(5-8)] assms(1,4,9)
    by (simp add: parse_one_def front_GetMatch [OF f] name_def)
qed

text \<open>Without an extension the array \<open>match\<close> still holds the command word.\<close>

lemma Parse_open_plain:
  assumes "strcasecmp w ''open''" and "list_all is_space g" and "list_all is_space h" and "h \<noteq> []"
    and "list_all is_word x" and "x \<noteq> []" and "cm_hdb c = None"
  shows "Parse api junk (g @ w @ h @ x) c
    = finish (andThen (api_create api w (cm_db c)) (\<lambda>(hdb, db).
        Inr (if hdb \<noteq> None then 0 else -1, c\<lparr>cm_name := w, cm_hdb := hdb, cm_db := db\<rparr>)))"
proof -
  have f: "front g w h" by (rule front_command [OF assms(1)]) (use assms(2,3) in simp_all)
  have nodot: "\<not> in_cls (Lit 46) c" if "is_word c \<or> is_space c" for c
    using that by (auto simp: is_word_def is_space_def is_digit_def to_lower_def split: if_splits)
  have "Parse api junk (g @ w @ h @ x) c = finish (parse_one api (g @ w @ h @ x) junk c)"
    using reject_two [OF f word_no_space [OF assms(5)]] accept_one_word [OF f assms(4-6)] by (intro Parse_one) auto
  moreover have "GetMatch (re ''~b~w+~.~w*db~b'') (h @ x) w = Inr (-1, h @ x, w)"
    using assms(3,5) nodot by (intro GetMatch_no_db) (auto simp: list_all_iff)
  ultimately show ?thesis
    using assms(1,4,7) by (simp add: parse_one_def front_GetMatch [OF f])
qed

lemma Parse_close:
  assumes "strcasecmp w ''close''" and "list_all is_space g" and "list_all is_space h" and "cm_hdb c = Some d"
  shows "Parse api junk (g @ w @ h) c
    = finish (andThen (api_delete api (Some d) (cm_db c)) (\<lambda>(res, db). Inr (res, c\<lparr>cm_hdb := None, cm_name := [], cm_db := db\<rparr>)))"
proof -
  have f: "front g w h" by (rule front_command [OF assms(1)]) (use assms(2,3) in simp_all)
  show ?thesis using assms(1,4) front_GetMatch [OF f, of "[]" junk]
    by (simp add: Parse_none [OF f] parse_none_def)
qed

lemma Parse_quit:
  assumes "strcasecmp w ''quit'' \<or> strcasecmp w ''exit''" and "list_all is_space g" and "list_all is_space h" and "cm_hdb c = None"
  shows "Parse api junk (g @ w @ h) c = Inr (1, c)"
proof -
  have f: "front g w h" using assms(1) by (auto intro: front_command assms(2,3))
  have "\<not> strcasecmp w ''close''" using assms(1) by (auto simp: strcasecmp_def to_lower_def)
  then show ?thesis using assms(1,4) front_GetMatch [OF f, of "[]" junk]
    by (auto simp: Parse_none [OF f] parse_none_def)
qed

end
