(* ===== verification/ClientSession.thy ===== *)
theory ClientSession
  imports Commands
begin

text \<open>
  The command loop over a database that keeps its contract: no input makes the parser fault, the
  uninitialised array is never looked at, the loop ends by a command or at the end of the input, and what a
  session stores it can print again. The contract is \<open>database\<close> of theory \<open>Database\<close> with a law
  for closing; the local database provides it.
\<close>

section \<open>The contract\<close>

locale command_db = database api inv opened table
  for api :: "('d, 's) db_api" and inv opened table +
  assumes delete: "inv s \<Longrightarrow> opened s d n \<Longrightarrow>
    \<exists>r s'. api_delete api (Some d) s = Inr (r, s') \<and> (r = 0 \<or> r = -1) \<and> inv s' \<and> table s' = table s"

text \<open>
  A database that asks for more: names and values it can take, and room to open one; and nothing is said of reading. What a
  session without \<open>get\<close> does needs no more than this contract, which the distributed database keeps as well (theory
  \<open>Cloud\<close>). \<open>readable_db\<close> adds what a session with \<open>get\<close> needs.
\<close>

locale bounded_db =
  fixes api :: "('d, 's) db_api"
    and inv :: "'s \<Rightarrow> bool"
    and opened :: "'s \<Rightarrow> 'd \<Rightarrow> bytes \<Rightarrow> bool"
    and table :: "'s \<Rightarrow> bytes \<Rightarrow> u32 \<rightharpoonup> bytes"
    and room :: "'s \<Rightarrow> bool"
    and ok_name :: "bytes \<Rightarrow> bool"
    and ok_value :: "bytes \<Rightarrow> bool"
  assumes b_create: "inv s \<Longrightarrow> room s \<Longrightarrow> ok_name n \<Longrightarrow> \<exists>d s'. api_create api n s = Inr (Some d, s') \<and> inv s' \<and> opened s' d n
        \<and> table s' = table s \<and> (\<forall>e m. opened s e m \<longrightarrow> opened s' e m)"
    and b_set: "inv s \<Longrightarrow> opened s d n \<Longrightarrow> ok_value x \<Longrightarrow> \<exists>s'. api_set api (Some d) k x s = Inr (0, s') \<and> inv s'
        \<and> opened s' = opened s \<and> table s' = (table s)(n := (table s n)(k \<mapsto> c_str x))"
    and b_del: "inv s \<Longrightarrow> opened s d n \<Longrightarrow> \<exists>s'. api_del api (Some d) k s = Inr (if table s n k = None then -1 else 0, s')
        \<and> inv s' \<and> opened s' = opened s \<and> table s' = (table s)(n := (table s n)(k := None))"
    and b_delete: "inv s \<Longrightarrow> opened s d n \<Longrightarrow>
        \<exists>r s'. api_delete api (Some d) s = Inr (r, s') \<and> (r = 0 \<or> r = -1) \<and> inv s' \<and> table s' = table s"

locale readable_db = bounded_db api inv opened table room ok_name ok_value
  for api :: "('d, 's) db_api" and inv opened table room ok_name ok_value +
  assumes b_get: "inv s \<Longrightarrow> opened s d n \<Longrightarrow> \<exists>r s'. api_get api (Some d) k s = Inr (r, s') \<and> inv s'
        \<and> opened s' = opened s \<and> table s' = table s \<and> map_option c_str r = table s n k"

sublocale command_db \<subseteq> bdd: readable_db api inv opened table "\<lambda>_. True" "\<lambda>_. True" "\<lambda>_. True"
  by unfold_locales (simp_all add: create set get del delete)

text \<open>What holds between two commands; the prompt names the database that is open.\<close>

definition cm_ok :: "('s \<Rightarrow> bool) \<Rightarrow> ('s \<Rightarrow> 'd \<Rightarrow> bytes \<Rightarrow> bool) \<Rightarrow> ('d, 's) cmdline \<Rightarrow> bool" where
  "cm_ok ok opened c \<longleftrightarrow> ok (cm_db c) \<and> (\<forall>d. cm_hdb c = Some d \<longrightarrow> opened (cm_db c) d (cm_name c))"

text \<open>A command ended well: its result, and the invariant.\<close>

definition ends_well ::
  "('s \<Rightarrow> bool) \<Rightarrow> ('s \<Rightarrow> 'd \<Rightarrow> bytes \<Rightarrow> bool) \<Rightarrow> ('d, 's) cmdline \<Rightarrow> (int \<times> ('d, 's) cmdline) exec \<Rightarrow> bool" where
  "ends_well ok opened c r \<longleftrightarrow> (\<exists>res c'. r = Inr (res, c') \<and> cm_ok ok opened c' \<and> res \<in> {-1, 0, 1}
    \<and> (res = 1 \<longrightarrow> cm_hdb c = None \<and> c' = c))"

lemma ends_wellI: "cm_ok ok opened c' \<Longrightarrow> res \<in> {-1, 0} \<Longrightarrow> ends_well ok opened c (Inr (res, c'))"
  by (auto simp: ends_well_def)

lemma cm_ok_print [simp]:
  "cm_ok ok opened (c\<lparr>cm_out := x\<rparr>) = cm_ok ok opened c"
  "cm_ok ok opened (complain msg c) = cm_ok ok opened c"
  "cm_ok ok opened (say b c) = cm_ok ok opened c"
  "cm_ok ok opened (prompt c) = cm_ok ok opened c"
  by (simp_all add: cm_ok_def complain_def say_def prompt_def)

lemma cm_ok_help [simp]: "cm_ok ok opened (HelpPrompt c) = cm_ok ok opened c"
  by (simp add: HelpPrompt_def)

lemma print_simps [simp]:
  "cm_db (say b c) = cm_db c" "cm_hdb (say b c) = cm_hdb c" "cm_name (say b c) = cm_name c"
  "cm_db (prompt c) = cm_db c" "cm_hdb (prompt c) = cm_hdb c" "cm_name (prompt c) = cm_name c"
  by (simp_all add: say_def prompt_def)

lemma GetMatch_runs:
  assumes "length s < MAX_INPUT_LEN"
  obtains r s' m' where "GetMatch pat s m = Inr (r, s', m')" and "length s' < MAX_INPUT_LEN" and "r = 0 \<or> r = -1"
proof (cases "RegMatch pat s")
  case None
  then show ?thesis using that assms by (simp add: GetMatch_def)
next
  case (Some p)
  then obtain i j where p: "RegMatch pat s = Some (i, j)" by (cases p) auto
  then have "j \<le> length s" by (auto simp: RegMatch_def split: option.splits dest: regexec_end)
  then show ?thesis using that [of 0 "drop j s" "take (j - i) (drop i s)"] p assms by (simp add: GetMatch_def)
qed

text \<open>A line that one of the three patterns accepts begins with a command word, so \<open>match\<close> is written first.\<close>

lemma word_found:
  assumes "run Space s 0 a" and "run WordChar s a b" and "3 \<le> b - a" and "b - a \<le> 5" and "b < length s \<Longrightarrow> is_space (s ! b)"
  shows "GetMatch (re ''~b~w{3,5}~b'') s m = GetMatch (re ''~b~w{3,5}~b'') s m'"
proof -
  have ab: "a < b" using assms(3) by simp
  have a: "is_word (s ! a)" "a < length s" using run_nth [OF assms(2) ab] by auto
  have "\<not> is_word (s ! (a - 1))" if "0 < a"
    using runD [OF assms(1), of "a - 1"] that space_not_word by simp
  then have "bound_at s a" using a by (auto simp: bound_at_def)
  moreover have "is_word (s ! (b - 1))" "b \<le> length s"
    using runD [OF assms(2), of "b - 1"] run_le [OF assms(2)] ab by auto
  then have "bound_at s b" using ab assms(5) space_not_word by (auto simp: bound_at_def)
  ultimately have "rmatch (Cat WordBound (Cat (Rep 3 5 (Chr WordChar)) (Cat WordBound Empty))) s a b"
    using assms(2-4) by (auto simp: match_steps)
  then have "RegMatch (re ''~b~w{3,5}~b'') s \<noteq> None"
    using a(2) less_imp_le [of a "length s"] unfolding RegMatch_def pat_word option.case regexec_None_iff by blast
  then show ?thesis by (auto simp: GetMatch_def split: option.splits)
qed

lemma Parse_junk: "Parse api junk input c = Parse api junk' input c"
proof -
  have w: "GetMatch (re ''~b~w{3,5}~b'') input junk = GetMatch (re ''~b~w{3,5}~b'') input junk'"
    if "0 = Check (re ''^~s*~w{3,5}~s+[0-9]+~s+.+$'') input
      \<or> 0 = Check (re ''^~s*~w{3,5}~s+~w+(~.~w*db)?~s*$'') input \<or> 0 = Check (re ''^~s*~w{3,5}~s*$'') input"
    using that
  proof (elim disjE)
    assume "0 = Check (re ''^~s*~w{3,5}~s+[0-9]+~s+.+$'') input"
    then show ?thesis unfolding two_iff by (elim exE conjE) (rule word_found, auto dest: run_nth)
  next
    assume "0 = Check (re ''^~s*~w{3,5}~s+~w+(~.~w*db)?~s*$'') input"
    then show ?thesis unfolding one_iff by (elim exE conjE) (rule word_found, auto dest: run_nth)
  next
    assume "0 = Check (re ''^~s*~w{3,5}~s*$'') input"
    then show ?thesis unfolding none_iff by (elim exE conjE) (rule word_found, auto dest: run_nth)
  qed
  have "parse_two api input junk c = parse_two api input junk' c"
    if "0 = Check (re ''^~s*~w{3,5}~s+[0-9]+~s+.+$'') input"
    using w that by (simp add: parse_two_def)
  moreover have "parse_one api input junk c = parse_one api input junk' c"
    if "0 = Check (re ''^~s*~w{3,5}~s+~w+(~.~w*db)?~s*$'') input"
    using w that by (simp add: parse_one_def)
  moreover have "parse_none api input junk c = parse_none api input junk' c"
    if "0 = Check (re ''^~s*~w{3,5}~s*$'') input"
    using w that by (simp add: parse_none_def)
  ultimately show ?thesis unfolding Parse_def by (auto cong: if_cong)
qed

text \<open>The loop takes one line after the other; an overlong line is taken in pieces.\<close>

definition text_line :: "bytes \<Rightarrow> bool" where
  "text_line l \<longleftrightarrow> l \<noteq> [] \<and> 10 \<notin> set l \<and> 0 \<notin> set l"

lemma input_line:
  assumes "text_line l" and "length l < MAX_INPUT_LEN - 1"
  shows "input_loop api junk (l @ 10 # rest) c =
    (case Parse api junk l (prompt c) of
       Inl e \<Rightarrow> Inl e
     | Inr (res, c) \<Rightarrow> if res = 1 then Inr (rest, c) else input_loop api junk rest c)"
proof -
  have tw: "takeWhile (\<lambda>c. c \<noteq> 10) (l @ 10 # x) = l" for x
    using assms(1) by (intro takeWhile_tail [THEN trans]) (auto simp: text_line_def takeWhile_eq_all_conv)
  obtain x where x: "take (MAX_INPUT_LEN - 1) (l @ 10 # rest) = l @ 10 # x"
    using assms(2) by (cases "MAX_INPUT_LEN - 1 - length l") auto
  have "fgets MAX_INPUT_LEN (l @ 10 # rest) = Some (l @ [10], rest)"
    unfolding fgets_def Let_def x tw by simp
  moreover have "c_str (l @ [10]) = l @ [10]" using assms(1) by (intro c_str_idem) (auto simp: text_line_def)
  moreover have "l @ [10] \<noteq> []" "hd (l @ [10]) \<noteq> 10" "chop (l @ [10]) = l"
    using assms(1) by (cases l; auto simp: text_line_def chop_def)+
  ultimately show ?thesis by (subst input_loop.simps) (simp add: Let_def)
qed

lemma input_piece:
  assumes "text_line l" and "length l = MAX_INPUT_LEN - 1"
  shows "input_loop api junk (l @ rest) c =
    (case Parse api junk l (prompt c) of
       Inl e \<Rightarrow> Inl e
     | Inr (res, c) \<Rightarrow> if res = 1 then Inr (rest, c) else input_loop api junk rest c)"
proof -
  have tw: "takeWhile (\<lambda>c. c \<noteq> 10) l = l" using assms(1) by (auto simp: text_line_def takeWhile_eq_all_conv)
  have tk: "take (MAX_INPUT_LEN - 1) (l @ rest) = l" unfolding assms(2) [symmetric] by simp
  have "l \<noteq> []" using assms(1) by (simp add: text_line_def)
  then have "fgets MAX_INPUT_LEN (l @ rest) = Some (l, rest)" unfolding fgets_def Let_def tk tw by simp
  moreover have "c_str l = l" using assms(1) by (intro c_str_idem) (auto simp: text_line_def)
  moreover have "l \<noteq> []" "hd l \<noteq> 10" "last l \<noteq> 10"
    using assms(1) hd_in_set [of l] last_in_set [of l] unfolding text_line_def by metis+
  then have "l \<noteq> []" "hd l \<noteq> 10" "chop l = l" by (simp_all add: chop_def)
  ultimately show ?thesis by (subst input_loop.simps) (simp add: Let_def)
qed

lemma input_eof: "input_loop api junk [] c = Inl NullDeref"
  by (subst input_loop.simps) (simp add: fgets_def Let_def)

lemma fgets_length: "fgets n stdin = Some (line, rest) \<Longrightarrow> length line \<le> n - 1"
  by (auto simp: fgets_def Let_def split: if_splits
      intro: le_trans [OF length_takeWhile_le]) 

text \<open>The command lines in their plainest form.\<close>

definition line_open :: "bytes \<Rightarrow> bytes" where "line_open name = ascii ''open'' @ 32 # name"
definition line_set :: "bytes \<Rightarrow> bytes \<Rightarrow> bytes" where "line_set ds v = ascii ''set'' @ 32 # ds @ 32 # v"
definition line_get :: "bytes \<Rightarrow> bytes" where "line_get ds = ascii ''get'' @ 32 # ds"
definition line_close :: bytes where "line_close = ascii ''close''"
definition line_quit :: bytes where "line_quit = ascii ''quit''"

lemmas line_defs = line_open_def line_set_def line_get_def line_close_def line_quit_def

definition db_name :: "bytes \<Rightarrow> bool" where
  "db_name n \<longleftrightarrow> (\<exists>stem ext. n = stem @ [46] @ ext @ [100, 98] \<and> stem \<noteq> [] \<and> list_all is_word stem \<and> list_all is_word ext)"

definition db_value :: "bytes \<Rightarrow> bool" where
  "db_value v \<longleftrightarrow> text_line v \<and> is_word (hd v)"

lemma strcasecmp_refl [simp]: "strcasecmp (ascii t) t"
  by (simp add: strcasecmp_def)

lemma blank: "list_all is_space [32]"
  by (simp add: is_space_def)

lemma line_open_Parse:
  assumes "db_name name" and "length name < MAX_INPUT_LEN" and "cm_hdb c = None"
  shows "Parse api junk (line_open name) c
    = finish (andThen (api_create api name (cm_db c)) (\<lambda>(hdb, db).
        Inr (if hdb \<noteq> None then 0 else -1, c\<lparr>cm_name := name, cm_hdb := hdb, cm_db := db\<rparr>)))"
proof -
  obtain stem ext where n: "name = stem @ [46] @ ext @ [100, 98]" "stem \<noteq> []" "list_all is_word stem" "list_all is_word ext"
    using assms(1) by (auto simp: db_name_def)
  then show ?thesis using Parse_open [OF strcasecmp_refl, of "[]" "[32]" stem ext c api junk] assms(2,3) blank
    by (simp add: line_open_def del: ascii_simps)
qed

lemma line_set_Parse:
  assumes "list_all is_digit ds" and "ds \<noteq> []" and "db_value v" and "length ds < MAX_INPUT_LEN" and "length v < MAX_INPUT_LEN"
    and "cm_hdb c = Some d"
  shows "Parse api junk (line_set ds v) c
    = finish (andThen (api_set api (Some d) (word_of_int (atoi ds)) v (cm_db c)) (\<lambda>(res, db). Inr (res, c\<lparr>cm_db := db\<rparr>)))"
  using Parse_set [OF strcasecmp_refl, of "[]" "[32]" ds "[32]" "[]" v c d api junk] assms blank
  by (simp add: line_set_def db_value_def text_line_def del: ascii_simps)

lemma line_get_Parse:
  assumes "list_all is_digit ds" and "ds \<noteq> []" and "length ds < MAX_INPUT_LEN" and "cm_hdb c = Some d"
  shows "Parse api junk (line_get ds) c
    = finish (andThen (api_get api (Some d) (word_of_int (atoi ds)) (cm_db c)) (\<lambda>(v, db).
        case v of Some v \<Rightarrow> Inr (0, say (c_str v @ [10]) (c\<lparr>cm_db := db\<rparr>)) | None \<Rightarrow> Inr (-1, c\<lparr>cm_db := db\<rparr>)))"
  using Parse_get [OF strcasecmp_refl, of "[]" "[32]" ds c d api junk] assms blank by (simp add: line_get_def del: ascii_simps)

lemma line_close_Parse:
  "cm_hdb c = Some d \<Longrightarrow> Parse api junk line_close c
    = finish (andThen (api_delete api (Some d) (cm_db c)) (\<lambda>(res, db). Inr (res, c\<lparr>cm_hdb := None, cm_name := [], cm_db := db\<rparr>)))"
  using Parse_close [OF strcasecmp_refl, of "[]" "[]" c d api junk] by (simp add: line_close_def del: ascii_simps)

lemma line_quit_Parse: "cm_hdb c = None \<Longrightarrow> Parse api junk line_quit c = Inr (1, c)"
  using Parse_quit [OF disjI1 [OF strcasecmp_refl], of "[]" "[]" c api junk] by (simp add: line_quit_def del: ascii_simps)

lemma words_text: "list_all is_word x \<Longrightarrow> 10 \<notin> set x \<and> 0 \<notin> set x"
proof -
  have "\<not> is_word 10" "\<not> is_word 0" by (simp_all add: is_word_def is_digit_def to_lower_def)
  then show "list_all is_word x \<Longrightarrow> 10 \<notin> set x \<and> 0 \<notin> set x" by (auto simp: list_all_iff)
qed

lemma text_lines:
  "db_name name \<Longrightarrow> text_line (line_open name)"
  "list_all is_digit ds \<Longrightarrow> db_value v \<Longrightarrow> text_line (line_set ds v)"
  "list_all is_digit ds \<Longrightarrow> text_line (line_get ds)"
  "text_line line_close" "text_line line_quit"
  by (auto simp: text_line_def line_defs db_name_def db_value_def dest!: digits_words words_text)

section \<open>Under the contract\<close>

context command_db
begin

lemma parse_two_well:
  assumes "cm_ok inv opened c" and "length input < MAX_INPUT_LEN"
  shows "ends_well inv opened c (parse_two api input junk c)"
proof -
  obtain r1 s1 m1 where 1: "GetMatch (re ''~b~w{3,5}~b'') input junk = Inr (r1, s1, m1)" "length s1 < MAX_INPUT_LEN"
    using GetMatch_runs [OF assms(2)] by metis
  obtain r2 s2 m2 where 2: "GetMatch (re ''~b[0-9]+~b'') s1 m1 = Inr (r2, s2, m2)" "length s2 < MAX_INPUT_LEN"
    using GetMatch_runs [OF 1(2)] by metis
  obtain r3 s3 m3 where 3: "GetMatch (re ''~b.+'') s2 m2 = Inr (r3, s3, m3)"
    using GetMatch_runs [OF 2(2)] by metis
  show ?thesis
  proof (cases "cm_hdb c")
    case None
    then show ?thesis using 1 assms(1) by (simp add: parse_two_def no_db_def ends_wellI)
  next
    case (Some d)
    then have "inv (cm_db c)" "opened (cm_db c) d (cm_name c)" using assms(1) by (simp_all add: cm_ok_def)
    from set [OF this, of "word_of_int (atoi m2)" m3] obtain db where
      "api_set api (Some d) (word_of_int (atoi m2)) m3 (cm_db c) = Inr (0, db)" "inv db" "opened db = opened (cm_db c)"
      by blast
    moreover from this have "cm_ok inv opened (c\<lparr>cm_db := db\<rparr>)" using assms(1) by (simp add: cm_ok_def)
    ultimately show ?thesis using 1 2 3 Some assms(1)
      by (auto simp: parse_two_def Let_def intro: ends_wellI)
  qed
qed

lemma parse_one_well:
  assumes "cm_ok inv opened c" and "length input < MAX_INPUT_LEN"
  shows "ends_well inv opened c (parse_one api input junk c)"
proof -
  obtain r1 s1 m1 where 1: "GetMatch (re ''~b~w{3,5}~b'') input junk = Inr (r1, s1, m1)" "length s1 < MAX_INPUT_LEN"
    using GetMatch_runs [OF assms(2)] by metis
  obtain r2 s2 m2 where 2: "GetMatch (re ''~b[0-9]+~b'') s1 m1 = Inr (r2, s2, m2)"
    using GetMatch_runs [OF 1(2)] by metis
  obtain r3 s3 m3 where 3: "GetMatch (re ''~b~w+~.~w*db~b'') s1 m1 = Inr (r3, s3, m3)"
    using GetMatch_runs [OF 1(2)] by metis
  show ?thesis
  proof (cases "cm_hdb c")
    case None
    obtain d db where db: "api_create api m3 (cm_db c) = Inr (Some d, db)" "inv db" "opened db d m3"
      using create [of "cm_db c" m3] assms(1) by (auto simp: cm_ok_def)
    then have "cm_ok inv opened (c\<lparr>cm_name := m3, cm_hdb := Some d, cm_db := db\<rparr>)" by (simp add: cm_ok_def)
    then show ?thesis using 1 3 None db assms(1)
      by (auto simp: parse_one_def no_db_def intro: ends_wellI)
  next
    case (Some d)
    let ?k = "word_of_int (atoi m2)"
    have o: "inv (cm_db c)" "opened (cm_db c) d (cm_name c)" using assms(1) Some by (simp_all add: cm_ok_def)
    from get [OF o, of ?k] obtain v db where g: "api_get api (Some d) ?k (cm_db c) = Inr (v, db)" "inv db" "opened db = opened (cm_db c)"
      by blast
    from del [OF o, of ?k] obtain r db' where l: "api_del api (Some d) ?k (cm_db c) = Inr (r, db')" "inv db'"
      "opened db' = opened (cm_db c)" "r = 0 \<or> r = -1" by (auto split: if_splits)
    have ok: "cm_ok inv opened (c\<lparr>cm_db := db\<rparr>)" "cm_ok inv opened (c\<lparr>cm_db := db'\<rparr>)"
      using g l assms(1) by (simp_all add: cm_ok_def)
    then have "ends_well inv opened c (case v of Some v \<Rightarrow> Inr (0, say (c_str v @ [10]) (c\<lparr>cm_db := db\<rparr>)) | None \<Rightarrow> Inr (-1, c\<lparr>cm_db := db\<rparr>))"
      by (auto intro: ends_wellI split: option.splits)
    then show ?thesis using 1 2 Some g(1) l(1,4) ok assms(1)
      by (auto simp: parse_one_def intro: ends_wellI)
  qed
qed

lemma parse_none_well:
  assumes "cm_ok inv opened c" and "length input < MAX_INPUT_LEN"
  shows "ends_well inv opened c (parse_none api input junk c)"
proof -
  obtain r1 s1 m1 where 1: "GetMatch (re ''~b~w{3,5}~b'') input junk = Inr (r1, s1, m1)"
    using GetMatch_runs [OF assms(2)] by metis
  show ?thesis
  proof (cases "cm_hdb c")
    case None
    then show ?thesis using 1 assms(1)
      by (auto simp: parse_none_def no_db_def ends_well_def)
  next
    case (Some d)
    then have "inv (cm_db c)" "opened (cm_db c) d (cm_name c)" using assms(1) by (simp_all add: cm_ok_def)
    from delete [OF this] obtain r db where
      "api_delete api (Some d) (cm_db c) = Inr (r, db)" "inv db" "r = 0 \<or> r = -1" by blast
    moreover from this have "cm_ok inv opened (c\<lparr>cm_hdb := None, cm_name := [], cm_db := db\<rparr>)" by (simp add: cm_ok_def)
    ultimately show ?thesis using 1 Some assms(1)
      by (auto simp: parse_none_def intro: ends_wellI)
  qed
qed

lemma Parse_well:
  assumes "cm_ok inv opened c" and "length input < MAX_INPUT_LEN"
  shows "ends_well inv opened c (Parse api junk input c)"
proof -
  have "ends_well inv opened c (Inr (-1, complain ''Incorrect format.'' c))" using assms(1) by (simp add: ends_wellI)
  moreover have "ends_well inv opened c (andThen r (\<lambda>(res, c). andThen (c_assert (res \<noteq> -1000)) (\<lambda>_. Inr (res, c))))"
    if "ends_well inv opened c r" for r using that by (auto simp: ends_well_def)
  ultimately show ?thesis
    unfolding Parse_def using parse_two_well [OF assms] parse_one_well [OF assms] parse_none_well [OF assms] by auto
qed

text \<open>The loop ends by a command, with no database open, or by following \<open>NULL\<close> at the end of the input.\<close>

lemma loop_ends:
  assumes "cm_ok inv opened c"
  shows "input_loop api junk stdin c = Inl NullDeref
    \<or> (\<exists>rest c'. input_loop api junk stdin c = Inr (rest, c') \<and> cm_ok inv opened c' \<and> cm_hdb c' = None
        \<and> length rest < length stdin)"
  using assms
proof (induction "length stdin" arbitrary: stdin c rule: less_induct)
  case less
  show ?case
  proof (cases "fgets MAX_INPUT_LEN stdin")
    case None
    then show ?thesis by (subst input_loop.simps) (simp add: Let_def)
  next
    case (Some p)
    then obtain line stdin' where f: "fgets MAX_INPUT_LEN stdin = Some (line, stdin')" by (cases p) auto
    then have shorter: "length stdin' < length stdin" by (rule fgets_progress) (simp add: MAX_INPUT_LEN_def)
    let ?in = "c_str line"
    have IH: "input_loop api junk stdin' c = Inl NullDeref
        \<or> (\<exists>rest c'. input_loop api junk stdin' c = Inr (rest, c') \<and> cm_ok inv opened c' \<and> cm_hdb c' = None
            \<and> length rest < length stdin)" if "cm_ok inv opened c" for c
      using less.hyps [OF shorter that] shorter by fastforce
    have "length (chop ?in) \<le> length line"
      using length_takeWhile_le [of "\<lambda>x. x \<noteq> 0" line] by (simp add: chop_def c_str_def le_diff_conv)
    then have "length (chop ?in) < MAX_INPUT_LEN"
      using fgets_length [OF f] by (simp add: MAX_INPUT_LEN_def)
    from Parse_well [OF _ this, of "prompt c" junk] obtain res c' where
      P: "Parse api junk (chop ?in) (prompt c) = Inr (res, c')" "cm_ok inv opened c'" "res = 1 \<longrightarrow> cm_hdb c' = None"
      using less.prems by (auto simp: ends_well_def)
    show ?thesis
      using IH [of "prompt c"] IH [OF P(2)] P less.prems f shorter
      by (subst (1 2) input_loop.simps) (auto simp: Let_def)
  qed
qed

end

context bounded_db
begin

text \<open>The first two lines of a session, and the last two.\<close>

lemma session_begins:
  assumes "inv (cm_db c)" and "room (cm_db c)" and "cm_hdb c = None" and "db_name name" and "length name < 1000" and "ok_name name"
    and "list_all is_digit ds" and "ds \<noteq> []" and "db_value v" and "length ds + length v < 1000" and "ok_value v"
  shows "\<exists>c2 d. (\<forall>rest. input_loop api junk (line_open name @ 10 # line_set ds v @ 10 # rest) c = input_loop api junk rest c2)
    \<and> inv (cm_db c2) \<and> cm_hdb c2 = Some d \<and> opened (cm_db c2) d name
    \<and> table (cm_db c2) = (table (cm_db c))(name := (table (cm_db c) name)(word_of_int (atoi ds) \<mapsto> v))"
proof -
  let ?k = "word_of_int (atoi ds) :: u32"
  have vnul: "c_str v = v" using assms(9) by (intro c_str_idem) (simp add: db_value_def text_line_def)
  have lens: "length (line_open name) < MAX_INPUT_LEN - 1" "length (line_set ds v) < MAX_INPUT_LEN - 1"
    "length name < MAX_INPUT_LEN" "length ds < MAX_INPUT_LEN" "length v < MAX_INPUT_LEN"
    using assms(5,10) by (simp_all add: line_defs MAX_INPUT_LEN_def ascii_def)
  obtain d s1 where o: "api_create api name (cm_db c) = Inr (Some d, s1)" "inv s1" "opened s1 d name" "table s1 = table (cm_db c)"
    using b_create [OF assms(1,2,6)] by blast
  obtain s2 where s: "api_set api (Some d) ?k v s1 = Inr (0, s2)" "inv s2" "opened s2 = opened s1"
    "table s2 = (table (cm_db c))(name := (table (cm_db c) name)(?k \<mapsto> v))"
    using b_set [OF o(2,3) assms(11), of ?k] o(4) vnul by auto
  let ?c1 = "(prompt c)\<lparr>cm_name := name, cm_hdb := Some d, cm_db := s1\<rparr>"
  let ?c2 = "(prompt ?c1)\<lparr>cm_db := s2\<rparr>"
  have P1: "Parse api junk (line_open name) (prompt c) = Inr (0, ?c1)"
    using line_open_Parse [OF assms(4) lens(3), of "prompt c"] assms(3) o(1) by simp
  have P2: "Parse api junk (line_set ds v) (prompt ?c1) = Inr (0, ?c2)"
    using line_set_Parse [OF assms(7-9) lens(4,5), of "prompt ?c1" d] s(1) by auto
  have "input_loop api junk (line_open name @ 10 # line_set ds v @ 10 # rest) c = input_loop api junk rest ?c2" for rest
    by (simp only: input_line [OF text_lines(1) [OF assms(4)] lens(1)] P1 input_line [OF text_lines(2) [OF assms(7,9)] lens(2)] P2
        sum.case prod.case) auto
  then show ?thesis using s(2-4) o(3) by (intro exI [of _ ?c2] exI [of _ d]) simp
qed

lemma session_ends:
  assumes "inv (cm_db c)" and "cm_hdb c = Some d" and "opened (cm_db c) d name"
  shows "\<exists>c'. input_loop api junk (line_close @ 10 # line_quit @ 10 # rest) c = Inr (rest, c')
    \<and> inv (cm_db c') \<and> cm_hdb c' = None \<and> table (cm_db c') = table (cm_db c) \<and> set (cm_out c) \<subseteq> set (cm_out c')"
proof -
  have lens: "length line_close < MAX_INPUT_LEN - 1" "length line_quit < MAX_INPUT_LEN - 1"
    by (simp_all add: line_defs MAX_INPUT_LEN_def ascii_def)
  obtain r s where l: "api_delete api (Some d) (cm_db c) = Inr (r, s)" "r = 0 \<or> r = -1" "inv s" "table s = table (cm_db c)"
    using b_delete [OF assms(1,3)] by blast
  let ?c = "(prompt c)\<lparr>cm_hdb := None, cm_name := [], cm_db := s\<rparr>"
  have P1: "Parse api junk line_close (prompt c) = Inr (r, ?c)"
    using line_close_Parse [of "prompt c" d] l(1,2) assms(2) by auto
  have P2: "Parse api junk line_quit (prompt ?c) = Inr (1, prompt ?c)" by (rule line_quit_Parse) simp
  have "input_loop api junk (line_close @ 10 # line_quit @ 10 # rest) c = Inr (rest, prompt ?c)"
    using l(2) by (simp only: input_line [OF text_lines(4) lens(1)] P1 input_line [OF text_lines(5) lens(2)] P2 sum.case prod.case) auto
  moreover have "set (cm_out c) \<subseteq> set (cm_out (prompt ?c))" by (auto simp: prompt_def say_def)
  ultimately show ?thesis using l(3,4) by (intro exI [of _ "prompt ?c"]) simp
qed

lemma store_session_runs:
  assumes "inv (cm_db c)" and "room (cm_db c)" and "cm_hdb c = None" and "db_name name" and "length name < 1000" and "ok_name name"
    and "list_all is_digit ds" and "ds \<noteq> []" and "db_value v" and "length ds + length v < 1000" and "ok_value v"
  shows "\<exists>c'. input_loop api junk (line_open name @ 10 # line_set ds v @ 10 # line_close @ 10 # line_quit @ 10 # rest) c = Inr (rest, c')
    \<and> inv (cm_db c') \<and> cm_hdb c' = None
    \<and> table (cm_db c') = (table (cm_db c))(name := (table (cm_db c) name)(word_of_int (atoi ds) \<mapsto> v))"
proof -
  obtain c2 d where c: "\<And>rest. input_loop api junk (line_open name @ 10 # line_set ds v @ 10 # rest) c = input_loop api junk rest c2"
    "inv (cm_db c2)" "cm_hdb c2 = Some d" "opened (cm_db c2) d name"
    "table (cm_db c2) = (table (cm_db c))(name := (table (cm_db c) name)(word_of_int (atoi ds) \<mapsto> v))"
    using session_begins [OF assms, of junk] by blast
  from session_ends [OF c(2-4), of junk rest] show ?thesis unfolding c(1,5) by blast
qed

text \<open>A \<open>get\<close> that faults ends the program.\<close>

lemma get_session_faults:
  assumes "inv (cm_db c)" and "room (cm_db c)" and "cm_hdb c = None" and "db_name name" and "length name < 1000" and "ok_name name"
    and "list_all is_digit ds" and "ds \<noteq> []" and "db_value v" and "length ds + length v < 1000" and "ok_value v"
    and faults: "\<And>s d. inv s \<Longrightarrow> opened s d name \<Longrightarrow> table s name (word_of_int (atoi ds)) \<noteq> None \<Longrightarrow>
      api_get api (Some d) (word_of_int (atoi ds)) s = Inl e"
  shows "input_loop api junk (line_open name @ 10 # line_set ds v @ 10 # line_get ds @ 10 # rest) c = Inl e"
proof -
  obtain c2 d where c: "\<And>rest. input_loop api junk (line_open name @ 10 # line_set ds v @ 10 # rest) c = input_loop api junk rest c2"
    "inv (cm_db c2)" "cm_hdb c2 = Some d" "opened (cm_db c2) d name"
    "table (cm_db c2) = (table (cm_db c))(name := (table (cm_db c) name)(word_of_int (atoi ds) \<mapsto> v))"
    using session_begins [OF assms(1-11), of junk] by blast
  have l: "length ds < MAX_INPUT_LEN" "length (line_get ds) < MAX_INPUT_LEN - 1"
    using assms(10) by (simp_all add: line_defs MAX_INPUT_LEN_def ascii_def)
  have "api_get api (Some d) (word_of_int (atoi ds)) (cm_db c2) = Inl e" by (rule faults [OF c(2,4)]) (simp add: c(5))
  then have "Parse api junk (line_get ds) (prompt c2) = Inl e"
    using line_get_Parse [OF assms(7,8) l(1), of "prompt c2" d] c(3) by simp
  then show ?thesis unfolding c(1) by (simp only: input_line [OF text_lines(3) [OF assms(7)] l(2)] sum.case)
qed

end

context readable_db
begin

lemma session_runs:
  assumes "inv (cm_db c)" and "room (cm_db c)" and "cm_hdb c = None" and "db_name name" and "length name < 1000" and "ok_name name"
    and "list_all is_digit ds" and "ds \<noteq> []" and "db_value v" and "length ds + length v < 1000" and "ok_value v"
  shows "\<exists>c'. input_loop api junk (line_open name @ 10 # line_set ds v @ 10 # line_get ds @ 10 # line_close @ 10 # line_quit @ 10 # rest) c
      = Inr (rest, c')
    \<and> inv (cm_db c') \<and> cm_hdb c' = None \<and> Stdout (v @ [10]) \<in> set (cm_out c')
    \<and> table (cm_db c') = (table (cm_db c))(name := (table (cm_db c) name)(word_of_int (atoi ds) \<mapsto> v))"
proof -
  obtain c2 d where c: "\<And>rest. input_loop api junk (line_open name @ 10 # line_set ds v @ 10 # rest) c = input_loop api junk rest c2"
    "inv (cm_db c2)" "cm_hdb c2 = Some d" "opened (cm_db c2) d name"
    "table (cm_db c2) = (table (cm_db c))(name := (table (cm_db c) name)(word_of_int (atoi ds) \<mapsto> v))"
    using session_begins [OF assms, of junk] by blast
  have l: "length ds < MAX_INPUT_LEN" "length (line_get ds) < MAX_INPUT_LEN - 1"
    using assms(10) by (simp_all add: line_defs MAX_INPUT_LEN_def ascii_def)
  obtain x s3 where g: "api_get api (Some d) (word_of_int (atoi ds)) (cm_db c2) = Inr (Some x, s3)" "inv s3" "opened s3 = opened (cm_db c2)"
    "table s3 = table (cm_db c2)" "c_str x = v"
    using b_get [OF c(2,4), of "word_of_int (atoi ds)"] c(5) by (auto simp: map_option_eq_Some)
  let ?c3 = "say (v @ [10]) ((prompt c2)\<lparr>cm_db := s3\<rparr>)"
  have P: "Parse api junk (line_get ds) (prompt c2) = Inr (0, ?c3)"
    using line_get_Parse [OF assms(7,8) l(1), of "prompt c2" d] g(1,5) c(3) by simp
  have run: "input_loop api junk (line_get ds @ 10 # rest) c2 = input_loop api junk rest ?c3" for rest
    by (simp only: input_line [OF text_lines(3) [OF assms(7)] l(2)] P sum.case prod.case) auto
  have c3: "inv (cm_db ?c3)" "cm_hdb ?c3 = Some d" "opened (cm_db ?c3) d name" "table (cm_db ?c3) = table (cm_db c2)"
    using c(3,4) g(2-4) by simp_all
  have "Stdout (v @ [10]) \<in> set (cm_out ?c3)" by (simp add: say_def)
  then show ?thesis using session_ends [OF c3(1-3), of junk rest] unfolding c(1) run c3(4) c(5) by auto
qed

end

interpretation tcl: command_db "tc_api tc tm" "tc_inv tc tm v" "tc_opened tm" "tc_table v"
  by unfold_locales (use tc_delete in \<open>fastforce simp: SUCCESS_def\<close>)

section \<open>Properties\<close>

text \<open>A database that remembers what it was told, to run commands on.\<close>

definition log_api :: "(unit, (u32 \<times> bytes) list) db_api" where
  "log_api = \<lparr>api_create = (\<lambda>n s. Inr (Some (), s @ [(0, n)])), api_delete = (\<lambda>_ s. Inr (0, s)),
    api_set = (\<lambda>_ k v s. Inr (0, s @ [(k, v)])), api_get = (\<lambda>_ k s. Inr (map_of s k, s)),
    api_del = (\<lambda>_ k s. Inr (0, filter (\<lambda>p. fst p \<noteq> k) s)), api_lasterr = (\<lambda>_. [])\<rparr>"

text \<open>C23: the parser is safe on every line that fits its array: whatever a well-behaved local database
  answers, \<open>Parse\<close> returns -1, 0 or 1 without a fault, keeps the invariant that the handle is that of the database the
  prompt names, returns 1 only with no database open and then having changed nothing; and it does
  not depend on what \<open>malloc\<close> left in the array the matches are copied to.\<close>

theorem parse_safe:
  assumes "cm_ok (tc_inv tc tm v) (tc_opened tm) c" and "length input < MAX_INPUT_LEN"
  shows "\<exists>res c'. Parse (tc_api tc tm) junk input c = Inr (res, c')
    \<and> Parse (tc_api tc tm) junk' input c = Inr (res, c')
    \<and> cm_ok (tc_inv tc tm v) (tc_opened tm) c' \<and> res \<in> {-1, 0, 1} \<and> (res = 1 \<longrightarrow> cm_hdb c = None \<and> c' = c)"
  using tcl.Parse_well [OF assms, of junk] Parse_junk [of "tc_api tc tm" junk input c junk']
  unfolding ends_well_def by metis

theorem parse_safe_witness:
  "\<exists>res c'. Parse (tc_api disk_db alist_mdb) [1, 2, 3] (ascii ''get xyz'')
      (\<lparr>cm_hdb = None, cm_name = [], cm_out = [], cm_db = (no_dbs, two_records)\<rparr>
        :: (nat OpenedDB, (bytes \<times> nat OpenedDB) list db_state \<times> disk) cmdline) = Inr (res, c') \<and> res \<in> {-1, 0, 1}"
proof -
  let ?c = "\<lparr>cm_hdb = None, cm_name = [], cm_out = [], cm_db = (no_dbs, two_records)\<rparr>
        :: (nat OpenedDB, (bytes \<times> nat OpenedDB) list db_state \<times> disk) cmdline"
  have "cm_ok (tc_inv disk_db alist_mdb disk_view) (tc_opened alist_mdb) ?c"
    using two_records_facts by (simp add: cm_ok_def tc_inv_def)
  from parse_safe [OF this, of "ascii ''get xyz''" "[1, 2, 3]" "[]"] show ?thesis
    unfolding MAX_INPUT_LEN_def by (fastforce simp: ascii_def)
qed

text \<open>C24: the command loop does not hang, whatever is typed: after finitely many lines, with fewer bytes left
  than before, it has returned on a command with no database open and the invariant kept,
  or it has used up the input and passes \<open>NULL\<close> to \<open>strlen\<close>.\<close>

theorem input_loop_ends:
  assumes "cm_ok (tc_inv tc tm v) (tc_opened tm) c"
  shows "input_loop (tc_api tc tm) junk stdin c = Inl NullDeref
    \<or> (\<exists>rest c'. input_loop (tc_api tc tm) junk stdin c = Inr (rest, c')
        \<and> cm_ok (tc_inv tc tm v) (tc_opened tm) c' \<and> cm_hdb c' = None \<and> length rest < length stdin)"
  by (rule tcl.loop_ends [OF assms])

theorem input_loop_ends_witness:
  "\<exists>r. input_loop (tc_api disk_db alist_mdb) [] (ascii ''open a.db'')
      (\<lparr>cm_hdb = None, cm_name = [], cm_out = [], cm_db = (no_dbs, two_records)\<rparr>
        :: (nat OpenedDB, (bytes \<times> nat OpenedDB) list db_state \<times> disk) cmdline) = r
    \<and> (r = Inl NullDeref \<or> (\<exists>rest c'. r = Inr (rest, c') \<and> cm_hdb c' = None))"
proof -
  let ?c = "\<lparr>cm_hdb = None, cm_name = [], cm_out = [], cm_db = (no_dbs, two_records)\<rparr>
        :: (nat OpenedDB, (bytes \<times> nat OpenedDB) list db_state \<times> disk) cmdline"
  have "cm_ok (tc_inv disk_db alist_mdb disk_view) (tc_opened alist_mdb) ?c"
    using two_records_facts by (simp add: cm_ok_def tc_inv_def)
  from input_loop_ends [OF this, of "[]" "ascii ''open a.db''"] show ?thesis by blast
qed

text \<open>C22: a session at the prompt: after \<open>open\<close>, \<open>set\<close>, \<open>get\<close>, \<open>close\<close>, \<open>quit\<close>, each on a line, for any database name,
  number and value the patterns accept, the loop over the local database has returned with no database
  open; it has printed the value, and the database of that name holds it under the key's \<open>atoi\<close>, all other
  records being as before.\<close>

theorem session_stores:
  assumes "tc_inv tc tm v (cm_db c)" and "cm_hdb c = None" and "db_name name" and "length name < 1000"
    and "list_all is_digit ds" and "ds \<noteq> []" and "db_value x" and "length ds + length x < 1000"
  shows "\<exists>c'. input_loop (tc_api tc tm) junk
      (line_open name @ 10 # line_set ds x @ 10 # line_get ds @ 10 # line_close @ 10 # line_quit @ 10 # rest) c
      = Inr (rest, c')
    \<and> tc_inv tc tm v (cm_db c') \<and> cm_hdb c' = None \<and> Stdout (x @ [10]) \<in> set (cm_out c')
    \<and> tc_table v (cm_db c') = (tc_table v (cm_db c))(name := (tc_table v (cm_db c) name)(word_of_int (atoi ds) \<mapsto> x))"
  by (rule tcl.bdd.session_runs [OF assms(1) TrueI assms(2-4) TrueI assms(5-8) TrueI])

theorem session_stores_witness:
  "\<exists>c'. input_loop (tc_api disk_db alist_mdb) []
      (line_open (ascii ''a.db'') @ 10 # line_set (ascii ''5'') (ascii ''hi'') @ 10 # line_get (ascii ''5'') @ 10
        # line_close @ 10 # line_quit @ 10 # [])
      (\<lparr>cm_hdb = None, cm_name = [], cm_out = [], cm_db = (no_dbs, two_records)\<rparr>
        :: (nat OpenedDB, (bytes \<times> nat OpenedDB) list db_state \<times> disk) cmdline) = Inr ([], c') \<and> cm_hdb c' = None"
proof -
  let ?c = "\<lparr>cm_hdb = None, cm_name = [], cm_out = [], cm_db = (no_dbs, two_records)\<rparr>
        :: (nat OpenedDB, (bytes \<times> nat OpenedDB) list db_state \<times> disk) cmdline"
  have i: "tc_inv disk_db alist_mdb disk_view (cm_db ?c)" "cm_hdb ?c = None"
    using two_records_facts by (simp_all add: tc_inv_def)
  have n: "db_name (ascii ''a.db'')" unfolding db_name_def
    by (rule exI [of _ "[97]"], rule exI [of _ "[]"]) (simp add: is_word_def to_lower_def)
  have v: "db_value (ascii ''hi'')" by (simp add: db_value_def text_line_def is_word_def to_lower_def)
  have k: "list_all is_digit (ascii ''5'')" "ascii ''5'' \<noteq> []" by (simp_all add: is_digit_def)
  have l: "length (ascii ''a.db'') < 1000" "length (ascii ''5'') + length (ascii ''hi'') < 1000" by simp_all
  show ?thesis using session_stores [OF i n l(1) k v l(2), of "[]" "[]"] by blast
qed

text \<open>C25: \<open>set\<close>, in any case and with any spaces, is one call of \<open>DBSetKeyValue\<close> on the open database, with the number
  and the rest of the line, inner spaces included; but what stands before the first word character
  of the value (\<open>u\<close>) is dropped, where the comment calls such a value invalid.\<close>

theorem set_line_stores:
  assumes "strcasecmp w ''set''" and "list_all is_space g" and "list_all is_space h" and "h \<noteq> []"
    and "list_all is_digit ds" and "ds \<noteq> []" and "list_all is_space h2" and "h2 \<noteq> []" and "gap u"
    and "x \<noteq> []" and "is_word (hd x)" and "length ds < MAX_INPUT_LEN" and "length x < MAX_INPUT_LEN"
    and "cm_hdb c = Some d" and "api_set api (Some d) (word_of_int (atoi ds)) x (cm_db c) = Inr (res, db)" and "res \<noteq> -1000"
  shows "Parse api junk (g @ w @ h @ ds @ h2 @ u @ x) c = Inr (res, c\<lparr>cm_db := db\<rparr>)"
  unfolding Parse_set [OF assms(1-14)] assms(15) by (simp add: assms(16))

theorem set_line_stores_witness:
  "Parse log_api [] (ascii '' Set 12  *hello world'') \<lparr>cm_hdb = Some (), cm_name = [], cm_out = [], cm_db = []\<rparr>
    = Inr (0, \<lparr>cm_hdb = Some (), cm_name = [], cm_out = [], cm_db = [(12, ascii ''hello world'')]\<rparr>)"
proof -
  let ?c = "\<lparr>cm_hdb = Some (), cm_name = [], cm_out = [], cm_db = []\<rparr> :: (unit, (u32 \<times> bytes) list) cmdline"
  have "atoi (ascii ''12'') = 12" by code_simp
  then have k: "atoi [49, 50] = 12" by simp
  have "Parse log_api [] (ascii '' '' @ ascii ''Set'' @ ascii '' '' @ ascii ''12'' @ ascii ''  '' @ ascii ''*'' @ ascii ''hello world'') ?c
      = Inr (0, ?c\<lparr>cm_db := [(12, ascii ''hello world'')]\<rparr>)"
    by (rule set_line_stores [where d = "()"])
      (simp_all add: k log_api_def MAX_INPUT_LEN_def strcasecmp_def to_lower_def is_space_def is_digit_def is_word_def gap_def
        del: in_cls.simps)
  then show ?thesis by simp
qed

text \<open>\<open>open name\<close> with a name that has no extension opens a database called like the command: the match
  for the name fails unnoticed, and the array still holds the word \<open>open\<close> as it was typed.\<close>

lemma open_plain_name:
  assumes "strcasecmp w ''open''" and "list_all is_space g" and "list_all is_space h" and "h \<noteq> []"
    and "list_all is_word x" and "x \<noteq> []" and "cm_hdb c = None" and "api_create api w (cm_db c) = Inr (Some d, db)"
  shows "Parse api junk (g @ w @ h @ x) c = Inr (0, c\<lparr>cm_name := w, cm_hdb := Some d, cm_db := db\<rparr>)"
  unfolding Parse_open_plain [OF assms(1-7)] assms(8) by simp

lemma open_plain_name_example:
  "Parse log_api [] (ascii ''open accounts'') \<lparr>cm_hdb = None, cm_name = [], cm_out = [], cm_db = []\<rparr>
    = Inr (0, \<lparr>cm_hdb = Some (), cm_name = ascii ''open'', cm_out = [], cm_db = [(0, ascii ''open'')]\<rparr>)"
proof -
  let ?c = "\<lparr>cm_hdb = None, cm_name = [], cm_out = [], cm_db = []\<rparr> :: (unit, (u32 \<times> bytes) list) cmdline"
  have "Parse log_api [] ([] @ ascii ''open'' @ ascii '' '' @ ascii ''accounts'') ?c
      = Inr (0, ?c\<lparr>cm_name := ascii ''open'', cm_hdb := Some (), cm_db := [(0, ascii ''open'')]\<rparr>)"
    by (rule open_plain_name) (simp_all add: log_api_def strcasecmp_def is_space_def is_word_def to_lower_def del: in_cls.simps)
  then show ?thesis by simp
qed

text \<open>A line of more than \<open>MAX_INPUT_LEN - 1\<close> characters is not refused but cut: its first 1023 characters are
  one command, and what follows is read as a command of its own.\<close>

lemma long_line_cut:
  assumes "text_line l" and "length l = MAX_INPUT_LEN - 1" and "text_line t" and "length t < MAX_INPUT_LEN - 1"
    and "Parse api junk l (prompt c) = Inr (res, c1)" and "res \<noteq> 1"
  shows "input_loop api junk (l @ t @ 10 # rest) c =
    (case Parse api junk t (prompt c1) of
       Inl e \<Rightarrow> Inl e
     | Inr (res, c2) \<Rightarrow> if res = 1 then Inr (rest, c2) else input_loop api junk rest c2)"
  using input_piece [OF assms(1,2), of api junk "t @ 10 # rest" c] input_line [OF assms(3,4), of api junk rest c1] assms(5,6)
  by simp

lemma long_line_cut_example:
  "input_loop log_api [] (line_set (ascii ''1'') (replicate 1017 120) @ line_close @ 10 # [])
      \<lparr>cm_hdb = Some (), cm_name = [], cm_out = [], cm_db = []\<rparr> = Inl NullDeref"
proof -
  let ?c = "\<lparr>cm_hdb = Some (), cm_name = [], cm_out = [], cm_db = []\<rparr> :: (unit, (u32 \<times> bytes) list) cmdline"
  let ?l = "line_set (ascii ''1'') (replicate 1017 120)"
  have v: "db_value (replicate 1017 120)" by (simp add: db_value_def text_line_def is_word_def to_lower_def hd_replicate)
  have ds: "list_all is_digit (ascii ''1'')" "ascii ''1'' \<noteq> []" by (simp_all add: is_digit_def)
  let ?db = "[(word_of_int (atoi (ascii ''1'')), replicate 1017 120)] :: (u32 \<times> bytes) list"
  have P: "Parse log_api [] ?l (prompt ?c) = Inr (0, (prompt ?c)\<lparr>cm_db := ?db\<rparr>)"
    by (subst line_set_Parse [OF ds v, where d = "()"]) (simp_all add: MAX_INPUT_LEN_def log_api_def)
  have Q: "Parse log_api [] line_close (prompt ((prompt ?c)\<lparr>cm_db := ?db\<rparr>))
      = Inr (0, (prompt ((prompt ?c)\<lparr>cm_db := ?db\<rparr>))\<lparr>cm_hdb := None, cm_name := []\<rparr>)"
    by (subst line_close_Parse [where d = "()"]) (simp_all add: log_api_def)
  have l: "length ?l = MAX_INPUT_LEN - 1" "length line_close < MAX_INPUT_LEN - 1"
    by (simp_all add: line_defs MAX_INPUT_LEN_def)
  show ?thesis
    unfolding long_line_cut [OF text_lines(2) [OF ds(1) v] l(1) text_lines(4) l(2) P zero_neq_one] Q
    by (simp add: input_eof)
qed

text \<open>The word \<open>delete\<close> of the help text is too long for every pattern.\<close>

lemma delete_rejected: "Parse api junk (ascii ''delete'' @ t) c = Inr (-1, complain ''Incorrect format.'' c)"
proof -
  let ?s = "ascii ''delete'' @ t"
  have n: "\<not> is_space (?s ! k)" if "k < 6" for k
  proof -
    have "k = 0 \<or> k = 1 \<or> k = 2 \<or> k = 3 \<or> k = 4 \<or> k = 5" using that by linarith
    then show ?thesis by (elim disjE) (simp_all add: is_space_def)
  qed
  have b: "b < 6 \<and> \<not> is_space (?s ! b)" if "run Space ?s 0 a" "run WordChar ?s a b" "b - a \<le> 5" for a b
  proof -
    have "a = 0" using run_nth [OF that(1)] n [of 0] by auto
    then show ?thesis using that(3) n [of b] by simp
  qed
  have two: "\<not> 0 = Check (re ''^~s*~w{3,5}~s+[0-9]+~s+.+$'') ?s" unfolding two_iff using b run_nth by fastforce
  have one: "\<not> 0 = Check (re ''^~s*~w{3,5}~s+~w+(~.~w*db)?~s*$'') ?s" unfolding one_iff using b run_nth by fastforce
  have none: "\<not> 0 = Check (re ''^~s*~w{3,5}~s*$'') ?s"
  proof
    assume "0 = Check (re ''^~s*~w{3,5}~s*$'') ?s"
    then obtain a e where r: "run Space ?s 0 a" "run WordChar ?s a e" "e - a \<le> 5" "run Space ?s e (length ?s)"
      unfolding none_iff by blast
    then show False using b [OF r(1-3)] run_nth [OF r(4)] by simp
  qed
  show ?thesis using two one none by (simp add: Parse_def del: ascii_simps)
qed

end
