(* ===== verification/ClientMain.thy ===== *)
theory ClientMain
  imports InputCmd NetDbApi
begin

text \<open>
  The client program: \<^verbatim>\<open>client/dbclient.c\<close>, which starts the command loop on the distributed
  database of \<^verbatim>\<open>client/netdbapi.c\<close>, and \<^verbatim>\<open>server/printslave.c\<close>, which prints a membership list.
\<close>

section \<open>Printing a list\<close>

fun show_nat :: "nat \<Rightarrow> string" where
  "show_nat n = (if n < 10 then [char_of (48 + n)] else show_nat (n div 10) @ [char_of (48 + n mod 10)])"

declare show_nat.simps [simp del]

definition show_int :: "int \<Rightarrow> string" where
  "show_int i = (if i < 0 then CHR ''-'' # show_nat (nat (- i)) else show_nat (nat i))"

text \<open>\<open>inet_ntoa\<close>: the bytes of an address as they lie in memory.\<close>

definition inet_ntoa :: "int \<Rightarrow> string" where
  "inet_ntoa ip =
    (case map (\<lambda>b. show_nat (unat b)) (int_bytes ip) of
       [a, b, c, d] \<Rightarrow> a @ ''.'' @ b @ ''.'' @ c @ ''.'' @ d
     | _ \<Rightarrow> '''')"

function print_nodes :: "SlaveList \<Rightarrow> int \<Rightarrow> string list exec" where
  "print_nodes sl i =
    (if i < sl_num sl then
       (case get_node (sl_nodes sl) i of
          Inl e \<Rightarrow> Inl e
        | Inr n \<Rightarrow>
            andThen (print_nodes sl (i + 1)) (\<lambda>ls.
            Inr ((''ip: '' @ inet_ntoa (sn_ip n) @ '' port: '' @ show_int (sn_port n) @ '' key: '' @ show_int (sn_key n)) # ls)))
     else Inr [])"
  by pat_completeness auto
termination by (relation "measure (\<lambda>(sl, i). nat (sl_num sl - i))") auto

declare print_nodes.simps [simp del]

definition printslaves :: "SlaveList \<Rightarrow> string list exec" where
  "printslaves sl =
    andThen (print_nodes sl 0) (\<lambda>ls.
    Inr (''The slaves are:'' # (''version: '' @ show_nat (unat (sl_version sl))) # ls))"

section \<open>The client\<close>

text \<open>The parser prints the string behind a pointer that it gets, if it is not \<open>NULL\<close>: so it is read here.\<close>

definition net_api :: "'w cenv \<Rightarrow> (nat, 'w client) db_api" where
  "net_api ce =
    \<lparr>api_create = DBCreate ce, api_delete = DBDelete ce, api_set = DBSetKeyValue ce,
     api_get = (\<lambda>hdb key c. andThen (DBGetKeyValue ce hdb key c) read_value), api_del = DBDelKeyValue ce, api_lasterr = (\<lambda>_. [])\<rparr>"

text \<open>
  \<open>main\<close>, with the arguments as strings. \<open>inet\<close> is the conversion of an address, which
  \<open>OpenRemoteService\<close> does; the model stores the converted address. -1 is the \<open>exit\<close>.
\<close>

definition client_main ::
  "(bytes \<Rightarrow> int) \<Rightarrow> 'w cenv \<Rightarrow> bytes \<Rightarrow> bytes \<Rightarrow> bytes list \<Rightarrow> bytes \<Rightarrow> (nat, 'w client) cmdline
    \<Rightarrow> (int \<times> bytes \<times> (nat, 'w client) cmdline) exec" where
  "client_main inet ce junk name argv stdin c =
    (if length argv \<noteq> 3 then Inr (-1, stdin, say (ascii ''Address and port is needed.'' @ [10]) c)
     else
       (let db = (cm_db c)\<lparr>cl_master_addr := Some (inet (argv ! 1)), cl_master_port := atoi (argv ! 2)\<rparr> in
        andThen (InputCmd (net_api ce) junk name stdin (c\<lparr>cm_db := db\<rparr>)) (\<lambda>(_, stdin, c).
        Inr (0, stdin, c))))"

end
