(* ===== verification/Host.thy ===== *)
theory Host
  imports DbServer
begin

text \<open>
  The machine a slave runs on: descriptors with the packets that have come in and those that were
  sent, and a disk that Tokyo Cabinet works on. On such a machine one request of a connected client runs
  through the whole server, from the event of the main thread over the queue to the worker's reply; the
  lemmas of this theory say what such a round does for every command of a client.
\<close>

section \<open>The machine\<close>

text \<open>
  Accepted connections get increasing descriptors. Nothing listens for a slave that connects to another,
  and there are no files but those of the library.
\<close>

record 'w host =
  ho_in :: "int \<Rightarrow> bytes list"
  ho_out :: "int \<Rightarrow> bytes list"
  ho_next :: int
  ho_peer :: int
  ho_closed :: "int list"
  ho_disk :: 'w

definition host_os :: "'w host os" where
  "host_os = \<lparr>n_socket = (\<lambda>w. (ho_next w, w\<lparr>ho_next := ho_next w + 1\<rparr>)), n_bind = (\<lambda>_ _ _ w. (0, w)),
    n_listen = (\<lambda>_ w. (0, w)), n_accept = (\<lambda>_ w. (ho_next w, ho_peer w, w\<lparr>ho_next := ho_next w + 1\<rparr>)),
    n_connect = (\<lambda>_ _ _ w. (-1, w)),
    n_send = (\<lambda>fd b w. w\<lparr>ho_out := (ho_out w)(fd := ho_out w fd @ [b])\<rparr>),
    n_recv = (\<lambda>fd w. case ho_in w fd of [] \<Rightarrow> (Some [], w) | b # bs \<Rightarrow> (Some b, w\<lparr>ho_in := (ho_in w)(fd := bs)\<rparr>)),
    n_close = (\<lambda>fd w. w\<lparr>ho_closed := fd # ho_closed w\<rparr>), n_port = (\<lambda>_ _. 4000),
    o_read = (\<lambda>_ _. None), o_create = (\<lambda>_ w. (False, w)), o_write = (\<lambda>_ _ w. (-1, w)), o_system = (\<lambda>_ w. (-1, w)),
    o_cancel = (\<lambda>_ w. Inr (3, w))\<rparr>"

definition on_disk :: "('w \<Rightarrow> 'r \<times> 'w) \<Rightarrow> 'w host \<Rightarrow> 'r \<times> 'w host" where
  "on_disk f w = (let (r, d) = f (ho_disk w) in (r, w\<lparr>ho_disk := d\<rparr>))"

definition host_tc :: "('h, 'w) tchdb \<Rightarrow> ('h, 'w host) tchdb" where
  "host_tc tc = \<lparr>tchdbnew = on_disk (tchdbnew tc), tchdbopen = (\<lambda>h n. on_disk (tchdbopen tc h n)),
    tchdbclose = (\<lambda>h. on_disk (tchdbclose tc h)), tchdbput = (\<lambda>h k x. on_disk (tchdbput tc h k x)),
    tchdbget = (\<lambda>h k. on_disk (tchdbget tc h k)), tchdbout = (\<lambda>h k. on_disk (tchdbout tc h k)),
    tchdbrnum = (\<lambda>h w. tchdbrnum tc h (ho_disk w)), tchdbiterinit = (\<lambda>h. on_disk (tchdbiterinit tc h)),
    tchdbiternext = (\<lambda>h. on_disk (tchdbiternext tc h)), tchdbecode = (\<lambda>h w. tchdbecode tc h (ho_disk w)),
    tchdberrmsg = tchdberrmsg tc\<rparr>"

definition host_env :: "('h, 'w) tchdb \<Rightarrow> ('m, 'h OpenedDB) tcmdb \<Rightarrow> db_header \<Rightarrow> nat \<Rightarrow> ('h, 'm, 'w host) env" where
  "host_env tc tm h fuel = \<lparr>e_os = host_os, e_tc = host_tc tc, e_tm = tm, e_hdr = h, e_fuel = fuel\<rparr>"

abbreviation host_api :: "('h, 'w) tchdb \<Rightarrow> ('m, 'h OpenedDB) tcmdb \<Rightarrow> ('h OpenedDB, 'm db_state \<times> 'w host) db_api" where
  "host_api tc tm \<equiv> tc_api (host_tc tc) tm"

section \<open>The database on its disk\<close>

text \<open>An operation of the database on the machine is the operation on the disk; nothing else changes.\<close>

definition at_host :: "'w host \<Rightarrow> ('r \<times> 'st \<times> 'w) exec \<Rightarrow> ('r \<times> 'st \<times> 'w host) exec" where
  "at_host w r = andThen r (\<lambda>(x, st, d). Inr (x, st, w\<lparr>ho_disk := d\<rparr>))"

lemma at_host_simps [simp]: "at_host w (Inr (x, st, d)) = Inr (x, st, w\<lparr>ho_disk := d\<rparr>)" "at_host w (Inl e) = Inl e"
  by (simp_all add: at_host_def)

lemmas host_tc_defs = host_tc_def on_disk_def tc_api_def

lemma host_set: "api_set (host_api tc tm) db k x (st, w) = at_host w (api_set (tc_api tc tm) db k x (st, ho_disk w))"
  by (auto simp: host_tc_defs TcDB.DBSetKeyValue_def split: option.splits prod.splits)

lemma host_get: "api_get (host_api tc tm) db k (st, w) = at_host w (api_get (tc_api tc tm) db k (st, ho_disk w))"
  by (auto simp: host_tc_defs TcDB.DBGetKeyValue_def split: option.splits prod.splits)

lemma host_del: "api_del (host_api tc tm) db k (st, w) = at_host w (api_del (tc_api tc tm) db k (st, ho_disk w))"
  by (auto simp: host_tc_defs TcDB.DBDelKeyValue_def split: option.splits prod.splits)

lemma host_create: "api_create (host_api tc tm) n (st, w) = at_host w (api_create (tc_api tc tm) n (st, ho_disk w))"
  by (auto simp: host_tc_defs TcDB.DBCreate_def AddOpenedDB_def Let_def split: option.splits prod.splits)

lemma host_delete: "api_delete (host_api tc tm) db (st, w) = at_host w (api_delete (tc_api tc tm) db (st, ho_disk w))"
  by (auto simp: host_tc_defs TcDB.DBDelete_def andThen_def at_host_def Let_def split: option.splits prod.splits sum.splits)

lemmas host_ops = host_create host_delete host_set host_get host_del

definition disk_of :: "'st \<times> 'w host \<Rightarrow> 'st \<times> 'w" where
  "disk_of = (\<lambda>(st, w). (st, ho_disk w))"

lemma disk_of_simp [simp]: "disk_of (st, w) = (st, ho_disk w)"
  by (simp add: disk_of_def)


definition host_inv ::
  "('h, 'w) tchdb \<Rightarrow> ('m, 'h OpenedDB) tcmdb \<Rightarrow> ('h, 'w) tc_view \<Rightarrow> 'm db_state \<times> 'w host \<Rightarrow> bool" where
  "host_inv tc tm v s \<longleftrightarrow> tc_inv tc tm v (disk_of s)"

definition host_opened :: "('m, 'h OpenedDB) tcmdb \<Rightarrow> 'm db_state \<times> 'w host \<Rightarrow> 'h OpenedDB \<Rightarrow> bytes \<Rightarrow> bool" where
  "host_opened tm s = tc_opened tm (disk_of s)"

definition host_table :: "('h, 'w) tc_view \<Rightarrow> 'm db_state \<times> 'w host \<Rightarrow> bytes \<Rightarrow> u32 \<rightharpoonup> bytes" where
  "host_table v s = tc_table v (disk_of s)"

lemmas host_db_defs = host_inv_def host_opened_def host_table_def

lemma host_database: "database (host_api tc tm) (host_inv tc tm v) (host_opened tm) (host_table v)"
proof (unfold_locales, goal_cases)
  case (1 s n)
  then show ?case using tc_create [of tc tm v "disk_of s" n] by (cases s) (fastforce simp: host_db_defs host_create)
next
  case (2 s d n k x)
  then show ?case using tc_set [of tc tm v "disk_of s" d n k x] by (cases s) (fastforce simp: host_db_defs host_set)
next
  case (3 s d n k)
  then show ?case using tc_get [of tc tm v "disk_of s" d n k] by (cases s) (fastforce simp: host_db_defs host_get)
next
  case (4 s d n k)
  then show ?case using tc_del [of tc tm v "disk_of s" d n k] by (cases s) (fastforce simp: host_db_defs host_del)
qed

interpretation hdb: served_database "host_api tc tm" "host_inv tc tm v" "host_opened tm" "host_table v" "n_send host_os"
  by (rule served_database.intro [OF host_database], unfold_locales)
    (simp_all add: host_db_defs host_os_def)

lemma host_close:
  assumes "host_inv tc tm v s" and "host_opened tm s d n"
  shows "\<exists>s'. api_delete (host_api tc tm) (Some d) s = Inr (SUCCESS, s') \<and> host_inv tc tm v s' \<and> host_table v s' = host_table v s"
  using tc_delete [of tc tm v "disk_of s" d n] assms by (cases s) (fastforce simp: host_db_defs host_delete)

section \<open>What a round leaves alone\<close>

lemma packet_buf_Append:
  assumes "packet_buf b" and "length d < 2 ^ 16"
  shows "packet_buf (snd (Append b d (int (length d))))"
proof (cases "to_u64 (hd_size (GetHeader b)) > int HEADERLEN \<or> to_u64 (int (length d)) > int APPENDSIZE")
  case True
  then have "snd (Append b d (int (length d))) = b" by (auto simp: Append_def Let_def)
  then show ?thesis using assms by simp
next
  case False
  let ?size = "hd_size (GetHeader b)"
  have len: "length b = 1024" using assms by (simp add: packet_buf_def packet_consts)
  have "int32 ?size" by (simp add: GetHeader_def)
  then have n: "nat ?size \<le> 16"
    using False mod_pos_pos_trivial [of "?size" "2 ^ 64"] by (cases "0 \<le> ?size") (auto simp: to_u64_def int32_def packet_consts)
  have "to_u64 (int (length d)) = int (length d)" using assms(2) by (intro to_u64_small) auto
  then have "length d \<le> 1008" using False by (simp add: packet_consts)
  then show ?thesis using False n len by (simp add: Append_def Let_def packet_buf_def packet_consts)
qed

text \<open>\<open>lasterr\<close> is an array of 1024 characters.\<close>

definition err_ok :: "'m db_state \<Rightarrow> bool" where
  "err_ok st \<longleftrightarrow> length (lasterr st) = 1024"

lemma err_ok_ops:
  "api_create (tc_api tc tm) n (st, w) = Inr (r, st', w') \<Longrightarrow> err_ok st \<Longrightarrow> err_ok st'"
  "api_delete (tc_api tc tm) db (st, w) = Inr (r', st', w') \<Longrightarrow> err_ok st \<Longrightarrow> err_ok st'"
  "api_set (tc_api tc tm) db k x (st, w) = Inr (r', st', w') \<Longrightarrow> err_ok st \<Longrightarrow> err_ok st'"
  "api_get (tc_api tc tm) db k (st, w) = Inr (r'', st', w') \<Longrightarrow> err_ok st \<Longrightarrow> err_ok st'"
  "api_del (tc_api tc tm) db k (st, w) = Inr (r', st', w') \<Longrightarrow> err_ok st \<Longrightarrow> err_ok st'"
  by (auto simp: tc_api_def TcDB.DBCreate_def TcDB.DBDelete_def TcDB.DBSetKeyValue_def TcDB.DBGetKeyValue_def
      TcDB.DBDelKeyValue_def GetOpenedDB_def AddOpenedDB_def DelOpenedDB_def SetLastErrorMsg_def err_ok_def Let_def andThen_def
      split: option.splits prod.splits sum.splits if_splits)

text \<open>
  The switch works on the disk and the registry alone, so what it hands on differs from what it got only there;
  \<open>OPEN\<close> also notes the file names and the pointer.
\<close>

definition beside :: "('k, 'm db_state, 'w host) srv \<Rightarrow> ('k, 'm db_state, 'w host) srv \<Rightarrow> bool" where
  "beside v v' \<longleftrightarrow> v_mdb v' = v_mdb v \<and> (err_ok (v_st v) \<longrightarrow> err_ok (v_st v')) \<and> (\<exists>d. v_w v' = (v_w v)\<lparr>ho_disk := d\<rparr>)"

lemma at_host_InrD: "at_host w r = Inr (x, st, w') \<Longrightarrow> \<exists>d. r = Inr (x, st, d) \<and> w' = w\<lparr>ho_disk := d\<rparr>"
  by (auto simp: at_host_def)

lemma host_op_beside:
  "api_create (host_api tc tm) n (v_st v, v_w v) = Inr (r, s) \<Longrightarrow> beside v (set_db s v)"
  "api_delete (host_api tc tm) db (v_st v, v_w v) = Inr (r', s) \<Longrightarrow> beside v (set_db s v)"
  "api_set (host_api tc tm) db k x (v_st v, v_w v) = Inr (r', s) \<Longrightarrow> beside v (set_db s v)"
  "api_get (host_api tc tm) db k (v_st v, v_w v) = Inr (r'', s) \<Longrightarrow> beside v (set_db s v)"
  "api_del (host_api tc tm) db k (v_st v, v_w v) = Inr (r', s) \<Longrightarrow> beside v (set_db s v)"
  by (cases s, fastforce simp: host_ops beside_def set_db_def dest!: at_host_InrD dest: err_ok_ops)+

lemma beside_files [simp]: "beside v (v'\<lparr>v_file_master := a, v_file_tmp := b\<rparr>) = beside v v'"
  "beside (v\<lparr>v_file_master := a, v_file_tmp := b\<rparr>) v' = beside v v'"
  by (simp_all add: beside_def)

lemma switch_beside:
  assumes "request_switch (host_api tc tm) buf hc wk v = Inr (hc', wk', v')"
  shows "beside v v' \<and> hc_sock hc' = hc_sock hc \<and> worker_ok wk' = worker_ok wk \<and> wk_reply wk' = wk_reply wk"
proof -
  have "beside v v" by (auto simp: beside_def intro: exI [of _ "ho_disk (v_w v)"])
  moreover have "set_db s (v\<lparr>v_file_master := a, v_file_tmp := b\<rparr>) = (set_db s v)\<lparr>v_file_master := a, v_file_tmp := b\<rparr>" for s a b
    by (simp add: set_db_def)
  ultimately show ?thesis
    using assms by (auto simp: request_switch_def with_app_def Let_def dest: host_op_beside
      split: option.splits cmd.splits app.splits)
qed

lemma write_reply_ok:
  assumes "write_reply (host_api tc tm) wk v = Inr wk'" and "worker_ok wk" and "err_ok (v_st v)"
    and "\<And>b. wk_append wk = Alloc b \<Longrightarrow> hd_cmd (wk_send wk) = cmd_code GET_R \<Longrightarrow> length (c_str b) < APPENDSIZE"
  shows "worker_ok wk'"
proof -
  have e: "length (c_str (lasterr (v_st v))) \<le> 1024"
    using assms(3) length_takeWhile_le [of "\<lambda>x. x \<noteq> 0" "lasterr (v_st v)"] by (simp add: err_ok_def c_str_def)
  have "packet_buf (wk_reply wk)" using assms(2) by (simp add: worker_ok_def)
  then have b: "packet_buf (WriteHeader (wk_reply wk) (wk_send wk))" by simp
  from packet_buf_Append [OF this, of "c_str (lasterr (v_st v)) @ [0]"] e
  have "packet_buf (snd (Append (WriteHeader (wk_reply wk) (wk_send wk)) (c_str (lasterr (v_st v)) @ [0]) (int (length (c_str (lasterr (v_st v))) + 1))))"
    by simp
  moreover have "packet_buf (snd (Append (WriteHeader (wk_reply wk) (wk_send wk)) (c_str x @ [0]) (int (length (c_str x) + 1))))"
    if "length (c_str x) < APPENDSIZE" for x
    using packet_buf_Append [OF b, of "c_str x @ [0]"] that by (simp add: packet_consts)
  ultimately show ?thesis
    using assms(1,2,4) b
    by (auto simp: write_reply_def worker_ok_def Let_def tc_api_def DBGetLastErrorMsg_def split: if_splits mem_str.splits)
qed

text \<open>The string a \<open>GET\<close> fetches is the one in the table.\<close>

lemma switch_fetches:
  assumes "request_switch (host_api tc tm) buf hc wk v = Inr (hc', wk', v')"
    and "hd_cmd (wk_send wk') = cmd_code GET_R" and "decode_cmd (hd_cmd (GetHeader buf)) \<in> Some ` {OPEN, CLOSE, SET, GET, DEL}"
    and "host_inv tc tm vw (db_of v)" and "hc_app hc = App (Some d)" and "host_opened tm (db_of v) d n"
  shows "\<exists>b. wk_append wk' = Alloc b \<and> host_table vw (db_of v) n (word_of_int (hd_key (GetHeader buf))) = Some (c_str b)"
proof -
  have cmds: "hd_cmd (GetHeader buf) = cmd_code GET"
    using assms(1-3) by (auto simp: request_switch_def with_app_def Let_def decode_cmd_eq split: app.splits if_splits)
  from hdb.get [OF assms(4,6), of "word_of_int (hd_key (GetHeader buf))"] obtain r s where
    r: "api_get (host_api tc tm) (Some d) (word_of_int (hd_key (GetHeader buf))) (db_of v) = Inr (r, s)"
    "map_option c_str r = host_table vw (db_of v) n (word_of_int (hd_key (GetHeader buf)))" by blast
  then show ?thesis
    using assms(1,2,5) cmds by (cases r) (auto simp: request_switch_def with_app_def Let_def db_of_def)
qed

section \<open>One request through the server\<close>

text \<open>
  \<open>talk\<close>: a packet comes in on a connection, the main thread handles the event, worker \<open>i\<close> runs if it
  was woken, and what was sent on the connection is taken to the client.
\<close>

definition arrive :: "int \<Rightarrow> bytes \<Rightarrow> ('k, 'm, 'd, 'w host) server \<Rightarrow> ('k, 'm, 'd, 'w host) server" where
  "arrive fd b g = g\<lparr>g_w := (g_w g)\<lparr>ho_in := (ho_in (g_w g))(fd := ho_in (g_w g) fd @ [b])\<rparr>\<rparr>"

definition collect :: "int \<Rightarrow> ('k, 'm, 'd, 'w host) server \<Rightarrow> bytes list \<times> ('k, 'm, 'd, 'w host) server" where
  "collect fd g = (ho_out (g_w g) fd, g\<lparr>g_w := (g_w g)\<lparr>ho_out := (ho_out (g_w g))(fd := [])\<rparr>\<rparr>)"

definition talk ::
  "('h, 'm, 'w host) env \<Rightarrow> ('k, 'h OpenedDB option ClientSockHandle) tcmdb \<Rightarrow> int \<Rightarrow> nat \<Rightarrow> int \<Rightarrow> bytes
    \<Rightarrow> ('k, 'm, 'h OpenedDB, 'w host) server \<Rightarrow> (bytes list \<times> ('k, 'm, 'h OpenedDB, 'w host) server) exec" where
  "talk env sm ip0 i fd b g =
    andThen (server_step env sm ip0 (incoming fd) (arrive fd b g)) (\<lambda>g.
    andThen (worker_step env sm i g) (\<lambda>g. Inr (collect fd g)))"

text \<open>The globals a worker sees, and the state after its round.\<close>

definition srv_of :: "('k, 'm, 'd, 'w) server \<Rightarrow> ('k, 'm db_state, 'w) srv" where
  "srv_of g = \<lparr>v_file_master = s_file_master (g_slave g), v_file_tmp = s_file_tmp (g_slave g), v_mdb = g_mdb g,
    v_st = s_db (g_slave g), v_w = g_w g\<rparr>"

definition gdb :: "('k, 'm, 'd, 'w) server \<Rightarrow> 'm db_state \<times> 'w" where
  "gdb g = (s_db (g_slave g), g_w g)"

definition after_round ::
  "int \<Rightarrow> nat \<Rightarrow> bytes \<Rightarrow> worker \<Rightarrow> ('k, 'm db_state, 'w host) srv \<Rightarrow> 'd option QueueNode queue
    \<Rightarrow> ('k, 'm, 'd, 'w host) server \<Rightarrow> ('k, 'm, 'd, 'w host) server" where
  "after_round fd i b wk v q g = g\<lparr>g_q := q, g_sem := 0, g_workers := (g_workers g)[i := wk],
    g_heap := (g_heap g)\<lparr>hp_mem := (hp_mem (g_heap g))(SZBUF \<mapsto> b)\<rparr>, g_mdb := v_mdb v,
    g_w := (v_w v)\<lparr>ho_out := (ho_out (v_w v))(fd := [])\<rparr>,
    g_slave := (g_slave g)\<lparr>s_file_master := v_file_master v, s_file_tmp := v_file_tmp v, s_db := v_st v\<rparr>\<rparr>"

text \<open>A server with no request in work, on which this version of the membership list is current.\<close>

definition quiet :: "('k, 'm, 'd, 'w host) server \<Rightarrow> bool" where
  "quiet g \<longleftrightarrow> queue_ok (g_q g) \<and> contents (g_q g) = [] \<and> g_sem g = 0
    \<and> (\<exists>b. hp_mem (g_heap g) SZBUF = Some b \<and> packet_buf b)
    \<and> list_all worker_ok (g_workers g) \<and> err_ok (s_db (g_slave g))
    \<and> ho_in (g_w g) = (\<lambda>_. []) \<and> ho_out (g_w g) = (\<lambda>_. [])"

definition ready ::
  "('h, 'w) tchdb \<Rightarrow> ('m, 'h OpenedDB) tcmdb \<Rightarrow> ('h, 'w) tc_view \<Rightarrow> ('k, 'h OpenedDB option ClientSockHandle) tcmdb
    \<Rightarrow> u32 \<Rightarrow> ('k, 'm, 'h OpenedDB, 'w host) server \<Rightarrow> bool" where
  "ready tc tm v sm ver g \<longleftrightarrow> quiet g \<and> tcmdb_laws sm \<and> host_inv tc tm v (gdb g)
    \<and> (\<forall>n k x. host_table v (gdb g) n k = Some x \<longrightarrow> length x < APPENDSIZE)
    \<and> GetVersion (g_slave g) = ver \<and> 0 < ho_next (g_w g)
    \<and> s_listen_sock (g_slave g) < ho_next (g_w g) \<and> s_master_sock (g_slave g) < ho_next (g_w g)
    \<and> list_all (\<lambda>fd. fd < ho_next (g_w g)) (ho_closed (g_w g))"

text \<open>A request the main thread hands to the queue.\<close>

definition plain_request :: "bytes \<Rightarrow> u32 \<Rightarrow> bool" where
  "plain_request b ver \<longleftrightarrow> packet_buf b \<and> \<not> for_slave (GetHeader b)
    \<and> (word_of_int (hd_version (GetHeader b)) = ver \<or> hd_cmd (GetHeader b) \<in> {cmd_code OPEN, cmd_code CLOSE})"

lemma plain_not_outdated: "plain_request b (GetVersion s) \<Longrightarrow> \<not> outdated (GetHeader b) s"
  by (auto simp: plain_request_def outdated_def)

lemma talk_round:
  assumes "quiet g" and "client_of sm fd h g" and "hc_sock h = fd" and "plain_request b (GetVersion (g_slave g))"
    and "HandleDBRequest host_os sm (host_api tc tm) h b (g_workers g ! i) (srv_of g) = Inr (wk, v)"
  shows "\<exists>q. queue_ok q \<and> contents q = []
    \<and> talk (host_env tc tm hdr fuel) sm ip0 i fd b g = Inr (ho_out (v_w v) fd, after_round fd i b wk v q g)"
proof -
  let ?env = "host_env tc tm hdr fuel" and ?g = "arrive fd b g"
  have w: "ho_in (g_w g) = (\<lambda>_. [])" using assms(1) by (simp add: quiet_def)
  obtain b0 where b0: "hp_mem (g_heap ?g) SZBUF = Some b0" "packet_buf b0"
    using assms(1) by (auto simp: quiet_def arrive_def)
  have "n_recv (e_os ?env) fd (g_w ?g) = (Some b, g_w g)"
    by (simp add: host_env_def host_os_def arrive_def w fun_upd_def cong: if_cong)
  then have r: "recv_into (e_os ?env) fd b0 (g_w ?g) = (int MAX_BUF_LEN, b, g_w g)"
    using assms(4) b0(2) by (intro recv_into_full) (simp_all add: plain_request_def)
  have c: "client_of sm fd h ?g" using assms(2) by (simp add: client_of_def arrive_def)
  have q0: "queue_ok (g_q ?g)" "contents (g_q ?g) = []" "g_sem ?g = 0" using assms(1) by (simp_all add: quiet_def arrive_def)
  then have "waiting (g_q ?g) < 9" using length_contents [of "g_q ?g"] by simp
  moreover have "\<not> for_slave (GetHeader b)" "\<not> outdated (GetHeader b) (g_slave ?g)"
    using assms(4) plain_not_outdated by (auto simp: plain_request_def arrive_def)
  ultimately obtain q where q: "server_step ?env sm ip0 (incoming fd) ?g
      = Inr ((received b (g_w g) ?g)\<lparr>g_q := q, g_sem := 1\<rparr>)" "queue_ok q" "contents q = [\<lparr>qn_hcsock = h, qn_buf = SZBUF\<rparr>]"
    using enqueued [OF c b0(1) r _ _ q0(1), of ip0] q0(2,3) by auto
  obtain q' where q': "deq_node q = Inr (\<lparr>qn_hcsock = h, qn_buf = SZBUF\<rparr>, q')" "queue_ok q'" "contents q' = []"
    using deq_node_some [OF q(2,3)] by blast
  then obtain p where p: "DeQueue q = Inr (p, q')" "q_nodes q' ! p = \<lparr>qn_hcsock = h, qn_buf = SZBUF\<rparr>"
    by (auto simp: deq_node_def)
  have s: "\<lparr>v_file_master = s_file_master (g_slave g), v_file_tmp = s_file_tmp (g_slave g), v_mdb = g_mdb g,
      v_st = s_db (g_slave g), v_w = g_w g\<rparr> = srv_of g" by (simp add: srv_of_def)
  have "worker_step ?env sm i ((received b (g_w g) ?g)\<lparr>g_q := q, g_sem := 1\<rparr>)
    = Inr (after_round fd i b wk v q' g\<lparr>g_w := v_w v\<rparr>)"
    using p s assms(5) by (simp add: worker_step_def received_def arrive_def host_env_def after_round_def Let_def)
  then show ?thesis using q q'
    by (intro exI [of _ q']) (simp add: talk_def collect_def after_round_def)
qed

text \<open>What a round on a key does beside the database.\<close>

definition short_values :: "('h, 'w) tc_view \<Rightarrow> 'm db_state \<times> 'w host \<Rightarrow> bool" where
  "short_values v s \<longleftrightarrow> (\<forall>n k x. host_table v s n k = Some x \<longrightarrow> length x < APPENDSIZE)"

lemma key_command_switch:
  assumes "request_switch api b h wk v = Inr (hc, wk', v')" and "decode_cmd (hd_cmd (GetHeader b)) \<in> Some ` {SET, GET, DEL}"
  shows "hc = h \<and> hd_cmd (wk_send wk') \<noteq> cmd_code CLOSE_R"
  using assms by (auto simp: request_switch_def with_app_def Let_def decode_cmd_eq split: app.splits option.splits if_splits)

lemma handled_frame:
  assumes run: "HandleDBRequest host_os sm (host_api tc tm) h b wk0 v0 = Inr (wk, v)"
    and c: "decode_cmd (hd_cmd (GetHeader b)) \<in> Some ` {SET, GET, DEL}"
    and db: "host_inv tc tm vw (db_of v0)" "hc_app h = App (Some d)" "host_opened tm (db_of v0) d n" "short_values vw (db_of v0)"
    and ok: "worker_ok wk0" "err_ok (v_st v0)"
  shows "worker_ok wk \<and> err_ok (v_st v) \<and> v_mdb v = MDBSet sm (v_mdb v0) (int_bytes (hc_sock h)) h
    \<and> (\<exists>dk. v_w v = n_send host_os (hc_sock h) (wk_reply wk) ((v_w v0)\<lparr>ho_disk := dk\<rparr>))"
proof -
  obtain hc wk1 v1 where sw: "request_switch (host_api tc tm) b h wk0 v0 = Inr (hc, wk1, v1)"
    and w: "write_reply (host_api tc tm) wk1 v1 = Inr wk" and s: "hc_sock hc \<noteq> -1"
    using run by (auto simp: HandleDBRequest_def DBSendMsg_def Let_def split: if_splits)
  note bs = switch_beside [OF sw]
  have hc: "hc = h" "hd_cmd (wk_send wk) \<noteq> cmd_code CLOSE_R"
    using key_command_switch [OF sw c] write_reply_cmd [OF _ w] bs ok(1) by (auto simp: worker_ok_def)
  have v: "v = v1\<lparr>v_mdb := MDBSet sm (v_mdb v1) (int_bytes (hc_sock hc)) hc,
      v_w := n_send host_os (hc_sock hc) (take MAX_BUF_LEN (wk_reply wk)) (v_w v1)\<rparr>"
    using HandleDBRequest_open_end [OF sw w s hc(2), of host_os sm] run by simp
  have "length (c_str x) < APPENDSIZE" if "wk_append wk1 = Alloc x" "hd_cmd (wk_send wk1) = cmd_code GET_R" for x
  proof -
    have "decode_cmd (hd_cmd (GetHeader b)) \<in> Some ` {OPEN, CLOSE, SET, GET, DEL}" using c by auto
    from switch_fetches [OF sw that(2) this db(1-3)] db(4) that(1) show ?thesis by (auto simp: short_values_def)
  qed
  then have wk: "worker_ok wk" using write_reply_ok [OF w] bs ok by (auto simp: beside_def)
  then show ?thesis using bs ok(2) hc(1) by (auto simp: v beside_def worker_ok_def)
qed

text \<open>A connection over which the database \<open>n\<close> was opened with the pointer \<open>d\<close>.\<close>

definition attached ::
  "('m, 'h OpenedDB) tcmdb \<Rightarrow> ('k, 'h OpenedDB option ClientSockHandle) tcmdb
    \<Rightarrow> ('k, 'm, 'h OpenedDB, 'w host) server \<Rightarrow> int \<Rightarrow> 'h OpenedDB \<Rightarrow> bytes \<Rightarrow> bool" where
  "attached tm sm g fd d n \<longleftrightarrow> (\<exists>h. client_of sm fd h g \<and> hc_sock h = fd \<and> hc_app h = App (Some d))
    \<and> host_opened tm (gdb g) d n \<and> int32 fd \<and> fd < ho_next (g_w g) \<and> fd \<notin> set (ho_closed (g_w g))"

definition same_place :: "('k, 'm, 'd, 'w host) server \<Rightarrow> ('k, 'm, 'd, 'w host) server \<Rightarrow> bool" where
  "same_place g g' \<longleftrightarrow> s_slaves (g_slave g') = s_slaves (g_slave g) \<and> s_listen_sock (g_slave g') = s_listen_sock (g_slave g)
    \<and> s_master_sock (g_slave g') = s_master_sock (g_slave g) \<and> ho_next (g_w g') = ho_next (g_w g)
    \<and> length (g_workers g') = length (g_workers g)"

lemma quiet_after_round:
  assumes "quiet g" and "queue_ok q" and "contents q = []" and "worker_ok wk" and "err_ok (v_st v)" and "packet_buf b"
    and "ho_in (v_w v) = (\<lambda>_. [])" and "\<And>fd'. fd' \<noteq> fd \<Longrightarrow> ho_out (v_w v) fd' = []"
  shows "quiet (after_round fd i b wk v q g)"
proof -
  have "list_all worker_ok ((g_workers g)[i := wk])"
    using assms(1,4) set_update_subset_insert [of "g_workers g" i wk] by (auto simp: quiet_def list_all_iff)
  then show ?thesis using assms by (auto simp: quiet_def after_round_def fun_eq_iff)
qed

lemma key_round:
  assumes rd: "ready tc tm vw sm ver g" and at: "attached tm sm g fd d n" and i: "i < length (g_workers g)"
    and b: "plain_request b ver" "decode_cmd (hd_cmd (GetHeader b)) \<in> Some ` {SET, GET, DEL}"
    and h: "client_of sm fd h g" "hc_sock h = fd" "hc_app h = App (Some d)"
    and run: "HandleDBRequest host_os sm (host_api tc tm) h b (g_workers g ! i) (srv_of g) = Inr (wk, v)"
    and db: "host_inv tc tm vw (db_of v)" "host_opened tm (db_of v) = host_opened tm (gdb g)" "short_values vw (db_of v)"
  shows "\<exists>g'. talk (host_env tc tm hdr fuel) sm ip0 i fd b g = Inr ([wk_reply wk], g') \<and> ready tc tm vw sm ver g'
    \<and> same_place g g' \<and> packet_buf (wk_reply wk) \<and> host_table vw (gdb g') = host_table vw (db_of v)
    \<and> attached tm sm g' = attached tm sm g"
proof -
  have q: "quiet g" "tcmdb_laws sm" "ver = GetVersion (g_slave g)" using rd by (simp_all add: ready_def)
  have v0: "db_of (srv_of g) = gdb g" "v_mdb (srv_of g) = g_mdb g" "v_w (srv_of g) = g_w g" "v_st (srv_of g) = s_db (g_slave g)"
    by (simp_all add: srv_of_def db_of_def gdb_def)
  have wk0: "worker_ok (g_workers g ! i)" "err_ok (s_db (g_slave g))"
    using q(1) i by (simp_all add: quiet_def list_all_length)
  have fr: "worker_ok wk" "err_ok (v_st v)" "v_mdb v = MDBSet sm (g_mdb g) (int_bytes fd) h"
    "\<exists>dk. v_w v = n_send host_os fd (wk_reply wk) ((g_w g)\<lparr>ho_disk := dk\<rparr>)"
    using handled_frame [OF run b(2), of vw d n] rd at h(2,3) wk0
    unfolding v0 by (auto simp: ready_def attached_def short_values_def)
  then obtain dk where w: "v_w v = n_send host_os fd (wk_reply wk) ((g_w g)\<lparr>ho_disk := dk\<rparr>)" by blast
  have out: "ho_out (g_w g) = (\<lambda>_. [])" using q(1) by (simp add: quiet_def)
  obtain q' where q': "queue_ok q'" "contents q' = []"
    "talk (host_env tc tm hdr fuel) sm ip0 i fd b g = Inr ([wk_reply wk], after_round fd i b wk v q' g)"
    using talk_round [OF q(1) h(1,2) b(1) [unfolded q(3)] run, of hdr fuel ip0] w out by (auto simp: host_os_def)
  let ?g = "after_round fd i b wk v q' g"
  have gw: "g_w ?g = (g_w g)\<lparr>ho_disk := dk\<rparr>"
    by (simp add: after_round_def w host_os_def out fun_upd_def cong: if_cong)
  have gd: "disk_of (gdb ?g) = disk_of (db_of v)" by (simp add: gdb_def db_of_def after_round_def)
  have m: "MDBGet sm (g_mdb ?g) = MDBGet sm (g_mdb g)"
    using h(1) mdb.as_map(1) [OF q(2)] by (auto simp: after_round_def fr(3) client_of_def)
  have at': "attached tm sm ?g = attached tm sm g"
    using db(2) gd by (auto simp: fun_eq_iff attached_def client_of_def m gw host_opened_def)
      (auto simp: after_round_def)
  have "quiet ?g"
    by (rule quiet_after_round [OF q(1) q'(1,2) fr(1,2)]) (use b(1) q(1) out in \<open>simp_all add: plain_request_def w host_os_def quiet_def\<close>)
  moreover have "host_inv tc tm vw (gdb ?g)" "short_values vw (gdb ?g)" "host_table vw (gdb ?g) = host_table vw (db_of v)"
    using db(1,3) gd by (simp_all add: host_db_defs short_values_def)
  ultimately show ?thesis
    using rd q' at' fr(1) by (intro exI [of _ ?g]) (simp add: ready_def short_values_def same_place_def gw worker_ok_def,
      simp add: after_round_def GetVersion_def)
qed

lemma db_of_srv_of [simp]: "db_of (srv_of g) = gdb g"
  by (simp add: srv_of_def db_of_def gdb_def)

lemma attachedD:
  assumes "attached tm sm g fd d n"
  obtains h where "client_of sm fd h g" and "hc_sock h = fd" and "hc_app h = App (Some d)" and "hc_sock h \<noteq> -1"
    and "host_opened tm (gdb g) d n"
  using assms by (auto simp: attached_def client_of_def)

lemma ready_worker: "ready tc tm vw sm ver g \<Longrightarrow> i < length (g_workers g) \<Longrightarrow> packet_buf (wk_reply (g_workers g ! i))"
  by (auto simp: ready_def quiet_def list_all_length worker_ok_def)

lemma readyD:
  assumes "ready tc tm vw sm ver g"
  shows "host_inv tc tm vw (gdb g)" and "short_values vw (gdb g)"
  using assms by (simp_all add: ready_def short_values_def)

lemma talk_set:
  assumes rd: "ready tc tm vw sm ver g" and at: "attached tm sm g fd d n" and i: "i < length (g_workers g)"
    and b: "plain_request b ver" "names SET key b" "0 \<in> set (GetAppend b)"
  shows "\<exists>r g'. talk (host_env tc tm hdr fuel) sm ip0 i fd b g = Inr ([r], g') \<and> ready tc tm vw sm ver g'
    \<and> same_place g g' \<and> packet_buf r \<and> attached tm sm g' = attached tm sm g
    \<and> hd_cmd (GetHeader r) = cmd_code SET_R
    \<and> host_table vw (gdb g') = (host_table vw (gdb g))(n := (host_table vw (gdb g) n)(word_of_int key \<mapsto> c_str (GetAppend b)))"
proof -
  obtain h where h: "client_of sm fd h g" "hc_sock h = fd" "hc_app h = App (Some d)" "hc_sock h \<noteq> -1"
    "host_opened tm (gdb g) d n" using attachedD [OF at] .
  obtain wk v where r: "HandleDBRequest host_os sm (host_api tc tm) h b (g_workers g ! i) (srv_of g) = Inr (wk, v)"
    "host_inv tc tm vw (db_of v)" "host_opened tm (db_of v) = host_opened tm (gdb g)"
    "hd_cmd (GetHeader (wk_reply wk)) = cmd_code SET_R"
    "host_table vw (db_of v) = (host_table vw (gdb g))(n := (host_table vw (gdb g) n)(word_of_int key \<mapsto> c_str (GetAppend b)))"
    using hdb.handle_set [of tc tm vw "srv_of g" d n h "g_workers g ! i" key b host_os sm] readyD [OF rd] h ready_worker [OF rd i] b
    by (auto simp: names_def)
  have "packet_buf b" using b(1) by (simp add: plain_request_def)
  from c_str_in_packet [OF this b(3)] have sv: "short_values vw (db_of v)"
    using r(5) readyD(2) [OF rd] by (auto simp: short_values_def split: if_splits)
  have "decode_cmd (hd_cmd (GetHeader b)) \<in> Some ` {SET, GET, DEL}" using b(2) by (simp add: names_def)
  from key_round [OF rd at i b(1) this h(1-3) r(1-3) sv, of hdr fuel ip0] show ?thesis using r(4,5) by auto
qed

lemma talk_del:
  assumes rd: "ready tc tm vw sm ver g" and at: "attached tm sm g fd d n" and i: "i < length (g_workers g)"
    and b: "plain_request b ver" "names DEL key b"
  shows "\<exists>r g'. talk (host_env tc tm hdr fuel) sm ip0 i fd b g = Inr ([r], g') \<and> ready tc tm vw sm ver g'
    \<and> same_place g g' \<and> packet_buf r \<and> attached tm sm g' = attached tm sm g
    \<and> hd_cmd (GetHeader r) = cmd_code (if host_table vw (gdb g) n (word_of_int key) = None then CMDFAIL else DEL_R)
    \<and> host_table vw (gdb g') = (host_table vw (gdb g))(n := (host_table vw (gdb g) n)(word_of_int key := None))"
proof -
  obtain h where h: "client_of sm fd h g" "hc_sock h = fd" "hc_app h = App (Some d)" "hc_sock h \<noteq> -1"
    "host_opened tm (gdb g) d n" using attachedD [OF at] .
  obtain wk v where r: "HandleDBRequest host_os sm (host_api tc tm) h b (g_workers g ! i) (srv_of g) = Inr (wk, v)"
    "host_inv tc tm vw (db_of v)" "host_opened tm (db_of v) = host_opened tm (gdb g)"
    "hd_cmd (GetHeader (wk_reply wk)) = cmd_code (if host_table vw (gdb g) n (word_of_int key) = None then CMDFAIL else DEL_R)"
    "host_table vw (db_of v) = (host_table vw (gdb g))(n := (host_table vw (gdb g) n)(word_of_int key := None))"
    using hdb.handle_del [of tc tm vw "srv_of g" d n h "g_workers g ! i" key b host_os sm] readyD [OF rd] h ready_worker [OF rd i] b
    by (auto simp: names_def)
  have sv: "short_values vw (db_of v)"
    using r(5) readyD(2) [OF rd] by (auto simp: short_values_def split: if_splits)
  have "decode_cmd (hd_cmd (GetHeader b)) \<in> Some ` {SET, GET, DEL}" using b(2) by (simp add: names_def)
  from key_round [OF rd at i b(1) this h(1-3) r(1-3) sv, of hdr fuel ip0] show ?thesis using r(4,5) by auto
qed

lemma talk_get:
  assumes rd: "ready tc tm vw sm ver g" and at: "attached tm sm g fd d n" and i: "i < length (g_workers g)"
    and b: "plain_request b ver" "names GET key b"
  shows "\<exists>r g'. talk (host_env tc tm hdr fuel) sm ip0 i fd b g = Inr ([r], g') \<and> ready tc tm vw sm ver g'
    \<and> same_place g g' \<and> packet_buf r \<and> attached tm sm g' = attached tm sm g \<and> host_table vw (gdb g') = host_table vw (gdb g)
    \<and> (case host_table vw (gdb g) n (word_of_int key) of
         None \<Rightarrow> hd_cmd (GetHeader r) = cmd_code CMDFAIL
       | Some x \<Rightarrow> hd_cmd (GetHeader r) = cmd_code GET_R \<and> c_str (GetAppend r) = x)"
proof -
  obtain h where h: "client_of sm fd h g" "hc_sock h = fd" "hc_app h = App (Some d)" "hc_sock h \<noteq> -1"
    "host_opened tm (gdb g) d n" using attachedD [OF at] .
  obtain wk v where r: "HandleDBRequest host_os sm (host_api tc tm) h b (g_workers g ! i) (srv_of g) = Inr (wk, v)"
    "host_inv tc tm vw (db_of v)" "host_opened tm (db_of v) = host_opened tm (gdb g)" "host_table vw (db_of v) = host_table vw (gdb g)"
    "case host_table vw (gdb g) n (word_of_int key) of
         None \<Rightarrow> hd_cmd (GetHeader (wk_reply wk)) = cmd_code CMDFAIL
       | Some x \<Rightarrow> hd_cmd (GetHeader (wk_reply wk)) = cmd_code GET_R \<and> c_str (GetAppend (wk_reply wk)) = x"
    using hdb.handle_get [of tc tm vw "srv_of g" d n h "g_workers g ! i" key b host_os sm] readyD [OF rd] h ready_worker [OF rd i] b
    by (auto simp: names_def short_values_def split: option.splits)
  have sv: "short_values vw (db_of v)"
    using r(4) readyD(2) [OF rd] by (simp add: short_values_def)
  have "decode_cmd (hd_cmd (GetHeader b)) \<in> Some ` {SET, GET, DEL}" using b(2) by (simp add: names_def)
  from key_round [OF rd at i b(1) this h(1-3) r(1-3) sv, of hdr fuel ip0] show ?thesis using r(4,5) by auto
qed

section \<open>Connecting, opening and closing\<close>

text \<open>\<open>OPEN\<close> needs no more than a known connection; the name must leave room for the \<open>~\<close> of \<open>file_tmp\<close>.\<close>

definition known ::
  "('k, 'h OpenedDB option ClientSockHandle) tcmdb \<Rightarrow> ('k, 'm, 'h OpenedDB, 'w host) server \<Rightarrow> int \<Rightarrow> bool" where
  "known sm g fd \<longleftrightarrow> (\<exists>h. client_of sm fd h g \<and> hc_sock h = fd) \<and> int32 fd \<and> fd < ho_next (g_w g) \<and> fd \<notin> set (ho_closed (g_w g))"

lemma plain_reply_ok:
  "worker_ok wk \<Longrightarrow> c \<noteq> GET_R \<Longrightarrow> c \<noteq> CMDFAIL \<Longrightarrow>
    \<exists>wk'. write_reply api (set_cmd c wk) v = Inr wk' \<and> worker_ok wk' \<and> wk_send wk' = wk_send (set_cmd c wk)
      \<and> hd_cmd (GetHeader (wk_reply wk')) = cmd_code c"
  by (auto simp: write_reply_def Let_def worker_ok_def hd_cmd_WriteHeader) (simp add: set_cmd_def header_ok_def)

lemma talk_open:
  assumes rd: "ready tc tm vw sm ver g" and at: "known sm g fd" and i: "i < length (g_workers g)"
    and b: "plain_request b ver" "names OPEN key b" "0 \<in> set (GetAppend b)" "length (c_str (GetAppend b)) < 127"
  shows "\<exists>r g' d. talk (host_env tc tm hdr fuel) sm ip0 i fd b g = Inr ([r], g') \<and> ready tc tm vw sm ver g'
    \<and> same_place g g' \<and> packet_buf r \<and> hd_cmd (GetHeader r) = cmd_code OPEN_R
    \<and> attached tm sm g' fd d (c_str (GetAppend b)) \<and> host_table vw (gdb g') = host_table vw (gdb g)
    \<and> (\<forall>fd' e m. fd' \<noteq> fd \<longrightarrow> attached tm sm g fd' e m \<longrightarrow> attached tm sm g' fd' e m)
    \<and> (\<forall>fd'. known sm g fd' \<longrightarrow> known sm g' fd')"
proof -
  let ?n = "c_str (GetAppend b)" and ?api = "host_api tc tm" and ?wk0 = "g_workers g ! i"
  have q: "quiet g" "tcmdb_laws sm" "ver = GetVersion (g_slave g)" using rd by (simp_all add: ready_def)
  obtain h where h: "client_of sm fd h g" "hc_sock h = fd" "fd \<noteq> -1" using at by (auto simp: known_def client_of_def)
  have wk0: "worker_ok ?wk0" "err_ok (s_db (g_slave g))" using q(1) i by (simp_all add: quiet_def list_all_length)
  obtain d s where s: "api_create ?api ?n (gdb g) = Inr (Some d, s)" "host_inv tc tm vw s" "host_opened tm s d ?n"
    "host_table vw s = host_table vw (gdb g)" "\<And>e m. host_opened tm (gdb g) e m \<Longrightarrow> host_opened tm s e m"
    using hdb.create [OF readyD(1) [OF rd], of ?n] by blast
  let ?h = "h\<lparr>hc_app := App (Some d)\<rparr>"
  let ?v1 = "set_db s ((srv_of g)\<lparr>v_file_master := ?n, v_file_tmp := ?n @ ascii ''~''\<rparr>)"
  have sw: "request_switch ?api b h ?wk0 (srv_of g) = Inr (?h, set_cmd OPEN_R ?wk0, ?v1)"
    using b(2-4) s(1) by (simp add: request_switch_def names_def c_string_def fits_def MAX_FILENAME_LEN_def Let_def gdb_def srv_of_def)
  obtain wk where w: "write_reply ?api (set_cmd OPEN_R ?wk0) ?v1 = Inr wk" "worker_ok wk"
    "wk_send wk = wk_send (set_cmd OPEN_R ?wk0)" "hd_cmd (GetHeader (wk_reply wk)) = cmd_code OPEN_R"
    using plain_reply_ok [OF wk0(1), of OPEN_R] by blast
  define v where "v = ?v1\<lparr>v_mdb := MDBSet sm (v_mdb ?v1) (int_bytes fd) ?h, v_w := n_send host_os fd (wk_reply wk) (v_w ?v1)\<rparr>"
  have "packet_buf (wk_reply wk)" using w(2) by (simp add: worker_ok_def)
  moreover have "hc_sock ?h \<noteq> -1" "hd_cmd (wk_send wk) \<noteq> cmd_code CLOSE_R" using h(2,3) w(3) by simp_all
  ultimately have run: "HandleDBRequest host_os sm ?api h b ?wk0 (srv_of g) = Inr (wk, v)"
    using HandleDBRequest_open_end [OF sw w(1), of host_os sm] h(2) by (simp add: v_def)
  have "beside (srv_of g) (set_db s (srv_of g))"
    using host_op_beside(1) [of tc tm ?n "srv_of g" "Some d" s] s(1) by (simp add: gdb_def srv_of_def)
  then obtain dk where dk: "snd s = (g_w g)\<lparr>ho_disk := dk\<rparr>" "err_ok (fst s)"
    using wk0(2) by (auto simp: beside_def set_db_def srv_of_def)
  have out: "ho_out (g_w g) = (\<lambda>_. [])" "ho_in (g_w g) = (\<lambda>_. [])" using q(1) by (simp_all add: quiet_def)
  have vw: "v_w v = n_send host_os fd (wk_reply wk) ((g_w g)\<lparr>ho_disk := dk\<rparr>)" "v_st v = fst s" "v_mdb v = MDBSet sm (g_mdb g) (int_bytes fd) ?h"
    by (simp_all add: v_def set_db_def dk(1) srv_of_def)
  obtain q' where q': "queue_ok q'" "contents q' = []"
    "talk (host_env tc tm hdr fuel) sm ip0 i fd b g = Inr ([wk_reply wk], after_round fd i b wk v q' g)"
    using talk_round [OF q(1) h(1,2) b(1) [unfolded q(3)] run, of hdr fuel ip0] vw(1) out by (auto simp: host_os_def)
  let ?g = "after_round fd i b wk v q' g"
  have gw: "g_w ?g = (g_w g)\<lparr>ho_disk := dk\<rparr>"
    by (simp add: after_round_def vw(1) host_os_def out fun_upd_def cong: if_cong)
  have gd: "disk_of (gdb ?g) = disk_of s"
    using dk(1) by (cases s) (simp add: gdb_def after_round_def vw host_os_def)
  have m: "MDBGet sm (g_mdb ?g) = (MDBGet sm (g_mdb g))(int_bytes fd \<mapsto> ?h)"
    using mdb.as_map(1) [OF q(2)] by (simp add: after_round_def vw(3))
  have k: "int32 fd" "fd < ho_next (g_w g)" "fd \<notin> set (ho_closed (g_w g))" using at by (simp_all add: known_def)
  have c: "client_of sm fd ?h ?g" using h(1) by (simp add: client_of_def m) (simp add: after_round_def)
  have c': "client_of sm fd' h' ?g \<longleftrightarrow> client_of sm fd' h' g" if "fd' \<noteq> fd" "int32 fd'" for fd' h'
    using that int_bytes_inj [OF that(2) k(1)] by (simp add: client_of_def m) (simp add: after_round_def)
  have o: "host_opened tm (gdb ?g) = host_opened tm s" using gd by (simp add: host_opened_def)
  have "attached tm sm ?g fd d ?n"
    using c h(2) s(3) k by (auto simp: attached_def gw o intro: exI [of _ ?h])
  moreover have "fd' \<noteq> fd \<longrightarrow> attached tm sm g fd' e m \<longrightarrow> attached tm sm ?g fd' e m" for fd' e m
    using c' s(5) by (auto simp: attached_def gw o)
  moreover have "known sm g fd' \<longrightarrow> known sm ?g fd'" for fd'
    using c' c h(2) by (cases "fd' = fd") (auto simp: known_def gw intro: exI [of _ ?h])
  moreover have "quiet ?g"
    by (rule quiet_after_round [OF q(1) q'(1,2) w(2)])
      (use b(1) dk(2) out in \<open>simp_all add: plain_request_def vw host_os_def\<close>)
  moreover have "host_inv tc tm vw (gdb ?g)" "short_values vw (gdb ?g)" "host_table vw (gdb ?g) = host_table vw (gdb g)"
    using s(2,4) gd readyD(2) [OF rd] by (simp_all add: host_db_defs short_values_def)
  moreover have "ready tc tm vw sm ver ?g" "same_place g ?g"
    using calculation rd by (simp_all add: ready_def short_values_def same_place_def gw)
      (simp_all add: after_round_def GetVersion_def)
  ultimately show ?thesis
    using q'(3) w(2,4) unfolding worker_ok_def by blast
qed

lemma talk_close:
  assumes rd: "ready tc tm vw sm ver g" and at: "attached tm sm g fd d n" and i: "i < length (g_workers g)"
    and b: "plain_request b ver" "names CLOSE key b"
  shows "\<exists>r g'. talk (host_env tc tm hdr fuel) sm ip0 i fd b g = Inr ([r], g') \<and> ready tc tm vw sm ver g'
    \<and> same_place g g' \<and> packet_buf r \<and> hd_cmd (GetHeader r) = cmd_code CLOSE_R
    \<and> host_table vw (gdb g') = host_table vw (gdb g) \<and> fd \<in> set (ho_closed (g_w g'))"
proof -
  let ?api = "host_api tc tm" and ?wk0 = "g_workers g ! i"
  have q: "quiet g" "tcmdb_laws sm" "ver = GetVersion (g_slave g)" using rd by (simp_all add: ready_def)
  obtain h where h: "client_of sm fd h g" "hc_sock h = fd" "hc_app h = App (Some d)" "hc_sock h \<noteq> -1"
    "host_opened tm (gdb g) d n" using attachedD [OF at] .
  have wk0: "worker_ok ?wk0" "err_ok (s_db (g_slave g))" using q(1) i by (simp_all add: quiet_def list_all_length)
  obtain s where s: "api_delete ?api (Some d) (gdb g) = Inr (SUCCESS, s)" "host_inv tc tm vw s"
    "host_table vw s = host_table vw (gdb g)"
    using host_close [OF readyD(1) [OF rd] h(5)] by blast
  let ?v1 = "set_db s (srv_of g)"
  have sw: "request_switch ?api b h ?wk0 (srv_of g) = Inr (h, set_cmd CLOSE_R ?wk0, ?v1)"
    using b(2) s(1) h(3) by (simp add: request_switch_def names_def with_app_def Let_def gdb_def srv_of_def SUCCESS_def)
  obtain wk where w: "write_reply ?api (set_cmd CLOSE_R ?wk0) ?v1 = Inr wk" "worker_ok wk"
    "wk_send wk = wk_send (set_cmd CLOSE_R ?wk0)" "hd_cmd (GetHeader (wk_reply wk)) = cmd_code CLOSE_R"
    using plain_reply_ok [OF wk0(1), of CLOSE_R] by blast
  define v where "v = ?v1\<lparr>v_mdb := MDBDel sm (MDBSet sm (v_mdb ?v1) (int_bytes fd) h) (int_bytes fd),
    v_w := n_close host_os fd (n_send host_os fd (wk_reply wk) (v_w ?v1))\<rparr>"
  have pb: "packet_buf (wk_reply wk)" using w(2) by (simp add: worker_ok_def)
  moreover have "hd_cmd (wk_send wk) = cmd_code CLOSE_R" using w(3) by simp
  ultimately have run: "HandleDBRequest host_os sm ?api h b ?wk0 (srv_of g) = Inr (wk, v)"
    using sw w(1) h(2,4) mdb.as_map(1) [OF q(2)]
    by (simp add: HandleDBRequest_def DBSendMsg_def DBServiceStop_def ServiceStop_def v_def Let_def)
  have "beside (srv_of g) ?v1"
    using host_op_beside(2) [of tc tm "Some d" "srv_of g" SUCCESS s] s(1) by (simp add: gdb_def srv_of_def)
  then obtain dk where dk: "snd s = (g_w g)\<lparr>ho_disk := dk\<rparr>" "err_ok (fst s)"
    using wk0(2) by (auto simp: beside_def set_db_def srv_of_def)
  have out: "ho_out (g_w g) = (\<lambda>_. [])" "ho_in (g_w g) = (\<lambda>_. [])" using q(1) by (simp_all add: quiet_def)
  have vw: "v_w v = n_close host_os fd (n_send host_os fd (wk_reply wk) ((g_w g)\<lparr>ho_disk := dk\<rparr>))" "v_st v = fst s"
    by (simp_all add: v_def set_db_def dk(1) srv_of_def)
  obtain q' where q': "queue_ok q'" "contents q' = []"
    "talk (host_env tc tm hdr fuel) sm ip0 i fd b g = Inr ([wk_reply wk], after_round fd i b wk v q' g)"
    using talk_round [OF q(1) h(1,2) b(1) [unfolded q(3)] run, of hdr fuel ip0] vw(1) out by (auto simp: host_os_def)
  let ?g = "after_round fd i b wk v q' g"
  have gw: "g_w ?g = (g_w g)\<lparr>ho_disk := dk, ho_closed := fd # ho_closed (g_w g)\<rparr>"
    by (simp add: after_round_def vw(1) host_os_def out fun_upd_def cong: if_cong)
  have gd: "disk_of (gdb ?g) = disk_of s"
    using dk(1) by (cases s) (simp add: gdb_def after_round_def vw host_os_def)
  have "quiet ?g"
    by (rule quiet_after_round [OF q(1) q'(1,2) w(2)])
      (use b(1) dk(2) out in \<open>simp_all add: plain_request_def vw host_os_def\<close>)
  moreover have "host_inv tc tm vw (gdb ?g)" "short_values vw (gdb ?g)" "host_table vw (gdb ?g) = host_table vw (gdb g)"
    using s(2,3) gd readyD(2) [OF rd] by (simp_all add: host_db_defs short_values_def)
  moreover have "ready tc tm vw sm ver ?g" "same_place g ?g"
    using calculation rd at by (simp_all add: ready_def attached_def short_values_def same_place_def gw)
      (simp_all add: after_round_def GetVersion_def)
  ultimately show ?thesis
    using q'(3) pb w(4) by (intro exI [of _ "wk_reply wk"] exI [of _ ?g]) (simp add: gw)
qed

text \<open>A new connection is known, has the next descriptor, and disturbs no other.\<close>

lemma accept_step:
  assumes rd: "ready tc tm vw sm ver g" and room: "ho_next (g_w g) < 2 ^ 31"
  shows "\<exists>g'. server_step (host_env tc tm hdr fuel) sm ip0 (incoming (s_listen_sock (g_slave g))) g = Inr g'
    \<and> ready tc tm vw sm ver g' \<and> known sm g' (ho_next (g_w g)) \<and> ho_next (g_w g') = ho_next (g_w g) + 1
    \<and> gdb g' = (s_db (g_slave g), g_w g') \<and> g_slave g' = g_slave g \<and> length (g_workers g') = length (g_workers g)
    \<and> host_table vw (gdb g') = host_table vw (gdb g)
    \<and> (\<forall>fd d n. attached tm sm g fd d n \<longrightarrow> attached tm sm g' fd d n)"
proof -
  let ?fd = "ho_next (g_w g)"
  let ?h = "\<lparr>hc_sock = ?fd, hc_ip = ho_peer (g_w g), hc_app = Uninit\<rparr>"
  let ?g = "g\<lparr>g_mdb := MDBSet sm (g_mdb g) (int_bytes ?fd) ?h, g_w := (g_w g)\<lparr>ho_next := ?fd + 1\<rparr>,
    g_epoll := g_epoll g @ [?fd]\<rparr>"
  have q: "quiet g" "tcmdb_laws sm" "0 < ?fd" "s_listen_sock (g_slave g) < ?fd" "s_master_sock (g_slave g) < ?fd"
    using rd by (simp_all add: ready_def)
  have run: "server_step (host_env tc tm hdr fuel) sm ip0 (incoming (s_listen_sock (g_slave g))) g = Inr ?g"
    using q(3) by (simp add: server_step_def incoming_def DBServiceStart_def ServiceStart_def host_env_def host_os_def Let_def)
  have i: "int32 ?fd" using q(3) room by (simp add: int32_def)
  have m: "MDBGet sm (g_mdb ?g) = (MDBGet sm (g_mdb g))(int_bytes ?fd \<mapsto> ?h)" using mdb.as_map(1) [OF q(2)] by simp
  have gd: "disk_of (gdb ?g) = disk_of (gdb g)" by (simp add: gdb_def)
  have "client_of sm ?fd ?h ?g" using q(3-5) unfolding client_of_def m by simp
  moreover have fresh: "?fd \<notin> set (ho_closed (g_w g))" using rd by (auto simp: ready_def list_all_iff)
  ultimately have "known sm ?g ?fd" using i by (auto simp: known_def intro: exI [of _ ?h])
  moreover have "attached tm sm g fd d n \<longrightarrow> attached tm sm ?g fd d n" for fd d n
  proof
    assume a: "attached tm sm g fd d n"
    then have "fd \<noteq> ?fd" "int32 fd" by (auto simp: attached_def)
    then have "int_bytes fd \<noteq> int_bytes ?fd" using int_bytes_inj i by simp
    then show "attached tm sm ?g fd d n" using a gd unfolding attached_def client_of_def m host_opened_def by auto
  qed
  moreover have "quiet ?g" using q(1) by (simp add: quiet_def)
  moreover have "host_inv tc tm vw (gdb ?g)" "short_values vw (gdb ?g)" "host_table vw (gdb ?g) = host_table vw (gdb g)"
    using gd readyD [OF rd] by (simp_all add: host_db_defs short_values_def)
  moreover have "ready tc tm vw sm ver ?g" using calculation rd by (auto simp: ready_def short_values_def list_all_iff)
  ultimately show ?thesis using run by (intro exI [of _ ?g]) (simp add: gdb_def)
qed

section \<open>Properties\<close>

text \<open>C4: a request goes all the way through the server: on a server at rest, a \<open>SET\<close> that comes in on a connection with an
  open database passes the main thread, the queue and a worker, and is answered with \<open>SET_R\<close>; a \<open>GET\<close> of the
  key, by whichever worker, is then answered with the value. Queue and semaphore are again at rest.\<close>

theorem request_through_server:
  assumes "ready tc tm v sm ver g" and "attached tm sm g fd d n" and "i < length (g_workers g)" and "j < length (g_workers g)"
    and "plain_request b1 ver" and "names SET key b1" and "0 \<in> set (GetAppend b1)"
    and "plain_request b2 ver" and "names GET key b2"
  shows "\<exists>r1 g1 r2 g2. talk (host_env tc tm hdr fuel) sm ip0 i fd b1 g = Inr ([r1], g1)
    \<and> hd_cmd (GetHeader r1) = cmd_code SET_R
    \<and> talk (host_env tc tm hdr fuel) sm ip0 j fd b2 g1 = Inr ([r2], g2)
    \<and> hd_cmd (GetHeader r2) = cmd_code GET_R \<and> c_str (GetAppend r2) = c_str (GetAppend b1)
    \<and> contents (g_q g2) = [] \<and> g_sem g2 = 0"
proof -
  obtain r1 g1 where g1: "talk (host_env tc tm hdr fuel) sm ip0 i fd b1 g = Inr ([r1], g1)" "ready tc tm v sm ver g1"
    "same_place g g1" "attached tm sm g1 = attached tm sm g" "hd_cmd (GetHeader r1) = cmd_code SET_R"
    "host_table v (gdb g1) = (host_table v (gdb g))(n := (host_table v (gdb g) n)(word_of_int key \<mapsto> c_str (GetAppend b1)))"
    using talk_set [OF assms(1-3,5-7), of hdr fuel ip0] by blast
  have "attached tm sm g1 fd d n" "j < length (g_workers g1)" using assms(2,4) g1(3,4) by (simp_all add: same_place_def)
  from talk_get [OF g1(2) this assms(8,9), of hdr fuel ip0] show ?thesis
    using g1(1,5,6) by (auto simp: ready_def quiet_def)
qed

text \<open>A slave at rest with an empty disk.\<close>

definition idle_host :: "disk host" where
  "idle_host = \<lparr>ho_in = (\<lambda>_. []), ho_out = (\<lambda>_. []), ho_next = 5, ho_peer = 16777343, ho_closed = [], ho_disk = empty_disk\<rparr>"

definition idle_server ::
  "((bytes \<times> nat OpenedDB option ClientSockHandle) list, (bytes \<times> nat OpenedDB) list, nat OpenedDB, disk host) server" where
  "idle_server = \<lparr>g_slave = a_slave, g_mdb = [],
    g_q = \<lparr>q_nodes = replicate 10 \<lparr>qn_hcsock = conn 0, qn_buf = 1\<rparr>, q_head = 0, q_tail = 0\<rparr>,
    g_heap = \<lparr>hp_next = 11, hp_mem = [SZBUF \<mapsto> zeros MAXPACKETLEN]\<rparr>, g_sem = 0, g_epoll = [3, 4],
    g_workers = [new_worker, new_worker], g_w = idle_host\<rparr>"

lemma idle_server_ready: "ready disk_db alist_mdb disk_view alist_mdb 2 idle_server"
proof -
  have "reg_ok alist_mdb disk_view no_dbs empty_disk"
    by (auto simp: reg_ok_def regs_ok_def reg_def no_dbs_def disk_view_def empty_disk_def)
  then have "host_inv disk_db alist_mdb disk_view (gdb idle_server)"
    using two_records_facts by (simp add: host_inv_def tc_inv_def gdb_def idle_server_def a_slave_def idle_host_def)
  moreover have "quiet idle_server"
    by (simp add: quiet_def idle_server_def queue_ok_def contents_def waiting_def MAX_QUEUE_LEN_def worker_ok_def new_worker_def
        header_ok_def int32_def err_ok_def a_slave_def no_dbs_def idle_host_def)
  moreover have "host_table disk_view (gdb idle_server) n k = None" for n k
    by (simp add: host_table_def tc_table_def content_def gdb_def idle_server_def idle_host_def disk_view_def empty_disk_def)
  ultimately show ?thesis
    using alist_mdb_laws by (simp add: ready_def) (simp add: idle_server_def idle_host_def a_slave_def GetVersion_def two_nodes_def)
qed

text \<open>A request of a client whose list is current.\<close>

definition request2 :: "cmd \<Rightarrow> int \<Rightarrow> bytes \<Rightarrow> bytes" where
  "request2 c key d = packet (zeros MAXPACKETLEN) \<lparr>hd_size = 0, hd_cmd = cmd_code c, hd_key = key, hd_version = 2\<rparr> d"

lemma request2_facts:
  assumes "int32 key" and "length d \<le> 1008" and "c \<in> {SET, GET, DEL, OPEN, CLOSE}"
  shows "plain_request (request2 c key d) 2" and "names c key (request2 c key d)"
    and "GetAppend (request2 c key d) = d @ zeros (1008 - length d)"
proof -
  let ?h = "\<lparr>hd_size = 0, hd_cmd = cmd_code c, hd_key = key, hd_version = 2\<rparr>"
  have h: "header_ok ?h" using assms(1) by (simp add: header_ok_def int32_def)
  have d: "length d \<le> APPENDSIZE" using assms(2) by (simp add: packet_consts)
  have "\<not> cmd_code ADD_SLAVE \<le> cmd_code c" using assms(3) by (auto simp: word_le_nat_alt)
  then show "plain_request (request2 c key d) 2" "names c key (request2 c key d)"
    using GetHeader_packet [OF packet_buf_zeros h d] packet_buf_packet [OF packet_buf_zeros d]
    by (simp_all add: plain_request_def names_def request2_def for_slave_def)
  show "GetAppend (request2 c key d) = d @ zeros (1008 - length d)"
    using GetAppend_packet [OF packet_buf_zeros d]
    by (simp add: request2_def GetAppend_def zeros_def packet_consts)
qed

abbreviation idle_talk ::
  "nat \<Rightarrow> bytes \<Rightarrow> ((bytes \<times> nat OpenedDB option ClientSockHandle) list, (bytes \<times> nat OpenedDB) list, nat OpenedDB, disk host) server
    \<Rightarrow> (bytes list \<times> ((bytes \<times> nat OpenedDB option ClientSockHandle) list, (bytes \<times> nat OpenedDB) list, nat OpenedDB, disk host) server) exec" where
  "idle_talk i b g \<equiv> talk (host_env disk_db alist_mdb \<lparr>hd_size = 0, hd_cmd = 0, hd_key = 0, hd_version = 0\<rparr> 10) alist_mdb 0 i 5 b g"

text \<open>The idle server after a client has connected and opened \<open>a.db\<close>.\<close>

lemma opened_server:
  "\<exists>g d. ready disk_db alist_mdb disk_view alist_mdb 2 g \<and> attached alist_mdb alist_mdb g 5 d a_db \<and> length (g_workers g) = 2"
proof -
  let ?hdr = "\<lparr>hd_size = 0, hd_cmd = 0, hd_key = 0, hd_version = 0\<rparr>"
  have n: "ho_next (g_w idle_server) = 5" "length (g_workers idle_server) = 2" by (simp_all add: idle_server_def idle_host_def)
  obtain g1 where g1: "ready disk_db alist_mdb disk_view alist_mdb 2 g1" "known alist_mdb g1 5" "length (g_workers g1) = 2"
    using accept_step [OF idle_server_ready, of ?hdr 10 0] n by auto
  have k: "int32 0" by (simp add: int32_def)
  have o: "plain_request (request2 OPEN 0 (a_db @ [0])) 2" "names OPEN 0 (request2 OPEN 0 (a_db @ [0]))"
    "GetAppend (request2 OPEN 0 (a_db @ [0])) = a_db @ [0] @ zeros 1003"
    using request2_facts [OF k, of "a_db @ [0]" OPEN] by (simp_all add: a_db_def)
  have nz: "0 \<notin> set a_db" by (simp add: a_db_def)
  then have nm: "c_str (GetAppend (request2 OPEN 0 (a_db @ [0]))) = a_db" "0 \<in> set (GetAppend (request2 OPEN 0 (a_db @ [0])))" by (simp_all add: o(3))
  have "length (c_str (GetAppend (request2 OPEN 0 (a_db @ [0])))) < 127" unfolding nm(1) by (simp add: a_db_def)
  from talk_open [OF g1(1,2) _ o(1,2) nm(2) this, of 0 ?hdr 10 0] g1(3) obtain r g2 d where
    g2: "ready disk_db alist_mdb disk_view alist_mdb 2 g2" "attached alist_mdb alist_mdb g2 5 d a_db" "length (g_workers g2) = 2"
    unfolding nm(1) by (auto simp: same_place_def)
  then show ?thesis by blast
qed

theorem request_through_server_witness:
  "\<exists>g r1 g1 r2 g2. idle_talk 0 (request2 SET 7 [72, 105, 0]) g = Inr ([r1], g1) \<and> hd_cmd (GetHeader r1) = cmd_code SET_R
    \<and> idle_talk 1 (request2 GET 7 []) g1 = Inr ([r2], g2) \<and> c_str (GetAppend r2) = [72, 105]"
proof -
  let ?hdr = "\<lparr>hd_size = 0, hd_cmd = 0, hd_key = 0, hd_version = 0\<rparr>"
  obtain g2 d where g2: "ready disk_db alist_mdb disk_view alist_mdb 2 g2" "attached alist_mdb alist_mdb g2 5 d a_db" "length (g_workers g2) = 2"
    using opened_server by blast
  have k: "int32 7" by (simp add: int32_def)
  have s: "plain_request (request2 SET 7 [72, 105, 0]) 2" "names SET 7 (request2 SET 7 [72, 105, 0])"
    "GetAppend (request2 SET 7 [72, 105, 0]) = [72, 105, 0] @ zeros 1005"
    using request2_facts [OF k, of "[72, 105, 0]" SET] by simp_all
  have v: "0 \<in> set (GetAppend (request2 SET 7 [72, 105, 0]))" "c_str (GetAppend (request2 SET 7 [72, 105, 0])) = [72, 105]"
    by (simp_all add: s(3) c_str_def)
  have g: "plain_request (request2 GET 7 []) 2" "names GET 7 (request2 GET 7 [])"
    using request2_facts [OF k, of "[]" GET] by simp_all
  have w: "0 < length (g_workers g2)" "1 < length (g_workers g2)" by (simp_all add: g2(3))
  from request_through_server [OF g2(1,2) w s(1,2) v(1) g, of ?hdr 10 0] show ?thesis unfolding v(2) by blast
qed

end
