(* ===== verification/Cloud.thy ===== *)
theory Cloud
  imports Host Cluster ClientMain ClientSession
begin

text \<open>
  Client, master and slaves joined to one system. The network the client's operations work on is not a
  parameter any more: behind it the model's own master answers \<open>GET_LIST\<close> and the model's own slave
  servers carry out what is sent to them, each on its machine of theory \<open>Host\<close>. A process that faults is gone
  and answers no more.
\<close>

section \<open>The system\<close>

text \<open>What a socket of the client leads to: the master, or a slave's address and its descriptor there.\<close>

datatype peer = ToMaster | ToSlave "int \<times> int" int

record ('k, 'm, 'h, 'w) cloud =
  cd_master :: "unit host master option"
  cd_addr :: "int \<times> int"
  cd_slaves :: "int \<times> int \<Rightarrow> ('k, 'm, 'h OpenedDB, 'w host) server option"
  cd_peer :: "int \<Rightarrow> peer option"
  cd_in :: "int \<Rightarrow> bytes list"
  cd_next :: int

text \<open>
  What all processes are given: the environment of the slaves and their in-memory database, which of the
  two workers wakes up, and the master's uninitialised header, random number and listening socket.
\<close>

record ('k, 'm, 'h, 'w) site =
  st_env :: "('h, 'm, 'w host) env"
  st_sm :: "('k, 'h OpenedDB option ClientSockHandle) tcmdb"
  st_ip0 :: int
  st_worker :: nat
  st_hdr :: db_header
  st_rnd :: int
  st_lsock :: int

definition put_slave ::
  "int \<times> int \<Rightarrow> ('k, 'm, 'h OpenedDB, 'w host) server exec \<Rightarrow> ('k, 'm, 'h, 'w) cloud \<Rightarrow> ('k, 'm, 'h, 'w) cloud" where
  "put_slave a r c = c\<lparr>cd_slaves := (cd_slaves c)(a := (case r of Inl e \<Rightarrow> None | Inr g \<Rightarrow> Some g))\<rparr>"

definition cloud_connect ::
  "('k, 'm, 'h, 'w) site \<Rightarrow> int \<Rightarrow> int \<Rightarrow> int \<Rightarrow> ('k, 'm, 'h, 'w) cloud \<Rightarrow> int \<times> ('k, 'm, 'h, 'w) cloud" where
  "cloud_connect st sock ip port c =
    (if (ip, port) = cd_addr c then
       (if cd_master c = None then (-1, c) else (0, c\<lparr>cd_peer := (cd_peer c)(sock \<mapsto> ToMaster)\<rparr>))
     else
       (case cd_slaves c (ip, port) of
          None \<Rightarrow> (-1, c)
        | Some g \<Rightarrow>
            (0, put_slave (ip, port) (server_step (st_env st) (st_sm st) (st_ip0 st) (incoming (s_listen_sock (g_slave g))) g)
               (c\<lparr>cd_peer := (cd_peer c)(sock \<mapsto> ToSlave (ip, port) (ho_next (g_w g)))\<rparr>))))"

text \<open>The master accepts when the first packet is there, answers it and takes the next event.\<close>

definition ask_master ::
  "('k, 'm, 'h, 'w) site \<Rightarrow> bytes \<Rightarrow> unit host master \<Rightarrow> (bytes list \<times> unit host master) exec" where
  "ask_master st b m =
    (let fd = ho_next (m_world m);
         w = (m_world m)\<lparr>ho_in := (ho_in (m_world m))(fd := [b])\<rparr> in
     andThen (master_step host_os (st_hdr st) (st_rnd st) (st_lsock st) (Ready (st_lsock st)) (m\<lparr>m_world := w\<rparr>)) (\<lambda>m.
     Inr (ho_out (m_world m) fd, m\<lparr>m_world := (m_world m)\<lparr>ho_out := (ho_out (m_world m))(fd := [])\<rparr>\<rparr>)))"

definition deliver :: "int \<Rightarrow> bytes list \<Rightarrow> ('k, 'm, 'h, 'w) cloud \<Rightarrow> ('k, 'm, 'h, 'w) cloud" where
  "deliver sock bs c = c\<lparr>cd_in := (cd_in c)(sock := cd_in c sock @ bs)\<rparr>"

definition cloud_send :: "('k, 'm, 'h, 'w) site \<Rightarrow> int \<Rightarrow> bytes \<Rightarrow> ('k, 'm, 'h, 'w) cloud \<Rightarrow> ('k, 'm, 'h, 'w) cloud" where
  "cloud_send st sock b c =
    (case cd_peer c sock of
       None \<Rightarrow> c
     | Some ToMaster \<Rightarrow>
         (case cd_master c of
            None \<Rightarrow> c
          | Some m \<Rightarrow>
              (case ask_master st b m of
                 Inl e \<Rightarrow> c\<lparr>cd_master := None\<rparr>
               | Inr (bs, m) \<Rightarrow> deliver sock bs (c\<lparr>cd_master := Some m\<rparr>)))
     | Some (ToSlave a fd) \<Rightarrow>
         (case cd_slaves c a of
            None \<Rightarrow> c
          | Some g \<Rightarrow>
              (case talk (st_env st) (st_sm st) (st_ip0 st) (st_worker st) fd b g of
                 Inl e \<Rightarrow> put_slave a (Inl e) c
               | Inr (bs, g) \<Rightarrow> deliver sock bs (put_slave a (Inr g) c))))"

text \<open>Nothing more to read is the end of the stream.\<close>

definition cloud_recv :: "int \<Rightarrow> ('k, 'm, 'h, 'w) cloud \<Rightarrow> bytes option \<times> ('k, 'm, 'h, 'w) cloud" where
  "cloud_recv sock c = (case cd_in c sock of [] \<Rightarrow> (Some [], c) | b # bs \<Rightarrow> (Some b, c\<lparr>cd_in := (cd_in c)(sock := bs)\<rparr>))"

text \<open>
  A slave that has not closed its side finds its end of the connection readable, with nothing to read. \<open>EPOLLRDHUP\<close> is not
  reported, because \<open>main\<close> registers the sockets of clients for \<open>EPOLLIN\<close> alone.
\<close>

definition hangup :: "int \<Rightarrow> epoll_event" where
  "hangup fd = \<lparr>ev_fd = fd, ev_in = True, ev_rdhup = False\<rparr>"

definition cloud_close :: "('k, 'm, 'h, 'w) site \<Rightarrow> int \<Rightarrow> ('k, 'm, 'h, 'w) cloud \<Rightarrow> ('k, 'm, 'h, 'w) cloud" where
  "cloud_close st sock c =
    (let c' = c\<lparr>cd_peer := (cd_peer c)(sock := None)\<rparr> in
     case cd_peer c sock of
       Some (ToSlave a fd) \<Rightarrow>
         (case cd_slaves c a of
            None \<Rightarrow> c'
          | Some g \<Rightarrow> if fd \<in> set (ho_closed (g_w g)) then c'
              else put_slave a (server_step (st_env st) (st_sm st) (st_ip0 st) (hangup fd) g) c')
     | _ \<Rightarrow> c')"

definition cloud_net :: "('k, 'm, 'h, 'w) site \<Rightarrow> ('k, 'm, 'h, 'w) cloud net" where
  "cloud_net st = \<lparr>n_socket = (\<lambda>c. (cd_next c, c\<lparr>cd_next := cd_next c + 1\<rparr>)), n_bind = (\<lambda>_ _ _ c. (-1, c)),
    n_listen = (\<lambda>_ c. (-1, c)), n_accept = (\<lambda>_ c. (-1, 0, c)), n_connect = cloud_connect st,
    n_send = cloud_send st, n_recv = cloud_recv, n_close = cloud_close st, n_port = (\<lambda>_ _. 0)\<rparr>"

section \<open>The master answers\<close>

definition master_up :: "unit host master \<Rightarrow> bool" where
  "master_up m \<longleftrightarrow> ho_in (m_world m) = (\<lambda>_. []) \<and> ho_out (m_world m) = (\<lambda>_. []) \<and> 0 < ho_next (m_world m)
    \<and> ring_list (m_slaves m) \<and> 0 < sl_num (m_slaves m) \<and> list_all node_ok (sl_nodes (m_slaves m))"

lemma ask_master_list:
  assumes up: "master_up m" and h: "header_ok (st_hdr st)"
    and b: "packet_buf b" "hd_cmd (GetHeader b) = cmd_code GET_LIST"
  shows "\<exists>p m'. ask_master st b m = Inr ([p], m') \<and> master_up m' \<and> m_slaves m' = m_slaves m \<and> packet_buf p
    \<and> hd_cmd (GetHeader p) = cmd_code GET_LIST_R \<and> bytes_list (GetAppend p) = m_slaves m"
proof -
  let ?L = "m_slaves m" and ?h = "(st_hdr st)\<lparr>hd_cmd := cmd_code GET_LIST_R\<rparr>" and ?fd = "ho_next (m_world m)"
  let ?w = "(m_world m)\<lparr>ho_in := (ho_in (m_world m))(?fd := [b])\<rparr>"
  have l: "list_ok ?L" "list_all node_ok (sl_nodes ?L)" using up by (simp_all add: master_up_def ring_list_def)
  have z: "packet_buf (zeros MAX_BUF_LEN)" by (simp add: packet_buf_def MAX_BUF_LEN_def packet_consts)
  have len: "length (list_bytes ?L) = SLAVELIST_SIZE" by (rule length_list_bytes [OF l(1)])
  then have d: "length (list_bytes ?L) \<le> APPENDSIZE" using SLAVELIST_fits by simp
  have hh: "header_ok ?h" using h by (simp add: header_ok_def)
  define p where "p = packet (zeros MAX_BUF_LEN) ?h (list_bytes ?L)"
  have p: "packet_buf p" "hd_cmd (GetHeader p) = cmd_code GET_LIST_R" "bytes_list (GetAppend p) = ?L"
    using l by (simp_all add: p_def packet_buf_packet [OF z d] GetHeader_packet [OF z hh d] GetAppend_packet [OF z d]
        bytes_list_list_bytes list_all_iff)
  have io: "ho_in (m_world m) = (\<lambda>_. [])" "ho_out (m_world m) = (\<lambda>_. [])" "0 < ?fd" using up by (simp_all add: master_up_def)
  have "n_recv host_os ?fd (?w\<lparr>ho_next := ?fd + 1\<rparr>) = (Some b, (m_world m)\<lparr>ho_next := ?fd + 1\<rparr>)"
    by (simp add: host_os_def io fun_upd_def cong: if_cong)
  then have r: "recv_into host_os ?fd (zeros MAX_BUF_LEN) (?w\<lparr>ho_next := ?fd + 1\<rparr>) = (int MAX_BUF_LEN, b, (m_world m)\<lparr>ho_next := ?fd + 1\<rparr>)"
    by (rule recv_into_full [OF _ b(1) z])
  let ?w' = "(m_world m)\<lparr>ho_next := ?fd + 1, ho_out := (\<lambda>_. [])(?fd := [p]), ho_closed := ?fd # ho_closed (m_world m)\<rparr>"
  have "HandleRequest host_os (st_hdr st) (st_rnd st) ?fd (ho_peer (m_world m)) ?L (?w\<lparr>ho_next := ?fd + 1\<rparr>) = Inr (?L, ?w')"
    using io(3) r b(2) p(1) Append_packet [OF z d, of ?h] len
    by (simp add: Master.HandleRequest_def Let_def p_def [symmetric]) (simp add: ServiceStop_def host_os_def io(2))
  then have "master_step host_os (st_hdr st) (st_rnd st) (st_lsock st) (Ready (st_lsock st)) (m\<lparr>m_world := ?w\<rparr>)
    = Inr (m\<lparr>m_fd := ?fd, m_ip := ho_peer (m_world m), m_world := ?w'\<rparr>)"
    using io(3) by (simp add: master_step_def epoll_wait_def ServiceStart_def Let_def) (simp add: host_os_def)
  moreover define m' where "m' = m\<lparr>m_fd := ?fd, m_ip := ho_peer (m_world m), m_world := ?w'\<lparr>ho_out := (\<lambda>_. [])\<rparr>\<rparr>"
  ultimately have "ask_master st b m = Inr ([p], m')"
    by (simp add: ask_master_def Let_def io(1)) (simp add: fun_upd_def cong: if_cong)
  moreover have "master_up m'" "m_slaves m' = ?L" using up by (simp_all add: master_up_def m'_def)
  ultimately show ?thesis using p by blast
qed

section \<open>The system at rest\<close>

definition addr :: "SlaveNode \<Rightarrow> int \<times> int" where
  "addr n = (sn_ip n, sn_port n)"

definition members :: "('k, 'm, 'h, 'w) cloud \<Rightarrow> SlaveList" where
  "members c = m_slaves (the (cd_master c))"

text \<open>
  The master is up; behind the address of every node of its list runs a server that is ready at the list's
  version; addresses are different, and sockets not yet given out lead nowhere.
\<close>

definition slave_up ::
  "('h, 'w) tchdb \<Rightarrow> ('m, 'h OpenedDB) tcmdb \<Rightarrow> ('h, 'w) tc_view \<Rightarrow> ('k, 'm, 'h, 'w) site \<Rightarrow> u32
    \<Rightarrow> ('k, 'm, 'h OpenedDB, 'w host) server \<Rightarrow> bool" where
  "slave_up tc tm v st ver g \<longleftrightarrow> ready tc tm v (st_sm st) ver g \<and> st_worker st < length (g_workers g)"

definition cloud_ok ::
  "('h, 'w) tchdb \<Rightarrow> ('m, 'h OpenedDB) tcmdb \<Rightarrow> ('h, 'w) tc_view \<Rightarrow> ('k, 'm, 'h, 'w) site \<Rightarrow> ('k, 'm, 'h, 'w) cloud \<Rightarrow> bool" where
  "cloud_ok tc tm v st c \<longleftrightarrow> (\<exists>m. cd_master c = Some m \<and> master_up m)
    \<and> (\<forall>n \<in> set (live (members c)). \<exists>g. cd_slaves c (addr n) = Some g \<and> slave_up tc tm v st (sl_version (members c)) g)
    \<and> distinct (map addr (live (members c))) \<and> cd_addr c \<notin> addr ` set (live (members c))
    \<and> (\<forall>sock \<ge> cd_next c. cd_peer c sock = None \<and> cd_in c sock = []) \<and> 0 < cd_next c"

text \<open>A site whose slaves run on machines of theory \<open>Host\<close>.\<close>

definition site_ok :: "('h, 'w) tchdb \<Rightarrow> ('m, 'h OpenedDB) tcmdb \<Rightarrow> ('k, 'm, 'h, 'w) site \<Rightarrow> bool" where
  "site_ok tc tm st \<longleftrightarrow> (\<exists>hdr fuel. st_env st = host_env tc tm hdr fuel) \<and> header_ok (st_hdr st)"

text \<open>The client's socket of a node leads to a connection on which the node's server has the database open.\<close>

definition linked ::
  "('m, 'h OpenedDB) tcmdb \<Rightarrow> ('k, 'm, 'h, 'w) site \<Rightarrow> ('k, 'm, 'h, 'w) cloud \<Rightarrow> bytes \<Rightarrow> SlaveNode \<Rightarrow> bool" where
  "linked tm st c name n \<longleftrightarrow> 0 < sn_sock n \<and> sn_sock n < cd_next c \<and> cd_in c (sn_sock n) = []
    \<and> (\<exists>fd d g. cd_peer c (sn_sock n) = Some (ToSlave (addr n) fd) \<and> cd_slaves c (addr n) = Some g
        \<and> attached tm (st_sm st) g fd d name)"

lemma cloud_net_simps [simp]:
  "n_socket (cloud_net st) c = (cd_next c, c\<lparr>cd_next := cd_next c + 1\<rparr>)" "n_connect (cloud_net st) = cloud_connect st"
  "n_send (cloud_net st) = cloud_send st" "n_recv (cloud_net st) = cloud_recv" "n_close (cloud_net st) = cloud_close st"
  by (simp_all add: cloud_net_def)

lemma fun_upd_self: "f x = y \<Longrightarrow> f(x := y) = f"
  by auto

text \<open>Request and reply on a client's socket.\<close>

lemma slave_answers:
  assumes "cd_peer c sock = Some (ToSlave a fd)" and "cd_slaves c a = Some g" and "cd_in c sock = []"
    and "talk (st_env st) (st_sm st) (st_ip0 st) (st_worker st) fd b g = Inr ([r], g')"
  shows "cloud_recv sock (cloud_send st sock b c) = (Some r, put_slave a (Inr g') c)"
  using assms by (simp add: cloud_send_def cloud_recv_def deliver_def put_slave_def fun_upd_self)

lemma master_answers:
  assumes "cd_peer c sock = Some ToMaster" and "cd_master c = Some m" and "cd_in c sock = []"
    and "ask_master st b m = Inr ([r], m')"
  shows "cloud_recv sock (cloud_send st sock b c) = (Some r, c\<lparr>cd_master := Some m'\<rparr>)"
  using assms by (simp add: cloud_send_def cloud_recv_def deliver_def fun_upd_self)

lemma put_slave_simps [simp]:
  "cd_master (put_slave a r c) = cd_master c" "cd_addr (put_slave a r c) = cd_addr c" "cd_peer (put_slave a r c) = cd_peer c"
  "cd_in (put_slave a r c) = cd_in c" "cd_next (put_slave a r c) = cd_next c" "members (put_slave a r c) = members c"
  "cd_slaves (put_slave a (Inr g) c) = (cd_slaves c)(a \<mapsto> g)"
  by (simp_all add: put_slave_def members_def)

lemma cloud_ok_put:
  assumes "cloud_ok tc tm v st c" and "slave_up tc tm v st (sl_version (members c)) g"
  shows "cloud_ok tc tm v st (put_slave a (Inr g) c)"
  using assms by (auto simp: cloud_ok_def)

lemma slave_upI: "slave_up tc tm v st ver g \<Longrightarrow> ready tc tm v (st_sm st) ver g' \<Longrightarrow> same_place g g' \<Longrightarrow> slave_up tc tm v st ver g'"
  by (simp add: slave_up_def same_place_def)

lemma linked_put:
  assumes "linked tm st c name n" and "cd_slaves c a = Some g"
    and "\<And>fd d. a = addr n \<Longrightarrow> attached tm (st_sm st) g fd d name \<Longrightarrow> attached tm (st_sm st) g' fd d name"
  shows "linked tm st (put_slave a (Inr g') c) name n"
  using assms by (fastforce simp: linked_def)

section \<open>A client of the system\<close>

text \<open>What the network stores under a key is what the key's owner stores.\<close>

definition net_table :: "('h, 'w) tc_view \<Rightarrow> ('k, 'm, 'h, 'w) cloud client \<Rightarrow> bytes \<Rightarrow> u32 \<rightharpoonup> bytes" where
  "net_table v s name k =
    (case GetSocket (members (cl_w s)) k of
       Inl e \<Rightarrow> None
     | Inr i \<Rightarrow>
         (case cd_slaves (cl_w s) (addr (live (members (cl_w s)) ! nat i)) of
            None \<Rightarrow> None
          | Some g \<Rightarrow> host_table v (gdb g) name k))"

text \<open>The client's copy of the list has sockets of its own.\<close>

definition unsock :: "SlaveNode \<Rightarrow> SlaveNode" where
  "unsock n = n\<lparr>sn_sock := 0\<rparr>"

definition copy_of :: "SlaveList \<Rightarrow> SlaveList \<Rightarrow> bool" where
  "copy_of sl sl' \<longleftrightarrow> list_ok sl' \<and> sl_version sl' = sl_version sl \<and> sl_num sl' = sl_num sl
    \<and> map unsock (live sl') = map unsock (live sl)"

definition net_opened ::
  "('m, 'h OpenedDB) tcmdb \<Rightarrow> ('k, 'm, 'h, 'w) site \<Rightarrow> ('k, 'm, 'h, 'w) cloud client \<Rightarrow> nat \<Rightarrow> bytes \<Rightarrow> bool" where
  "net_opened tm st s p name \<longleftrightarrow> (\<exists>sl. cl_lists s p = Some sl \<and> copy_of (members (cl_w s)) sl
    \<and> list_all (linked tm st (cl_w s) name) (live sl))"

definition client_env_ok :: "('h, 'w) tchdb \<Rightarrow> ('m, 'h OpenedDB) tcmdb \<Rightarrow> ('k, 'm, 'h, 'w) site \<Rightarrow> ('k, 'm, 'h, 'w) cloud cenv \<Rightarrow> bool" where
  "client_env_ok tc tm st ce \<longleftrightarrow> site_ok tc tm st \<and> ce_net ce = cloud_net st \<and> packet_buf (ce_buf ce)
    \<and> header_ok (ce_hdr ce) \<and> 0 < ce_fuel ce"

definition net_inv ::
  "('h, 'w) tchdb \<Rightarrow> ('m, 'h OpenedDB) tcmdb \<Rightarrow> ('h, 'w) tc_view \<Rightarrow> ('k, 'm, 'h, 'w) site \<Rightarrow> ('k, 'm, 'h, 'w) cloud cenv
    \<Rightarrow> ('k, 'm, 'h, 'w) cloud client \<Rightarrow> bool" where
  "net_inv tc tm v st ce s \<longleftrightarrow> client_env_ok tc tm st ce \<and> cloud_ok tc tm v st (cl_w s) \<and> packet_buf (cl_xbuf s)
    \<and> (case cl_master_addr s of Some a \<Rightarrow> a | None \<Rightarrow> LOCAL_ADDR, cl_master_port s) = cd_addr (cl_w s)
    \<and> (\<forall>p \<ge> cl_next s. cl_lists s p = None)"

lemma unsock_eq:
  assumes "unsock n = unsock n'"
  shows "addr n = addr n'" and "sn_key n = sn_key n'"
proof -
  have "sn_ip (unsock n) = sn_ip (unsock n')" "sn_port (unsock n) = sn_port (unsock n')" "sn_key (unsock n) = sn_key (unsock n')"
    using assms by simp_all
  then show "addr n = addr n'" "sn_key n = sn_key n'" by (simp_all add: unsock_def addr_def)
qed

lemma copy_nth:
  assumes "copy_of sl sl'" and "i < length (live sl)"
  shows "addr (live sl' ! i) = addr (live sl ! i)" and "sn_key (live sl' ! i) = sn_key (live sl ! i)"
proof -
  have l: "length (live sl') = length (live sl)" using assms(1) by (metis copy_of_def length_map)
  have "map unsock (live sl') ! i = map unsock (live sl) ! i" using assms(1) by (simp add: copy_of_def)
  then have "unsock (live sl' ! i) = unsock (live sl ! i)" using assms(2) l by simp
  then show "addr (live sl' ! i) = addr (live sl ! i)" "sn_key (live sl' ! i) = sn_key (live sl ! i)"
    by (rule unsock_eq)+
qed

lemma copy_length: "copy_of sl sl' \<Longrightarrow> length (live sl') = length (live sl)"
  by (metis copy_of_def length_map)

lemma copy_keys: "copy_of sl sl' \<Longrightarrow> keys sl' = keys sl"
  unfolding keys_def by (rule nth_equalityI) (simp_all add: copy_length copy_nth)

lemma copy_ring: "copy_of sl sl' \<Longrightarrow> ring_list sl \<Longrightarrow> ring_list sl'"
  by (simp add: ring_list_def copy_keys) (simp add: copy_of_def)

lemma copy_GetSocket:
  assumes "copy_of sl sl'" and "ring_list sl" and "0 < sl_num sl"
  shows "GetSocket sl' key = GetSocket sl key"
  using GetSocket_same [OF assms(2) copy_ring [OF assms(1,2)] copy_keys [OF assms(1)] _ assms(3)] assms(1)
  by (simp add: copy_of_def)

text \<open>The packets of the operations on a key.\<close>

lemma int32_sint [simp]: "int32 (sint (w :: u32))"
  using sint_ge [of w] sint_lt [of w] by (simp add: int32_def)

lemma key_packet_facts:
  assumes "packet_buf (ce_buf ce)" and "header_ok (ce_hdr ce)" and "c \<in> {SET, GET, DEL}"
    and "\<And>x. value = Some x \<Longrightarrow> length (c_str x) < APPENDSIZE"
  shows "plain_request (key_packet ce c key value sl (ce_buf ce)) (sl_version sl)"
    and "names c (sint key) (key_packet ce c key value sl (ce_buf ce))"
    and "value = Some x \<Longrightarrow> c_str (GetAppend (key_packet ce c key value sl (ce_buf ce))) = c_str x
      \<and> 0 \<in> set (GetAppend (key_packet ce c key value sl (ce_buf ce)))"
proof -
  let ?h = "(ce_hdr ce)\<lparr>hd_cmd := cmd_code c, hd_key := sint key, hd_version := sint (sl_version sl)\<rparr>"
  let ?p = "key_packet ce c key value sl (ce_buf ce)"
  have h: "header_ok ?h" by (simp add: header_ok_def)
  have "(\<exists>n. GetHeader ?p = ?h\<lparr>hd_size := n\<rparr>) \<and> packet_buf ?p \<and> (\<forall>x. value = Some x \<longrightarrow>
    c_str (GetAppend ?p) = c_str x \<and> 0 \<in> set (GetAppend ?p))"
  proof (cases "value")
    case None
    then show ?thesis using GetHeader_WriteHeader [OF assms(1) h] assms(1) by (auto simp: key_packet_def)
  next
    case (Some x)
    let ?d = "c_str x @ [0]"
    have d: "length ?d \<le> APPENDSIZE" using assms(4) [OF Some] by simp
    have "?p = packet (ce_buf ce) ?h ?d"
      using Append_packet [OF assms(1) d, of ?h] Some by (simp add: key_packet_def add.commute)
    then show ?thesis
      using GetHeader_packet [OF assms(1) h d] packet_buf_packet [OF assms(1) d, of ?h] c_str_no_nul [of x] Some
      by (auto simp: GetAppend_packet [OF assms(1) d])
  qed
  then obtain n where p: "GetHeader ?p = ?h\<lparr>hd_size := n\<rparr>" "packet_buf ?p"
    "\<And>x. value = Some x \<Longrightarrow> c_str (GetAppend ?p) = c_str x \<and> 0 \<in> set (GetAppend ?p)" by blast
  have "\<not> for_slave (GetHeader ?p)"
    using assms(3) by (auto simp: p(1) for_slave_def word_le_nat_alt)
  then show "plain_request ?p (sl_version sl)" "names c (sint key) ?p"
    "value = Some x \<Longrightarrow> c_str (GetAppend ?p) = c_str x \<and> 0 \<in> set (GetAppend ?p)"
    using p by (simp_all add: plain_request_def names_def)
qed

section \<open>The operations on keys\<close>

text \<open>The owner of a key, and the connection to it of an opened database.\<close>

lemma net_invD:
  assumes "net_inv tc tm v st ce s"
  shows "client_env_ok tc tm st ce" and "cloud_ok tc tm v st (cl_w s)" and "ring_list (members (cl_w s))"
    and "0 < sl_num (members (cl_w s))"
  using assms by (auto simp: net_inv_def cloud_ok_def members_def master_up_def)

lemma member_up:
  assumes "cloud_ok tc tm v st c" and "i < length (live (members c))"
  obtains g where "cd_slaves c (addr (live (members c) ! i)) = Some g" and "slave_up tc tm v st (sl_version (members c)) g"
proof -
  have "live (members c) ! i \<in> set (live (members c))" using assms(2) by simp
  then show ?thesis using that assms(1) unfolding cloud_ok_def by blast
qed

lemma owner_index:
  assumes "net_inv tc tm v st ce s"
  obtains i where "GetSocket (members (cl_w s)) key = Inr i" and "0 \<le> i" and "nat i < length (live (members (cl_w s)))"
proof -
  note r = net_invD(3,4) [OF assms]
  then have "list_ok (members (cl_w s))" by (simp add: ring_list_def)
  then show ?thesis using GetSocket_owner [OF r, of key] that by (auto simp: length_live)
qed

text \<open>Where a request for a key goes, with which packet, and what comes of the answer.\<close>

definition owner_node :: "('k, 'm, 'h, 'w) cloud \<Rightarrow> int \<Rightarrow> SlaveNode" where
  "owner_node c i = live (members c) ! nat i"

lemma key_request_runs:
  assumes inv: "net_inv tc tm v st ce s" and op: "net_opened tm st s p name" and c: "c \<in> {SET, GET, DEL}"
    and short: "\<And>x. value = Some x \<Longrightarrow> length (c_str x) < APPENDSIZE"
  obtains i g fd d b where "GetSocket (members (cl_w s)) key = Inr i"
    and "0 \<le> i" and "nat i < length (live (members (cl_w s)))"
    and "cd_slaves (cl_w s) (addr (owner_node (cl_w s) i)) = Some g"
    and "slave_up tc tm v st (sl_version (members (cl_w s))) g" and "attached tm (st_sm st) g fd d name"
    and "plain_request b (sl_version (members (cl_w s)))" and "names c (sint key) b"
    and "\<And>x. value = Some x \<Longrightarrow> c_str (GetAppend b) = c_str x \<and> 0 \<in> set (GetAppend b)"
    and "\<And>r g'. talk (st_env st) (st_sm st) (st_ip0 st) (st_worker st) fd b g = Inr ([r], g') \<Longrightarrow> packet_buf r \<Longrightarrow>
      hd_cmd (GetHeader r) \<noteq> cmd_code UPDATE_VERSION \<Longrightarrow>
      key_request ce c (Some p) key value s
        = Inr (r, s\<lparr>cl_w := put_slave (addr (owner_node (cl_w s) i)) (Inr g') (cl_w s)\<rparr>)"
proof -
  let ?L = "members (cl_w s)"
  obtain sl where sl: "cl_lists s p = Some sl" "copy_of ?L sl" "list_all (linked tm st (cl_w s) name) (live sl)"
    using op by (auto simp: net_opened_def)
  have env: "ce_net ce = cloud_net st" "packet_buf (ce_buf ce)" "header_ok (ce_hdr ce)" "0 < ce_fuel ce"
    using net_invD(1) [OF inv] by (simp_all add: client_env_ok_def)
  have r: "ring_list sl" "0 < sl_num sl" using copy_ring [OF sl(2)] net_invD(3,4) [OF inv] sl(2) by (simp_all add: copy_of_def)
  obtain i where i: "GetSocket ?L key = Inr i" "0 \<le> i" "nat i < length (live ?L)" using owner_index [OF inv] .
  then have gs: "GetSocket sl key = Inr i" using copy_GetSocket [OF sl(2) net_invD(3,4) [OF inv]] by simp
  obtain g where g: "cd_slaves (cl_w s) (addr (live ?L ! nat i)) = Some g" "slave_up tc tm v st (sl_version ?L) g"
    using member_up [OF net_invD(2) [OF inv] i(3)] .
  let ?n = "live sl ! nat i"
  have a: "addr ?n = addr (live ?L ! nat i)" using copy_nth [OF sl(2) i(3)] by simp
  have "nat i < length (live sl)" using i(3) copy_length [OF sl(2)] by simp
  then have "linked tm st (cl_w s) name ?n" using sl(3) by (simp add: list_all_length)
  then obtain fd d where l: "cd_peer (cl_w s) (sn_sock ?n) = Some (ToSlave (addr (live ?L ! nat i)) fd)"
    "attached tm (st_sm st) g fd d name" "cd_in (cl_w s) (sn_sock ?n) = []" "sn_sock ?n \<noteq> -1"
    using g(1) a by (auto simp: linked_def)
  let ?b = "key_packet ce c key value sl (ce_buf ce)"
  note b = key_packet_facts [OF env(2,3) c short, where key = key and sl = sl]
  have v: "sl_version sl = sl_version ?L" using sl(2) by (simp add: copy_of_def)
  show ?thesis
  proof (rule that [OF i g [folded owner_node_def] l(2) b(1) [unfolded v] b(2,3)])
    fix r g'
    assume t: "talk (st_env st) (st_sm st) (st_ip0 st) (st_worker st) fd ?b g = Inr ([r], g')" and p: "packet_buf r"
      and u: "hd_cmd (GetHeader r) \<noteq> cmd_code UPDATE_VERSION"
    have ans: "n_recv (ce_net ce) (sn_sock ?n) (n_send (ce_net ce) (sn_sock ?n) ?b (cl_w s))
        = (Some r, put_slave (addr (live ?L ! nat i)) (Inr g') (cl_w s))"
      using slave_answers [OF l(1) g(1) l(3) t] by (simp add: env(1))
    have "packet_buf ?b" using b(1) by (simp add: plain_request_def)
    from key_request_once [OF r gs sl(1) refl l(4) env(4) this ans p u]
    show "key_request ce c (Some p) key value s
        = Inr (r, s\<lparr>cl_w := put_slave (addr (owner_node (cl_w s) i)) (Inr g') (cl_w s)\<rparr>)"
      by (simp add: owner_node_def)
  qed (use short in auto)
qed

text \<open>What the owner's change of state means for the system.\<close>

lemma after_key_request:
  assumes inv: "net_inv tc tm v st ce s" and i: "GetSocket (members (cl_w s)) key = Inr i" "0 \<le> i" "nat i < length (live (members (cl_w s)))"
    and g: "cd_slaves (cl_w s) (addr (owner_node (cl_w s) i)) = Some g" "slave_up tc tm v st (sl_version (members (cl_w s))) g"
    and g': "ready tc tm v (st_sm st) (sl_version (members (cl_w s))) g'" "same_place g g'"
      "attached tm (st_sm st) g' = attached tm (st_sm st) g"
  defines "s' \<equiv> s\<lparr>cl_w := put_slave (addr (owner_node (cl_w s) i)) (Inr g') (cl_w s)\<rparr>"
  shows "net_inv tc tm v st ce s'" and "net_opened tm st s' = net_opened tm st s"
    and "host_table v (gdb g') = host_table v (gdb g) \<Longrightarrow> net_table v s' = net_table v s"
    and "host_table v (gdb g') = (host_table v (gdb g))(n := (host_table v (gdb g) n)(key := y)) \<Longrightarrow>
      net_table v s' = (net_table v s)(n := (net_table v s n)(key := y))"
    and "net_table v s n key = host_table v (gdb g) n key"
proof -
  let ?L = "members (cl_w s)" and ?a = "addr (owner_node (cl_w s) i)"
  show "net_inv tc tm v st ce s'"
    using inv cloud_ok_put [OF net_invD(2) [OF inv] slave_upI [OF g(2) g'(1,2)], of ?a] by (simp add: net_inv_def s'_def)
  have "linked tm st (cl_w s') = linked tm st (cl_w s)"
    using g(1) g'(3) by (auto simp: fun_eq_iff linked_def s'_def)
  moreover have "cl_lists s' = cl_lists s" "members (cl_w s') = ?L" by (simp_all add: s'_def)
  ultimately show "net_opened tm st s' = net_opened tm st s" by (intro ext) (simp add: net_opened_def)
  show "net_table v s n key = host_table v (gdb g) n key" using i(1) g(1) by (simp add: net_table_def owner_node_def)
  have own: "j = i \<longleftrightarrow> addr (owner_node (cl_w s) j) = ?a" if "GetSocket ?L k = Inr j" for k j
  proof -
    obtain j' where "GetSocket ?L k = Inr j'" "0 \<le> j'" "nat j' < length (live ?L)" using owner_index [OF inv] .
    then have j: "0 \<le> j" "nat j < length (live ?L)" using that by simp_all
    have "distinct (map addr (live ?L))" using net_invD(2) [OF inv] by (simp add: cloud_ok_def)
    then have "map addr (live ?L) ! nat j = map addr (live ?L) ! nat i \<longleftrightarrow> nat j = nat i"
      using j i(3) by (intro nth_eq_iff_index_eq) simp_all
    then show ?thesis using j i(2,3) by (auto simp: owner_node_def)
  qed
  {
    assume "host_table v (gdb g') = host_table v (gdb g)"
    then show "net_table v s' = net_table v s"
      using g(1) by (auto simp: net_table_def fun_eq_iff s'_def owner_node_def split: sum.splits)
  next
    assume t: "host_table v (gdb g') = (host_table v (gdb g))(n := (host_table v (gdb g) n)(key := y))"
    show "net_table v s' = (net_table v s)(n := (net_table v s n)(key := y))"
    proof (intro ext)
      fix m k
      obtain j where j: "GetSocket ?L k = Inr j" using owner_index [OF inv, of k] by blast
      show "net_table v s' m k = ((net_table v s)(n := (net_table v s n)(key := y))) m k"
        using own [OF j] g(1) t i(1) j by (cases "j = i") (auto simp: net_table_def s'_def owner_node_def)
    qed
  }
qed

text \<open>
  The three operations in one: \<open>Q\<close> relates a slave's reply with its tables before and after, as the
  lemmas of theory \<open>Host\<close> give it.
\<close>

lemma key_op:
  assumes inv: "net_inv tc tm v st ce s" and op: "net_opened tm st s p n" and c: "c \<in> {SET, GET, DEL}"
    and short: "\<And>x. value = Some x \<Longrightarrow> length (c_str x) < APPENDSIZE"
    and serve: "\<And>g fd d b hdr fuel ver. ready tc tm v (st_sm st) ver g \<Longrightarrow> attached tm (st_sm st) g fd d n \<Longrightarrow>
      st_worker st < length (g_workers g) \<Longrightarrow> plain_request b ver \<Longrightarrow> names c (sint k) b \<Longrightarrow>
      (\<And>x. value = Some x \<Longrightarrow> c_str (GetAppend b) = c_str x \<and> 0 \<in> set (GetAppend b)) \<Longrightarrow>
      \<exists>r g'. talk (host_env tc tm hdr fuel) (st_sm st) (st_ip0 st) (st_worker st) fd b g = Inr ([r], g')
        \<and> ready tc tm v (st_sm st) ver g' \<and> same_place g g' \<and> packet_buf r
        \<and> attached tm (st_sm st) g' = attached tm (st_sm st) g \<and> Q r (host_table v (gdb g)) (host_table v (gdb g'))"
    and Q: "\<And>r T T'. Q r T T' \<Longrightarrow> hd_cmd (GetHeader r) \<noteq> cmd_code UPDATE_VERSION"
  shows "\<exists>r s' T T'. key_request ce c (Some p) k value s = Inr (r, s') \<and> net_inv tc tm v st ce s'
    \<and> net_opened tm st s' = net_opened tm st s \<and> Q r T T' \<and> net_table v s n k = T n k
    \<and> (T' = T \<longrightarrow> net_table v s' = net_table v s)
    \<and> (\<forall>y. T' = T(n := (T n)(k := y)) \<longrightarrow> net_table v s' = (net_table v s)(n := (net_table v s n)(k := y)))"
proof (rule key_request_runs [OF inv op c short, where key = k])
  fix i g fd d b
  assume i: "GetSocket (members (cl_w s)) k = Inr i" "0 \<le> i" "nat i < length (live (members (cl_w s)))"
    and g: "cd_slaves (cl_w s) (addr (owner_node (cl_w s) i)) = Some g" "slave_up tc tm v st (sl_version (members (cl_w s))) g"
    and at: "attached tm (st_sm st) g fd d n" and b: "plain_request b (sl_version (members (cl_w s)))" "names c (sint k) b"
      "\<And>x. value = Some x \<Longrightarrow> c_str (GetAppend b) = c_str x \<and> 0 \<in> set (GetAppend b)"
    and run: "\<And>r g'. talk (st_env st) (st_sm st) (st_ip0 st) (st_worker st) fd b g = Inr ([r], g') \<Longrightarrow> packet_buf r \<Longrightarrow>
      hd_cmd (GetHeader r) \<noteq> cmd_code UPDATE_VERSION \<Longrightarrow> key_request ce c (Some p) k value s
        = Inr (r, s\<lparr>cl_w := put_slave (addr (owner_node (cl_w s) i)) (Inr g') (cl_w s)\<rparr>)"
  obtain hdr fuel where env: "st_env st = host_env tc tm hdr fuel"
    using net_invD(1) [OF inv] by (auto simp: client_env_ok_def site_ok_def)
  have up: "ready tc tm v (st_sm st) (sl_version (members (cl_w s))) g" "st_worker st < length (g_workers g)"
    using g(2) by (simp_all add: slave_up_def)
  obtain r g' where t: "talk (st_env st) (st_sm st) (st_ip0 st) (st_worker st) fd b g = Inr ([r], g')"
    and g': "ready tc tm v (st_sm st) (sl_version (members (cl_w s))) g'" "same_place g g'"
      "attached tm (st_sm st) g' = attached tm (st_sm st) g"
    and r: "packet_buf r" "Q r (host_table v (gdb g)) (host_table v (gdb g'))"
    using serve [OF up(1) at up(2) b, of hdr fuel] unfolding env by blast
  note aft = after_key_request [OF inv i g g']
  show ?thesis
    using run [OF t r(1) Q [OF r(2)]] aft r(2)
    by (intro exI [of _ r] exI [of _ "s\<lparr>cl_w := put_slave (addr (owner_node (cl_w s) i)) (Inr g') (cl_w s)\<rparr>"]
        exI [of _ "host_table v (gdb g)"] exI [of _ "host_table v (gdb g')"]) simp
qed

lemma net_set:
  assumes inv: "net_inv tc tm v st ce s" and op: "net_opened tm st s p n" and x: "length (c_str x) < APPENDSIZE"
  shows "\<exists>s'. NetDbApi.DBSetKeyValue ce (Some p) k x s = Inr (0, s') \<and> net_inv tc tm v st ce s'
    \<and> net_opened tm st s' = net_opened tm st s \<and> net_table v s' = (net_table v s)(n := (net_table v s n)(k \<mapsto> c_str x))"
proof -
  define Q where "Q r T T' \<longleftrightarrow> hd_cmd (GetHeader r) = cmd_code SET_R \<and> T' = T(n := (T n)(k \<mapsto> c_str x))" for r and T T' :: "bytes \<Rightarrow> u32 \<rightharpoonup> bytes"
  have "\<exists>r s' T T'. key_request ce SET (Some p) k (Some x) s = Inr (r, s') \<and> net_inv tc tm v st ce s'
    \<and> net_opened tm st s' = net_opened tm st s \<and> Q r T T' \<and> net_table v s n k = T n k
    \<and> (T' = T \<longrightarrow> net_table v s' = net_table v s)
    \<and> (\<forall>y. T' = T(n := (T n)(k := y)) \<longrightarrow> net_table v s' = (net_table v s)(n := (net_table v s n)(k := y)))"
  proof (rule key_op [OF inv op])
    fix g fd d b hdr fuel ver
    assume "ready tc tm v (st_sm st) ver g" "attached tm (st_sm st) g fd d n" "st_worker st < length (g_workers g)"
      "plain_request b ver" "names SET (sint k) b"
      "\<And>y. Some x = Some y \<Longrightarrow> c_str (GetAppend b) = c_str y \<and> 0 \<in> set (GetAppend b)"
    then show "\<exists>r g'. talk (host_env tc tm hdr fuel) (st_sm st) (st_ip0 st) (st_worker st) fd b g = Inr ([r], g')
        \<and> ready tc tm v (st_sm st) ver g' \<and> same_place g g' \<and> packet_buf r
        \<and> attached tm (st_sm st) g' = attached tm (st_sm st) g \<and> Q r (host_table v (gdb g)) (host_table v (gdb g'))"
      using talk_set [of tc tm v "st_sm st" ver g fd d n "st_worker st" b "sint k" hdr fuel "st_ip0 st"] unfolding Q_def by simp
  qed (use x in \<open>auto simp: Q_def\<close>)
  then obtain r s' T T' where "key_request ce SET (Some p) k (Some x) s = Inr (r, s')" "net_inv tc tm v st ce s'"
    "net_opened tm st s' = net_opened tm st s" "Q r T T'"
    "\<forall>y. T' = T(n := (T n)(k := y)) \<longrightarrow> net_table v s' = (net_table v s)(n := (net_table v s n)(k := y))" by blast
  then show ?thesis by (auto simp: NetDbApi.DBSetKeyValue_def Q_def)
qed

lemma net_del:
  assumes inv: "net_inv tc tm v st ce s" and op: "net_opened tm st s p n"
  shows "\<exists>s'. NetDbApi.DBDelKeyValue ce (Some p) k s = Inr (if net_table v s n k = None then -1 else 0, s') \<and> net_inv tc tm v st ce s'
    \<and> net_opened tm st s' = net_opened tm st s \<and> net_table v s' = (net_table v s)(n := (net_table v s n)(k := None))"
proof -
  define Q where "Q r T T' \<longleftrightarrow> hd_cmd (GetHeader r) = cmd_code (if T n k = None then CMDFAIL else DEL_R)
    \<and> T' = T(n := (T n)(k := None))" for r and T T' :: "bytes \<Rightarrow> u32 \<rightharpoonup> bytes"
  have "\<exists>r s' T T'. key_request ce DEL (Some p) k None s = Inr (r, s') \<and> net_inv tc tm v st ce s'
    \<and> net_opened tm st s' = net_opened tm st s \<and> Q r T T' \<and> net_table v s n k = T n k
    \<and> (T' = T \<longrightarrow> net_table v s' = net_table v s)
    \<and> (\<forall>y. T' = T(n := (T n)(k := y)) \<longrightarrow> net_table v s' = (net_table v s)(n := (net_table v s n)(k := y)))"
  proof (rule key_op [OF inv op])
    fix g fd d b hdr fuel ver
    assume "ready tc tm v (st_sm st) ver g" "attached tm (st_sm st) g fd d n" "st_worker st < length (g_workers g)"
      "plain_request b ver" "names DEL (sint k) b"
    then show "\<exists>r g'. talk (host_env tc tm hdr fuel) (st_sm st) (st_ip0 st) (st_worker st) fd b g = Inr ([r], g')
        \<and> ready tc tm v (st_sm st) ver g' \<and> same_place g g' \<and> packet_buf r
        \<and> attached tm (st_sm st) g' = attached tm (st_sm st) g \<and> Q r (host_table v (gdb g)) (host_table v (gdb g'))"
      using talk_del [of tc tm v "st_sm st" ver g fd d n "st_worker st" b "sint k" hdr fuel "st_ip0 st"] unfolding Q_def by simp
  qed (auto simp: Q_def)
  then obtain r s' T T' where "key_request ce DEL (Some p) k None s = Inr (r, s')" "net_inv tc tm v st ce s'"
    "net_opened tm st s' = net_opened tm st s" "Q r T T'" "net_table v s n k = T n k"
    "\<forall>y. T' = T(n := (T n)(k := y)) \<longrightarrow> net_table v s' = (net_table v s)(n := (net_table v s n)(k := y))" by blast
  then show ?thesis by (auto simp: NetDbApi.DBDelKeyValue_def Q_def)
qed

text \<open>The value arrives, and then the frame that holds it is gone.\<close>

lemma net_get:
  assumes inv: "net_inv tc tm v st ce s" and op: "net_opened tm st s p n"
  shows "\<exists>r s'. NetDbApi.DBGetKeyValue ce (Some p) k s = Inr (r, s') \<and> net_inv tc tm v st ce s'
    \<and> net_opened tm st s' = net_opened tm st s \<and> net_table v s' = net_table v s
    \<and> (case net_table v s n k of None \<Rightarrow> r = Null | Some x \<Rightarrow> (\<exists>b. r = DeadFrame b \<and> c_str b = x))"
proof -
  define Q where "Q r T T' \<longleftrightarrow> T' = T \<and> (case T n k of None \<Rightarrow> hd_cmd (GetHeader r) = cmd_code CMDFAIL
    | Some x \<Rightarrow> hd_cmd (GetHeader r) = cmd_code GET_R \<and> c_str (GetAppend r) = x)" for r and T T' :: "bytes \<Rightarrow> u32 \<rightharpoonup> bytes"
  have "\<exists>r s' T T'. key_request ce GET (Some p) k None s = Inr (r, s') \<and> net_inv tc tm v st ce s'
    \<and> net_opened tm st s' = net_opened tm st s \<and> Q r T T' \<and> net_table v s n k = T n k
    \<and> (T' = T \<longrightarrow> net_table v s' = net_table v s)
    \<and> (\<forall>y. T' = T(n := (T n)(k := y)) \<longrightarrow> net_table v s' = (net_table v s)(n := (net_table v s n)(k := y)))"
  proof (rule key_op [OF inv op])
    fix g fd d b hdr fuel ver
    assume "ready tc tm v (st_sm st) ver g" "attached tm (st_sm st) g fd d n" "st_worker st < length (g_workers g)"
      "plain_request b ver" "names GET (sint k) b"
    then show "\<exists>r g'. talk (host_env tc tm hdr fuel) (st_sm st) (st_ip0 st) (st_worker st) fd b g = Inr ([r], g')
        \<and> ready tc tm v (st_sm st) ver g' \<and> same_place g g' \<and> packet_buf r
        \<and> attached tm (st_sm st) g' = attached tm (st_sm st) g \<and> Q r (host_table v (gdb g)) (host_table v (gdb g'))"
      using talk_get [of tc tm v "st_sm st" ver g fd d n "st_worker st" b "sint k" hdr fuel "st_ip0 st"] unfolding Q_def by simp
  qed (auto simp: Q_def split: option.splits)
  then obtain r s' T T' where "key_request ce GET (Some p) k None s = Inr (r, s')" "net_inv tc tm v st ce s'"
    "net_opened tm st s' = net_opened tm st s" "Q r T T'" "net_table v s n k = T n k" "T' = T \<longrightarrow> net_table v s' = net_table v s"
    by blast
  then show ?thesis by (auto simp: NetDbApi.DBGetKeyValue_def Q_def split: option.splits)
qed

lemma net_get_faults:
  assumes "net_inv tc tm v st ce s" and "net_opened tm st s p n" and "net_table v s n k \<noteq> None"
  shows "api_get (net_api ce) (Some p) k s = Inl UseAfterFree"
  using net_get [OF assms(1,2), of k] assms(3) by (auto simp: net_api_def)

section \<open>Closing\<close>

definition tables :: "('h, 'w) tc_view \<Rightarrow> ('k, 'm, 'h, 'w) cloud \<Rightarrow> int \<times> int \<Rightarrow> (bytes \<Rightarrow> u32 \<rightharpoonup> bytes) option" where
  "tables v c a = map_option (\<lambda>g. host_table v (gdb g)) (cd_slaves c a)"

lemma net_table_cong:
  assumes "members (cl_w s') = members (cl_w s)" and "tables v (cl_w s') = tables v (cl_w s)"
  shows "net_table v s' = net_table v s"
proof (intro ext)
  fix n k
  have "(case cd_slaves (cl_w s') a of None \<Rightarrow> None | Some g \<Rightarrow> host_table v (gdb g) n k)
    = (case cd_slaves (cl_w s) a of None \<Rightarrow> None | Some g \<Rightarrow> host_table v (gdb g) n k)" for a
    using fun_cong [OF assms(2), of a] by (auto simp: tables_def split: option.splits)
  then show "net_table v s' n k = net_table v s n k" by (simp add: net_table_def assms(1) split: sum.split)
qed

lemma tables_put: "cd_slaves c a = Some g \<Longrightarrow> host_table v (gdb g') = host_table v (gdb g) \<Longrightarrow> tables v (put_slave a (Inr g') c) = tables v c"
  by (auto simp: tables_def fun_eq_iff)

lemma linked_distinct:
  assumes "cloud_ok tc tm v st c" and "copy_of (members c) sl" and "i < length (live sl)" and "j < length (live sl)" and "i \<noteq> j"
  shows "addr (live sl ! i) \<noteq> addr (live sl ! j)"
proof -
  have d: "distinct (map addr (live (members c)))" using assms(1) by (simp add: cloud_ok_def)
  have l: "length (live sl) = length (live (members c))" by (rule copy_length [OF assms(2)])
  have "map addr (live (members c)) ! i \<noteq> map addr (live (members c)) ! j"
    using nth_eq_iff_index_eq [OF d, of i j] assms(3-5) l by simp
  then show ?thesis using copy_nth(1) [OF assms(2)] assms(3,4) l by simp
qed

lemma close_node:
  assumes site: "site_ok tc tm st" and ok: "cloud_ok tc tm v st c" and cp: "copy_of (members c) sl"
    and i: "i < length (live sl)" and ln: "linked tm st c name (live sl ! i)"
    and b: "plain_request b (sl_version (members c))" "names CLOSE key b"
  shows "\<exists>r c'. let sock = sn_sock (live sl ! i) in
      cloud_recv sock (cloud_send st sock b c) = (Some r, c') \<and> packet_buf r \<and> hd_cmd (GetHeader r) = cmd_code CLOSE_R
    \<and> cloud_ok tc tm v st (cloud_close st sock c') \<and> members (cloud_close st sock c') = members c
    \<and> cd_addr (cloud_close st sock c') = cd_addr c \<and> tables v (cloud_close st sock c') = tables v c
    \<and> (\<forall>j < length (live sl). j \<noteq> i \<longrightarrow> linked tm st c name (live sl ! j) \<longrightarrow> linked tm st (cloud_close st sock c') name (live sl ! j))"
proof -
  let ?n = "live sl ! i"
  let ?sock = "sn_sock ?n"
  obtain fd d g where l: "cd_peer c ?sock = Some (ToSlave (addr ?n) fd)" "cd_slaves c (addr ?n) = Some g" "attached tm (st_sm st) g fd d name"
    "cd_in c ?sock = []" using ln by (auto simp: linked_def)
  have i': "i < length (live (members c))" using i copy_length [OF cp] by simp
  then have up: "slave_up tc tm v st (sl_version (members c)) g"
    using member_up [OF ok i'] l(2) copy_nth(1) [OF cp i'] by auto
  obtain hdr fuel where env: "st_env st = host_env tc tm hdr fuel" using site by (auto simp: site_ok_def)
  obtain r g' where t: "talk (st_env st) (st_sm st) (st_ip0 st) (st_worker st) fd b g = Inr ([r], g')"
    "ready tc tm v (st_sm st) (sl_version (members c)) g'" "same_place g g'" "packet_buf r" "hd_cmd (GetHeader r) = cmd_code CLOSE_R"
    "host_table v (gdb g') = host_table v (gdb g)" "fd \<in> set (ho_closed (g_w g'))"
    using talk_close [OF _ l(3) _ b, of tc v "st_worker st" hdr fuel "st_ip0 st"] up unfolding env slave_up_def by blast
  let ?c = "put_slave (addr ?n) (Inr g') c"
  have ans: "cloud_recv ?sock (cloud_send st ?sock b c) = (Some r, ?c)" by (rule slave_answers [OF l(1,2,4) t(1)])
  have cl: "cloud_close st ?sock ?c = ?c\<lparr>cd_peer := (cd_peer ?c)(?sock := None)\<rparr>"
    using l(1) t(7) by (simp add: cloud_close_def)
  have "cloud_ok tc tm v st ?c" by (rule cloud_ok_put [OF ok slave_upI [OF up t(2,3)]])
  then have "cloud_ok tc tm v st (?c\<lparr>cd_peer := (cd_peer ?c)(?sock := None)\<rparr>)" by (simp add: cloud_ok_def members_def)
  moreover have "linked tm st (?c\<lparr>cd_peer := (cd_peer ?c)(?sock := None)\<rparr>) name (live sl ! j)"
    if "j < length (live sl)" "j \<noteq> i" "linked tm st c name (live sl ! j)" for j
  proof -
    have "addr (live sl ! j) \<noteq> addr ?n" using linked_distinct [OF ok cp that(1) i that(2)] .
    then show ?thesis using that(3) l(1) by (auto simp: linked_def)
  qed
  moreover have "tables v (?c\<lparr>cd_peer := (cd_peer ?c)(?sock := None)\<rparr>) = tables v ?c" by (simp add: tables_def fun_eq_iff)
  then have "tables v (?c\<lparr>cd_peer := (cd_peer ?c)(?sock := None)\<rparr>) = tables v c" using tables_put [OF l(2) t(6)] by simp
  ultimately show ?thesis
    using ans t(4,5) by (intro exI [of _ r] exI [of _ ?c]) (simp add: cl Let_def, simp add: members_def)
qed

lemma close_all:
  assumes "site_ok tc tm st" and "ce_net ce = cloud_net st" and "ring_list sl" and "0 \<le> i" and "packet_buf rb"
    and "plain_request b (sl_version (members c))" and "names CLOSE key b"
    and "cloud_ok tc tm v st c" and "copy_of (members c) sl"
    and "\<forall>j < length (live sl). i \<le> int j \<longrightarrow> linked tm st c name (live sl ! j)"
  shows "\<exists>c'. close_loop ce b (-1) i rb sl c = Inr (0, c') \<and> cloud_ok tc tm v st c' \<and> members c' = members c
    \<and> cd_addr c' = cd_addr c \<and> tables v c' = tables v c"
  using assms(4-)
proof (induction "nat (sl_num sl - i)" arbitrary: i rb c rule: less_induct)
  case less
  have num: "sl_num sl = int (length (live sl))" using assms(3) by (simp add: ring_list_def sl_num_live)
  show ?case
  proof (cases "i < sl_num sl")
    case False
    then show ?thesis using less.prems(5) by (simp add: close_loop.simps [of _ _ _ i])
  next
    case True
    have i: "nat i < length (live sl)" "int (nat i) = i" using True less.prems(1) num by simp_all
    let ?n = "live sl ! nat i"
    have ln: "linked tm st c name ?n" using less.prems(7) i by simp
    obtain r c1 where c1: "cloud_recv (sn_sock ?n) (cloud_send st (sn_sock ?n) b c) = (Some r, c1)" "packet_buf r"
      "hd_cmd (GetHeader r) = cmd_code CLOSE_R" "cloud_ok tc tm v st (cloud_close st (sn_sock ?n) c1)"
      "members (cloud_close st (sn_sock ?n) c1) = members c" "cd_addr (cloud_close st (sn_sock ?n) c1) = cd_addr c"
      "tables v (cloud_close st (sn_sock ?n) c1) = tables v c"
      "\<forall>j < length (live sl). j \<noteq> nat i \<longrightarrow> linked tm st c name (live sl ! j) \<longrightarrow> linked tm st (cloud_close st (sn_sock ?n) c1) name (live sl ! j)"
      using close_node [OF assms(1) less.prems(5,6) i(1) ln less.prems(3,4)] by (auto simp: Let_def)
    let ?c = "cloud_close st (sn_sock ?n) c1"
    have gn: "get_node (sl_nodes sl) i = Inr ?n" using get_node_live [OF assms(3) less.prems(1) True] by auto
    have s: "sn_sock ?n \<noteq> -1" using ln by (auto simp: linked_def)
    have pb: "packet_buf b" using less.prems(3) by (simp add: plain_request_def)
    have rv: "recv_into (cloud_net st) (sn_sock ?n) rb (cloud_send st (sn_sock ?n) b c) = (int MAX_BUF_LEN, r, c1)"
      by (rule recv_into_full) (use c1(1,2) less.prems(2) in simp_all)
    have step: "close_loop ce b (-1) i rb sl c = close_loop ce b (-1) (i + 1) r sl ?c"
      using True gn s pb rv c1(3) by (simp add: close_loop.simps [of _ _ _ i] assms(2) CloseRemoteService_def)
    have "\<exists>c'. close_loop ce b (-1) (i + 1) r sl ?c = Inr (0, c') \<and> cloud_ok tc tm v st c' \<and> members c' = members ?c
      \<and> cd_addr c' = cd_addr ?c \<and> tables v c' = tables v ?c"
    proof (rule less.hyps)
      show "\<forall>j < length (live sl). i + 1 \<le> int j \<longrightarrow> linked tm st ?c name (live sl ! j)"
        using less.prems(7) c1(8) i(2) by auto
    qed (use True less.prems c1 in simp_all)
    then show ?thesis using step c1(5-7) by simp
  qed
qed

lemma net_delete:
  assumes inv: "net_inv tc tm v st ce s" and op: "net_opened tm st s p n"
  shows "\<exists>s'. NetDbApi.DBDelete ce (Some p) s = Inr (0, s') \<and> net_inv tc tm v st ce s' \<and> net_table v s' = net_table v s"
proof -
  obtain sl where sl: "cl_lists s p = Some sl" "copy_of (members (cl_w s)) sl" "list_all (linked tm st (cl_w s) n) (live sl)"
    using op by (auto simp: net_opened_def)
  have env: "site_ok tc tm st" "ce_net ce = cloud_net st" "packet_buf (ce_buf ce)" "header_ok (ce_hdr ce)"
    using net_invD(1) [OF inv] by (simp_all add: client_env_ok_def)
  let ?h = "(ce_hdr ce)\<lparr>hd_cmd := cmd_code CLOSE, hd_version := sint (sl_version sl)\<rparr>"
  let ?b = "WriteHeader (ce_buf ce) ?h"
  have h: "header_ok ?h" using env(4) by (simp add: header_ok_def)
  have b: "plain_request ?b (sl_version (members (cl_w s)))" "names CLOSE (hd_key (ce_hdr ce)) ?b"
    using GetHeader_WriteHeader [OF env(3) h] env(3) by (simp_all add: plain_request_def names_def for_slave_def word_le_nat_alt)
  obtain c' where c': "close_loop ce ?b (-1) 0 (ce_buf ce) sl (cl_w s) = Inr (0, c')" "cloud_ok tc tm v st c'"
    "members c' = members (cl_w s)" "cd_addr c' = cd_addr (cl_w s)" "tables v c' = tables v (cl_w s)"
    using close_all [OF env(1,2) copy_ring [OF sl(2) net_invD(3) [OF inv]] order_refl env(3) b net_invD(2) [OF inv] sl(2)] sl(3)
    by (auto simp: list_all_length)
  let ?s = "s\<lparr>cl_lists := (cl_lists s)(p := None), cl_w := c'\<rparr>"
  have "NetDbApi.DBDelete ce (Some p) s = Inr (0, ?s)"
    using sl(1) c'(1) by (simp add: NetDbApi.DBDelete_def with_list_def CloseAllCloudNodes_def Let_def)
  moreover have "net_inv tc tm v st ce ?s" using inv c'(2,4) by (simp add: net_inv_def)
  moreover have "net_table v ?s = net_table v s" by (rule net_table_cong) (simp_all add: c')
  ultimately show ?thesis by blast
qed

section \<open>Opening\<close>

text \<open>Room for one more connection on every slave.\<close>

definition room :: "('k, 'm, 'h, 'w) cloud \<Rightarrow> SlaveNode \<Rightarrow> bool" where
  "room c n \<longleftrightarrow> (\<forall>g. cd_slaves c (addr n) = Some g \<longrightarrow> ho_next (g_w g) < 2 ^ 31)"

lemma OpenRemoteService_cloud:
  "OpenRemoteService (cloud_net st) a port c =
    (if cd_next c = -1 then (-1, cd_next c, c\<lparr>cd_next := cd_next c + 1\<rparr>) else
     let (res, c') = cloud_connect st (cd_next c) (case a of Some a \<Rightarrow> a | None \<Rightarrow> LOCAL_ADDR) port (c\<lparr>cd_next := cd_next c + 1\<rparr>) in
     if res = -1 then (-1, cd_next c, c') else (0, cd_next c, c'))"
  by (simp add: OpenRemoteService_def)

text \<open>Fetching the list.\<close>

lemma read_nodes:
  assumes inv: "net_inv tc tm v st ce s"
  shows "\<exists>s'. ReadCloudNodes ce sl0 s = Inr (0, members (cl_w s), s') \<and> net_inv tc tm v st ce s'
    \<and> members (cl_w s') = members (cl_w s) \<and> cd_slaves (cl_w s') = cd_slaves (cl_w s)
    \<and> cl_lists s' = cl_lists s \<and> cl_next s' = cl_next s \<and> cl_dbname s' = cl_dbname s
    \<and> (\<forall>name n. linked tm st (cl_w s) name n \<longrightarrow> linked tm st (cl_w s') name n)"
proof -
  let ?c = "cl_w s"
  have env: "site_ok tc tm st" "ce_net ce = cloud_net st" "header_ok (ce_hdr ce)" "packet_buf (cl_xbuf s)"
    using inv by (simp_all add: net_inv_def client_env_ok_def)
  obtain m where m: "cd_master ?c = Some m" "master_up m" using net_invD(2) [OF inv] by (auto simp: cloud_ok_def)
  have L: "members ?c = m_slaves m" by (simp add: members_def m(1))
  have ok: "0 < cd_next ?c" "\<And>k. cd_next ?c \<le> k \<Longrightarrow> cd_peer ?c k = None \<and> cd_in ?c k = []"
    using net_invD(2) [OF inv] by (auto simp: cloud_ok_def)
  let ?sock = "cd_next ?c"
  let ?c1 = "?c\<lparr>cd_next := ?sock + 1, cd_peer := (cd_peer ?c)(?sock \<mapsto> ToMaster)\<rparr>"
  have o: "OpenRemoteService (cloud_net st) (cl_master_addr s) (cl_master_port s) ?c = (0, ?sock, ?c1)"
    using inv ok(1) m(1) by (simp add: OpenRemoteService_cloud net_inv_def cloud_connect_def Let_def)
  let ?h = "(ce_hdr ce)\<lparr>hd_cmd := cmd_code GET_LIST, hd_key := 0\<rparr>"
  let ?b = "packet (cl_xbuf s) ?h []"
  have h: "header_ok ?h" using env(3) by (simp add: header_ok_def int32_def)
  have b: "packet_buf ?b" "hd_cmd (GetHeader ?b) = cmd_code GET_LIST"
    using packet_buf_packet [OF env(4), of "[]" ?h] GetHeader_packet [OF env(4) h, of "[]"] by simp_all
  have "header_ok (st_hdr st)" using env(1) by (simp add: site_ok_def)
  from ask_master_list [OF m(2) this b] obtain p m' where p: "ask_master st ?b m = Inr ([p], m')" "master_up m'" "m_slaves m' = m_slaves m"
    "packet_buf p" "hd_cmd (GetHeader p) = cmd_code GET_LIST_R" "bytes_list (GetAppend p) = m_slaves m" by blast
  let ?c2 = "?c1\<lparr>cd_master := Some m'\<rparr>"
  have "cloud_recv ?sock (cloud_send st ?sock ?b ?c1) = (Some p, ?c2)"
    by (rule master_answers [OF _ _ _ p(1)]) (use m(1) ok(2) in simp_all)
  then have rv: "recv_into (cloud_net st) ?sock ?b (cloud_send st ?sock ?b ?c1) = (int MAX_BUF_LEN, p, ?c2)"
    by (intro recv_into_full) (use p(4) b(1) in simp_all)
  have ex: "ExchangePacket (cloud_net st) (ce_hdr ce) (cl_xbuf s) GET_LIST 0 [] 0 ?sock ?c1 = Inr (p, ?c2)"
    using ExchangePacket_ok [of ?sock "cl_xbuf s" "[]" "cloud_net st" "ce_hdr ce" GET_LIST 0 ?c1] ok(1) env(4) rv by simp
  let ?s = "s\<lparr>cl_master_sock := ?sock, cl_xbuf := p, cl_w := ?c2\<rparr>"
  have run: "ReadCloudNodes ce sl0 s = Inr (0, members ?c, ?s)"
    using o ex p(5,6) by (simp add: ReadCloudNodes_def cl_exchange_def env(2) Let_def L)
  have mem: "members ?c2 = members ?c" by (simp add: members_def p(3) m(1))
  have "cloud_ok tc tm v st ?c2"
    using net_invD(2) [OF inv] p(2) unfolding cloud_ok_def mem by auto
  then have "net_inv tc tm v st ce ?s" using inv p(4) by (simp add: net_inv_def)
  moreover have "linked tm st ?c2 name n" if "linked tm st ?c name n" for name n
    using that by (auto simp: linked_def)
  ultimately show ?thesis using run mem by (intro exI [of _ ?s]) simp
qed

text \<open>One node: connect, store the socket, \<open>OPEN\<close>.\<close>

lemma set_sock_copy:
  assumes "copy_of L sl" and "i < length (live sl)"
  shows "\<exists>sl'. set_sock (int i) sock sl = Inr sl' \<and> copy_of L sl' \<and> live sl' = (live sl)[i := (live sl ! i)\<lparr>sn_sock := sock\<rparr>]"
proof -
  have ok: "list_ok sl" using assms(1) by (simp add: copy_of_def)
  have i: "i < length (sl_nodes sl)" "i < nat (sl_num sl)" using assms(2) by (simp_all add: live_def)
  let ?n = "sl_nodes sl ! i"
  let ?sl = "sl\<lparr>sl_nodes := (sl_nodes sl)[i := ?n\<lparr>sn_sock := sock\<rparr>]\<rparr>"
  have "set_sock (int i) sock sl = Inr ?sl" using i by (simp add: set_sock_def get_node_def put_node_def)
  moreover have lv: "live ?sl = (live sl)[i := (live sl ! i)\<lparr>sn_sock := sock\<rparr>]"
    using i by (simp add: live_def take_update_swap)
  moreover have "unsock ((live sl ! i)\<lparr>sn_sock := sock\<rparr>) = map unsock (live sl) ! i" using assms(2) by (simp add: unsock_def)
  then have "map unsock (live ?sl) = map unsock (live sl)" unfolding lv by (simp add: map_update list_update_id)
  then have "copy_of L ?sl" using assms(1) ok unfolding copy_of_def list_ok_def by simp
  ultimately show ?thesis by blast
qed

lemma open_one:
  assumes site: "site_ok tc tm st" and net: "ce_net ce = cloud_net st" and ok: "cloud_ok tc tm v st c"
    and cp: "copy_of (members c) sl" and i: "i < length (live sl)" and rm: "room c (live sl ! i)" and rb: "packet_buf rb"
    and b: "plain_request b (sl_version (members c))" "names OPEN key b" "0 \<in> set (GetAppend b)" "length (c_str (GetAppend b)) < 127"
  shows "\<exists>rb' sl' c' sock. open_node ce b (int i) rb sl c = Inr (True, rb', sl', c') \<and> packet_buf rb'
    \<and> copy_of (members c) sl' \<and> live sl' = (live sl)[i := (live sl ! i)\<lparr>sn_sock := sock\<rparr>]
    \<and> cloud_ok tc tm v st c' \<and> members c' = members c \<and> cd_addr c' = cd_addr c \<and> tables v c' = tables v c
    \<and> linked tm st c' (c_str (GetAppend b)) (live sl' ! i)
    \<and> (\<forall>m n. linked tm st c m n \<longrightarrow> linked tm st c' m n)
    \<and> (\<forall>n. addr n \<noteq> addr (live sl ! i) \<longrightarrow> room c n \<longrightarrow> room c' n)"
proof -
  let ?n = "live sl ! i" and ?sock = "cd_next c"
  let ?a = "addr ?n"
  have li: "i < length (live (members c))" using i copy_length [OF cp] by simp
  obtain g where g: "cd_slaves c ?a = Some g" "slave_up tc tm v st (sl_version (members c)) g"
    using member_up [OF ok li] copy_nth(1) [OF cp li] by auto
  have rd: "ready tc tm v (st_sm st) (sl_version (members c)) g" "st_worker st < length (g_workers g)"
    using g(2) by (simp_all add: slave_up_def)
  have fr: "0 < ?sock" "cd_in c ?sock = []" using ok by (auto simp: cloud_ok_def)
  have na: "?a \<noteq> cd_addr c" using ok imageI [OF nth_mem [OF li], of addr] copy_nth(1) [OF cp li] by (auto simp: cloud_ok_def)
  obtain hdr fuel where env: "st_env st = host_env tc tm hdr fuel" using site by (auto simp: site_ok_def)
  let ?fd = "ho_next (g_w g)"
  have "?fd < 2 ^ 31" using rm g(1) by (simp add: room_def)
  from accept_step [OF rd(1) this, of hdr fuel "st_ip0 st"] obtain g1 where
    g1: "server_step (st_env st) (st_sm st) (st_ip0 st) (incoming (s_listen_sock (g_slave g))) g = Inr g1"
    "ready tc tm v (st_sm st) (sl_version (members c)) g1" "known (st_sm st) g1 ?fd"
    "length (g_workers g1) = length (g_workers g)" "host_table v (gdb g1) = host_table v (gdb g)"
    "\<And>fd d n. attached tm (st_sm st) g fd d n \<Longrightarrow> attached tm (st_sm st) g1 fd d n"
    unfolding env by blast
  have w1: "st_worker st < length (g_workers g1)" using rd(2) g1(4) by simp
  obtain r g2 d where g2: "talk (st_env st) (st_sm st) (st_ip0 st) (st_worker st) ?fd b g1 = Inr ([r], g2)"
    "ready tc tm v (st_sm st) (sl_version (members c)) g2" "same_place g1 g2" "packet_buf r"
    "hd_cmd (GetHeader r) = cmd_code OPEN_R" "attached tm (st_sm st) g2 ?fd d (c_str (GetAppend b))"
    "host_table v (gdb g2) = host_table v (gdb g1)"
    "\<And>fd' e m. fd' \<noteq> ?fd \<Longrightarrow> attached tm (st_sm st) g1 fd' e m \<Longrightarrow> attached tm (st_sm st) g2 fd' e m"
    using talk_open [OF g1(2,3) w1 b, of hdr fuel "st_ip0 st"] unfolding env by blast
  let ?c1 = "put_slave ?a (Inr g1) (c\<lparr>cd_next := ?sock + 1, cd_peer := (cd_peer c)(?sock \<mapsto> ToSlave ?a ?fd)\<rparr>)"
  have o: "OpenRemoteService2 (cloud_net st) (sn_ip ?n) (sn_port ?n) c = (0, ?sock, ?c1)"
    using fr(1) na g(1) g1(1) by (simp add: OpenRemoteService2_def OpenRemoteService_cloud cloud_connect_def Let_def addr_def)
  let ?c2 = "put_slave ?a (Inr g2) ?c1"
  have ans: "cloud_recv ?sock (cloud_send st ?sock b ?c1) = (Some r, ?c2)"
    by (rule slave_answers [OF _ _ _ g2(1)]) (use fr(2) in simp_all)
  have pb: "packet_buf b" using b(1) by (simp add: plain_request_def)
  have rv: "recv_into (cloud_net st) ?sock rb (cloud_send st ?sock b ?c1) = (int MAX_BUF_LEN, r, ?c2)"
    by (rule recv_into_full) (use ans g2(4) rb in simp_all)
  obtain sl' where sl': "set_sock (int i) ?sock sl = Inr sl'" "copy_of (members c) sl'" "live sl' = (live sl)[i := ?n\<lparr>sn_sock := ?sock\<rparr>]"
    using set_sock_copy [OF cp i] by blast
  have "get_node (sl_nodes sl) (int i) = Inr ?n" using i by (simp add: get_node_def live_def)
  then have run: "open_node ce b (int i) rb sl c = Inr (True, r, sl', ?c2)"
    using o sl'(1) pb rv fr(1) g2(5) by (simp add: open_node_def net Let_def)
  have mem: "members ?c2 = members c" by (simp add: members_def)
  have up2: "slave_up tc tm v st (sl_version (members c)) g2"
    using slave_upI [OF _ g2(2,3)] g1(2) w1 by (simp add: slave_up_def)
  have "cloud_ok tc tm v st (c\<lparr>cd_next := ?sock + 1, cd_peer := (cd_peer c)(?sock \<mapsto> ToSlave ?a ?fd)\<rparr>)"
    using ok by (auto simp: cloud_ok_def members_def)
  then have ok2: "cloud_ok tc tm v st (put_slave ?a (Inr g2) (c\<lparr>cd_next := ?sock + 1, cd_peer := (cd_peer c)(?sock \<mapsto> ToSlave ?a ?fd)\<rparr>))"
    by (rule cloud_ok_put) (use up2 in \<open>simp add: members_def\<close>)
  have c2: "?c2 = put_slave ?a (Inr g2) (c\<lparr>cd_next := ?sock + 1, cd_peer := (cd_peer c)(?sock \<mapsto> ToSlave ?a ?fd)\<rparr>)"
    by (simp add: put_slave_def)
  have "linked tm st ?c2 (c_str (GetAppend b)) (live sl' ! i)"
    using i fr g2(6) by (simp add: sl'(3) linked_def) (auto simp: addr_def)
  moreover have "linked tm st ?c2 m n" if ln: "linked tm st c m n" for m n
  proof -
    obtain fd' e g' where l: "cd_peer c (sn_sock n) = Some (ToSlave (addr n) fd')" "cd_slaves c (addr n) = Some g'"
      "attached tm (st_sm st) g' fd' e m" using ln by (auto simp: linked_def)
    have "attached tm (st_sm st) g2 fd' e m" if "addr n = ?a"
    proof -
      have "g' = g" using that l(2) g(1) by simp
      then have at: "attached tm (st_sm st) g fd' e m" using l(3) by simp
      then have "fd' \<noteq> ?fd" by (auto simp: attached_def)
      moreover have "attached tm (st_sm st) g1 fd' e m" by (rule g1(6) [OF at])
      ultimately show ?thesis using g2(8) by blast
    qed
    then show ?thesis using ln l by (auto simp: linked_def)
  qed
  moreover have "tables v ?c2 = tables v c"
    using g(1) g1(5) g2(7) by (auto simp: tables_def fun_eq_iff)
  moreover have "room c n \<longrightarrow> room ?c2 n" if "addr n \<noteq> ?a" for n using that by (simp add: room_def)
  ultimately show ?thesis
    using run g2(4) sl'(2,3) ok2 [folded c2] mem
    by (intro exI [of _ r] exI [of _ sl'] exI [of _ ?c2] exI [of _ ?sock]) simp
qed

lemma open_rest:
  assumes "site_ok tc tm st" and "ce_net ce = cloud_net st"
    and "names OPEN key b" and "0 \<in> set (GetAppend b)" and "length (c_str (GetAppend b)) < 127"
    and "0 \<le> i" and "packet_buf rb" and "cloud_ok tc tm v st c" and "copy_of (members c) sl" and "plain_request b (sl_version (members c))"
    and "\<forall>j < length (live sl). i \<le> int j \<longrightarrow> room c (live sl ! j)"
    and "\<forall>j < length (live sl). int j < i \<longrightarrow> linked tm st c (c_str (GetAppend b)) (live sl ! j)"
  shows "\<exists>sl' c'. open_loop ce b i rb sl c = Inr (0, sl', c') \<and> copy_of (members c) sl'
    \<and> cloud_ok tc tm v st c' \<and> members c' = members c \<and> cd_addr c' = cd_addr c \<and> tables v c' = tables v c
    \<and> list_all (linked tm st c' (c_str (GetAppend b))) (live sl') \<and> (\<forall>m n. linked tm st c m n \<longrightarrow> linked tm st c' m n)"
  using assms(6-)
proof (induction "nat (sl_num sl - i)" arbitrary: i rb sl c rule: less_induct)
  case less
  have num: "sl_num sl = int (length (live sl))" using less.prems(4) sl_num_live [of sl] by (simp add: copy_of_def)
  show ?case
  proof (cases "i < sl_num sl")
    case False
    then have "list_all (linked tm st c (c_str (GetAppend b))) (live sl)" using less.prems(7) num by (simp add: list_all_length)
    then show ?thesis using False less.prems(3,4) by (simp add: open_loop.simps [of _ _ i])
  next
    case True
    have i: "nat i < length (live sl)" "int (nat i) = i" using True less.prems(1) num by simp_all
    have rm: "room c (live sl ! nat i)" using less.prems(6) i by simp
    obtain rb' sl1 c1 sock where o: "open_node ce b i rb sl c = Inr (True, rb', sl1, c1)" "packet_buf rb'"
      "copy_of (members c) sl1" "live sl1 = (live sl)[nat i := (live sl ! nat i)\<lparr>sn_sock := sock\<rparr>]"
      "cloud_ok tc tm v st c1" "members c1 = members c" "cd_addr c1 = cd_addr c" "tables v c1 = tables v c"
      "linked tm st c1 (c_str (GetAppend b)) (live sl1 ! nat i)"
      "\<And>m n. linked tm st c m n \<Longrightarrow> linked tm st c1 m n"
      "\<And>n. addr n \<noteq> addr (live sl ! nat i) \<Longrightarrow> room c n \<Longrightarrow> room c1 n"
      using open_one [OF assms(1,2) less.prems(3,4) i(1) rm less.prems(2,5) assms(3-5)] i(2) by auto
    have n1: "sl_num sl1 = sl_num sl" "length (live sl1) = length (live sl)"
      using o(3) less.prems(4) o(4) by (simp_all add: copy_of_def)
    have "\<exists>sl' c'. open_loop ce b (i + 1) rb' sl1 c1 = Inr (0, sl', c') \<and> copy_of (members c1) sl'
      \<and> cloud_ok tc tm v st c' \<and> members c' = members c1 \<and> cd_addr c' = cd_addr c1 \<and> tables v c' = tables v c1
      \<and> list_all (linked tm st c' (c_str (GetAppend b))) (live sl') \<and> (\<forall>m n. linked tm st c1 m n \<longrightarrow> linked tm st c' m n)"
    proof (rule less.hyps)
      show "\<forall>j < length (live sl1). i + 1 \<le> int j \<longrightarrow> room c1 (live sl1 ! j)"
      proof (intro allI impI)
        fix j assume j: "j < length (live sl1)" "i + 1 \<le> int j"
        then have "j \<noteq> nat i" "j < length (live sl)" using n1(2) less.prems(1) by auto
        then have "addr (live sl ! j) \<noteq> addr (live sl ! nat i)" "room c (live sl ! j)"
          using linked_distinct [OF less.prems(3,4)] i(1) less.prems(6) j(2) by simp_all
        then show "room c1 (live sl1 ! j)" using o(11) \<open>j \<noteq> nat i\<close> by (simp add: o(4))
      qed
      show "\<forall>j < length (live sl1). int j < i + 1 \<longrightarrow> linked tm st c1 (c_str (GetAppend b)) (live sl1 ! j)"
      proof (intro allI impI)
        fix j assume j: "j < length (live sl1)" "int j < i + 1"
        show "linked tm st c1 (c_str (GetAppend b)) (live sl1 ! j)"
        proof (cases "j = nat i")
          case False
          then show ?thesis using j n1(2) less.prems(7) o(4,10) by simp
        qed (use o(9) in simp)
      qed
    qed (use True less.prems n1(1) o in simp_all)
    then show ?thesis using True o(1,6-8,10) by (auto simp: open_loop.simps [of _ _ i])
  qed
qed

definition has_room :: "('k, 'm, 'h, 'w) cloud client \<Rightarrow> bool" where
  "has_room s \<longleftrightarrow> (\<forall>n \<in> set (live (members (cl_w s))). room (cl_w s) n)"

lemma room_addr: "addr n = addr n' \<Longrightarrow> room c n = room c n'"
  by (simp add: room_def)

lemma net_create:
  assumes inv: "net_inv tc tm v st ce s" and rm: "has_room s" and name: "0 \<notin> set name" "length name < 127"
  shows "\<exists>p s'. NetDbApi.DBCreate ce name s = Inr (Some p, s') \<and> net_inv tc tm v st ce s' \<and> net_opened tm st s' p name
    \<and> net_table v s' = net_table v s \<and> (\<forall>q m. net_opened tm st s q m \<longrightarrow> net_opened tm st s' q m)"
proof -
  let ?L = "members (cl_w s)" and ?p = "cl_next s"
  let ?start = "s\<lparr>cl_dbname := name, cl_next := ?p + 1\<rparr>"
  have inv0: "net_inv tc tm v st ce ?start" using inv by (simp add: net_inv_def)
  obtain s1 where s1: "ReadCloudNodes ce (ce_list ce) ?start = Inr (0, ?L, s1)" "net_inv tc tm v st ce s1"
    "members (cl_w s1) = ?L" "cd_slaves (cl_w s1) = cd_slaves (cl_w s)" "cl_lists s1 = cl_lists s" "cl_next s1 = ?p + 1"
    "cl_dbname s1 = name" "\<And>m n. linked tm st (cl_w s) m n \<Longrightarrow> linked tm st (cl_w s1) m n"
    using read_nodes [OF inv0, of "ce_list ce"] by auto
  have env: "site_ok tc tm st" "ce_net ce = cloud_net st" "packet_buf (ce_buf ce)" "header_ok (ce_hdr ce)"
    using net_invD(1) [OF inv] by (simp_all add: client_env_ok_def)
  let ?h = "(ce_hdr ce)\<lparr>hd_cmd := cmd_code OPEN, hd_version := 0\<rparr>" and ?d = "name @ [0]"
  let ?b = "packet (ce_buf ce) ?h ?d"
  have h: "header_ok ?h" using env(4) by (simp add: header_ok_def int32_def)
  have d: "length ?d \<le> APPENDSIZE" using name(2) by (simp add: packet_consts)
  have ap: "snd (Append (WriteHeader (ce_buf ce) ?h) (name @ [0]) (int (length name) + 1)) = ?b"
    using Append_packet [OF env(3) d, of ?h] by (simp add: add.commute)
  have nm: "c_str (GetAppend ?b) = name" "0 \<in> set (GetAppend ?b)" using name(1) by (simp_all add: GetAppend_packet [OF env(3) d])
  have b: "plain_request ?b (sl_version (members (cl_w s1)))" "names OPEN (hd_key (ce_hdr ce)) ?b"
    using GetHeader_packet [OF env(3) h d] packet_buf_packet [OF env(3) d, of ?h]
    by (simp_all add: plain_request_def names_def for_slave_def word_le_nat_alt)
  have cp: "copy_of (members (cl_w s1)) ?L" using net_invD(3) [OF inv] by (simp add: copy_of_def ring_list_def s1(3))
  have rm1: "\<forall>j < length (live ?L). 0 \<le> int j \<longrightarrow> room (cl_w s1) (live ?L ! j)"
    using rm s1(4) nth_mem by (fastforce simp: has_room_def room_def)
  obtain sl' c' where o: "open_loop ce ?b 0 (ce_buf ce) ?L (cl_w s1) = Inr (0, sl', c')" "copy_of ?L sl'"
    "cloud_ok tc tm v st c'" "members c' = ?L" "cd_addr c' = cd_addr (cl_w s1)" "tables v c' = tables v (cl_w s1)"
    "list_all (linked tm st c' name) (live sl')" "\<And>m n. linked tm st (cl_w s1) m n \<Longrightarrow> linked tm st c' m n"
    using open_rest [OF env(1,2) b(2) nm(2) _ order_refl env(3) net_invD(2) [OF s1(2)] cp b(1) rm1] name(2)
    unfolding nm(1) s1(3) by auto
  let ?s = "s1\<lparr>cl_w := c', cl_lists := (cl_lists s)(?p \<mapsto> sl')\<rparr>"
  have "OpenAllCloudNodes ce (ce_list ce) ?start = Inr (0, sl', s1\<lparr>cl_w := c'\<rparr>)"
    using s1(1,7) ap o(1) by (simp add: OpenAllCloudNodes_def Let_def)
  then have run: "NetDbApi.DBCreate ce name s = Inr (Some ?p, ?s)"
    using name(2) s1(5) by (simp add: NetDbApi.DBCreate_def Let_def)
  have "net_inv tc tm v st ce ?s" using s1(2,6) o(3,5) inv by (auto simp: net_inv_def s1(5))
  moreover have "net_opened tm st ?s ?p name" using o(2,4,7) by (simp add: net_opened_def)
  moreover have "net_table v ?s = net_table v s"
  proof (rule net_table_cong)
    show "tables v (cl_w ?s) = tables v (cl_w s)" using o(6) s1(4) by (simp add: tables_def fun_eq_iff)
  qed (use o(4) in simp)
  moreover have "net_opened tm st s q m \<longrightarrow> net_opened tm st ?s q m" for q m
  proof
    assume q: "net_opened tm st s q m"
    then have "q \<noteq> ?p" using inv by (auto simp: net_opened_def net_inv_def)
    then show "net_opened tm st ?s q m" using q o(4,8) s1(8) by (auto simp: net_opened_def list_all_iff)
  qed
  ultimately show ?thesis using run by blast
qed

section \<open>The contract of \<open>Database.h\<close>, over the network\<close>

text \<open>
  All of it is kept but for reading. What the system adds to the contract: a name must fit the slaves' file names, a value must fit a packet,
  and every slave must have a descriptor left.
\<close>

definition net_name :: "bytes \<Rightarrow> bool" where
  "net_name n \<longleftrightarrow> 0 \<notin> set n \<and> length n < 127"

definition net_value :: "bytes \<Rightarrow> bool" where
  "net_value x \<longleftrightarrow> length (c_str x) < APPENDSIZE"

interpretation cloud: bounded_db "net_api ce" "net_inv tc tm v st ce" "net_opened tm st" "net_table v" has_room net_name net_value
proof (unfold_locales, goal_cases)
  case (1 s n)
  then show ?case using net_create [of tc tm v st ce s n] by (auto simp: net_api_def net_name_def)
next
  case (2 s d n x k)
  then show ?case using net_set [of tc tm v st ce s d n x k] by (simp add: net_api_def net_value_def)
next
  case (3 s d n k)
  then show ?case using net_del [of tc tm v st ce s d n k] by (simp add: net_api_def)
next
  case (4 s d n)
  then show ?case using net_delete [of tc tm v st ce s d n] by (auto simp: net_api_def)
qed

end
