(* ===== verification/NetSession.thy ===== *)
theory NetSession
  imports Cloud
begin

text \<open>
  What a user of the whole system gets: the client's database operations and its command loop, run against the
  model's own master and slave servers.
\<close>

section \<open>Properties\<close>

text \<open>C2: the distributed database stores what it is told, but no client can read it: against a master and slaves at rest, a
  client that opens a database, stores a value and closes is told that each step succeeded, the owner of the key holds the
  value, every other key and every other database is as before, and the system is at rest again. A fetch in between
  receives the value, but returns a pointer into the frame that it has just left, and to read there is a fault.\<close>

theorem network_stores:
  assumes "net_inv tc tm v st ce s" and "has_room s" and "net_name name" and "net_value x"
  shows "\<exists>p s1 s2 r s3 s4. NetDbApi.DBCreate ce name s = Inr (Some p, s1)
    \<and> NetDbApi.DBSetKeyValue ce (Some p) key x s1 = Inr (0, s2)
    \<and> NetDbApi.DBGetKeyValue ce (Some p) key s2 = Inr (DeadFrame r, s3) \<and> c_str r = c_str x
    \<and> read_value (DeadFrame r, s3) = Inl UseAfterFree
    \<and> NetDbApi.DBDelete ce (Some p) s3 = Inr (0, s4) \<and> net_inv tc tm v st ce s4
    \<and> net_table v s4 = (net_table v s)(name := (net_table v s name)(key \<mapsto> c_str x))"
proof -
  have n: "0 \<notin> set name" "length name < 127" using assms(3) by (simp_all add: net_name_def)
  obtain p s1 where 1: "NetDbApi.DBCreate ce name s = Inr (Some p, s1)" "net_inv tc tm v st ce s1" "net_opened tm st s1 p name"
    "net_table v s1 = net_table v s"
    using net_create [OF assms(1,2) n] by blast
  obtain s2 where 2: "NetDbApi.DBSetKeyValue ce (Some p) key x s1 = Inr (0, s2)" "net_inv tc tm v st ce s2"
    "net_opened tm st s2 = net_opened tm st s1" "net_table v s2 = (net_table v s1)(name := (net_table v s1 name)(key \<mapsto> c_str x))"
    using net_set [OF 1(2,3) assms(4) [unfolded net_value_def]] by blast
  obtain r s3 where 3: "NetDbApi.DBGetKeyValue ce (Some p) key s2 = Inr (DeadFrame r, s3)" "net_inv tc tm v st ce s3"
    "net_opened tm st s3 = net_opened tm st s2" "net_table v s3 = net_table v s2" "c_str r = c_str x"
    using net_get [OF 2(2), of p name key] 1(3) 2(3,4) by auto
  have "net_opened tm st s3 p name" using 1(3) 2(3) 3(3) by simp
  from net_delete [OF 3(2) this] show ?thesis using 1 2 3 by auto
qed

text \<open>C3: a session over the network, with a name that fits a file name of the slaves and a value that fits a packet, at the
  prompt of a client of a system at rest: after \<open>open\<close>, \<open>set\<close>, \<open>close\<close>, \<open>quit\<close> the loop has returned, the owner of the
  key holds the value, and no other record has changed. But \<open>get\<close> of the key that has just been set, whatever follows,
  reads through a pointer into a dead stack frame.\<close>

theorem network_session:
  assumes "net_inv tc tm v st ce (cm_db c)" and "has_room (cm_db c)" and "cm_hdb c = None"
    and "db_name name" and "length name < 127"
    and "list_all is_digit ds" and "ds \<noteq> []" and "db_value x" and "length ds + length x < 1000"
  shows "(\<exists>c'. input_loop (net_api ce) junk
      (line_open name @ 10 # line_set ds x @ 10 # line_close @ 10 # line_quit @ 10 # rest) c = Inr (rest, c')
    \<and> net_inv tc tm v st ce (cm_db c') \<and> cm_hdb c' = None
    \<and> net_table v (cm_db c') = (net_table v (cm_db c))(name := (net_table v (cm_db c) name)(word_of_int (atoi ds) \<mapsto> x)))
    \<and> input_loop (net_api ce) junk (line_open name @ 10 # line_set ds x @ 10 # line_get ds @ 10 # rest) c = Inl UseAfterFree"
proof -
  have "0 \<notin> set name" using assms(4) by (auto simp: db_name_def dest!: words_text)
  then have n: "net_name name" "length name < 1000" using assms(5) by (simp_all add: net_name_def)
  have "length (c_str x) \<le> length x" by (simp add: c_str_def length_takeWhile_le)
  then have x: "net_value x" using assms(9) by (simp add: net_value_def packet_consts)
  have "input_loop (net_api ce) junk (line_open name @ 10 # line_set ds x @ 10 # line_get ds @ 10 # rest) c = Inl UseAfterFree"
    by (rule cloud.get_session_faults [OF assms(1-4) n(2,1) assms(6-9) x]) (rule net_get_faults)
  then show ?thesis using cloud.store_session_runs [OF assms(1-4) n(2,1) assms(6-9) x, of junk rest] by blast
qed

subsection \<open>Witnesses\<close>

text \<open>A system of a master and two slaves with empty disks, and a client of it.\<close>

definition no_hdr :: db_header where
  "no_hdr = \<lparr>hd_size = 0, hd_cmd = 0, hd_key = 0, hd_version = 0\<rparr>"

definition a_master :: "unit host master" where
  "a_master = \<lparr>m_slaves = two_nodes, m_pos = 0, m_xbuf = zeros MAX_BUF_LEN, m_fd = 3, m_ip = 0, m_eintr = False,
    m_world = \<lparr>ho_in = (\<lambda>_. []), ho_out = (\<lambda>_. []), ho_next = 7, ho_peer = 16777343, ho_closed = [], ho_disk = ()\<rparr>\<rparr>"

definition a_site :: "((bytes \<times> nat OpenedDB option ClientSockHandle) list, (bytes \<times> nat OpenedDB) list, nat, disk) site" where
  "a_site = \<lparr>st_env = host_env disk_db alist_mdb no_hdr 10, st_sm = alist_mdb, st_ip0 = 0, st_worker = 0, st_hdr = no_hdr,
    st_rnd = 0, st_lsock = 3\<rparr>"

definition a_cloud :: "((bytes \<times> nat OpenedDB option ClientSockHandle) list, (bytes \<times> nat OpenedDB) list, nat, disk) cloud" where
  "a_cloud = \<lparr>cd_master = Some a_master, cd_addr = (16777343, 5001),
    cd_slaves = [(16777343, 4001) \<mapsto> idle_server, (16777343, 4002) \<mapsto> idle_server],
    cd_peer = (\<lambda>_. None), cd_in = (\<lambda>_. []), cd_next = 3\<rparr>"

definition cloud_env ::
  "((bytes \<times> nat OpenedDB option ClientSockHandle) list, (bytes \<times> nat OpenedDB) list, nat, disk) cloud cenv" where
  "cloud_env = \<lparr>ce_net = cloud_net a_site, ce_hdr = no_hdr, ce_list = two_nodes, ce_buf = zeros MAXPACKETLEN, ce_fuel = 1\<rparr>"

definition cloud_client ::
  "((bytes \<times> nat OpenedDB option ClientSockHandle) list, (bytes \<times> nat OpenedDB) list, nat, disk) cloud client" where
  "cloud_client = \<lparr>cl_master_sock = 0, cl_master_addr = None, cl_master_port = 5001, cl_dbname = [],
    cl_xbuf = zeros MAX_BUF_LEN, cl_next = 0, cl_lists = (\<lambda>_. None), cl_w = a_cloud\<rparr>"

lemma cloud_client_ok: "net_inv disk_db alist_mdb disk_view a_site cloud_env cloud_client" "has_room cloud_client"
proof -
  have h: "header_ok no_hdr" by (simp add: header_ok_def int32_def no_hdr_def)
  have mem: "members a_cloud = two_nodes" by (simp add: members_def a_cloud_def a_master_def)
  have up: "slave_up disk_db alist_mdb disk_view a_site 2 idle_server"
    using idle_server_ready by (simp add: slave_up_def a_site_def) (simp add: idle_server_def)
  have lv: "live two_nodes = [\<lparr>sn_ip = 16777343, sn_port = 4001, sn_sock = 5, sn_key = 100\<rparr>,
      \<lparr>sn_ip = 16777343, sn_port = 4002, sn_sock = 6, sn_key = 2100\<rparr>]"
    by (simp add: live_def two_nodes_def numeral_eq_Suc)
  have "master_up a_master"
    using two_nodes_ring two_nodes_ok by (simp add: master_up_def a_master_def) (simp add: two_nodes_def)
  moreover have "sl_version two_nodes = 2" by (simp add: two_nodes_def)
  ultimately have "cloud_ok disk_db alist_mdb disk_view a_site a_cloud"
    using up unfolding cloud_ok_def mem lv by (simp add: a_cloud_def addr_def)
  moreover have "client_env_ok disk_db alist_mdb a_site cloud_env"
    using h by (auto simp: client_env_ok_def site_ok_def a_site_def cloud_env_def)
  ultimately show "net_inv disk_db alist_mdb disk_view a_site cloud_env cloud_client"
    by (simp add: net_inv_def cloud_client_def LOCAL_ADDR_def packet_buf_def MAX_BUF_LEN_def packet_consts)
      (simp add: a_cloud_def)
  show "has_room cloud_client"
    unfolding has_room_def cloud_client_def client.simps mem lv
    by (simp add: room_def a_cloud_def addr_def idle_server_def idle_host_def)
qed

theorem network_stores_witness:
  "\<exists>p s1 s2 r s3 s4. NetDbApi.DBCreate cloud_env (ascii ''a.db'') cloud_client = Inr (Some p, s1)
    \<and> NetDbApi.DBSetKeyValue cloud_env (Some p) 7 (ascii ''hi'') s1 = Inr (0, s2)
    \<and> NetDbApi.DBGetKeyValue cloud_env (Some p) 7 s2 = Inr (DeadFrame r, s3) \<and> c_str r = c_str (ascii ''hi'')
    \<and> NetDbApi.DBDelete cloud_env (Some p) s3 = Inr (0, s4)"
proof -
  have n: "net_name (ascii ''a.db'')" by (simp add: net_name_def)
  have x: "net_value (ascii ''hi'')" by (simp add: net_value_def c_str_def packet_consts)
  from network_stores [OF cloud_client_ok n x, of 7] show ?thesis by blast
qed

theorem network_session_witness:
  "(\<exists>c'. input_loop (net_api cloud_env) []
      (line_open (ascii ''a.db'') @ 10 # line_set (ascii ''5'') (ascii ''hi'') @ 10 # line_close @ 10 # line_quit @ 10 # [])
      \<lparr>cm_hdb = None, cm_name = [], cm_out = [], cm_db = cloud_client\<rparr> = Inr ([], c'))
    \<and> input_loop (net_api cloud_env) []
      (line_open (ascii ''a.db'') @ 10 # line_set (ascii ''5'') (ascii ''hi'') @ 10 # line_get (ascii ''5'') @ 10 # [])
      \<lparr>cm_hdb = None, cm_name = [], cm_out = [], cm_db = cloud_client\<rparr> = Inl UseAfterFree"
proof -
  let ?c = "\<lparr>cm_hdb = None, cm_name = [], cm_out = [], cm_db = cloud_client\<rparr>"
  have i: "net_inv disk_db alist_mdb disk_view a_site cloud_env (cm_db ?c)" "has_room (cm_db ?c)" "cm_hdb ?c = None"
    using cloud_client_ok by simp_all
  have n: "db_name (ascii ''a.db'')" unfolding db_name_def
    by (rule exI [of _ "[97]"], rule exI [of _ "[]"]) (simp add: is_word_def to_lower_def)
  have x: "db_value (ascii ''hi'')" by (simp add: db_value_def text_line_def is_word_def to_lower_def)
  have k: "list_all is_digit (ascii ''5'')" "ascii ''5'' \<noteq> []" by (simp_all add: is_digit_def)
  have l: "length (ascii ''a.db'') < 127" "length (ascii ''5'') + length (ascii ''hi'') < 1000" by simp_all
  from network_session [OF i n l(1) k x l(2), of "[]" "[]"] show ?thesis by blast
qed

end
