(* ===== verification/Routing.thy ===== *)
theory Routing
  imports NetDbApi DbServer
begin

text \<open>
  Sections in \<^verbatim>\<open>server/slave.c\<close> and in \<^verbatim>\<open>client/netdbapi.c\<close>: the records that a slave hands to its new
  successor are chosen by one comparison of keys, the requests that clients send there by another.
\<close>

section \<open>Moving data and routing requests\<close>

text \<open>
  The records that a slave hands to its new successor are chosen by \<open>split_range\<close> on the keys
  as they are stored; requests are routed by \<open>GetSocket\<close> on the keys modulo \<open>MAX_KEY\<close>.
\<close>

lemma key_after_spec:
  assumes "ring_list (s_slaves s)" and "0 \<le> s_pos s + k" and "0 < sl_num (s_slaves s)"
  shows "key_after k s = Inr (keys (s_slaves s) ! nat ((s_pos s + k) mod sl_num (s_slaves s)))"
proof -
  let ?i = "(s_pos s + k) mod sl_num (s_slaves s)"
  have i: "0 \<le> ?i" "?i < sl_num (s_slaves s)" using assms(3) by simp_all
  obtain n where "get_node (sl_nodes (s_slaves s)) ?i = Inr n" "sn_key n = keys (s_slaves s) ! nat ?i"
    using get_node_live [OF assms(1) i] by blast
  then show ?thesis using assms(2,3) by (simp add: key_after_def c_rem_nonneg)
qed

lemma split_range_int:
  assumes "ring_key lo" and "ring_key up"
  shows "split_range (word_of_int lo) (word_of_int up) k \<longleftrightarrow>
    (if lo < up then lo < uint k \<and> uint k \<le> up else lo < uint k \<or> uint k \<le> up)"
proof -
  have u: "uint (word_of_int x :: u32) = x" if "ring_key x" for x
    using that by (simp add: uint_word_of_int ring_key_def MAX_KEY_def)
  show ?thesis
    by (auto simp: split_range_def Let_def word_less_def word_le_def u [OF assms(1)] u [OF assms(2)])
qed

text \<open>The section of the slave behind \<open>s\<close>, as \<open>HandleSlaveRequest\<close> reads it from the list.\<close>

lemma successor_section:
  assumes pos: "pos_ok s" and rl: "ring_list (s_slaves s)" and n: "2 \<le> sl_num (s_slaves s)"
  defines "p \<equiv> (s_pos s + 1) mod sl_num (s_slaves s)"
  shows "\<exists>lo up. key_after 1 s = Inr lo \<and> key_after 2 s = Inr up \<and> ring_key lo \<and> ring_key up \<and> lo \<noteq> up
    \<and> 0 \<le> p \<and> p < sl_num (s_slaves s)
    \<and> (\<forall>k. owner (keys (s_slaves s)) (nat p) k \<longleftrightarrow> in_section lo up k)"
proof -
  let ?n = "sl_num (s_slaves s)" and ?ks = "keys (s_slaves s)"
  let ?q = "(s_pos s + 2) mod ?n"
  have p: "0 \<le> p" "p < ?n" and q: "0 \<le> ?q" "?q < ?n" using n by (simp_all add: p_def)
  have k: "key_after 1 s = Inr (?ks ! nat p)" "key_after 2 s = Inr (?ks ! nat ?q)"
    using key_after_spec [OF rl, of 1] key_after_spec [OF rl, of 2] pos n by (simp_all add: pos_ok_def p_def)
  have pq: "c_rem (p + 1) ?n = ?q" using p by (simp add: c_rem_nonneg p_def mod_simps add.commute)
  have len: "length ?ks = nat ?n" using rl by (simp add: ring_list_def length_keys)
  have "p \<noteq> ?q"
  proof
    assume e: "p = ?q"
    have "?q = (p + 1) mod ?n" by (simp add: p_def mod_simps add.commute)
    also have "\<dots> = (if p + 1 = ?n then 0 else p + 1)" using p by auto
    finally show False using e n p by (auto split: if_splits)
  qed
  then have "nat p \<noteq> nat ?q" using p(1) q(1) by (simp only: eq_nat_nat_iff not_False_eq_True)
  then have "?ks ! nat p \<noteq> ?ks ! nat ?q"
    using ring_distinct rl p q len by (auto simp: ring_list_def nth_eq_iff_index_eq)
  moreover have "ring_key (?ks ! nat p)" "ring_key (?ks ! nat ?q)"
    using ring_list_key [OF rl p] ring_list_key [OF rl q] by simp_all
  ultimately show ?thesis using k p owner_iff [OF rl p] pq by auto
qed

lemma GetSocket_iff:
  assumes "ring_list sl" and "0 \<le> i" and "i < sl_num sl"
  shows "GetSocket sl k = Inr i \<longleftrightarrow> owner (keys sl) (nat i) (uint k mod MAX_KEY)"
proof -
  obtain j where j: "GetSocket sl k = Inr j" "0 \<le> j" "owner (keys sl) (nat j) (uint k mod MAX_KEY)"
    using GetSocket_owner [OF assms(1), of k] assms(2,3) by auto
  have "ring (keys sl)" "keys sl \<noteq> []" using assms(1) j(3) by (auto simp: ring_list_def owner_def)
  from ring_owner_unique [OF this, of "uint k mod MAX_KEY"]
  have "owner (keys sl) (nat i) (uint k mod MAX_KEY) \<longleftrightarrow> nat i = nat j" using j(3) by (metis (no_types))
  then show ?thesis using j(1) eq_nat_nat_iff [OF assms(2) j(2)] by (auto simp: eq_commute [of i])
qed

text \<open>That section is what \<open>SplitByKey\<close> moves, and what requests are routed by.\<close>

lemma split_routes:
  assumes "pos_ok s" and "ring_list (s_slaves s)" and "2 \<le> sl_num (s_slaves s)" and "uint k < MAX_KEY"
  shows "\<exists>lo up. key_after 1 s = Inr lo \<and> key_after 2 s = Inr up
    \<and> (split_range (word_of_int lo) (word_of_int up) k
       \<longleftrightarrow> GetSocket (s_slaves s) k = Inr ((s_pos s + 1) mod sl_num (s_slaves s)))"
proof -
  let ?p = "(s_pos s + 1) mod sl_num (s_slaves s)"
  obtain lo up where sec: "key_after 1 s = Inr lo" "key_after 2 s = Inr up" "ring_key lo" "ring_key up" "lo \<noteq> up"
    "0 \<le> ?p" "?p < sl_num (s_slaves s)" "\<forall>k. owner (keys (s_slaves s)) (nat ?p) k \<longleftrightarrow> in_section lo up k"
    using successor_section [OF assms(1-3)] by blast
  have k: "ring_key (uint k)" "uint k mod MAX_KEY = uint k" using assms(4) by (simp_all add: ring_key_def)
  have "GetSocket (s_slaves s) k = Inr ?p \<longleftrightarrow> in_section lo up (uint k)"
    using GetSocket_iff [OF assms(2) sec(6,7), of k] sec(8) k(2) by simp
  moreover have "split_range (word_of_int lo) (word_of_int up) k \<longleftrightarrow> in_section lo up (uint k)"
    using sec(5) unfolding split_range_int [OF sec(3,4)] in_section_iff [OF sec(3,4) k(1)] by auto
  ultimately have "split_range (word_of_int lo) (word_of_int up) k \<longleftrightarrow> GetSocket (s_slaves s) k = Inr ?p"
    by blast
  then show ?thesis using sec(1,2) by blast
qed

section \<open>Properties\<close>

text \<open>C13: a join moves exactly the keys that are routed to the new slave: the range with which
  a slave answers \<open>CLIP_DATA\<close>, from \<open>nodes[pos+1].key\<close> to \<open>nodes[pos+2].key\<close>, selects a
  stored key below \<open>MAX_KEY\<close> if and only if \<open>GetSocket\<close> sends requests for it to the slave at \<open>pos+1\<close>.\<close>

theorem join_moves_what_is_routed:
  assumes "pos_ok s" and "ring_list (s_slaves s)" and "2 \<le> sl_num (s_slaves s)" and "uint k < MAX_KEY"
  shows "\<exists>lo up. key_after 1 s = Inr lo \<and> key_after 2 s = Inr up
    \<and> (split_range (word_of_int lo) (word_of_int up) k
       \<longleftrightarrow> GetSocket (s_slaves s) k = Inr ((s_pos s + 1) mod sl_num (s_slaves s)))"
  by (rule split_routes [OF assms])

theorem join_moves_what_is_routed_witness:
  "\<exists>lo up. key_after 1 a_slave = Inr lo \<and> key_after 2 a_slave = Inr up
    \<and> (split_range (word_of_int lo) (word_of_int up) 3000 \<longleftrightarrow> GetSocket (s_slaves a_slave) 3000 = Inr 1)"
proof -
  have "pos_ok a_slave" "ring_list (s_slaves a_slave)" "2 \<le> sl_num (s_slaves a_slave)" "uint (3000 :: u32) < MAX_KEY"
    using two_nodes_ok two_nodes_ring by (simp_all add: pos_ok_def a_slave_def two_nodes_def MAX_KEY_def)
  moreover have "(s_pos a_slave + 1) mod sl_num (s_slaves a_slave) = 1" by (simp add: a_slave_def two_nodes_def)
  ultimately show ?thesis using join_moves_what_is_routed [of a_slave 3000] by simp
qed

text \<open>C36: keys from \<open>MAX_KEY\<close> on are moved by position, not by route: such a key, which
  \<open>GetSocket\<close> reduces and \<open>SplitByKey\<close> does not, goes over to a new slave exactly when the new
  slave's section wraps around zero, to whichever slave requests for it are sent.\<close>

theorem large_keys_ignore_routing:
  assumes "pos_ok s" and "ring_list (s_slaves s)" and "2 \<le> sl_num (s_slaves s)" and "MAX_KEY \<le> uint k"
  shows "\<exists>lo up. key_after 1 s = Inr lo \<and> key_after 2 s = Inr up
    \<and> (split_range (word_of_int lo) (word_of_int up) k \<longleftrightarrow> up < lo)"
proof -
  obtain lo up where sec: "key_after 1 s = Inr lo" "key_after 2 s = Inr up" "ring_key lo" "ring_key up" "lo \<noteq> up"
    using successor_section [OF assms(1-3)] by blast
  then have "split_range (word_of_int lo) (word_of_int up) k \<longleftrightarrow> up < lo"
    using assms(4) by (auto simp: split_range_int [OF sec(3,4)] ring_key_def)
  then show ?thesis using sec(1,2) by blast
qed

text \<open>Key 5000 is moved to slave 1, while slave 0 is asked for it.\<close>

theorem large_keys_ignore_routing_witness:
  "\<exists>lo up. key_after 1 a_slave = Inr lo \<and> key_after 2 a_slave = Inr up
    \<and> split_range (word_of_int lo) (word_of_int up) 5000 \<and> GetSocket (s_slaves a_slave) 5000 = Inr 0"
proof -
  have h: "pos_ok a_slave" "ring_list (s_slaves a_slave)" "2 \<le> sl_num (s_slaves a_slave)" "MAX_KEY \<le> uint (5000 :: u32)"
    using two_nodes_ok two_nodes_ring by (simp_all add: pos_ok_def a_slave_def two_nodes_def MAX_KEY_def)
  obtain lo up where k: "key_after 1 a_slave = Inr lo" "key_after 2 a_slave = Inr up"
    "split_range (word_of_int lo) (word_of_int up) 5000 \<longleftrightarrow> up < lo"
    using large_keys_ignore_routing [OF h] by blast
  have "lo = 2100" "up = 100"
    using k(1,2) by (simp_all add: key_after_def a_slave_def two_nodes_def get_node_def c_rem_nonneg)
  moreover have "GetSocket (s_slaves a_slave) 5000 = Inr 0"
    by (simp add: a_slave_def GetSocket_def socket_loop.simps [of _ _ 0] two_nodes_def get_node_def c_rem_nonneg
        holds_key_def MAX_KEY_def to_u32_def)
  ultimately show ?thesis using k by (intro exI [of _ lo] exI [of _ up]) simp
qed

end
