(* ===== verification/TcLift.thy ===== *)
theory TcLift
  imports TcDB
begin

text \<open>
  Tokyo Cabinet on a part of a larger world: its operations run on a component that is read by \<open>get\<close> and
  replaced by \<open>put\<close>. What it promises of the component it promises of the whole, and \<open>SplitByKey\<close>
  of \<^verbatim>\<open>server/tcDB.c\<close> changes nothing else.
\<close>

section \<open>Operations on a component\<close>

definition at_part :: "('v \<Rightarrow> 'w) \<Rightarrow> ('w \<Rightarrow> 'v \<Rightarrow> 'v) \<Rightarrow> ('w \<Rightarrow> 'r \<times> 'w) \<Rightarrow> 'v \<Rightarrow> 'r \<times> 'v" where
  "at_part get put f w = (let (r, d) = f (get w) in (r, put d w))"

definition lift_tc :: "('v \<Rightarrow> 'w) \<Rightarrow> ('w \<Rightarrow> 'v \<Rightarrow> 'v) \<Rightarrow> ('h, 'w) tchdb \<Rightarrow> ('h, 'v) tchdb" where
  "lift_tc get put tc = \<lparr>tchdbnew = at_part get put (tchdbnew tc), tchdbopen = (\<lambda>h n. at_part get put (tchdbopen tc h n)),
    tchdbclose = (\<lambda>h. at_part get put (tchdbclose tc h)), tchdbput = (\<lambda>h k x. at_part get put (tchdbput tc h k x)),
    tchdbget = (\<lambda>h k. at_part get put (tchdbget tc h k)), tchdbout = (\<lambda>h k. at_part get put (tchdbout tc h k)),
    tchdbrnum = (\<lambda>h w. tchdbrnum tc h (get w)), tchdbiterinit = (\<lambda>h. at_part get put (tchdbiterinit tc h)),
    tchdbiternext = (\<lambda>h. at_part get put (tchdbiternext tc h)), tchdbecode = (\<lambda>h w. tchdbecode tc h (get w)),
    tchdberrmsg = tchdberrmsg tc\<rparr>"

lemma lift_tc_simps:
  "tchdbnew (lift_tc get put tc) = at_part get put (tchdbnew tc)"
  "tchdbopen (lift_tc get put tc) h n = at_part get put (tchdbopen tc h n)"
  "tchdbclose (lift_tc get put tc) h = at_part get put (tchdbclose tc h)"
  "tchdbget (lift_tc get put tc) h k = at_part get put (tchdbget tc h k)"
  "tchdbput (lift_tc get put tc) h k x = at_part get put (tchdbput tc h k x)"
  "tchdbout (lift_tc get put tc) h k = at_part get put (tchdbout tc h k)"
  "tchdbiternext (lift_tc get put tc) h = at_part get put (tchdbiternext tc h)"
  "tchdbiterinit (lift_tc get put tc) h = at_part get put (tchdbiterinit tc h)"
  "tchdbrnum (lift_tc get put tc) h w = tchdbrnum tc h (get w)"
  "tchdbecode (lift_tc get put tc) h w = tchdbecode tc h (get w)" "tchdberrmsg (lift_tc get put tc) = tchdberrmsg tc"
  by (simp_all add: lift_tc_def)

definition lift_view :: "('v \<Rightarrow> 'w) \<Rightarrow> ('h, 'w) tc_view \<Rightarrow> ('h, 'v) tc_view" where
  "lift_view get v = \<lparr>fil = (\<lambda>w. fil v (get w)), hnd = (\<lambda>w. hnd v (get w)), pend = (\<lambda>w. pend v (get w))\<rparr>"

lemma lift_view_simps [simp]:
  "fil (lift_view get v) w = fil v (get w)" "hnd (lift_view get v) w = hnd v (get w)" "pend (lift_view get v) w = pend v (get w)"
  by (simp_all add: lift_view_def)

lemma lift_view_content [simp]: "content (lift_view get v) w = content v (get w)"
  by (simp add: content_def fun_eq_iff)

lemma at_partD:
  assumes "\<And>d w. get (put d w) = d" and "at_part get put f w = (r, w')"
  shows "f (get w) = (r, get w')"
  using assms by (auto simp: at_part_def split: prod.splits)

text \<open>An operation that observes and changes what the original does obeys the same laws.\<close>

lemma lift_laws:
  assumes gp: "\<And>d w. get (put d w) = d" and tc: "tchdb_laws tc v"
  shows "tchdb_laws (lift_tc get put tc) (lift_view get v)"
proof -
  note d = at_partD [where get = get and put = put, OF gp]
  have "open_laws (lift_tc get put tc) (lift_view get v)"
    unfolding open_laws_def lift_view_simps
    by (intro conjI allI impI) (auto simp: lift_tc_simps dest!: d dest: tchdbnewD [OF tc] tchdbopenD [OF tc] tchdbcloseD [OF tc])
  moreover have "record_laws (lift_tc get put tc) (lift_view get v)"
    unfolding record_laws_def lift_view_simps
    by (intro conjI allI impI) (auto simp: lift_tc_simps dest!: d dest: tchdbputD [OF tc] tchdbgetD [OF tc] tchdboutD [OF tc])
  moreover have "iter_laws (lift_tc get put tc) (lift_view get v)"
    unfolding iter_laws_def lift_view_simps
    by (intro conjI allI impI) (auto simp: lift_tc_simps dest!: d dest: tchdbrnumD [OF tc] tchdbiterinitD [OF tc] tchdbiternextD [OF tc])
  ultimately show ?thesis by (simp add: tchdb_laws_def)
qed

lemma fst_at_part [simp]: "fst (at_part get put f w) = fst (f (get w))"
  by (simp add: at_part_def split: prod.split)

lemma lift_reliable: "tchdb_reliable tc v \<Longrightarrow> tchdb_reliable (lift_tc get put tc) (lift_view get v)"
  by (auto simp: tchdb_reliable_def lift_tc_simps)

section \<open>\<open>SplitByKey\<close> on a component\<close>

text \<open>
  A run on the whole and the run on the component: the same fault, or the same result and the component of the
  world, which has kept \<open>P\<close> if no \<open>put\<close> breaks it.
\<close>

definition shadow :: "('a \<Rightarrow> 'b) \<Rightarrow> ('a \<Rightarrow> bool) \<Rightarrow> 'a exec \<Rightarrow> 'b exec \<Rightarrow> bool" where
  "shadow g P r r' \<longleftrightarrow> (case r of Inl e \<Rightarrow> r' = Inl e | Inr y \<Rightarrow> r' = Inr (g y) \<and> P y)"

abbreviation shadow3 :: "('v \<Rightarrow> 'w) \<Rightarrow> ('v \<Rightarrow> bool) \<Rightarrow> ('r \<times> 'st \<times> 'v) exec \<Rightarrow> ('r \<times> 'st \<times> 'w) exec \<Rightarrow> bool" where
  "shadow3 get P \<equiv> shadow (\<lambda>(x, st, w). (x, st, get w)) (\<lambda>(x, st, w). P w)"

lemma shadow_simps [simp]: "shadow g P (Inr y) r' \<longleftrightarrow> r' = Inr (g y) \<and> P y" "shadow g P (Inl e) r' \<longleftrightarrow> r' = Inl e"
  by (simp_all add: shadow_def)

lemma shadow_bind:
  assumes "shadow g P r r'" and "\<And>y. r = Inr y \<Longrightarrow> P y \<Longrightarrow> shadow h Q (f y) (f' (g y))"
  shows "shadow h Q (andThen r f) (andThen r' f')"
  using assms by (cases r) auto

definition kept :: "('v \<Rightarrow> 'w) \<Rightarrow> ('w \<Rightarrow> 'v \<Rightarrow> 'v) \<Rightarrow> ('v \<Rightarrow> bool) \<Rightarrow> bool" where
  "kept get put P \<longleftrightarrow> (\<forall>d w. get (put d w) = d) \<and> (\<forall>d w. P w \<longrightarrow> P (put d w))"

lemma keptD: "kept get put P \<Longrightarrow> get (put d w) = d" "kept get put P \<Longrightarrow> P w \<Longrightarrow> P (put d w)"
  by (simp_all add: kept_def)

lemma shadow_create:
  assumes k: "kept get put P" and P: "P w"
  shows "shadow3 get P (DBCreate (lift_tc get put tc) tm n st w) (DBCreate tc tm n st (get w))"
  using P by (auto simp: keptD [OF k] lift_tc_simps at_part_def DBCreate_def AddOpenedDB_def Let_def split: option.splits prod.splits)

lemma shadow_delete:
  assumes k: "kept get put P" and P: "P w"
  shows "shadow3 get P (DBDelete (lift_tc get put tc) tm db st w) (DBDelete tc tm db st (get w))"
  using P by (auto simp: keptD [OF k] lift_tc_simps at_part_def DBDelete_def andThen_def Let_def split: option.splits prod.splits sum.splits)

lemma shadow_next:
  assumes k: "kept get put P" and P: "P w"
  shows "shadow (\<lambda>(k, w). (k, get w)) (\<lambda>(k, w). P w) (next_key (lift_tc get put tc) h w) (next_key tc h (get w))"
  using P by (auto simp: keptD [OF k] next_key_def lift_tc_simps at_part_def split: prod.splits option.splits)

lemma shadow_move:
  assumes k: "kept get put P" and P: "P w"
  shows "shadow get P (move_record (lift_tc get put tc) a b k w) (move_record tc a b k (get w))"
  using P by (auto simp: keptD [OF k] move_record_def lift_tc_simps at_part_def Let_def split: prod.splits option.splits)

lemma shadow_move_loop:
  assumes "kept get put P"
  shows "P w \<Longrightarrow> shadow get P (move_loop (lift_tc get put tc) sel a b n w) (move_loop tc sel a b n (get w))"
proof (induction n arbitrary: w)
  case (Suc n)
  have "shadow get P (if sel k then move_record (lift_tc get put tc) a b k u else Inr u)
      (if sel k then move_record tc a b k (get u) else Inr (get u))" if "P u" for k u
    using shadow_move [OF assms that, of tc a b k] that by (cases "sel k") simp_all
  then show ?case unfolding move_loop.simps
    by (intro shadow_bind [OF shadow_next [OF assms Suc.prems]]) (auto intro!: shadow_bind Suc.IH)
qed simp

lemma shadow_close2:
  assumes k: "kept get put P" and P: "P w"
  shows "shadow3 get P
    (andThen (move_loop (lift_tc get put tc) sel a b n w) (\<lambda>w. andThen (DBDelete (lift_tc get put tc) tm p st w) (\<lambda>(_, st, w).
      andThen (DBDelete (lift_tc get put tc) tm q st w) (\<lambda>(_, st, w). Inr (x, st, w)))))
    (andThen (move_loop tc sel a b n (get w)) (\<lambda>w. andThen (DBDelete tc tm p st w) (\<lambda>(_, st, w).
      andThen (DBDelete tc tm q st w) (\<lambda>(_, st, w). Inr (x, st, w)))))"
  by (rule shadow_bind [OF shadow_move_loop [OF k P]], rule shadow_bind [OF shadow_delete [OF k]], assumption, clarsimp,
      rule shadow_bind [OF shadow_delete [OF k]], assumption, clarsimp)

lemma shadow_split:
  assumes k: "kept get put P" and P: "P w"
  shows "shadow3 get P (SplitByKey (lift_tc get put tc) tm a lo b up st w) (SplitByKey tc tm a lo b up st (get w))"
  unfolding SplitByKey_def
  by (rule shadow_bind [OF shadow_create [OF k P]], clarsimp, rule shadow_bind [OF shadow_create [OF k]], assumption, clarsimp split: option.split)
    (auto simp: keptD [OF k] lift_tc_simps at_part_def Let_def shadow_close2 [OF k] shadow_close2 [OF k, where w = "put d w" for d w, simplified keptD(1) [OF k]] split: prod.split)

lemma shadow_merge:
  assumes k: "kept get put P" and P: "P w"
  shows "shadow3 get P (Merge2Files (lift_tc get put tc) tm a b st w) (Merge2Files tc tm a b st (get w))"
proof -
  have loop: "shadow3 get P (andThen (move_loop (lift_tc get put tc) sel h h' n w) (\<lambda>w. Inr (x, st, w)))
      (andThen (move_loop tc sel h h' n d) (\<lambda>w. Inr (x, st, w)))" if "P w" "d = get w" for sel h h' n w d st and x :: int
    unfolding that(2) by (rule shadow_bind [OF shadow_move_loop [OF k that(1)]]) simp
  show ?thesis unfolding Merge2Files_def
    by (rule shadow_bind [OF shadow_create [OF k P]], clarsimp, rule shadow_bind [OF shadow_create [OF k]], assumption, clarsimp split: option.split)
      (auto simp: keptD [OF k] lift_tc_simps at_part_def Let_def split: prod.split intro!: loop)
qed

definition in_part :: "('w \<Rightarrow> 'v \<Rightarrow> 'v) \<Rightarrow> 'v \<Rightarrow> ('r \<times> 'st \<times> 'w) exec \<Rightarrow> ('r \<times> 'st \<times> 'v) exec" where
  "in_part put w r = andThen r (\<lambda>(x, st, d). Inr (x, st, put d w))"

lemma in_part_simps [simp]: "in_part put w (Inr (x, st, d)) = Inr (x, st, put d w)" "in_part put w (Inl e) = Inl e"
  by (simp_all add: in_part_def)

definition part_of :: "('v \<Rightarrow> 'w) \<Rightarrow> ('w \<Rightarrow> 'v \<Rightarrow> 'v) \<Rightarrow> bool" where
  "part_of get put \<longleftrightarrow> (\<forall>d w. get (put d w) = d) \<and> (\<forall>d e w. put d (put e w) = put d w) \<and> (\<forall>w. put (get w) w = w)"

lemma part_ofD [simp]:
  assumes "part_of get put"
  shows "get (put d w) = d" and "put d (put e w) = put d w" and "put (get w) w = w"
  using assms by (simp_all add: part_of_def)

text \<open>On a part of a record the rest of the world is what it was.\<close>

lemma part_kept:
  assumes "part_of get put"
  shows "kept get put (\<lambda>u. \<exists>d. u = put d w)" and "\<exists>d. w = put d w"
  using assms by (auto simp: kept_def intro: exI [of _ "get w"])

lemma shadow_in_part:
  assumes "part_of get put" and "shadow3 get (\<lambda>u. \<exists>d. u = put d w) r r'"
  shows "r = in_part put w r'"
  using assms by (auto simp: shadow_def in_part_def split: sum.splits)

lemma lift_merge:
  assumes part: "part_of get put"
  shows "Merge2Files (lift_tc get put tc) tm a b st w = in_part put w (Merge2Files tc tm a b st (get w))"
  by (rule shadow_in_part [OF part shadow_merge [OF part_kept [OF part]]])

lemma lift_split:
  assumes part: "part_of get put"
  shows "SplitByKey (lift_tc get put tc) tm a lo b up st w = in_part put w (SplitByKey tc tm a lo b up st (get w))"
  by (rule shadow_in_part [OF part shadow_split [OF part_kept [OF part]]])

end
