(* ===== verification/ByteDisk.thy ===== *)
theory ByteDisk
  imports TcLift FileTransfer
begin

text \<open>
  Databases are files: what a program has to know to copy the file of a closed database, to send it to another
  machine and to open it there. \<open>file_laws\<close> and \<open>shell_laws\<close> say it of a disk on which both Tokyo Cabinet
  and the C library work; the instance at the end stores records as bytes.
\<close>

section \<open>Files and databases\<close>

text \<open>
  \<open>recs\<close> gives the records of a file from its bytes. It is the records of a database as long as no handle is open on
  it; closing a handle leaves a file, and replacing a file replaces the records.
\<close>

definition closed :: "('h, 'd) tc_view \<Rightarrow> 'd \<Rightarrow> bytes \<Rightarrow> bool" where
  "closed v d n \<longleftrightarrow> (\<forall>h. hnd v d h \<noteq> Some n)"

definition file_laws :: "'d filesys \<Rightarrow> ('h, 'd) tchdb \<Rightarrow> ('h, 'd) tc_view \<Rightarrow> (bytes \<Rightarrow> bytes \<rightharpoonup> bytes) \<Rightarrow> bool" where
  "file_laws fs tc v recs \<longleftrightarrow> fs_ok fs
    \<and> (\<forall>n b d. hnd v (fs_put fs n b d) = hnd v d)
    \<and> (\<forall>n b d. closed v d n \<longrightarrow> fil v (fs_put fs n b d) = (fil v d)(n := recs b))
    \<and> (\<forall>n m b d. m \<noteq> n \<longrightarrow> fil v (fs_put fs n b d) m = fil v d m)
    \<and> (\<forall>n b d. closed v d n \<longrightarrow> fs_read fs n d = Some b \<longrightarrow> fil v d n = recs b)
    \<and> (\<forall>n d. closed v d n \<longrightarrow> fs_read fs n d = None \<longrightarrow> fil v d n = Map.empty)
    \<and> (\<forall>h n d d'. hnd v d h = Some n \<longrightarrow> tchdbclose tc h d = (True, d') \<longrightarrow> fs_read fs n d' \<noteq> None)"

text \<open>
  The shell, for the commands of joins and departures. \<open>mv backup1//*.bac backup2//\<close> and its reverse, whether they
  succeed or not, touch only files in directories. The only other command moves a file of the working directory into
  \<open>backup1\<close> under the name of a backup. On a machine where the two directories have been made, which the program does not do, and
  the disk is in order, it exits with 0 and has renamed the file; of an \<open>mv\<close> that fails, which the program only reports, nothing is
  said. The names have to be words that the shell takes as they are and \<open>mv\<close> does not take for options. No command reaches into the running
  process; but of a handle that was opened on a file in a directory nothing is said once such files have been moved.
\<close>

definition backup_name :: "bytes \<Rightarrow> bytes" where
  "backup_name m = BACKUP1_DIR @ ascii ''//'' @ m @ BACKUP_POSTFIX"

definition plain_char :: "8 word \<Rightarrow> bool" where
  "plain_char c \<longleftrightarrow> 48 \<le> c \<and> c \<le> 57 \<or> 65 \<le> c \<and> c \<le> 90 \<or> 97 \<le> c \<and> c \<le> 122 \<or> c = 45 \<or> c = 46 \<or> c = 95 \<or> c = 126"

text \<open>Letters, digits, \<open>-\<close>, \<open>.\<close>, \<open>_\<close> and \<open>~\<close>, none of the punctuation in front.\<close>

definition shell_word :: "bytes \<Rightarrow> bool" where
  "shell_word n \<longleftrightarrow> n \<noteq> [] \<and> list_all plain_char n \<and> hd n \<notin> {45, 46, 126}"

lemma shell_wordD:
  assumes "shell_word n"
  shows "n \<noteq> []" and "set n \<inter> {0, 32, 42, 47} = {}"
proof -
  have "\<And>c. c \<in> {0, 32, 42, 47} \<Longrightarrow> \<not> plain_char c" by (auto simp: plain_char_def)
  then show "n \<noteq> []" "set n \<inter> {0, 32, 42, 47} = {}" using assms by (auto simp: shell_word_def list_all_iff)
qed

lemma shell_word_tmp: "shell_word n \<Longrightarrow> shell_word (n @ [126])"
  by (simp add: shell_word_def plain_char_def)

definition shell_laws :: "'d filesys \<Rightarrow> ('h, 'd) tc_view \<Rightarrow> (bytes \<Rightarrow> bytes \<rightharpoonup> bytes) \<Rightarrow> bool" where
  "shell_laws fs v recs \<longleftrightarrow>
    (\<forall>c d r d'. c = ascii ''mv backup1//*.bac backup2//'' \<or> c = ascii ''mv backup2//*.bac backup1//'' \<longrightarrow>
       fs_system fs c d = (r, d') \<longrightarrow>
       (\<forall>h. (\<forall>n. hnd v d h = Some n \<longrightarrow> 47 \<notin> set n) \<longrightarrow> hnd v d' h = hnd v d h)
       \<and> (\<forall>n. 47 \<notin> set n \<longrightarrow> fs_read fs n d' = fs_read fs n d \<and> fil v d' n = fil v d n))
    \<and> (\<forall>a n b x d r d'. shell_word a \<longrightarrow> shell_word n \<longrightarrow> b = backup_name n \<longrightarrow>
       fs_read fs a d = Some x \<longrightarrow> closed v d a \<longrightarrow> closed v d b \<longrightarrow>
       fs_system fs (ascii ''mv '' @ a @ [32] @ b) d = (r, d') \<longrightarrow>
       r = 0 \<and> hnd v d' = hnd v d \<and> fs_read fs a d' = None \<and> fs_read fs b d' = Some x
       \<and> fil v d' = (fil v d)(a := Map.empty, b := recs x))"

lemma file_lawsD:
  assumes "file_laws fs tc v recs"
  shows "fs_ok fs" and "hnd v (fs_put fs n b d) = hnd v d"
    and "closed v d n \<Longrightarrow> fil v (fs_put fs n b d) = (fil v d)(n := recs b)"
    and "closed v d n \<Longrightarrow> fs_read fs n d = Some b \<Longrightarrow> fil v d n = recs b"
    and "closed v d n \<Longrightarrow> fs_read fs n d = None \<Longrightarrow> fil v d n = Map.empty"
    and "hnd v d h = Some n \<Longrightarrow> tchdbclose tc h d = (True, d') \<Longrightarrow> fs_read fs n d' \<noteq> None"
    and "m \<noteq> n \<Longrightarrow> fil v (fs_put fs n b d) m = fil v d m"
  using assms unfolding file_laws_def by blast+

lemma shell_lawsD:
  assumes "shell_laws fs v recs"
  shows "c = ascii ''mv backup1//*.bac backup2//'' \<or> c = ascii ''mv backup2//*.bac backup1//'' \<Longrightarrow> fs_system fs c d = (r, d') \<Longrightarrow>
      (\<forall>h. (\<forall>n. hnd v d h = Some n \<longrightarrow> 47 \<notin> set n) \<longrightarrow> hnd v d' h = hnd v d h)
      \<and> (\<forall>n. 47 \<notin> set n \<longrightarrow> fs_read fs n d' = fs_read fs n d \<and> fil v d' n = fil v d n)"
    and "shell_word a \<Longrightarrow> shell_word n \<Longrightarrow> b = backup_name n \<Longrightarrow> fs_read fs a d = Some x \<Longrightarrow>
      closed v d a \<Longrightarrow> closed v d b \<Longrightarrow> fs_system fs (ascii ''mv '' @ a @ [32] @ b) d = (r, d') \<Longrightarrow>
      r = 0 \<and> hnd v d' = hnd v d \<and> fs_read fs a d' = None \<and> fs_read fs b d' = Some x
      \<and> fil v d' = (fil v d)(a := Map.empty, b := recs x)"
proof -
  note l = assms [unfolded shell_laws_def]
  show "c = ascii ''mv backup1//*.bac backup2//'' \<or> c = ascii ''mv backup2//*.bac backup1//'' \<Longrightarrow> fs_system fs c d = (r, d') \<Longrightarrow>
      (\<forall>h. (\<forall>n. hnd v d h = Some n \<longrightarrow> 47 \<notin> set n) \<longrightarrow> hnd v d' h = hnd v d h)
      \<and> (\<forall>n. 47 \<notin> set n \<longrightarrow> fs_read fs n d' = fs_read fs n d \<and> fil v d' n = fil v d n)"
    by (rule l [THEN conjunct1, THEN spec, THEN spec, THEN spec, THEN spec, THEN mp, THEN mp])
  show "shell_word a \<Longrightarrow> shell_word n \<Longrightarrow> b = backup_name n \<Longrightarrow> fs_read fs a d = Some x \<Longrightarrow>
      closed v d a \<Longrightarrow> closed v d b \<Longrightarrow> fs_system fs (ascii ''mv '' @ a @ [32] @ b) d = (r, d') \<Longrightarrow>
      r = 0 \<and> hnd v d' = hnd v d \<and> fs_read fs a d' = None \<and> fs_read fs b d' = Some x
      \<and> fil v d' = (fil v d)(a := Map.empty, b := recs x)"
    by (rule l [THEN conjunct2, THEN spec, THEN spec, THEN spec, THEN spec, THEN spec, THEN spec, THEN spec, THEN mp, THEN mp, THEN mp, THEN mp, THEN mp, THEN mp, THEN mp])
qed

section \<open>A disk of bytes\<close>

text \<open>A string is its length in unary, a zero and its bytes; a file is the strings of its records.\<close>

definition enc_str :: "bytes \<Rightarrow> bytes" where
  "enc_str s = replicate (length s) 1 @ 0 # s"

definition dec_str :: "bytes \<Rightarrow> bytes \<times> bytes" where
  "dec_str b = (let n = length (takeWhile (\<lambda>x. x = 1) b); r = drop (Suc n) b in (take n r, drop n r))"

definition enc_recs :: "(bytes \<times> bytes) list \<Rightarrow> bytes" where
  "enc_recs al = concat (map (\<lambda>(k, x). enc_str k @ enc_str x) al)"

lemma dec_str_shorter: "b \<noteq> [] \<Longrightarrow> length (snd (dec_str b)) < length b"
  by (cases b) (auto simp: dec_str_def Let_def)

function dec_recs :: "bytes \<Rightarrow> (bytes \<times> bytes) list" where
  "dec_recs b =
    (if b = [] then [] else
     let (k, r) = dec_str b; (x, r') = dec_str r in (k, x) # (if length r' < length b then dec_recs r' else []))"
  by pat_completeness auto
termination by (relation "measure length") auto

declare dec_recs.simps [simp del]

lemma dec_enc_str: "dec_str (enc_str s @ r) = (s, r)"
proof -
  have "takeWhile (\<lambda>x. x = 1) (enc_str s @ r) = replicate (length s) 1"
    by (simp add: enc_str_def takeWhile_append)
  then show ?thesis by (simp add: dec_str_def enc_str_def Let_def)
qed

lemma dec_enc_recs [simp]: "dec_recs (enc_recs al) = al"
proof (induction al)
  case Nil
  then show ?case by (simp add: enc_recs_def dec_recs.simps)
next
  case (Cons p al)
  obtain k x where p: "p = (k, x)" by (cases p)
  have e: "enc_recs (p # al) = enc_str k @ enc_str x @ enc_recs al" by (simp add: enc_recs_def p)
  have "enc_str k @ enc_str x @ enc_recs al \<noteq> []" by (simp add: enc_str_def)
  moreover have "length (enc_recs al) < length (enc_str k @ enc_str x @ enc_recs al)" by (simp add: enc_str_def)
  ultimately show ?case unfolding e using Cons.IH by (subst dec_recs.simps) (simp add: dec_enc_str p)
qed

record bdisk =
  bd_file :: "bytes \<rightharpoonup> bytes"
  bd_hnd :: "(nat \<times> bytes) list"
  bd_pend :: "nat \<Rightarrow> bytes list"

definition bd_disk :: "bdisk \<Rightarrow> disk" where
  "bd_disk d = \<lparr>dk_file = (\<lambda>n. case bd_file d n of None \<Rightarrow> [] | Some b \<Rightarrow> dec_recs b), dk_hnd = bd_hnd d, dk_pend = bd_pend d\<rparr>"

text \<open>A file is written when its records change, or when it is open and not there yet.\<close>

definition bd_put :: "disk \<Rightarrow> bdisk \<Rightarrow> bdisk" where
  "bd_put k d = \<lparr>bd_file = (\<lambda>n. if dk_file k n = dk_file (bd_disk d) n \<and> (bd_file d n \<noteq> None \<or> n \<notin> snd ` set (bd_hnd d))
      then bd_file d n else Some (enc_recs (dk_file k n))), bd_hnd = dk_hnd k, bd_pend = dk_pend k\<rparr>"

lemma bd_disk_put [simp]: "bd_disk (bd_put k d) = k"
  by (cases k) (auto simp: bd_disk_def bd_put_def fun_eq_iff)

definition byte_db :: "(nat, bdisk) tchdb" where "byte_db = lift_tc bd_disk bd_put disk_db"
definition byte_view :: "(nat, bdisk) tc_view" where "byte_view = lift_view bd_disk disk_view"

lemma byte_db_laws: "tchdb_laws byte_db byte_view" "tchdb_reliable byte_db byte_view"
  unfolding byte_db_def byte_view_def by (rule lift_laws [OF _ disk_db_laws]) (simp_all add: lift_reliable disk_db_reliable)

text \<open>What it writes is the strings of records.\<close>

definition well_written :: "bdisk \<Rightarrow> bool" where
  "well_written d \<longleftrightarrow> (\<forall>n b. bd_file d n = Some b \<longrightarrow> b = enc_recs (dec_recs b))"

lemma byte_kept: "kept bd_disk bd_put well_written"
  unfolding kept_def by (intro conjI allI impI, rule bd_disk_put) (auto simp: well_written_def bd_put_def split: if_splits)

lemma byte_split:
  assumes "well_written d" and "SplitByKey byte_db tm a lo b up st d = Inr (r, st', d')" and "bd_file d' n = Some x"
  shows "\<exists>k. SplitByKey disk_db tm a lo b up st (bd_disk d) = Inr (r, st', k) \<and> x = enc_recs (dk_file k n)"
proof -
  from shadow_split [OF byte_kept assms(1), of disk_db tm a lo b up st] assms(2)
  have "SplitByKey disk_db tm a lo b up st (bd_disk d) = Inr (r, st', bd_disk d')" "well_written d'"
    by (simp_all add: byte_db_def)
  moreover have "dk_file (bd_disk d') n = dec_recs x" using assms(3) by (simp add: bd_disk_def)
  ultimately show ?thesis using assms(3) unfolding well_written_def by metis
qed

text \<open>A shell that knows \<open>mv a b\<close> for files, and moves all of one backup directory to the other.\<close>

definition move_dir :: "bytes \<Rightarrow> bytes \<Rightarrow> bdisk \<Rightarrow> bdisk" where
  "move_dir p q d = d\<lparr>bd_file := (\<lambda>n.
    if take (length q) n = q \<and> bd_file d (p @ drop (length q) n) \<noteq> None then bd_file d (p @ drop (length q) n)
    else if take (length p) n = p then None else bd_file d n)\<rparr>"

lemma move_dir_plain: "47 \<in> set p \<Longrightarrow> 47 \<in> set q \<Longrightarrow> 47 \<notin> set n \<Longrightarrow> bd_file (move_dir p q d) n = bd_file d n"
  using in_set_takeD [of 47 "length p" n] in_set_takeD [of 47 "length q" n] by (auto simp: move_dir_def)

lemma move_dir_hnd [simp]: "bd_hnd (move_dir p q d) = bd_hnd d"
  by (simp add: move_dir_def)

definition bd_shell :: "bytes \<Rightarrow> bdisk \<Rightarrow> int \<times> bdisk" where
  "bd_shell c d =
    (let r = drop 3 c; a = takeWhile (\<lambda>x. x \<noteq> 32) r; b = drop (Suc (length a)) r in
     if take 3 c = ascii ''mv '' \<and> 42 \<notin> set a then
       (case bd_file d a of None \<Rightarrow> (1, d) | Some x \<Rightarrow> (0, d\<lparr>bd_file := (bd_file d)(a := None, b \<mapsto> x)\<rparr>))
     else if c = ascii ''mv backup1//*.bac backup2//'' then (0, move_dir (ascii ''backup1//'') (ascii ''backup2//'') d)
     else if c = ascii ''mv backup2//*.bac backup1//'' then (0, move_dir (ascii ''backup2//'') (ascii ''backup1//'') d)
     else (1, d))"

definition byte_fs :: "bdisk filesys" where
  "byte_fs = \<lparr>fs_read = (\<lambda>n d. bd_file d n), fs_put = (\<lambda>n b d. d\<lparr>bd_file := (bd_file d)(n \<mapsto> b)\<rparr>), fs_system = bd_shell\<rparr>"

definition byte_recs :: "bytes \<Rightarrow> bytes \<rightharpoonup> bytes" where
  "byte_recs b = map_of (dec_recs b)"

lemma byte_view_simps:
  "hnd byte_view d = map_of (bd_hnd d)"
  "fil byte_view d n = (case bd_file d n of None \<Rightarrow> Map.empty | Some b \<Rightarrow> byte_recs b)"
  by (simp_all add: byte_view_def disk_view_def bd_disk_def byte_recs_def split: option.split)

lemma byte_file_laws: "file_laws byte_fs byte_db byte_view byte_recs"
proof -
  have "bd_file d' n \<noteq> None"
    if "map_of (bd_hnd d) h = Some n" and "tchdbclose byte_db h d = (True, d')" for h n d d'
  proof -
    have "n \<in> snd ` set (bd_hnd d)" using map_of_SomeD [OF that(1)] by force
    moreover have "d' = bd_put (snd (tchdbclose disk_db h (bd_disk d))) d"
      using that(2) by (simp add: byte_db_def lift_tc_simps at_part_def split: prod.splits)
    ultimately show ?thesis by (auto simp: bd_put_def)
  qed
  then show ?thesis
    by (auto simp: file_laws_def fs_ok_def byte_fs_def byte_view_simps fun_eq_iff)
qed

lemma byte_shell_laws: "shell_laws byte_fs byte_view byte_recs"
proof -
  have "bd_shell (ascii ''mv backup1//*.bac backup2//'') d = (0, move_dir (ascii ''backup1//'') (ascii ''backup2//'') d)"
    "bd_shell (ascii ''mv backup2//*.bac backup1//'') d = (0, move_dir (ascii ''backup2//'') (ascii ''backup1//'') d)" for d
    by (simp_all add: bd_shell_def)
  moreover have "bd_file (move_dir (ascii ''backup1//'') (ascii ''backup2//'') d) n = bd_file d n"
    "bd_file (move_dir (ascii ''backup2//'') (ascii ''backup1//'') d) n = bd_file d n" if "47 \<notin> set n" for n d
    using that by (simp_all add: move_dir_plain)
  moreover have "bd_shell (ascii ''mv '' @ a @ [32] @ b) d = (0, d\<lparr>bd_file := (bd_file d)(a := None, b \<mapsto> x)\<rparr>)"
    if "set a \<inter> {32, 42, 47} = {}" and "bd_file d a = Some x" for a b d x
  proof -
    have "takeWhile (\<lambda>x. x \<noteq> 32) (a @ 32 # b) = a" using that(1) by (subst takeWhile_append2) auto
    then show ?thesis using that by (simp add: bd_shell_def Let_def)
  qed
  moreover have "set a \<inter> {32, 42, 47} = {}" if "shell_word a" for a using shell_wordD(2) [OF that] by blast
  moreover have "a \<noteq> backup_name n" if "shell_word a" for a n
    using shell_wordD(2) [OF that] by (auto simp: backup_name_def)
  ultimately show ?thesis by (auto simp: shell_laws_def byte_fs_def byte_view_simps fun_eq_iff)
qed

end
