(* ===== verification/HandOver.thy ===== *)
theory HandOver
  imports Routing ByteDisk
begin

text \<open>
  A join moves data between two machines: the slave before the newcomer answers \<open>CLIP_DATA\<close> with
  \<open>HandleSlaveRequest\<close>, which splits its database file and sends the cut-off part, and the newcomer runs
  \<open>ClipDataFromPre\<close>, which stores it. Both run here against each other, each on a machine with one disk for
  Tokyo Cabinet, the C library and the shell.
\<close>

section \<open>A machine\<close>

definition party_tc :: "('h, 'd) tchdb \<Rightarrow> ('h, 'd party) tchdb" where
  "party_tc tc = lift_tc pdisk (\<lambda>d w. w\<lparr>pdisk := d\<rparr>) tc"

definition node_env ::
  "'d filesys \<Rightarrow> ('h, 'd) tchdb \<Rightarrow> ('m, 'h OpenedDB) tcmdb \<Rightarrow> db_header \<Rightarrow> nat \<Rightarrow> ('h, 'm, 'd party) env" where
  "node_env fs tc tm hdr fuel = \<lparr>e_os = party_os fs, e_tc = party_tc tc, e_tm = tm, e_hdr = hdr, e_fuel = fuel\<rparr>"

lemma node_env_simps [simp]:
  "e_os (node_env fs tc tm hdr fuel) = party_os fs" "e_tc (node_env fs tc tm hdr fuel) = party_tc tc"
  "e_tm (node_env fs tc tm hdr fuel) = tm" "e_hdr (node_env fs tc tm hdr fuel) = hdr" "e_fuel (node_env fs tc tm hdr fuel) = fuel"
  by (simp_all add: node_env_def)

lemma party_part: "part_of pdisk (\<lambda>d w. w\<lparr>pdisk := d\<rparr>)"
  unfolding part_of_def by (intro conjI allI party.equality) simp_all

lemma party_split:
  "SplitByKey (party_tc tc) tm a lo b up st w = in_part (\<lambda>d w. w\<lparr>pdisk := d\<rparr>) w (SplitByKey tc tm a lo b up st (pdisk w))"
  unfolding party_tc_def by (rule lift_split [OF party_part])

lemma party_merge:
  "Merge2Files (party_tc tc) tm a b st w = in_part (\<lambda>d w. w\<lparr>pdisk := d\<rparr>) w (Merge2Files tc tm a b st (pdisk w))"
  unfolding party_tc_def by (rule lift_merge [OF party_part])

lemma reg_closed: "reg_ok tm v st d \<Longrightarrow> reg tm st n = None \<Longrightarrow> closed v d n"
  unfolding reg_ok_def regs_ok_def closed_def by fastforce

section \<open>Cutting the file\<close>

text \<open>
  A slave that can hand over: its database has the program's records and a plain name, the temporary file is
  not in use and not there, and no backup is in use: that is, no database in a directory.
\<close>

definition giver_ok ::
  "'d filesys \<Rightarrow> ('h, 'd) tchdb \<Rightarrow> ('m, 'h OpenedDB) tcmdb \<Rightarrow> ('h, 'd) tc_view \<Rightarrow> (bytes \<Rightarrow> bytes \<rightharpoonup> bytes) \<Rightarrow> 'm slave \<Rightarrow> 'd \<Rightarrow> bool" where
  "giver_ok fs tc tm v recs s d \<longleftrightarrow> tcmdb_laws tm \<and> tchdb_laws tc v \<and> tchdb_reliable tc v
    \<and> file_laws fs tc v recs \<and> shell_laws fs v recs \<and> reg_ok tm v (s_db s) d \<and> db_file_ok v d (s_file_master s)
    \<and> shell_word (s_file_master s) \<and> length (s_file_master s) < 100
    \<and> s_file_tmp s = s_file_master s @ [126] \<and> reg tm (s_db s) (s_file_tmp s) = None
    \<and> (\<forall>n. 47 \<in> set n \<longrightarrow> reg tm (s_db s) n = None) \<and> fs_read fs (s_file_tmp s) d = None"

lemma giver_okD:
  assumes "giver_ok fs tc tm v recs s d"
  shows "tcmdb_laws tm" "tchdb_laws tc v" "tchdb_reliable tc v" "file_laws fs tc v recs" "shell_laws fs v recs"
    "reg_ok tm v (s_db s) d" "db_file_ok v d (s_file_master s)" "set (s_file_master s) \<inter> {0, 32, 42, 47} = {}"
    "s_file_tmp s = s_file_master s @ [126]" "reg tm (s_db s) (s_file_tmp s) = None"
    "reg tm (s_db s) (backup_name (s_file_master s)) = None" "fs_read fs (s_file_tmp s) d = None" "length (s_file_master s) < 100"
    "s_file_master s \<noteq> []" "shell_word (s_file_master s)" "\<And>n. 47 \<in> set n \<Longrightarrow> reg tm (s_db s) n = None"
proof -
  note g = assms [unfolded giver_ok_def]
  show d: "47 \<in> set n \<Longrightarrow> reg tm (s_db s) n = None" for n using g by blast
  show "reg tm (s_db s) (backup_name (s_file_master s)) = None" by (rule d) (simp add: backup_name_def)
  show "s_file_master s \<noteq> []" "set (s_file_master s) \<inter> {0, 32, 42, 47} = {}" using shell_wordD g by blast+
qed (use assms in \<open>unfold giver_ok_def, blast+\<close>)

text \<open>The file that is cut off, for the bounds \<open>lo\<close> and \<open>up\<close>.\<close>

definition rotate_cmd :: bytes where "rotate_cmd = ascii ''mv backup1//*.bac backup2//''"

definition clipped ::
  "'d filesys \<Rightarrow> ('h, 'd) tchdb \<Rightarrow> ('m, 'h OpenedDB) tcmdb \<Rightarrow> int \<Rightarrow> int \<Rightarrow> 'm slave \<Rightarrow> 'd \<Rightarrow> bytes option" where
  "clipped fs tc tm lo up s d =
    (case SplitByKey tc tm (s_file_master s) (word_of_int lo) (s_file_tmp s) (word_of_int up) (s_db s)
        (snd (fs_system fs rotate_cmd d)) of
       Inl e \<Rightarrow> None | Inr (r, st, d') \<Rightarrow> fs_read fs (s_file_tmp s) d')"

lemma clip_disk:
  assumes g: "giver_ok fs tc tm v recs s d" and R_def: "R = {k. split_range (word_of_int lo) (word_of_int up) k}"
  shows "\<exists>st d2 data. SplitByKey tc tm (s_file_master s) (word_of_int lo) (s_file_tmp s) (word_of_int up) (s_db s)
        (snd (fs_system fs rotate_cmd d)) = Inr (SUCCESS, st, d2)
    \<and> clipped fs tc tm lo up s d = Some data \<and> fs_read fs (s_file_tmp s) d2 = Some data
    \<and> (\<lambda>k. recs data (key_bytes k)) = content v d (s_file_master s) |` R
    \<and> reg tm st = reg tm (s_db s)
    \<and> (\<forall>r d3. fs_system fs (ascii ''mv '' @ s_file_tmp s @ [32] @ backup_name (s_file_master s)) d2 = (r, d3) \<longrightarrow>
        reg_ok tm v st d3 \<and> fs_read fs (s_file_tmp s) d3 = None
        \<and> content v d3 (s_file_master s) = content v d (s_file_master s) |` (- R)
        \<and> content v d3 (backup_name (s_file_master s)) = content v d (s_file_master s) |` R
        \<and> db_file_ok v d3 (backup_name (s_file_master s)))"
proof -
  let ?m = "s_file_master s" and ?t = "s_file_tmp s" and ?b = "backup_name (s_file_master s)"
  note a = giver_okD [OF g]
  obtain r0 d1 where d1: "fs_system fs rotate_cmd d = (r0, d1)" by (cases "fs_system fs rotate_cmd d")
  have n: "47 \<notin> set ?m" "47 \<notin> set ?t" "?m \<noteq> ?t" using a(8,9) by auto
  have b: "47 \<in> set ?b" by (simp add: backup_name_def)
  have plain: "47 \<notin> set n" if "hnd v d h = Some n" for h n using reg_ok_hnd [OF a(6) that] a(16) [of n] by auto
  have "rotate_cmd = ascii ''mv backup1//*.bac backup2//'' \<or> rotate_cmd = ascii ''mv backup2//*.bac backup1//''"
    by (simp add: rotate_cmd_def)
  from shell_lawsD(1) [OF a(5) this d1] have s1: "hnd v d1 = hnd v d" "fs_read fs ?t d1 = None" "fil v d1 ?m = fil v d ?m"
    using n a(12) plain by (auto simp: fun_eq_iff)
  have r1: "reg_ok tm v (s_db s) d1" using a(6) s1(1) by (rule reg_ok_world)
  have f1: "db_file_ok v d1 ?m" using a(7) s1(3) by (simp add: db_file_ok_def)
  from SplitByKey_spec [OF a(1-3) r1 n(3) f1, of "word_of_int lo" "word_of_int up"] obtain st d2 where
    d2: "SplitByKey tc tm ?m (word_of_int lo) ?t (word_of_int up) (s_db s) d1 = Inr (SUCCESS, st, d2)"
      "reg_ok tm v st d2" "reg tm st = reg tm (s_db s)"
      "content v d2 ?m = content v d1 ?m |` {k. \<not> split_range (word_of_int lo) (word_of_int up) k}"
      "content v d2 ?t = content v d1 ?t ++ (content v d1 ?m |` R)"
      "\<exists>h e. hnd v e h = Some ?t \<and> tchdbclose tc h e = (True, d2)" "db_file_ok v d1 ?t \<longrightarrow> db_file_ok v d2 ?t"
    using a(10) unfolding R_def by blast
  have c1: "content v d1 ?m = content v d ?m" using s1(3) by (simp add: content_def fun_eq_iff)
  have "fil v d1 ?t = Map.empty" by (rule file_lawsD(5) [OF a(4) reg_closed [OF r1 a(10)] s1(2)])
  then have "content v d1 ?t = Map.empty" "db_file_ok v d1 ?t" by (auto simp: content_def db_file_ok_def)
  then have ok: "db_file_ok v d2 ?t" using d2(7) by blast
  have ct: "content v d2 ?t = content v d ?m |` R" using d2(5) \<open>content v d1 ?t = Map.empty\<close> by (simp only: c1 empty_map_add)
  obtain data where data: "fs_read fs ?t d2 = Some data" using d2(6) file_lawsD(6) [OF a(4)] by blast
  have cl: "closed v d2 ?t" "closed v d2 ?b" using reg_closed [OF d2(2)] d2(3) a(10,11) by simp_all
  have ft: "fil v d2 ?t = recs data" by (rule file_lawsD(4) [OF a(4) cl(1) data])
  then have rd: "(\<lambda>k. recs data (key_bytes k)) = content v d ?m |` R" using ct by (simp add: content_def fun_eq_iff)
  have cm: "content v d2 ?m = content v d ?m |` (- R)" using d2(4) c1 by (simp add: R_def Collect_neg_eq)
  have "reg_ok tm v st d3 \<and> fs_read fs ?t d3 = None \<and> content v d3 ?m = content v d ?m |` (- R) \<and> content v d3 ?b = content v d ?m |` R
      \<and> db_file_ok v d3 ?b"
    if "fs_system fs (ascii ''mv '' @ ?t @ [32] @ ?b) d2 = (r, d3)" for r d3
  proof -
    have tb: "shell_word ?t" using shell_word_tmp [OF a(15)] a(9) by simp
    have ne: "?t \<noteq> ?b" using n(2) b(1) by metis
    from shell_lawsD(2) [OF a(5) tb a(15) refl data cl that]
    have e: "hnd v d3 = hnd v d2" "fs_read fs ?t d3 = None" "fil v d3 = (fil v d2)(?t := Map.empty, ?b := recs data)" by simp_all
    have "fil v d3 ?b = fil v d2 ?t" using e(3) ft by simp
    then have "db_file_ok v d3 ?b" using ok by (simp add: db_file_ok_def)
    moreover have "?m \<noteq> ?b" using n(1) b(1) by auto
    then have "content v d3 ?m = content v d2 ?m" "content v d3 ?b = (\<lambda>k. recs data (key_bytes k))"
      using n(3) e(3) by (simp_all add: content_def fun_eq_iff)
    ultimately show ?thesis using reg_ok_world [OF d2(2) e(1)] e(2) cm rd by simp
  qed
  then show ?thesis using d1 d2(1,3) data rd by (intro exI [of _ st] exI [of _ d2] exI [of _ data]) (auto simp: clipped_def)
qed

section \<open>Both sides\<close>

lemma party_shell:
  assumes "e_os env = party_os fs" and "shell_cmd c d1 n1 d2 n2 = fc" and "length fc < 256" and "c \<noteq> []"
  shows "ExeShellCmd env c d1 n1 d2 n2 w = Inr (fc, w\<lparr>pdisk := snd (fs_system fs fc (pdisk w))\<rparr>)"
  using assms by (simp add: ExeShellCmd_def fits_def MAX_FILENAME_LEN_def party_os_def split_def Let_def)

lemma n_close_party: "n_close (party_os fs) sock w = w"
  by (simp add: party_os_def)

lemma announce_db [simp]: "announce env (s\<lparr>s_db := st\<rparr>) = announce env s"
  by (simp add: announce_def fun_eq_iff)

text \<open>A file that the one side sends for the other: both sets of packets, fitting each other.\<close>

lemma file_conversation:
  assumes "talks fs env sock s" and "talks fs env' sock' r" and "int32 (int (length data))" and "length (s_file_master s) < 100"
  obtains a acks where "length acks = length (chunks data)" and "list_all is_ack (a # acks)"
    and "recv_outs env' (announce env s c data) (send_outs env a (chunks data) acks) @ [farewell env'] = a # acks"
    and "file_packets c (s_file_master s) data (announce env s c data) (send_outs env a (chunks data) acks)"
proof -
  let ?h = "announce env s c data"
  have m: "length (s_file_master s) < APPENDSIZE" using assms(4) by (simp add: packet_consts)
  have "packet_buf ?h" unfolding announce_def
    using m by (intro packet_over_facts(1) [OF talksD(4,5) [OF assms(1)] _ assms(3)]) simp
  moreover have "\<forall>c \<in> set (chunks data). length c \<le> APPENDSIZE" using chunks_small [of data] by blast
  ultimately obtain a acks where "length acks = length (chunks data)" "list_all is_ack (a # acks)"
    "recv_outs env' ?h (send_outs env a (chunks data) acks) @ [farewell env'] = a # acks"
    using conversation [OF talksD(4) [OF assms(1)] talksD(4) [OF assms(2)]] by blast
  then show ?thesis using that packets_sent [OF assms(1,3) m] by blast
qed

text \<open>The slave that hands over: \<open>a # acks\<close> is what it will read.\<close>

lemma giver_runs:
  assumes g: "giver_ok fs tc tm v recs s (pdisk w)" and env: "env = node_env fs tc tm hdr fuel"
    and t: "talks fs env sock s" and cmd: "hd_cmd (GetHeader szBuf) = cmd_code CLIP_DATA"
    and keys: "key_after 1 s = Inr lo" "key_after 2 s = Inr up"
    and data: "clipped fs tc tm lo up s (pdisk w) = Some data" "int32 (int (length data))"
    and acks: "length acks = length (chunks data)" "list_all is_ack (a # acks)"
    and R_def: "R = {k. split_range (word_of_int lo) (word_of_int up) k}"
  shows "\<exists>st b d3. HandleSlaveRequest env sock szBuf s (w\<lparr>inbox := a # acks, outbox := []\<rparr>)
      = Inr (s\<lparr>s_db := st, s_xbuf := b\<rparr>, w\<lparr>inbox := [], outbox := announce env s CLIP_DATA_R data # send_outs env a (chunks data) acks, pdisk := d3\<rparr>)
    \<and> (\<lambda>k. recs data (key_bytes k)) = content v (pdisk w) (s_file_master s) |` R
    \<and> reg_ok tm v st d3 \<and> reg tm st = reg tm (s_db s) \<and> fs_read fs (s_file_tmp s) d3 = None
    \<and> content v d3 (s_file_master s) = content v (pdisk w) (s_file_master s) |` (- R)
    \<and> content v d3 (backup_name (s_file_master s)) = content v (pdisk w) (s_file_master s) |` R
    \<and> db_file_ok v d3 (backup_name (s_file_master s)) \<and> packet_buf b"
proof -
  let ?m = "s_file_master s" and ?t = "s_file_tmp s" and ?b = "backup_name (s_file_master s)"
  let ?d1 = "snd (fs_system fs rotate_cmd (pdisk w))" and ?w = "w\<lparr>inbox := a # acks, outbox := []\<rparr>"
  obtain st d2 where d2: "SplitByKey tc tm ?m (word_of_int lo) ?t (word_of_int up) (s_db s) ?d1 = Inr (SUCCESS, st, d2)"
      "fs_read fs ?t d2 = Some data" "(\<lambda>k. recs data (key_bytes k)) = content v (pdisk w) ?m |` R" "reg tm st = reg tm (s_db s)"
    and after: "\<And>r d3. fs_system fs (ascii ''mv '' @ ?t @ [32] @ ?b) d2 = (r, d3) \<Longrightarrow>
        reg_ok tm v st d3 \<and> fs_read fs ?t d3 = None \<and> content v d3 ?m = content v (pdisk w) ?m |` (- R)
        \<and> content v d3 ?b = content v (pdisk w) ?m |` R \<and> db_file_ok v d3 ?b"
    using clip_disk [OF g R_def] data(1) by (auto simp del: ascii_simps)
  let ?mv = "ascii ''mv '' @ ?t @ [32] @ ?b"
  let ?d3 = "snd (fs_system fs ?mv d2)"
  have os: "e_os env = party_os fs" by (simp add: env)
  have len: "length ?m < 100" by (rule giver_okD(13) [OF g])
  have l1: "length rotate_cmd < 256" by (simp add: rotate_cmd_def)
  have l2: "length ?mv < 256"
    using len giver_okD(9) [OF g] by (simp add: backup_name_def BACKUP1_DIR_def BACKUP_POSTFIX_def)
  have s1: "shell_cmd (ascii ''mv'') BACKUP1_DIR (ascii ''*'') BACKUP2_DIR [] = rotate_cmd"
    by (simp add: shell_cmd_def rotate_cmd_def BACKUP1_DIR_def BACKUP2_DIR_def BACKUP_POSTFIX_def)
  have s2: "shell_cmd (ascii ''mv'') [] ?t BACKUP1_DIR ?m = ?mv"
    using giver_okD(14) [OF g] by (simp add: shell_cmd_def backup_name_def BACKUP1_DIR_def BACKUP_POSTFIX_def)
  have c1: "ExeShellCmd env (ascii ''mv'') BACKUP1_DIR (ascii ''*'') BACKUP2_DIR [] ?w = Inr (rotate_cmd, ?w\<lparr>pdisk := ?d1\<rparr>)"
    using party_shell [OF os s1 l1, of ?w] by simp
  have sp: "slave_split env ?m lo ?t up s (?w\<lparr>pdisk := ?d1\<rparr>) = Inr (s\<lparr>s_db := st\<rparr>, ?w\<lparr>pdisk := d2\<rparr>)"
    by (simp add: slave_split_def env party_split d2(1))
  have "talks fs env sock (s\<lparr>s_db := st\<rparr>)" using t by (simp add: talks_def)
  from SendFile_party [OF this, of ?t "?w\<lparr>pdisk := d2\<rparr>" data a acks "[]" CLIP_DATA_R] obtain b where
    b: "packet_buf b" "SendFile env sock ?t CLIP_DATA_R (s\<lparr>s_db := st\<rparr>) (?w\<lparr>pdisk := d2\<rparr>)
      = Inr (0, s\<lparr>s_db := st, s_xbuf := b\<rparr>, w\<lparr>inbox := [], outbox := announce env s CLIP_DATA_R data # send_outs env a (chunks data) acks, pdisk := d2\<rparr>)"
    using d2(2) data(2) len acks by (auto simp: packet_consts)
  let ?w2 = "w\<lparr>inbox := [], outbox := announce env s CLIP_DATA_R data # send_outs env a (chunks data) acks, pdisk := d2\<rparr>"
  have c2: "ExeShellCmd env (ascii ''mv'') [] ?t BACKUP1_DIR ?m ?w2 = Inr (?mv, ?w2\<lparr>pdisk := ?d3\<rparr>)"
    using party_shell [OF os s2 l2, of ?w2] by simp
  have "HandleSlaveRequest env sock szBuf s ?w = Inr (s\<lparr>s_db := st, s_xbuf := b\<rparr>, ?w2\<lparr>pdisk := ?d3\<rparr>)"
    by (simp add: HandleSlaveRequest_def cmd c1 keys sp b(2) c2 os ServiceStop_def n_close_party del: ascii_simps)
  moreover obtain r where "fs_system fs ?mv d2 = (r, ?d3)" by (cases "fs_system fs ?mv d2") simp
  ultimately show ?thesis using after [of r ?d3] d2(3,4) b(1)
    by (intro exI [of _ st] exI [of _ b] exI [of _ ?d3]) simp
qed

text \<open>The other side, for every request that is answered with a file: \<open>h # ps\<close> is what it will read.\<close>

definition sent_file :: "nat \<Rightarrow> cmd \<Rightarrow> bytes \<Rightarrow> bytes \<Rightarrow> bytes list \<Rightarrow> bool" where
  "sent_file fuel c m data pk \<longleftrightarrow>
    (\<exists>h ps. pk = h # ps \<and> file_packets c m data h ps \<and> 0 \<notin> set m \<and> length m < 100 \<and> length (chunks data) \<le> fuel)"

definition other_pos :: "int \<Rightarrow> 'm slave \<Rightarrow> int" where
  "other_pos k s = c_rem (s_pos s + k + sl_num (s_slaves s)) (sl_num (s_slaves s))"

text \<open>The address of the slave that is \<open>k\<close> places further round the ring.\<close>

definition slave_addr :: "int \<Rightarrow> 'm slave \<Rightarrow> int \<times> int" where
  "slave_addr k s = (let n = node_at (s_slaves s) (other_pos k s) in (sn_ip n, sn_port n))"

lemma slave_addr_same [simp]: "slave_addr k (s\<lparr>s_xbuf := b\<rparr>) = slave_addr k s" "slave_addr k (s\<lparr>s_db := st\<rparr>) = slave_addr k s"
  by (simp_all add: slave_addr_def other_pos_def)

lemma other_pos_bounds: "pos_ok s \<Longrightarrow> -1 \<le> k \<Longrightarrow> 0 \<le> other_pos k s \<and> other_pos k s < sl_num (s_slaves s)"
  using c_rem_bounds [of "s_pos s + k + sl_num (s_slaves s)" "sl_num (s_slaves s)"] by (auto simp: other_pos_def pos_ok_def)

lemma other_pos_ne:
  assumes "pos_ok s" and "k \<noteq> 0" and "\<bar>k\<bar> < sl_num (s_slaves s)"
  shows "other_pos k s \<noteq> s_pos s"
proof
  let ?n = "sl_num (s_slaves s)"
  have p: "0 \<le> s_pos s" "s_pos s < ?n" using assms(1) by (simp_all add: pos_ok_def)
  assume "other_pos k s = s_pos s"
  then have "(s_pos s + k + ?n) mod ?n = s_pos s mod ?n"
    using p assms(3) by (simp add: other_pos_def c_rem_nonneg mod_pos_pos_trivial)
  then have "?n dvd k" by (simp add: mod_eq_dvd_iff)
  then show False using assms(2,3) dvd_imp_le_int [of k ?n] by simp
qed

lemma fetch_rest:
  assumes env: "env = node_env fs tc tm hdr fuel" and t: "talks fs env 3 r" and pos: "pos_ok r" "-1 \<le> k" "other_pos k r \<noteq> s_pos r"
    and fp: "file_packets rc m data h ps" and m: "0 \<notin> set m" and name: "GetFileName (if k = -1 then 0 else k) m = Inr f"
    and fuel: "length (chunks data) \<le> fuel"
  shows "\<exists>b. packet_buf b \<and> CommunicateToSlave env k c key rc r (u\<lparr>inbox := h # ps @ rest, outbox := out\<rparr>)
      = Inr (0, r\<lparr>s_xbuf := b\<rparr>, u\<lparr>inbox := rest, outbox := out @ packet_over env c key [] (s_xbuf r) # recv_outs env h ps @ [farewell env],
          pdisk := fs_put fs f data (pdisk u), dials := dials u @ [slave_addr k r]\<rparr>)"
proof -
  let ?n = "sl_num (s_slaves r)" and ?w = "u\<lparr>inbox := h # ps @ rest, outbox := out\<rparr>"
  let ?u = "?w\<lparr>dials := dials u @ [slave_addr k r]\<rparr>"
  note os = talksD(2) [OF t]
  have n: "?n \<noteq> 0" using pos(1) by (auto simp: pos_ok_def)
  obtain pn where pn: "get_node (sl_nodes (s_slaves r)) (other_pos k r) = Inr pn"
    using other_pos_bounds [OF pos(1,2)] pos(1) by (auto simp: get_node_def pos_ok_def list_ok_def)
  have "slave_addr k r = (sn_ip pn, sn_port pn)" using pn by (auto simp: slave_addr_def node_at_def get_node_def split: if_splits)
  then have con: "OpenRemoteService2 (party_os fs) (sn_ip pn) (sn_port pn) ?w = (0, 3, ?u)"
    by (simp add: OpenRemoteService2_def OpenRemoteService_def party_os_def)
  have hp: "packet_buf h" "hd_cmd (GetHeader h) = cmd_code rc" "hd_key (GetHeader h) = int (length data)"
    "take (Suc (length m)) (GetAppend h) = m @ [0]" "list_all2 carries ps (chunks data)"
    using fp by (simp_all add: file_packets_def)
  let ?p = "packet_over env c key [] (s_xbuf r)"
  have ex: "slave_exchange env c key [] 0 3 r ?u = Inr (r\<lparr>s_xbuf := h\<rparr>, ?u\<lparr>inbox := ps @ rest, outbox := out @ [?p]\<rparr>)"
    using exchange_party [OF t, of "[]" ?u h "ps @ rest" c key] hp(1) by simp
  have "GetAppend h = m @ 0 # drop (Suc (length m)) (GetAppend h)"
    using append_take_drop_id [of "Suc (length m)" "GetAppend h"] hp(4) by simp
  then have nm: "c_str (GetAppend h) = m" using c_str_append_nul [OF m] by metis
  obtain b where b: "packet_buf b" "RecvFile env 3 f (int (length data)) (r\<lparr>s_xbuf := h\<rparr>) (?u\<lparr>inbox := ps @ rest, outbox := out @ [?p]\<rparr>)
      = Inr (0, r\<lparr>s_xbuf := b\<rparr>, ?u\<lparr>inbox := rest, outbox := out @ ?p # recv_outs env h ps @ [farewell env], pdisk := fs_put fs f data (pdisk u)\<rparr>)"
    using RecvFile_party [OF talks_xbuf [OF t hp(1)], of "?u\<lparr>inbox := ps @ rest, outbox := out @ [?p]\<rparr>" ps rest data f] hp(5) fuel env by auto
  have "k \<noteq> -2" using pos(2) by simp
  then have "CommunicateToSlave env k c key rc r ?w = Inr (0, r\<lparr>s_xbuf := b\<rparr>,
      ?u\<lparr>inbox := rest, outbox := out @ ?p # recv_outs env h ps @ [farewell env], pdisk := fs_put fs f data (pdisk u)\<rparr>)"
    using n pos(3) pn con ex hp(2,3) nm name b(2)
    by (simp add: CommunicateToSlave_def other_pos_def os reply_def Let_def CloseRemoteService_def n_close_party)
  then show ?thesis using b(1) by auto
qed

text \<open>What a slave sends that asks for a file: the request, then an acknowledgement for each packet.\<close>

definition asks_for :: "cmd \<Rightarrow> bytes \<Rightarrow> bytes list \<Rightarrow> bool" where
  "asks_for c data msgs \<longleftrightarrow> (\<exists>q acks. msgs = q # acks \<and> packet_buf q \<and> hd_cmd (GetHeader q) = cmd_code c
    \<and> list_all is_ack acks \<and> length acks = Suc (length (chunks data)))"

lemma asks_for_file:
  assumes t: "talks fs env sock r" and fp: "file_packets rc m data h ps" and key: "int32 key"
  shows "asks_for c data (packet_over env c key [] (s_xbuf r) # recv_outs env h ps @ [farewell env])"
proof -
  note t = talksD [OF t]
  have h: "packet_buf h" and ps: "list_all2 carries ps (chunks data)" using fp by (simp_all add: file_packets_def)
  have pk: "list_all packet_buf ps" using ps by (auto simp: list_all_length list_all2_conv_all_nth carries_def)
  show ?thesis
    using packet_over_facts(1,2) [OF t(4,5) _ key, of "[]" c] recv_outs_ack [OF t(4) h pk] farewell_ack [OF t(4)] list_all2_lengthD [OF ps]
    by (auto simp: asks_for_def)
qed

lemmas fetch_runs = fetch_rest [where rest = "[]", unfolded append_Nil2]

lemma taker_rest:
  assumes env: "env = node_env fs tc tm hdr fuel" and t: "talks fs env 3 r"
    and ring: "pos_ok r" "ring_list (s_slaves r)" "2 \<le> sl_num (s_slaves r)"
    and fp: "file_packets CLIP_DATA_R m data h ps" and m: "0 \<notin> set m" "length m < 100" and fuel: "length (chunks data) \<le> fuel"
  shows "\<exists>key b. int32 key \<and> packet_buf b \<and> ClipDataFromPre env r (u\<lparr>inbox := h # ps @ rest, outbox := out\<rparr>)
      = Inr (0, r\<lparr>s_xbuf := b\<rparr>, u\<lparr>inbox := rest, outbox := out @ packet_over env CLIP_DATA key [] (s_xbuf r) # recv_outs env h ps @ [farewell env],
          pdisk := fs_put fs m data (pdisk u), dials := dials u @ [slave_addr (-1) r]\<rparr>)"
proof -
  let ?n = "sl_num (s_slaves r)"
  have p: "0 \<le> s_pos r" "s_pos r < ?n" using ring(1) by (simp_all add: pos_ok_def)
  obtain sn where sn: "get_node (sl_nodes (s_slaves r)) (s_pos r) = Inr sn" "sn_key sn = keys (s_slaves r) ! nat (s_pos r)"
    using get_node_live [OF ring(2) p] by blast
  have key: "int32 (sn_key sn)" using ring_list_key [OF ring(2) p] sn(2) by (simp add: ring_key_def MAX_KEY_def int32_def)
  have "other_pos (-1) r \<noteq> s_pos r" using ring(3) by (intro other_pos_ne [OF ring(1)]) simp_all
  moreover have "GetFileName (if (-1 :: int) = -1 then 0 else -1) m = Inr m"
    using m(2) by (simp add: GetFileName_def fits_def MAX_FILENAME_LEN_def)
  ultimately obtain b where "packet_buf b" "CommunicateToSlave env (-1) CLIP_DATA (sn_key sn) CLIP_DATA_R r (u\<lparr>inbox := h # ps @ rest, outbox := out\<rparr>)
      = Inr (0, r\<lparr>s_xbuf := b\<rparr>, u\<lparr>inbox := rest, outbox := out @ packet_over env CLIP_DATA (sn_key sn) [] (s_xbuf r) # recv_outs env h ps @ [farewell env],
          pdisk := fs_put fs m data (pdisk u), dials := dials u @ [slave_addr (-1) r]\<rparr>)"
    using fetch_rest [OF env t ring(1) _ _ fp m(1) _ fuel, where k = "-1" and out = out and rest = rest] by blast
  then show ?thesis using key sn(1) by (auto simp: ClipDataFromPre_def)
qed

lemmas taker_runs = taker_rest [where rest = "[]" and out = "[]", unfolded append_Nil append_Nil2]

section \<open>An example\<close>

text \<open>A disk with one database; of its two records the one at 3000 belongs to the newcomer, slave 1 of the two.\<close>

definition a_disk :: "(bytes \<times> bytes) list \<Rightarrow> bdisk" where
  "a_disk al = \<lparr>bd_file = [a_db \<mapsto> enc_recs al], bd_hnd = [], bd_pend = (\<lambda>_. [])\<rparr>"

definition joined_disk :: bdisk where
  "joined_disk = a_disk [(key_bytes 500, [65, 0]), (key_bytes 3000, [66, 0])]"

definition no_bytes :: bdisk where
  "no_bytes = \<lparr>bd_file = Map.empty, bd_hnd = [], bd_pend = (\<lambda>_. [])\<rparr>"

lemma joined_disk_ok: "giver_ok byte_fs byte_db alist_mdb byte_view byte_recs a_slave joined_disk"
  using alist_mdb_laws byte_db_laws byte_file_laws byte_shell_laws
  by (auto simp: giver_ok_def reg_ok_def regs_ok_def reg_def a_slave_def no_dbs_def byte_view_simps joined_disk_def a_disk_def a_db_def shell_word_def plain_char_def
      db_file_ok_def byte_recs_def value_bytes_def c_str_def byte_fs_def ran_def split: if_splits)

lemma joined_disk_clipped:
  "clipped byte_fs byte_db alist_mdb 2100 100 a_slave joined_disk = Some (enc_recs [(key_bytes 3000, [66, 0])])"
proof -
  let ?t = "a_db @ [126]"
  let ?k = "empty_disk\<lparr>dk_file := (\<lambda>n. if n = a_db then [(key_bytes 500, [65, 0]), (key_bytes 3000, [66, 0])] else [])\<rparr>"
  have split: "case SplitByKey disk_db alist_mdb a_db 2100 ?t 100 no_dbs ?k of Inl e \<Rightarrow> False
      | Inr (r, st, d) \<Rightarrow> dk_file d ?t = [(key_bytes 3000, [66, 0])]" by code_simp
  have k: "bd_disk joined_disk = ?k" by (simp add: bd_disk_def joined_disk_def a_disk_def empty_disk_def fun_eq_iff)
  have rot: "snd (fs_system byte_fs rotate_cmd joined_disk) = joined_disk"
    by (auto simp: byte_fs_def bd_shell_def rotate_cmd_def move_dir_def joined_disk_def a_disk_def a_db_def fun_eq_iff)
  have ww: "well_written joined_disk" by (simp add: well_written_def joined_disk_def a_disk_def)
  have sel: "s_file_master a_slave = a_db" "s_file_tmp a_slave = ?t" "s_db a_slave = no_dbs" "fs_read byte_fs n b = bd_file b n" for n b
    by (simp_all add: a_slave_def byte_fs_def)
  obtain st d x where d: "SplitByKey byte_db alist_mdb a_db 2100 ?t 100 no_dbs joined_disk = Inr (SUCCESS, st, d)"
    "clipped byte_fs byte_db alist_mdb 2100 100 a_slave joined_disk = Some x" "bd_file d ?t = Some x"
    using clip_disk [OF joined_disk_ok refl, of 2100 100] unfolding rot sel word_of_int_numeral by blast
  from byte_split [OF ww d(1,3)] split show ?thesis by (auto simp: d(2) k)
qed

lemma a_disk_content: "content byte_view (a_disk al) a_db k = map_of al (key_bytes k)"
  by (simp add: content_def byte_view_simps a_disk_def byte_recs_def)

lemma a_disk_closed: "closed byte_view (a_disk al) n" and no_bytes_closed: "closed byte_view no_bytes n"
  by (simp_all add: closed_def byte_view_simps a_disk_def no_bytes_def)

lemma a_slave_talks:
  "sock \<noteq> -1 \<Longrightarrow> talks byte_fs (node_env byte_fs byte_db alist_mdb (e_hdr feed_env) n) sock (a_slave\<lparr>s_pos := p\<rparr>)"
  using file_lawsD(1) [OF byte_file_laws]
  by (simp add: talks_def feed_env_def header_ok_def int32_def a_slave_def packet_buf_def MAX_BUF_LEN_def packet_consts)

lemma a_slave_ring:
  "pos_ok a_slave" "ring_list (s_slaves a_slave)" "2 \<le> sl_num (s_slaves a_slave)" "key_after 1 a_slave = Inr 2100" "key_after 2 a_slave = Inr 100"
  "GetSocket (s_slaves a_slave) 3000 = Inr 1" "GetSocket (s_slaves a_slave) 500 = Inr 0" "sl_num (s_slaves a_slave) \<le> 3"
  "(s_pos a_slave + 1) mod sl_num (s_slaves a_slave) = 1"
proof -
  show "GetSocket (s_slaves a_slave) 3000 = Inr 1" "GetSocket (s_slaves a_slave) 500 = Inr 0" by code_simp+
qed (use two_nodes_ok two_nodes_ring in \<open>simp_all add: pos_ok_def a_slave_def two_nodes_def key_after_def get_node_def c_rem_nonneg\<close>)

lemma one_record_small: "int32 (int (length (enc_recs [(key_bytes k, [x, 0])])))" "length (chunks (enc_recs [(key_bytes k, [x, 0])])) = 1"
  by (simp_all add: enc_recs_def enc_str_def key_bytes_def le32_def int32_def packet_consts)

text \<open>A file, as a slave sends it.\<close>

lemma a_file:
  assumes "int32 (int (length data))" and "length (chunks data) \<le> n"
  obtains pk where "sent_file n c a_db data pk"
proof -
  have t: "talks byte_fs (node_env byte_fs byte_db alist_mdb (e_hdr feed_env) 0) 3 a_slave"
    using a_slave_talks [of 3 0 0] by (simp add: a_slave_def)
  have m: "s_file_master a_slave = a_db" "0 \<notin> set a_db" "length a_db < 100" by (simp_all add: a_slave_def a_db_def)
  then show ?thesis
    using file_conversation [OF t t assms(1), of c] that assms(2) unfolding sent_file_def by metis
qed

end
