(* ===== verification/Departure.thy ===== *)
theory Departure
  imports HandOver Master
begin

text \<open>
  A departure gives the keys of the slave that leaves to the slave before it, its heir, and \<open>RM_SLAVE\<close> makes the heir
  merge its first backup into its database. Here the heir runs on a machine as in \<open>HandOver\<close>: against the leaver, of which
  it makes the backup, then on the master's packet.
\<close>

section \<open>The heir's place in the list\<close>

lemma note_heir:
  assumes "pos_ok s" and "ring_list (s_slaves s)" and "2 \<le> sl_num (s_slaves s)"
    and p_def: "p = (s_pos s + 1) mod sl_num (s_slaves s)"
  shows "\<exists>sl' q. note_rm_slave p s = Inr (s\<lparr>s_slaves := sl', s_pos := q\<rparr>) \<and> pos_ok (s\<lparr>s_slaves := sl', s_pos := q\<rparr>)
    \<and> is_predecessor 1 p (s\<lparr>s_slaves := sl', s_pos := q\<rparr>) = Inr True \<and> ring_list sl'
    \<and> (\<forall>k. GetSocket sl' k = Inr q \<longleftrightarrow> GetSocket (s_slaves s) k = Inr (s_pos s) \<or> GetSocket (s_slaves s) k = Inr p)"
proof -
  let ?sl = "s_slaves s" and ?n = "sl_num (s_slaves s)" and ?i = "s_pos s"
  let ?q = "if p < ?i then ?i - 1 else ?i"
  have i: "0 \<le> ?i" "?i < ?n" using assms(1) by (simp_all add: pos_ok_def)
  have pc: "p = (if ?i = ?n - 1 then 0 else ?i + 1)"
  proof (cases "?i = ?n - 1")
    case True
    then show ?thesis by (simp add: p_def)
  next
    case False
    then show ?thesis using i by (simp add: p_def mod_pos_pos_trivial)
  qed
  have p: "0 \<le> p" "p < ?n" "p \<noteq> ?i" using i assms(3) by (auto simp: pc)
  obtain sl' where sl': "note_rm_slave p s = Inr (s\<lparr>s_slaves := sl', s_pos := ?q\<rparr>)" "list_ok sl'"
    "sl_num sl' = ?n - 1" "live sl' = remove_at (nat p) (live ?sl)"
    using note_rm_slave_spec [OF assms(1) p] by auto
  have pos': "pos_ok (s\<lparr>s_slaves := sl', s_pos := ?q\<rparr>)" using sl'(2,3) i assms(3) p by (auto simp: pos_ok_def pc)
  have "c_rem (p - 1 + (?n - 1)) (?n - 1) = ?q"
    using c_rem_wrap [of "p - 1" "?n - 1"] c_rem_less [of "?n - 2" "?n - 1"] i assms(3) by (auto simp: pc)
  then have pre: "is_predecessor 1 p (s\<lparr>s_slaves := sl', s_pos := ?q\<rparr>) = Inr True"
    using sl'(3) assms(3) by (simp add: is_predecessor_def)
  obtain sl2 where sl2: "ring_list sl2" "live sl2 = remove_at (nat p) (live ?sl)"
    using DelFromSlaveList_ring [OF assms(2) p(1,2)] by blast
  have keys: "keys sl' = remove_at (nat p) (keys ?sl)" "keys sl2 = keys sl'"
    using sl'(4) sl2(2) by (simp_all add: keys_def)
  have ring: "ring (keys ?sl)" "ring (keys sl')" using assms(2) sl2(1) keys(2) by (simp_all add: ring_list_def)
  have rl: "ring_list sl'" using sl'(2) ring(2) by (simp add: ring_list_def)
  have len: "length (keys ?sl) = nat ?n" using assms(2) by (simp add: ring_list_def length_keys)
  have pp: "nat p < length (keys ?sl)" "2 \<le> length (keys ?sl)" using p assms(3) by (simp_all add: len)
  have idx: "pred_pos (length (keys ?sl)) (nat p) = nat ?i" "index_del (nat p) (nat ?i) = nat ?q"
    using i assms(3) by (auto simp: pc len pred_pos_def index_del_def nat_diff_distrib)
  have own: "owner (keys sl') (nat ?q) k \<longleftrightarrow> owner (keys ?sl) (nat ?i) k \<or> owner (keys ?sl) (nat p) k" for k
    using owner_delete_pred [OF ring(1) _ pp] ring(2) keys(1) by (simp add: idx)
  have q: "0 \<le> ?q" "?q < sl_num sl'" "0 < sl_num sl'" using pos' assms(3) sl'(3) by (simp_all add: pos_ok_def)
  have "GetSocket sl' k = Inr ?q \<longleftrightarrow> GetSocket ?sl k = Inr ?i \<or> GetSocket ?sl k = Inr p" for k
    using own [of "uint k mod MAX_KEY"] GetSocket_iff [OF rl q(1,2)] GetSocket_iff [OF assms(2) i] GetSocket_iff [OF assms(2) p(1,2)]
    by simp
  then show ?thesis using sl'(1) pos' pre rl by blast
qed

section \<open>Backups\<close>

text \<open>The slave that is asked for a backup: \<open>a # acks\<close> is what it will read.\<close>

lemma backup_runs:
  assumes env: "env = node_env fs tc tm hdr fuel" and t: "talks fs env sock s" and cmd: "hd_cmd (GetHeader szBuf) = cmd_code BACKUP"
    and data: "fs_read fs (s_file_master s) (pdisk w) = Some data" "int32 (int (length data))" and m: "length (s_file_master s) < 100"
    and acks: "length acks = length (chunks data)" "list_all is_ack (a # acks)"
  shows "\<exists>b. HandleSlaveRequest env sock szBuf s (w\<lparr>inbox := a # acks, outbox := []\<rparr>)
      = Inr (s\<lparr>s_xbuf := b\<rparr>, w\<lparr>inbox := [], outbox := announce env s BACKUP_R data # send_outs env a (chunks data) acks\<rparr>)"
proof -
  have "length (s_file_master s) < APPENDSIZE" using m by (simp add: packet_consts)
  from SendFile_party [OF t _ data(2) this, of _ "w\<lparr>inbox := a # acks, outbox := []\<rparr>" a acks "[]" BACKUP_R] obtain b where
    "SendFile env sock (s_file_master s) BACKUP_R s (w\<lparr>inbox := a # acks, outbox := []\<rparr>)
      = Inr (0, s\<lparr>s_xbuf := b\<rparr>, w\<lparr>inbox := [], outbox := announce env s BACKUP_R data # send_outs env a (chunks data) acks\<rparr>)"
    using data(1) acks by auto
  then show ?thesis
    by (intro exI [of _ b]) (simp add: HandleSlaveRequest_def cmd ServiceStop_def talksD(2) [OF t] n_close_party)
qed

definition backup2_name :: "bytes \<Rightarrow> bytes" where
  "backup2_name m = BACKUP2_DIR @ ascii ''//'' @ m @ BACKUP_POSTFIX"

lemma backup_dirs: "47 \<in> set (backup_name m)" "47 \<in> set (backup2_name m)"
  by (simp_all add: backup_name_def backup2_name_def)

lemma GetFileName_backups:
  "length m < 100 \<Longrightarrow> GetFileName 1 m = Inr (backup_name m)" "length m < 100 \<Longrightarrow> GetFileName 2 m = Inr (backup2_name m)"
  by (simp_all add: GetFileName_def fits_def MAX_FILENAME_LEN_def BACKUP1_DIR_def BACKUP2_DIR_def BACKUP_POSTFIX_def
      backup_name_def backup2_name_def)

text \<open>What the second successor will send to a slave that asks it for a backup; among one or two slaves there is none.\<close>

definition serves_second :: "('h, 'm, 'w) env \<Rightarrow> 'm slave \<Rightarrow> bytes list \<Rightarrow> bool" where
  "serves_second env s pk \<longleftrightarrow>
    (if other_pos 2 s = s_pos s then pk = []
     else \<exists>m data. sent_file (e_fuel env) BACKUP_R m data pk)"

lemma second_backup:
  assumes env: "env = node_env fs tc tm hdr fuel" and t: "talks fs env 3 s" and pos: "pos_ok s" and pk: "serves_second env s pk"
  shows "\<exists>b msgs d ds. BackupForOtherSlave env 2 s (w\<lparr>inbox := pk, outbox := out\<rparr>)
      = Inr (0, s\<lparr>s_xbuf := b\<rparr>, w\<lparr>inbox := [], outbox := out @ msgs, pdisk := d, dials := ds\<rparr>)
    \<and> (d = pdisk w \<or> (\<exists>m data. d = fs_put fs (backup2_name m) data (pdisk w)))"
proof (cases "other_pos 2 s = s_pos s")
  case True
  then have "BackupForOtherSlave env 2 s (w\<lparr>inbox := pk, outbox := out\<rparr>) = Inr (0, s, w\<lparr>inbox := [], outbox := out\<rparr>)"
    using pk pos by (auto simp: BackupForOtherSlave_def CommunicateToSlave_def other_pos_def serves_second_def pos_ok_def)
  moreover have "s = s\<lparr>s_xbuf := s_xbuf s\<rparr>" "w\<lparr>inbox := [], outbox := out\<rparr> = w\<lparr>inbox := [], outbox := out @ [], pdisk := pdisk w, dials := dials w\<rparr>"
    by simp_all
  ultimately show ?thesis by metis
next
  case False
  then obtain m data h ps where p: "pk = h # ps" "file_packets BACKUP_R m data h ps" "0 \<notin> set m" "length m < 100"
    "length (chunks data) \<le> fuel" using pk by (auto simp: serves_second_def sent_file_def env)
  have "GetFileName (if (2 :: int) = -1 then 0 else 2) m = Inr (backup2_name m)" using GetFileName_backups(2) [OF p(4)] by simp
  from fetch_runs [OF env t pos _ False p(2,3) this p(5), where c = BACKUP and key = 0 and u = w and out = out] obtain b where
    "CommunicateToSlave env 2 BACKUP 0 BACKUP_R s (w\<lparr>inbox := h # ps, outbox := out\<rparr>)
      = Inr (0, s\<lparr>s_xbuf := b\<rparr>, w\<lparr>inbox := [], outbox := out @ packet_over env BACKUP 0 [] (s_xbuf s) # recv_outs env h ps @ [farewell env],
          pdisk := fs_put fs (backup2_name m) data (pdisk w), dials := dials w @ [slave_addr 2 s]\<rparr>)"
    by auto
  then show ?thesis unfolding p(1) BackupForOtherSlave_def by blast
qed

section \<open>The heir on \<open>RM_SLAVE\<close>\<close>

definition heir_ok ::
  "'d filesys \<Rightarrow> ('h, 'd) tchdb \<Rightarrow> ('m, 'h OpenedDB) tcmdb \<Rightarrow> ('h, 'd) tc_view \<Rightarrow> (bytes \<Rightarrow> bytes \<rightharpoonup> bytes) \<Rightarrow> 'm slave \<Rightarrow> 'd \<Rightarrow> bool" where
  "heir_ok fs tc tm v recs s d \<longleftrightarrow> tcmdb_laws tm \<and> tchdb_laws tc v \<and> tchdb_reliable tc v
    \<and> file_laws fs tc v recs \<and> shell_laws fs v recs \<and> reg_ok tm v (s_db s) d
    \<and> set (s_file_master s) \<inter> {0, 47} = {} \<and> length (s_file_master s) < 80"

lemma heir_okD:
  assumes "heir_ok fs tc tm v recs s d"
  shows "tcmdb_laws tm" "tchdb_laws tc v" "tchdb_reliable tc v" "file_laws fs tc v recs" "shell_laws fs v recs"
    "reg_ok tm v (s_db s) d" "0 \<notin> set (s_file_master s)" "47 \<notin> set (s_file_master s)" "length (s_file_master s) < 80"
  using assms unfolding heir_ok_def by blast+

lemma take_over_runs:
  assumes h: "heir_ok fs tc tm v recs s (pdisk w)" and env: "env = node_env fs tc tm hdr fuel" and t: "talks fs env 3 s"
    and pos: "pos_ok s" and pk: "serves_second env s pk" and fok: "db_file_ok v (pdisk w) (backup_name (s_file_master s))"
  shows "\<exists>st b msgs d ds. take_over env s (w\<lparr>inbox := pk, outbox := out\<rparr>)
      = Inr (s\<lparr>s_db := st, s_xbuf := b\<rparr>, w\<lparr>inbox := [], outbox := out @ msgs, pdisk := d, dials := ds\<rparr>)
    \<and> content v d (s_file_master s) = content v (pdisk w) (s_file_master s) ++ content v (pdisk w) (backup_name (s_file_master s))
    \<and> (\<exists>e. reg tm st (s_file_master s) = Some e \<and> hnd v d (od_hdb e) = Some (s_file_master s))
    \<and> reg tm st (backup_name (s_file_master s)) \<noteq> None"
proof -
  let ?m = "s_file_master s" and ?b = "backup_name (s_file_master s)" and ?w = "w\<lparr>inbox := pk, outbox := out\<rparr>"
  note a = heir_okD [OF h]
  have ne: "?b \<noteq> ?m" using a(8) backup_dirs(1) by metis
  have used: "x \<noteq> None" if "uses x = uses (reg tm (s_db s) n) + 1" for x n
    using that reg_okD(2) [OF a(6), of n] by (cases "reg tm (s_db s) n"; cases x) (auto simp: uses_def)
  obtain st d1 where d1: "Merge2Files tc tm ?b ?m (s_db s) (pdisk w) = Inr (SUCCESS, st, d1)" "reg_ok tm v st d1"
    "uses (reg tm st ?b) = uses (reg tm (s_db s) ?b) + 1" "uses (reg tm st ?m) = uses (reg tm (s_db s) ?m) + 1"
    "content v d1 ?m = content v (pdisk w) ?m ++ content v (pdisk w) ?b"
    using Merge2Files_spec [OF a(1-3,6) ne fok] by blast
  obtain e where e: "reg tm st ?m = Some e" using used [OF d1(4)] by auto
  have eh: "hnd v d1 (od_hdb e) = Some ?m" by (rule reg_okD(3) [OF d1(2) e])
  let ?c = "ascii ''mv backup2//*.bac backup1//''"
  obtain r d2 where d2: "fs_system fs ?c d1 = (r, d2)" by (cases "fs_system fs ?c d1")
  have "?c = ascii ''mv backup1//*.bac backup2//'' \<or> ?c = ascii ''mv backup2//*.bac backup1//''" by simp
  from shell_lawsD(1) [OF a(5) this d2] have s2: "hnd v d2 (od_hdb e) = Some ?m" "fil v d2 ?m = fil v d1 ?m"
    using eh a(8) by auto
  have sc: "shell_cmd (ascii ''mv'') BACKUP2_DIR (ascii ''*'') BACKUP1_DIR [] = ?c"
    by (simp add: shell_cmd_def BACKUP1_DIR_def BACKUP2_DIR_def BACKUP_POSTFIX_def)
  have cmd: "ExeShellCmd env (ascii ''mv'') BACKUP2_DIR (ascii ''*'') BACKUP1_DIR [] (?w\<lparr>pdisk := d1\<rparr>) = Inr (?c, ?w\<lparr>pdisk := d2\<rparr>)"
    using party_shell [OF talksD(2) [OF t] sc, of "?w\<lparr>pdisk := d1\<rparr>"] d2 by (simp del: ascii_simps) (simp add: ascii_simps)
  let ?s = "s\<lparr>s_db := st\<rparr>"
  have t': "talks fs env 3 ?s" "pos_ok ?s" "serves_second env ?s pk"
    using t pos pk by (simp_all add: talks_def pos_ok_def serves_second_def other_pos_def)
  have disk: "pdisk (w\<lparr>pdisk := d2\<rparr>) = d2" "w\<lparr>pdisk := d2, inbox := pk, outbox := out\<rparr> = ?w\<lparr>pdisk := d2\<rparr>" by simp_all
  obtain b msgs d ds where d: "BackupForOtherSlave env 2 ?s (?w\<lparr>pdisk := d2\<rparr>)
      = Inr (0, ?s\<lparr>s_xbuf := b\<rparr>, w\<lparr>pdisk := d2, inbox := [], outbox := out @ msgs, pdisk := d, dials := ds\<rparr>)"
    "d = d2 \<or> (\<exists>m data. d = fs_put fs (backup2_name m) data d2)"
    using second_backup [OF env t', where w = "w\<lparr>pdisk := d2\<rparr>" and out = out] unfolding disk by blast
  have "?m \<noteq> backup2_name m" for m using a(8) backup_dirs(2) by metis
  then have fin: "hnd v d (od_hdb e) = Some ?m" "fil v d ?m = fil v d2 ?m"
    using d(2) s2(1) file_lawsD(2,7) [OF a(4)] by auto
  have "fits 100 (BACKUP1_DIR @ ascii ''//'' @ ?m @ BACKUP_POSTFIX) = Inr ?b"
    using a(9) by (simp add: fits_def backup_name_def BACKUP1_DIR_def BACKUP_POSTFIX_def)
  then have "take_over env s ?w = Inr (s\<lparr>s_db := st, s_xbuf := b\<rparr>, w\<lparr>inbox := [], outbox := out @ msgs, pdisk := d, dials := ds\<rparr>)"
    using cmd d(1) by (simp add: take_over_def slave_merge_def env party_merge d1(1) del: ascii_simps)
  moreover have "content v d ?m = content v d1 ?m" using fin(2) s2(2) by (simp add: content_def fun_eq_iff)
  ultimately show ?thesis using used [OF d1(3)] d1(5) e fin(1) by auto
qed

lemma answer_party:
  assumes "talks fs env sock s" and "sock = s_master_sock s" and "packet_buf p"
  obtains a where "answer_master env c p s w = Inr (w\<lparr>outbox := outbox w @ [a]\<rparr>)" and "hd_cmd (GetHeader a) = cmd_code c"
proof -
  note t = talksD [OF assms(1)]
  let ?h = "(e_hdr env)\<lparr>hd_cmd := cmd_code c\<rparr>"
  have h: "header_ok ?h" using t(4) by (simp add: header_ok_def)
  have "n_send (party_os fs) k b u = u\<lparr>outbox := outbox u @ [b]\<rparr>" for k b u by (simp add: party_os_def)
  then show ?thesis
    by (intro that [of "WriteHeader p ?h"]) (use assms t(2,3) in \<open>simp_all add: answer_master_def GetHeader_WriteHeader [OF assms(3) h]\<close>)
qed

definition second_sends :: "('h, 'm, 'w) env \<Rightarrow> bytes \<Rightarrow> 'm slave \<Rightarrow> bytes list \<Rightarrow> bool" where
  "second_sends env p s pk \<longleftrightarrow> (case note_rm_slave (hd_key (GetHeader p)) s of Inl e \<Rightarrow> False | Inr s' \<Rightarrow> serves_second env s' pk)"

lemma note_rm_slave_upd:
  "note_rm_slave r (s\<lparr>s_db := st, s_xbuf := b\<rparr>) = andThen (note_rm_slave r s) (\<lambda>s'. Inr (s'\<lparr>s_db := st, s_xbuf := b\<rparr>))"
  by (cases "RemoveSlave r (s_slaves s)") (simp_all add: note_rm_slave_def)

lemma second_sends_upd: "second_sends env p (s\<lparr>s_db := st, s_xbuf := b\<rparr>) pk = second_sends env p s pk"
  by (cases "note_rm_slave (hd_key (GetHeader p)) s")
    (simp_all add: second_sends_def note_rm_slave_upd serves_second_def other_pos_def)

text \<open>\<open>p\<close> is the master's packet, which names the slave behind this one.\<close>

lemma heir_runs:
  assumes h: "heir_ok fs tc tm v recs s (pdisk w)" and env: "env = node_env fs tc tm hdr fuel" and t: "talks fs env 3 s"
    and ms: "s_master_sock s \<noteq> -1" and pos: "pos_ok s" "ring_list (s_slaves s)" "2 \<le> sl_num (s_slaves s)"
    and p: "packet_buf p" "hd_cmd (GetHeader p) = cmd_code RM_SLAVE" "hd_key (GetHeader p) = (s_pos s + 1) mod sl_num (s_slaves s)"
    and pk: "second_sends env p s pk"
    and fok: "db_file_ok v (pdisk w) (backup_name (s_file_master s))"
  shows "\<exists>s' w' a msgs. HandleMasterRequest env s (w\<lparr>inbox := p # pk, outbox := []\<rparr>) = Inr (s', w')
    \<and> inbox w' = [] \<and> outbox w' = a # msgs \<and> hd_cmd (GetHeader a) = cmd_code RM_SLAVE_R
    \<and> content v (pdisk w') (s_file_master s) = content v (pdisk w) (s_file_master s) ++ content v (pdisk w) (backup_name (s_file_master s))
    \<and> (\<exists>e. reg tm (s_db s') (s_file_master s) = Some e \<and> hnd v (pdisk w') (od_hdb e) = Some (s_file_master s))
    \<and> reg tm (s_db s') (backup_name (s_file_master s)) \<noteq> None \<and> ring_list (s_slaves s')
    \<and> (\<forall>k. GetSocket (s_slaves s') k = Inr (s_pos s') \<longleftrightarrow> GetSocket (s_slaves s) k = Inr (s_pos s) \<or> GetSocket (s_slaves s) k = Inr (hd_key (GetHeader p)))"
proof -
  note os = talksD(2) [OF t]
  let ?rm = "hd_key (GetHeader p)"
  obtain sl' q where n: "note_rm_slave ?rm s = Inr (s\<lparr>s_slaves := sl', s_pos := q\<rparr>)" "pos_ok (s\<lparr>s_slaves := sl', s_pos := q\<rparr>)"
    "is_predecessor 1 ?rm (s\<lparr>s_slaves := sl', s_pos := q\<rparr>) = Inr True" "ring_list sl'"
    "\<forall>k. GetSocket sl' k = Inr q \<longleftrightarrow> GetSocket (s_slaves s) k = Inr (s_pos s) \<or> GetSocket (s_slaves s) k = Inr ?rm"
    using note_heir [OF pos p(3)] by blast
  let ?s = "s\<lparr>s_slaves := sl', s_pos := q\<rparr>"
  have s: "heir_ok fs tc tm v recs ?s (pdisk w)" "talks fs env 3 ?s" "serves_second env ?s pk" "db_file_ok v (pdisk w) (backup_name (s_file_master ?s))"
    "talks fs env (s_master_sock ?s) ?s"
    using h t pk n(1) fok ms by (simp_all add: heir_ok_def talks_def second_sends_def)
  obtain a where a: "answer_master env RM_SLAVE_R p ?s (w\<lparr>inbox := pk, outbox := []\<rparr>) = Inr (w\<lparr>inbox := pk, outbox := [a]\<rparr>)"
    "hd_cmd (GetHeader a) = cmd_code RM_SLAVE_R"
    using answer_party [OF s(5) refl p(1), of RM_SLAVE_R "w\<lparr>inbox := pk, outbox := []\<rparr>"] by auto
  obtain st b msgs d ds where d: "take_over env ?s (w\<lparr>inbox := pk, outbox := [a]\<rparr>)
      = Inr (?s\<lparr>s_db := st, s_xbuf := b\<rparr>, w\<lparr>inbox := [], outbox := [a] @ msgs, pdisk := d, dials := ds\<rparr>)"
    "content v d (s_file_master ?s) = content v (pdisk w) (s_file_master ?s) ++ content v (pdisk w) (backup_name (s_file_master ?s))"
    "\<exists>e. reg tm st (s_file_master ?s) = Some e \<and> hnd v d (od_hdb e) = Some (s_file_master ?s)"
    "reg tm st (backup_name (s_file_master ?s)) \<noteq> None"
    using take_over_runs [OF s(1) env s(2) n(2) s(3,4), of "[a]"] by blast
  have "n_recv (party_os fs) (s_master_sock s) (w\<lparr>inbox := p # pk, outbox := []\<rparr>) = (Some p, w\<lparr>inbox := pk, outbox := []\<rparr>)"
    by (simp add: party_os_def)
  from recv_into_full [OF this p(1), of "zeros MAX_BUF_LEN"]
  have rcv: "RecvMsg (party_os fs) (s_master_sock s) (zeros MAX_BUF_LEN) (w\<lparr>inbox := p # pk, outbox := []\<rparr>)
      = Inr (int MAX_BUF_LEN, p, w\<lparr>inbox := pk, outbox := []\<rparr>)"
    using ms by (simp add: packet_buf_def MAX_BUF_LEN_def packet_consts)
  have "decode_cmd (hd_cmd (GetHeader p)) = Some RM_SLAVE" using p(2) by (simp add: decode_cmd_eq)
  then have "HandleMasterRequest env s (w\<lparr>inbox := p # pk, outbox := []\<rparr>)
      = Inr (?s\<lparr>s_db := st, s_xbuf := b\<rparr>, w\<lparr>inbox := [], outbox := a # msgs, pdisk := d, dials := ds\<rparr>)"
    using a(1) d(1) n(1,3) rcv by (simp add: HandleMasterRequest_def os Let_def)
  then show ?thesis using d(2-4) a(2) n(4,5) by fastforce
qed

text \<open>With at most two slaves left there is no second successor.\<close>

lemma few_slaves:
  assumes "pos_ok s" and "2 \<le> sl_num (s_slaves s)" and "sl_num (s_slaves s) \<le> 3"
    and "hd_key (GetHeader p) = (s_pos s + 1) mod sl_num (s_slaves s)"
  shows "second_sends env p s []"
proof -
  let ?n = "sl_num (s_slaves s)" and ?p = "(s_pos s + 1) mod sl_num (s_slaves s)"
  have i: "0 \<le> s_pos s" "s_pos s < ?n" using assms(1) by (simp_all add: pos_ok_def)
  have p: "0 \<le> ?p" "?p < ?n" "?p \<noteq> s_pos s"
    using i assms(2) by (simp, simp, cases "s_pos s + 1 = ?n") (auto simp: mod_pos_pos_trivial)
  obtain sl' q where n: "note_rm_slave ?p s = Inr (s\<lparr>s_slaves := sl', s_pos := q\<rparr>)" "sl_num sl' = ?n - 1"
    "q = (if ?p < s_pos s then s_pos s - 1 else s_pos s)"
    using note_rm_slave_spec [OF assms(1) p] by blast
  have q: "0 \<le> q" "q < ?n - 1"
    using i n(3) assms(2) by (cases "s_pos s + 1 = ?n"; auto simp: mod_pos_pos_trivial)+
  have "?n - 1 = 1 \<or> ?n - 1 = 2" using assms(2,3) by auto
  moreover have "q = 0 \<or> q = 1" using q assms(3) by auto
  ultimately have "c_rem (q + 2 + (?n - 1)) (?n - 1) = q" using q by (elim disjE) (simp_all add: c_rem_nonneg)
  then show ?thesis using n(1,2) by (simp add: second_sends_def serves_second_def other_pos_def assms(4))
qed

definition rm_packet :: bytes where
  "rm_packet = WriteHeader (zeros MAX_BUF_LEN) ((e_hdr feed_env)\<lparr>hd_cmd := cmd_code RM_SLAVE, hd_key := 1\<rparr>)"

lemma rm_packet:
  "packet_buf rm_packet" "hd_cmd (GetHeader rm_packet) = cmd_code RM_SLAVE" "hd_key (GetHeader rm_packet) = 1"
proof -
  have z: "packet_buf (zeros MAX_BUF_LEN)" by (simp add: packet_buf_def MAX_BUF_LEN_def packet_consts)
  have h: "header_ok ((e_hdr feed_env)\<lparr>hd_cmd := cmd_code RM_SLAVE, hd_key := 1\<rparr>)" by (simp add: header_ok_def feed_env_def int32_def)
  show "packet_buf rm_packet" "hd_cmd (GetHeader rm_packet) = cmd_code RM_SLAVE" "hd_key (GetHeader rm_packet) = 1"
    using z GetHeader_WriteHeader [OF z h] by (simp_all add: rm_packet_def)
qed

lemma a_slave_heir:
  "heir_ok byte_fs byte_db alist_mdb byte_view byte_recs a_slave (a_disk al)"
  using alist_mdb_laws byte_db_laws byte_file_laws byte_shell_laws
  by (simp add: heir_ok_def reg_ok_def regs_ok_def reg_def a_slave_def no_dbs_def byte_view_simps a_disk_def a_db_def)

section \<open>Properties\<close>

text \<open>C8: a slave that leaves takes no record along: when its predecessor, the heir, has made its backup
  (\<open>BackupForOtherSlave\<close>, which connects to its successor in the list, against the leaver's \<open>HandleSlaveRequest\<close>, each
  sending what the other reads) and is told of
  the departure by \<open>RM_SLAVE\<close>, it answers, and its open database has for every key that \<open>GetSocket\<close> routes to it by the
  new list the record that the leaver had, or that it had itself, according to the old list.\<close>

theorem leave_keeps_records:
  assumes "heir_ok fs tc tm v recs s (pdisk w)" and "talks fs (node_env fs tc tm hdr fuel) 3 s" and "s_master_sock s \<noteq> -1"
    and "pos_ok s" and "ring_list (s_slaves s)" and "2 \<le> sl_num (s_slaves s)" and "closed v (pdisk w) (backup_name (s_file_master s))"
    and "talks fs (node_env fs tc tm hdr' fuel') sock q" and "s_file_master q = s_file_master s"
    and "closed v (pdisk u) (s_file_master s)" and "db_file_ok v (pdisk u) (s_file_master s)"
    and "fs_read fs (s_file_master s) (pdisk u) = Some data" and "int32 (int (length data))" and "length (chunks data) \<le> fuel"
    and "packet_buf p" and "hd_cmd (GetHeader p) = cmd_code RM_SLAVE" and "hd_key (GetHeader p) = (s_pos s + 1) mod sl_num (s_slaves s)"
    and "second_sends (node_env fs tc tm hdr fuel) p s pk"
    and "\<forall>k. content v (pdisk w) (s_file_master s) k \<noteq> None \<longrightarrow> GetSocket (s_slaves s) k = Inr (s_pos s)"
    and "\<forall>k. content v (pdisk u) (s_file_master s) k \<noteq> None \<longrightarrow> GetSocket (s_slaves s) k = Inr (hd_key (GetHeader p))"
  shows "\<exists>req acks msgs q' u' s1 w1 s2 w2. hd_cmd (GetHeader req) = cmd_code BACKUP
    \<and> HandleSlaveRequest (node_env fs tc tm hdr' fuel') sock req q (u\<lparr>inbox := acks, outbox := []\<rparr>) = Inr (q', u') \<and> outbox u' = msgs
    \<and> BackupForOtherSlave (node_env fs tc tm hdr fuel) 1 s (w\<lparr>inbox := msgs, outbox := []\<rparr>) = Inr (0, s1, w1) \<and> outbox w1 = req # acks
    \<and> dials w1 = dials w @ [slave_addr 1 s]
    \<and> HandleMasterRequest (node_env fs tc tm hdr fuel) s1 (w1\<lparr>inbox := p # pk, outbox := []\<rparr>) = Inr (s2, w2) \<and> inbox w2 = []
    \<and> hd_cmd (GetHeader (outbox w2 ! 0)) = cmd_code RM_SLAVE_R
    \<and> (\<exists>e. reg tm (s_db s2) (s_file_master s) = Some e \<and> hnd v (pdisk w2) (od_hdb e) = Some (s_file_master s))
    \<and> (\<forall>k. GetSocket (s_slaves s2) k = Inr (s_pos s2)
          \<longleftrightarrow> GetSocket (s_slaves s) k = Inr (s_pos s) \<or> GetSocket (s_slaves s) k = Inr (hd_key (GetHeader p)))
    \<and> (\<forall>k. GetSocket (s_slaves s2) k = Inr (s_pos s2) \<longrightarrow>
        content v (pdisk w2) (s_file_master s) k
          = (if GetSocket (s_slaves s) k = Inr (s_pos s) then content v (pdisk w) (s_file_master s) k
             else content v (pdisk u) (s_file_master s) k))"
proof -
  let ?env = "node_env fs tc tm hdr fuel" and ?env' = "node_env fs tc tm hdr' fuel'" and ?m = "s_file_master s"
  let ?b = "backup_name ?m" and ?p = "(s_pos s + 1) mod sl_num (s_slaves s)"
  note a = heir_okD [OF assms(1)]
  have m: "length (s_file_master q) < 100" using a(9) assms(9) by simp
  let ?h = "announce ?env' q BACKUP_R data"
  obtain x acks where acks: "length acks = length (chunks data)" "list_all is_ack (x # acks)"
    "recv_outs ?env ?h (send_outs ?env' x (chunks data) acks) @ [farewell ?env] = x # acks"
    and fp: "file_packets BACKUP_R ?m data ?h (send_outs ?env' x (chunks data) acks)"
    using file_conversation [OF assms(8,2,13) m] unfolding assms(9) by blast
  let ?ps = "send_outs ?env' x (chunks data) acks"
  let ?req = "packet_over ?env BACKUP 0 [] (s_xbuf s)"
  have req: "hd_cmd (GetHeader ?req) = cmd_code BACKUP"
    by (rule packet_over_facts(2) [OF _ talksD(5) [OF assms(2)]]) (use talksD(4) [OF assms(2)] in \<open>simp_all add: int32_def\<close>)
  obtain b' where give: "HandleSlaveRequest ?env' sock ?req q (u\<lparr>inbox := x # acks, outbox := []\<rparr>)
      = Inr (q\<lparr>s_xbuf := b'\<rparr>, u\<lparr>inbox := [], outbox := ?h # ?ps\<rparr>)"
    using backup_runs [OF refl assms(8) req _ assms(13) m acks(1,2), of u] assms(9,12) by auto
  have i: "0 \<le> s_pos s" "s_pos s < sl_num (s_slaves s)" using assms(4) by (simp_all add: pos_ok_def)
  have o: "other_pos 1 s \<noteq> s_pos s" using assms(6) by (intro other_pos_ne [OF assms(4)]) simp_all
  have "other_pos 1 s = ?p" using i by (simp add: other_pos_def c_rem_nonneg)
  then have "?p \<noteq> s_pos s" using o by simp
  have f: "GetFileName (if (1 :: int) = -1 then 0 else 1) ?m = Inr ?b" using GetFileName_backups(1) [of ?m] a(9) by simp
  obtain b where b: "packet_buf b" "BackupForOtherSlave ?env 1 s (w\<lparr>inbox := ?h # ?ps, outbox := []\<rparr>)
      = Inr (0, s\<lparr>s_xbuf := b\<rparr>, w\<lparr>inbox := [], outbox := ?req # x # acks, pdisk := fs_put fs ?b data (pdisk w), dials := dials w @ [slave_addr 1 s]\<rparr>)"
    using fetch_runs [OF refl assms(2,4) _ o fp a(7) f assms(14), where out = "[]" and c = BACKUP and key = 0 and u = w] by (auto simp: BackupForOtherSlave_def acks(3))
  let ?s = "s\<lparr>s_xbuf := b\<rparr>" and ?w = "w\<lparr>inbox := [], outbox := ?req # x # acks, pdisk := fs_put fs ?b data (pdisk w), dials := dials w @ [slave_addr 1 s]\<rparr>"
  have ne: "?m \<noteq> ?b" using a(8) backup_dirs(1) by metis
  have fil: "fil v (pdisk ?w) ?b = fil v (pdisk u) ?m" "fil v (pdisk ?w) ?m = fil v (pdisk w) ?m"
    using file_lawsD(3,7) [OF a(4)] file_lawsD(4) [OF a(4) assms(10,12)] assms(7) ne by simp_all
  have "heir_ok fs tc tm v recs ?s (pdisk ?w)"
    using assms(1) reg_ok_world [OF a(6), of "pdisk ?w"] file_lawsD(2) [OF a(4)] by (simp add: heir_ok_def)
  moreover have "talks fs ?env 3 ?s" "s_master_sock ?s \<noteq> -1" "pos_ok ?s" "ring_list (s_slaves ?s)" "2 \<le> sl_num (s_slaves ?s)"
    "hd_key (GetHeader p) = (s_pos ?s + 1) mod sl_num (s_slaves ?s)"
    using assms(2-6,17) b(1) by (simp_all add: pos_ok_def)
  moreover have "second_sends ?env p ?s pk"
    using assms(18) by (simp add: second_sends_upd [where s = s and st = "s_db s" and b = b, simplified])
  moreover have "db_file_ok v (pdisk ?w) (backup_name (s_file_master ?s))" using assms(11) fil(1) by (simp add: db_file_ok_def)
  ultimately obtain s2 w2 y msgs e where run: "HandleMasterRequest ?env ?s (?w\<lparr>inbox := p # pk, outbox := []\<rparr>) = Inr (s2, w2)"
    "inbox w2 = []" "outbox w2 = y # msgs" "hd_cmd (GetHeader y) = cmd_code RM_SLAVE_R"
    "content v (pdisk w2) ?m = content v (pdisk ?w) ?m ++ content v (pdisk ?w) ?b"
    "reg tm (s_db s2) ?m = Some e" "hnd v (pdisk w2) (od_hdb e) = Some ?m"
    "\<forall>k. GetSocket (s_slaves s2) k = Inr (s_pos s2) \<longleftrightarrow> GetSocket (s_slaves s) k = Inr (s_pos s) \<or> GetSocket (s_slaves s) k = Inr (hd_key (GetHeader p))"
    using heir_runs [of fs tc tm v recs ?s ?w, OF _ refl] assms(15,16) by fastforce
  have c: "content v (pdisk w2) ?m k = (content v (pdisk w) ?m ++ content v (pdisk u) ?m) k" for k
    using run(5) fil by (simp add: content_def [abs_def] fun_eq_iff)
  have "content v (pdisk u) ?m k = None" if "GetSocket (s_slaves s) k = Inr (s_pos s)" for k
    using assms(17,20) that \<open>?p \<noteq> s_pos s\<close> by force
  moreover have "content v (pdisk w) ?m k = None" if "GetSocket (s_slaves s) k = Inr (hd_key (GetHeader p))" for k
    using assms(17,19) that \<open>?p \<noteq> s_pos s\<close> by force
  ultimately have k: "GetSocket (s_slaves s2) k = Inr (s_pos s2) \<Longrightarrow> content v (pdisk w2) ?m k
      = (if GetSocket (s_slaves s) k = Inr (s_pos s) then content v (pdisk w) ?m k else content v (pdisk u) ?m k)" for k
    using run(8) c by (auto simp: map_add_def split: option.split)
  show ?thesis
    by (rule exI [of _ ?req], rule exI [of _ "x # acks"], rule exI [of _ "?h # ?ps"], intro exI conjI, rule req, rule give, simp, rule b(2), simp, simp,
        rule run(1), rule run(2)) (use run(3,4,6-8) k in simp_all)
qed

text \<open>Slave 0 has key 500, slave 1, which leaves, has 3000.\<close>

theorem leave_keeps_records_witness:
  "\<exists>req acks msgs q' u' s1 w1 s2 w2.
    HandleSlaveRequest (node_env byte_fs byte_db alist_mdb (e_hdr feed_env) 0) 5 req (a_slave\<lparr>s_pos := 1\<rparr>)
      \<lparr>inbox = acks, outbox = [], pdisk = a_disk [(key_bytes 3000, [66, 0])], dials = []\<rparr> = Inr (q', u') \<and> outbox u' = msgs
    \<and> BackupForOtherSlave (node_env byte_fs byte_db alist_mdb (e_hdr feed_env) 1) 1 a_slave
      \<lparr>inbox = msgs, outbox = [], pdisk = a_disk [(key_bytes 500, [65, 0])], dials = []\<rparr> = Inr (0, s1, w1)
    \<and> HandleMasterRequest (node_env byte_fs byte_db alist_mdb (e_hdr feed_env) 1) s1 (w1\<lparr>inbox := [rm_packet], outbox := []\<rparr>) = Inr (s2, w2)
    \<and> content byte_view (pdisk w2) a_db 3000 = Some [66, 0] \<and> content byte_view (pdisk w2) a_db 500 = Some [65, 0]"
proof -
  let ?w = "\<lparr>inbox = [], outbox = [], pdisk = a_disk [(key_bytes 500, [65, 0])], dials = []\<rparr> :: bdisk party"
  let ?u = "\<lparr>inbox = [], outbox = [], pdisk = a_disk [(key_bytes 3000, [66, 0])], dials = []\<rparr> :: bdisk party"
  let ?q = "a_slave\<lparr>s_pos := 1\<rparr>" and ?v = byte_view
  let ?env = "\<lambda>n. node_env byte_fs byte_db alist_mdb (e_hdr feed_env) n"
  have m: "s_file_master a_slave = a_db" "s_file_master ?q = s_file_master a_slave" "s_master_sock a_slave \<noteq> -1"
    "s_pos a_slave = 0" by (simp_all add: a_slave_def)
  note g = a_slave_ring and p = rm_packet
  have key: "hd_key (GetHeader rm_packet) = (s_pos a_slave + 1) mod sl_num (s_slaves a_slave)" using p(3) g(9) by simp
  have h: "heir_ok byte_fs byte_db alist_mdb ?v byte_recs a_slave (pdisk ?w)" using a_slave_heir by simp
  have t: "talks byte_fs (?env n) k a_slave" "talks byte_fs (?env n) k ?q" if "k \<noteq> -1" for n k
    using a_slave_talks [OF that, of n 0] a_slave_talks [OF that, of n 1] by (simp_all add: a_slave_def)
  have c: "closed ?v (pdisk ?w) (backup_name (s_file_master a_slave))" "closed ?v (pdisk ?u) (s_file_master a_slave)"
    by (simp_all add: a_disk_closed)
  have ok: "db_file_ok ?v (pdisk ?u) (s_file_master a_slave)"
    by (auto simp: db_file_ok_def byte_view_simps a_disk_def byte_recs_def m(1) value_bytes_def c_str_def ran_def split: if_splits)
  have rd: "fs_read byte_fs (s_file_master a_slave) (pdisk ?u) = Some (enc_recs [(key_bytes 3000, [66, 0])])"
    by (simp add: byte_fs_def a_disk_def m(1))
  have own: "\<forall>k. content ?v (pdisk ?w) (s_file_master a_slave) k \<noteq> None \<longrightarrow> GetSocket (s_slaves a_slave) k = Inr (s_pos a_slave)"
    "\<forall>k. content ?v (pdisk ?u) (s_file_master a_slave) k \<noteq> None \<longrightarrow> GetSocket (s_slaves a_slave) k = Inr (hd_key (GetHeader rm_packet))"
    using g(6,7) p(3) m(4) by (simp_all add: m(1) a_disk_content)
  have "length (chunks (enc_recs [(key_bytes 3000, [66, 0])])) \<le> 1" using one_record_small(2) by simp
  from leave_keeps_records [OF h t(1) [of 3 1] m(3) g(1-3) c(1) t(2) [of 5 0] m(2) c(2) ok rd one_record_small(1) this p(1,2) key few_slaves [OF g(1,3,8) key] own]
  obtain req acks msgs q' u' s1 w1 s2 w2 where run:
    "HandleSlaveRequest (?env 0) 5 req ?q (?u\<lparr>inbox := acks, outbox := []\<rparr>) = Inr (q', u')" "outbox u' = msgs"
    "BackupForOtherSlave (?env 1) 1 a_slave (?w\<lparr>inbox := msgs, outbox := []\<rparr>) = Inr (0, s1, w1)"
    "HandleMasterRequest (?env 1) s1 (w1\<lparr>inbox := [rm_packet], outbox := []\<rparr>) = Inr (s2, w2)"
    "\<forall>k. GetSocket (s_slaves s2) k = Inr (s_pos s2)
          \<longleftrightarrow> GetSocket (s_slaves a_slave) k = Inr (s_pos a_slave) \<or> GetSocket (s_slaves a_slave) k = Inr (hd_key (GetHeader rm_packet))"
    "\<forall>k. GetSocket (s_slaves s2) k = Inr (s_pos s2) \<longrightarrow>
        content ?v (pdisk w2) (s_file_master a_slave) k
          = (if GetSocket (s_slaves a_slave) k = Inr (s_pos a_slave) then content ?v (pdisk ?w) (s_file_master a_slave) k
             else content ?v (pdisk ?u) (s_file_master a_slave) k)"
    by auto
  have "GetSocket (s_slaves s2) 3000 = Inr (s_pos s2)" "GetSocket (s_slaves s2) 500 = Inr (s_pos s2)"
    using run(5) g(6,7) m(4) p(3) by simp_all
  then have "content ?v (pdisk w2) a_db 3000 = Some [66, 0]" "content ?v (pdisk w2) a_db 500 = Some [65, 0]"
    using spec [OF run(6), of 3000] spec [OF run(6), of 500] g(6,7) m(1,4) by (simp_all add: a_disk_content)
  with run(1-4) show ?thesis by simp blast
qed

text \<open>C9: a departure undoes a join: a slave that has handed over a part of its database to a newcomer, as \<open>CLIP_DATA\<close>
  asks it to, and is then told that the newcomer leaves, has in its open database just the records that it had
  before the join; the backup that it merges back stays open, too.\<close>

theorem join_leave_restores:
  assumes "giver_ok fs tc tm v recs s (pdisk w)" and "talks fs (node_env fs tc tm hdr fuel) sock s" and "s_master_sock s \<noteq> -1"
    and "length (s_file_master s) < 80" and "pos_ok s" and "ring_list (s_slaves s)" and "2 \<le> sl_num (s_slaves s)"
    and "key_after 1 s = Inr lo" and "key_after 2 s = Inr up"
    and "clipped fs tc tm lo up s (pdisk w) = Some data" and "int32 (int (length data))"
    and "hd_cmd (GetHeader req) = cmd_code CLIP_DATA" and "length acks = Suc (length (chunks data))" and "list_all is_ack acks"
    and "packet_buf p" and "hd_cmd (GetHeader p) = cmd_code RM_SLAVE" and "hd_key (GetHeader p) = (s_pos s + 1) mod sl_num (s_slaves s)"
    and "second_sends (node_env fs tc tm hdr fuel) p s pk"
  shows "\<exists>s1 w1 s2 w2 e. HandleSlaveRequest (node_env fs tc tm hdr fuel) sock req s (w\<lparr>inbox := acks, outbox := []\<rparr>) = Inr (s1, w1)
    \<and> inbox w1 = [] \<and> content v (pdisk w1) (s_file_master s)
      = content v (pdisk w) (s_file_master s) |` {k. \<not> split_range (word_of_int lo) (word_of_int up) k}
    \<and> HandleMasterRequest (node_env fs tc tm hdr fuel) s1 (w1\<lparr>inbox := p # pk, outbox := []\<rparr>) = Inr (s2, w2) \<and> inbox w2 = []
    \<and> hd_cmd (GetHeader (outbox w2 ! 0)) = cmd_code RM_SLAVE_R
    \<and> content v (pdisk w2) (s_file_master s) = content v (pdisk w) (s_file_master s)
    \<and> reg tm (s_db s2) (s_file_master s) = Some e \<and> hnd v (pdisk w2) (od_hdb e) = Some (s_file_master s)
    \<and> reg tm (s_db s2) (backup_name (s_file_master s)) \<noteq> None"
proof -
  let ?env = "node_env fs tc tm hdr fuel" and ?m = "s_file_master s"
  note g = giver_okD [OF assms(1)]
  define R where "R = {k. split_range (word_of_int lo) (word_of_int up) k}"
  obtain a as where acks: "acks = a # as" "length as = length (chunks data)" using assms(13) by (cases acks) auto
  have al: "list_all is_ack (a # as)" using assms(14) acks(1) by simp
  obtain st b d3 where give: "HandleSlaveRequest ?env sock req s (w\<lparr>inbox := acks, outbox := []\<rparr>)
      = Inr (s\<lparr>s_db := st, s_xbuf := b\<rparr>, w\<lparr>inbox := [], outbox := announce ?env s CLIP_DATA_R data # send_outs ?env a (chunks data) as, pdisk := d3\<rparr>)"
    "reg_ok tm v st d3" "content v d3 ?m = content v (pdisk w) ?m |` (- R)"
    "content v d3 (backup_name ?m) = content v (pdisk w) ?m |` R" "db_file_ok v d3 (backup_name ?m)" "packet_buf b"
    using giver_runs [OF assms(1) refl assms(2,12,8-11) acks(2) al R_def] acks(1) by blast
  let ?s = "s\<lparr>s_db := st, s_xbuf := b\<rparr>"
    and ?w = "w\<lparr>inbox := [], outbox := announce ?env s CLIP_DATA_R data # send_outs ?env a (chunks data) as, pdisk := d3\<rparr>"
  have "heir_ok fs tc tm v recs ?s (pdisk ?w)"
    using g give(2) assms(4) by (auto simp: heir_ok_def)
  moreover have "talks fs ?env 3 ?s" "s_master_sock ?s \<noteq> -1" "pos_ok ?s" "ring_list (s_slaves ?s)" "2 \<le> sl_num (s_slaves ?s)"
    "hd_key (GetHeader p) = (s_pos ?s + 1) mod sl_num (s_slaves ?s)" "db_file_ok v (pdisk ?w) (backup_name (s_file_master ?s))"
    using assms(2,3,5-7,17) give(5,6) by (simp_all add: pos_ok_def talks_def)
  moreover have "second_sends ?env p ?s pk" using assms(18) by (simp add: second_sends_upd)
  ultimately obtain s2 w2 y msgs e where run: "HandleMasterRequest ?env ?s (?w\<lparr>inbox := p # pk, outbox := []\<rparr>) = Inr (s2, w2)"
    "inbox w2 = []" "outbox w2 = y # msgs" "hd_cmd (GetHeader y) = cmd_code RM_SLAVE_R"
    "content v (pdisk w2) ?m = content v d3 ?m ++ content v d3 (backup_name ?m)"
    "reg tm (s_db s2) ?m = Some e \<and> hnd v (pdisk w2) (od_hdb e) = Some ?m" "reg tm (s_db s2) (backup_name ?m) \<noteq> None"
    using heir_runs [of fs tc tm v recs ?s ?w, OF _ refl] assms(15,16) by fastforce
  have "content v (pdisk w2) ?m = content v (pdisk w) ?m"
    unfolding run(5) give(3,4) by (auto simp: map_add_def restrict_map_def fun_eq_iff split: option.split)
  then show ?thesis using give(1,3) run(2-4,6,7)
    by (intro exI [of _ ?s] exI [of _ ?w] exI [of _ s2] exI [of _ w2] exI [of _ e] conjI, simp_all only: run(1)) (simp_all add: R_def Collect_neg_eq)
qed

text \<open>Key 3000 goes to the newcomer and comes back.\<close>

theorem join_leave_restores_witness:
  "\<exists>req acks s1 w1 s2 w2. HandleSlaveRequest (node_env byte_fs byte_db alist_mdb (e_hdr feed_env) 0) 5 req a_slave
      \<lparr>inbox = acks, outbox = [], pdisk = joined_disk, dials = []\<rparr> = Inr (s1, w1)
    \<and> content byte_view (pdisk w1) a_db 3000 = None
    \<and> HandleMasterRequest (node_env byte_fs byte_db alist_mdb (e_hdr feed_env) 0) s1 (w1\<lparr>inbox := [rm_packet], outbox := []\<rparr>) = Inr (s2, w2)
    \<and> content byte_view (pdisk w2) a_db 3000 = Some [66, 0] \<and> content byte_view (pdisk w2) a_db 500 = Some [65, 0]"
proof -
  let ?w = "\<lparr>inbox = [], outbox = [], pdisk = joined_disk, dials = []\<rparr> :: bdisk party" and ?v = byte_view
  let ?env = "node_env byte_fs byte_db alist_mdb (e_hdr feed_env) 0"
  note g = a_slave_ring and p = rm_packet
  have key: "hd_key (GetHeader rm_packet) = (s_pos a_slave + 1) mod sl_num (s_slaves a_slave)" using p(3) g(9) by simp
  have m: "s_file_master a_slave = a_db" "s_master_sock a_slave \<noteq> -1" "length (s_file_master a_slave) < 80"
    by (simp_all add: a_slave_def a_db_def)
  have t: "talks byte_fs ?env 5 a_slave" using a_slave_talks [of 5 0 0] by (simp add: a_slave_def)
  have j: "giver_ok byte_fs byte_db alist_mdb ?v byte_recs a_slave (pdisk ?w)"
    "clipped byte_fs byte_db alist_mdb 2100 100 a_slave (pdisk ?w) = Some (enc_recs [(key_bytes 3000, [66, 0])])"
    using joined_disk_ok joined_disk_clipped by simp_all
  let ?data = "enc_recs [(key_bytes 3000, [66, 0])]"
  have hdr: "header_ok (e_hdr ?env)" by (simp add: feed_env_def header_ok_def int32_def)
  let ?req = "packet_over ?env CLIP_DATA 0 [] (zeros MAX_BUF_LEN)" and ?a = "farewell ?env"
  have req: "hd_cmd (GetHeader ?req) = cmd_code CLIP_DATA"
    by (rule packet_over_facts(2) [OF hdr]) (simp_all add: packet_buf_def MAX_BUF_LEN_def packet_consts int32_def)
  have acks: "length (replicate 2 ?a) = Suc (length (chunks ?data))" "list_all is_ack (replicate 2 ?a)"
    using farewell_ack [OF hdr] one_record_small(2) [of 3000 66] by (simp_all add: numeral_2_eq_2)
  obtain s1 w1 s2 w2 where run: "HandleSlaveRequest ?env 5 ?req a_slave (?w\<lparr>inbox := replicate 2 ?a, outbox := []\<rparr>) = Inr (s1, w1)"
    "content ?v (pdisk w1) a_db = content ?v (pdisk ?w) a_db |` {k. \<not> split_range (word_of_int 2100) (word_of_int 100) k}"
    "HandleMasterRequest ?env s1 (w1\<lparr>inbox := [rm_packet], outbox := []\<rparr>) = Inr (s2, w2)"
    "content ?v (pdisk w2) a_db = content ?v (pdisk ?w) a_db"
    using join_leave_restores [OF j(1) t m(2,3) g(1-5) j(2) one_record_small(1) req acks p(1,2) key few_slaves [OF g(1,3,8) key]]
    unfolding m(1) by blast
  have "content ?v (pdisk w1) a_db 3000 = None" using run(2) by (simp add: split_range_def)
  moreover have "content ?v (pdisk w2) a_db 3000 = Some [66, 0]" "content ?v (pdisk w2) a_db 500 = Some [65, 0]"
    using run(4) by (simp_all add: joined_disk_def a_disk_content)
  ultimately show ?thesis using run(1,3) by simp blast
qed

end
