(* ===== verification/Station.thy ===== *)
theory Station
  imports Cluster Departure
begin

text \<open>
  A slave between the master's packets, on a machine with a connection for each descriptor. The other slaves are reached by their
  addresses: each either refuses the connection or has packets for the one that connects. The master's packet is handled by
  \<open>HandleMasterRequest\<close> of \<^verbatim>\<open>server/slave.c\<close>. Whatever the others send and whatever the disk does, a run that
  does not fault leaves the slave as the master expects it; \<open>fit\<close> says when there is no fault.
\<close>

section \<open>The machine\<close>

text \<open>
  \<open>sa_in\<close> is what has arrived, \<open>sa_out\<close> what was sent, also on a connection that is closed by now, \<open>sa_next\<close> the descriptor
  of the next socket and \<open>sa_peers\<close> what the slave at an address will send; with \<open>None\<close> it refuses.
\<close>

record 'd station =
  sa_in :: "int \<Rightarrow> bytes list"
  sa_out :: "int \<Rightarrow> bytes list"
  sa_next :: int
  sa_peers :: "int \<times> int \<rightharpoonup> bytes list"
  sa_disk :: 'd

text \<open>\<open>cn\<close> is the fault of \<open>pthread_cancel\<close>, if it has one.\<close>

definition station_os :: "'d filesys \<Rightarrow> (int \<Rightarrow> c_fault option) \<Rightarrow> 'd station os" where
  "station_os fs cn = \<lparr>n_socket = (\<lambda>w. (sa_next w, w\<lparr>sa_next := sa_next w + 1\<rparr>)), n_bind = (\<lambda>_ _ _ w. (0, w)),
    n_listen = (\<lambda>_ w. (0, w)), n_accept = (\<lambda>_ w. (-1, 0, w)),
    n_connect = (\<lambda>fd ip port w.
      case sa_peers w (ip, port) of None \<Rightarrow> (-1, w) | Some ps \<Rightarrow> (0, w\<lparr>sa_in := (sa_in w)(fd := ps)\<rparr>)),
    n_send = (\<lambda>fd b w. w\<lparr>sa_out := (sa_out w)(fd := sa_out w fd @ [b])\<rparr>),
    n_recv = (\<lambda>fd w. case sa_in w fd of [] \<Rightarrow> (Some [], w) | b # bs \<Rightarrow> (Some b, w\<lparr>sa_in := (sa_in w)(fd := bs)\<rparr>)),
    n_close = (\<lambda>fd w. w\<lparr>sa_in := (sa_in w)(fd := [])\<rparr>), n_port = (\<lambda>_ _. 4000),
    o_read = (\<lambda>n w. fs_read fs n (sa_disk w)),
    o_create = (\<lambda>n w. (True, w\<lparr>sa_disk := fs_put fs n [] (sa_disk w)\<rparr>)),
    o_write = (\<lambda>n d w. (int (length d), w\<lparr>sa_disk := fs_put fs n (the (fs_read fs n (sa_disk w)) @ d) (sa_disk w)\<rparr>)),
    o_system = (\<lambda>c w. let (r, d) = fs_system fs c (sa_disk w) in (r, w\<lparr>sa_disk := d\<rparr>)),
    o_cancel = (\<lambda>t w. case cn t of None \<Rightarrow> Inr (3, w) | Some e \<Rightarrow> Inl e)\<rparr>"

definition station_env ::
  "'d filesys \<Rightarrow> (int \<Rightarrow> c_fault option) \<Rightarrow> ('h, 'd) tchdb \<Rightarrow> ('m, 'h OpenedDB) tcmdb \<Rightarrow> db_header \<Rightarrow> nat \<Rightarrow> ('h, 'm, 'd station) env" where
  "station_env fs cn tc tm hdr fuel =
    \<lparr>e_os = station_os fs cn, e_tc = lift_tc sa_disk (\<lambda>d w. w\<lparr>sa_disk := d\<rparr>) tc, e_tm = tm, e_hdr = hdr, e_fuel = fuel\<rparr>"

lemma station_env_simps [simp]:
  "e_os (station_env fs cn tc tm hdr fuel) = station_os fs cn" "e_tm (station_env fs cn tc tm hdr fuel) = tm"
  "e_hdr (station_env fs cn tc tm hdr fuel) = hdr" "e_fuel (station_env fs cn tc tm hdr fuel) = fuel"
  by (simp_all add: station_env_def)

lemma station_os_simps [simp]:
  "n_socket (station_os fs cn) w = (sa_next w, w\<lparr>sa_next := sa_next w + 1\<rparr>)"
  "n_connect (station_os fs cn) fd ip port w =
    (case sa_peers w (ip, port) of None \<Rightarrow> (-1, w) | Some ps \<Rightarrow> (0, w\<lparr>sa_in := (sa_in w)(fd := ps)\<rparr>))"
  "n_send (station_os fs cn) fd b w = w\<lparr>sa_out := (sa_out w)(fd := sa_out w fd @ [b])\<rparr>"
  "n_recv (station_os fs cn) fd w =
    (case sa_in w fd of [] \<Rightarrow> (Some [], w) | b # bs \<Rightarrow> (Some b, w\<lparr>sa_in := (sa_in w)(fd := bs)\<rparr>))"
  "n_close (station_os fs cn) fd w = w\<lparr>sa_in := (sa_in w)(fd := [])\<rparr>"
  "o_create (station_os fs cn) n w = (True, w\<lparr>sa_disk := fs_put fs n [] (sa_disk w)\<rparr>)"
  "o_write (station_os fs cn) n d w = (int (length d), w\<lparr>sa_disk := fs_put fs n (the (fs_read fs n (sa_disk w)) @ d) (sa_disk w)\<rparr>)"
  "o_system (station_os fs cn) c w = (let (r, d) = fs_system fs c (sa_disk w) in (r, w\<lparr>sa_disk := d\<rparr>))"
  "o_cancel (station_os fs cn) t w = (case cn t of None \<Rightarrow> Inr (3, w) | Some e \<Rightarrow> Inl e)"
  by (simp_all add: station_os_def)

lemma station_part: "part_of sa_disk (\<lambda>d w. w\<lparr>sa_disk := d\<rparr>)"
  unfolding part_of_def by (intro conjI allI station.equality) simp_all

lemma station_merge:
  "slave_merge (station_env fs cn tc tm hdr fuel) a b s w
    = andThen (Merge2Files tc tm a b (s_db s) (sa_disk w)) (\<lambda>(_, st, d). Inr (s\<lparr>s_db := st\<rparr>, w\<lparr>sa_disk := d\<rparr>))"
  by (cases "Merge2Files tc tm a b (s_db s) (sa_disk w)")
    (auto simp: slave_merge_def station_env_def lift_merge [OF station_part])

section \<open>What a conversation leaves behind\<close>

text \<open>
  \<open>talked fd\<close>: nothing but the connection on \<open>fd\<close>, the disk and the packet buffer are changed. \<open>settled\<close>: the databases may
  be, too, but no connection is.
\<close>

definition talked :: "int \<Rightarrow> 'm slave \<times> 'd station \<Rightarrow> 'm slave \<times> 'd station \<Rightarrow> bool" where
  "talked fd = (\<lambda>(s, w) (s', w'). (\<exists>b. packet_buf b \<and> s' = s\<lparr>s_xbuf := b\<rparr>)
    \<and> (\<forall>g. g \<noteq> fd \<longrightarrow> sa_in w' g = sa_in w g \<and> sa_out w' g = sa_out w g) \<and> sa_next w' = sa_next w \<and> sa_peers w' = sa_peers w)"

definition settled :: "'m slave \<times> 'd station \<Rightarrow> 'm slave \<times> 'd station \<Rightarrow> bool" where
  "settled = (\<lambda>(s, w) (s', w'). (\<exists>b st. packet_buf b \<and> s' = s\<lparr>s_db := st, s_xbuf := b\<rparr>)
    \<and> sa_in w' = sa_in w \<and> (\<forall>g. g < sa_next w \<longrightarrow> sa_out w' g = sa_out w g) \<and> sa_next w \<le> sa_next w' \<and> sa_peers w' = sa_peers w)"

text \<open>Nothing waits on a descriptor that is not in use.\<close>

definition quiet :: "'d station \<Rightarrow> bool" where
  "quiet w \<longleftrightarrow> 0 \<le> sa_next w \<and> (\<forall>g. sa_next w \<le> g \<longrightarrow> sa_in w g = [])"

lemma talked_trans: "talked fd x y \<Longrightarrow> talked fd y z \<Longrightarrow> talked fd x z"
  by (auto simp: talked_def)

lemma talked_buf: "talked fd (s, w) (s', w') \<Longrightarrow> packet_buf (s_xbuf s')"
  by (auto simp: talked_def)

lemma talked_world [simp]:
  "talked fd x (s, w\<lparr>sa_disk := d\<rparr>) = talked fd x (s, w)" "talked fd (s, w\<lparr>sa_disk := d\<rparr>) x = talked fd (s, w) x"
  "talked fd x (s, w\<lparr>sa_out := (sa_out w)(fd := o')\<rparr>) = talked fd x (s, w)"
  "talked fd x (s, w\<lparr>sa_in := (sa_in w)(fd := i')\<rparr>) = talked fd x (s, w)"
  by (auto simp: talked_def)

lemma talked_same: "packet_buf (s_xbuf s) \<Longrightarrow> talked fd (s, w) (s, w)"
  by (auto simp: talked_def intro: exI [of _ "s_xbuf s"])

lemma same_slave: "packet_buf (s_xbuf s) \<Longrightarrow> \<exists>b. packet_buf b \<and> (\<exists>st. s = s\<lparr>s_db := st, s_xbuf := b\<rparr>)"
  by (intro exI [of _ "s_xbuf s"] conjI exI [of _ "s_db s"]) simp_all

lemma settled_refl: "packet_buf (s_xbuf s) \<Longrightarrow> settled (s, w) (s, w)"
  using same_slave by (simp add: settled_def)

lemma settled_trans:
  assumes "settled x y" and "settled y z"
  shows "settled x z"
proof -
  obtain s w s1 w1 s2 w2 where x: "x = (s, w)" "y = (s1, w1)" "z = (s2, w2)" by (cases x, cases y, cases z) blast
  obtain b1 st1 b2 st2 where "s1 = s\<lparr>s_db := st1, s_xbuf := b1\<rparr>" "packet_buf b2" "s2 = s1\<lparr>s_db := st2, s_xbuf := b2\<rparr>"
    using assms by (auto simp: settled_def x)
  then have "packet_buf b2 \<and> s2 = s\<lparr>s_db := st2, s_xbuf := b2\<rparr>" by simp
  then show ?thesis using assms by (auto simp: settled_def x)
qed

lemma settled_quiet: "settled (s, w) (s', w') \<Longrightarrow> quiet w \<Longrightarrow> quiet w'"
  by (auto simp: settled_def quiet_def)

lemma settled_buf: "settled (s, w) (s', w') \<Longrightarrow> packet_buf (s_xbuf s')"
  by (auto simp: settled_def)

lemma exchange_talked:
  assumes "e_os env = station_os fs cn" and "packet_buf (s_xbuf s)"
    and "slave_exchange env c key [] 0 fd s w = Inr (s', w')"
  shows "talked fd (s, w) (s', w')"
proof -
  have fd: "fd \<noteq> -1" using assms(3) by (auto simp: slave_exchange_def ExchangePacket_def Let_def)
  let ?p = "packet_over env c key [] (s_xbuf s)" and ?w = "w\<lparr>sa_out := (sa_out w)(fd := sa_out w fd @ [packet_over env c key [] (s_xbuf s)])\<rparr>"
  have p: "packet_buf ?p" using packet_buf_packet [OF assms(2), of "[]"] by (simp add: packet_over_def)
  obtain r b u where rv: "recv_into (station_os fs cn) fd ?p ?w = (r, b, u)" by (cases "recv_into (station_os fs cn) fd ?p ?w") auto
  have "s' = s\<lparr>s_xbuf := b\<rparr> \<and> w' = u"
    using assms(3) ExchangePacket_ok [OF fd assms(2), of "[]" "station_os fs cn" "e_hdr env" c key w] rv
    by (simp add: slave_exchange_def assms(1) packet_over_def)
  moreover have "packet_buf b" by (rule packet_buf_recv_into [OF p rv])
  moreover have "u = ?w \<or> (\<exists>i. u = ?w\<lparr>sa_in := (sa_in ?w)(fd := i)\<rparr>)"
    using rv by (auto simp: recv_into_def split: list.splits)
  ultimately show ?thesis by (auto simp: talked_def)
qed

lemma recv_loop_talked:
  assumes "e_os env = station_os fs cn"
  shows "recv_loop n env fd name fp fin tot s w = Inr (r, s', w') \<Longrightarrow> packet_buf (s_xbuf s) \<Longrightarrow> talked fd (s, w) (s', w')"
proof (induction n arbitrary: fin s w)
  case 0
  then show ?case by (auto simp: talked_same split: if_splits)
next
  case (Suc n)
  show ?case
  proof (cases "fin < tot")
    case False
    then show ?thesis using Suc.prems by (auto simp: talked_same)
  next
    case True
    obtain s1 w1 where x: "slave_exchange env FILETRANS_R 0 [] 0 fd s w = Inr (s1, w1)"
      using Suc.prems(1) True by auto
    have t: "talked fd (s, w) (s1, w1)" by (rule exchange_talked [OF assms Suc.prems(2) x])
    let ?k = "hd_key (reply s1)"
    obtain d where "(r = -1 \<and> s' = s1 \<and> w' = w1\<lparr>sa_disk := d\<rparr>) \<or> recv_loop n env fd name fp (fin + ?k) tot s1 (w1\<lparr>sa_disk := d\<rparr>) = Inr (r, s', w')"
      using Suc.prems(1) True x by (auto simp: assms Let_def split: if_splits)
    then show ?thesis
      using talked_trans [OF t] t Suc.IH [of "fin + ?k" s1 "w1\<lparr>sa_disk := d\<rparr>"] talked_buf [OF t] by auto
  qed
qed

lemma RecvFile_talked:
  assumes "e_os env = station_os fs cn" and "packet_buf (s_xbuf s)" and "RecvFile env fd name len s w = Inr (r, s', w')"
  shows "talked fd (s, w) (s', w')"
proof -
  let ?w = "w\<lparr>sa_disk := fs_put fs name [] (sa_disk w)\<rparr>"
  obtain r1 w1 where l: "recv_loop (e_fuel env) env fd name True 0 len s ?w = Inr (r1, s', w1)"
    and e: "w' = w1 \<or> (\<exists>o'. w' = w1\<lparr>sa_out := (sa_out w1)(fd := o')\<rparr>)"
    using assms(3) by (fastforce simp: RecvFile_def assms(1) Let_def SendMsg_def split: if_splits)
  show ?thesis using recv_loop_talked [OF assms(1) l assms(2)] e by auto
qed
lemma open_station:
  assumes "0 \<le> sa_next w"
  shows "OpenRemoteService2 (station_os fs cn) ip port w = (let w' = w\<lparr>sa_next := sa_next w + 1\<rparr> in
    case sa_peers w (ip, port) of None \<Rightarrow> (-1, sa_next w, w')
    | Some ps \<Rightarrow> (0, sa_next w, w'\<lparr>sa_in := (sa_in w')(sa_next w := ps)\<rparr>))"
  using assms by (auto simp: OpenRemoteService2_def OpenRemoteService_def Let_def split: option.splits)

text \<open>A whole conversation with another slave: the connection is closed in the end.\<close>

lemma communicate_settled:
  assumes "e_os env = station_os fs cn" and "packet_buf (s_xbuf s)" and q: "quiet w"
    and run: "CommunicateToSlave env k c key rc s w = Inr (r, s', w')"
  shows "settled (s, w) (s', w')"
proof -
  let ?n = "sl_num (s_slaves s)" and ?fd = "sa_next w" and ?w = "w\<lparr>sa_next := sa_next w + 1\<rparr>"
  note op = open_station [of w fs cn]
  have nx: "0 \<le> sa_next w" using q by (simp add: quiet_def)
  have n: "?n \<noteq> 0" using run by (auto simp: CommunicateToSlave_def)
  show ?thesis
  proof (cases "c_rem (s_pos s + k + ?n) ?n = s_pos s")
    case True
    then show ?thesis using run n settled_refl [OF assms(2)] by (auto simp: CommunicateToSlave_def)
  next
    case False
    obtain sn where sn: "get_node (sl_nodes (s_slaves s)) (c_rem (s_pos s + k + ?n) ?n) = Inr sn"
      using run n False by (auto simp: CommunicateToSlave_def Let_def)
    have fresh: "sa_in w ?fd = []" using q by (simp_all add: quiet_def)
    show ?thesis
    proof (cases "sa_peers w (sn_ip sn, sn_port sn)")
      case None
      then have "s' = s \<and> w' = ?w"
        using run n False sn by (auto simp: CommunicateToSlave_def op [OF nx] assms(1) Let_def)
      then show ?thesis using same_slave [OF assms(2)] by (simp add: settled_def)
    next
      case (Some ps)
      let ?v = "?w\<lparr>sa_in := (sa_in ?w)(?fd := ps)\<rparr>"
      obtain s1 w1 where x: "slave_exchange env c key [] 0 ?fd s ?v = Inr (s1, w1)"
        and rest: "\<exists>w2. (if k = -2 then w2 = w1 \<and> s' = s1
            else \<exists>f. RecvFile env ?fd f (hd_key (reply s1)) s1 w1 = Inr (r, s', w2)) \<and> w' = n_close (station_os fs cn) ?fd w2"
        using run n False sn Some
        by (fastforce simp: CommunicateToSlave_def op [OF nx] CloseRemoteService_def assms(1) Let_def split: if_splits)
      have t: "talked ?fd (s, ?v) (s1, w1)" by (rule exchange_talked [OF assms(1,2) x])
      obtain w2 where c: "w' = n_close (station_os fs cn) ?fd w2"
        and k: "if k = -2 then w2 = w1 \<and> s' = s1 else \<exists>f. RecvFile env ?fd f (hd_key (reply s1)) s1 w1 = Inr (r, s', w2)"
        using rest by blast
      have "talked ?fd (s, ?v) (s', w2)"
      proof (cases "k = -2")
        case True
        then show ?thesis using k t by simp
      next
        case False
        then obtain f where "RecvFile env ?fd f (hd_key (reply s1)) s1 w1 = Inr (r, s', w2)" using k by auto
        from RecvFile_talked [OF assms(1) talked_buf [OF t] this] show ?thesis by (rule talked_trans [OF t])
      qed
      note w2 = this c
      then obtain b where b: "packet_buf b" "s' = s\<lparr>s_xbuf := b\<rparr>" by (auto simp: talked_def)
      then have "s' = s\<lparr>s_db := s_db s, s_xbuf := b\<rparr>" by simp
      moreover have "sa_in w' = sa_in w" "\<forall>g. g < sa_next w \<longrightarrow> sa_out w' g = sa_out w g" "sa_next w \<le> sa_next w'" "sa_peers w' = sa_peers w"
        using w2 fresh by (auto simp: talked_def fun_eq_iff)
      ultimately show ?thesis using b(1) unfolding settled_def by blast
    qed
  qed
qed

lemma slave_merge_settled:
  "packet_buf (s_xbuf s) \<Longrightarrow> slave_merge (station_env fs cn tc tm hdr fuel) a b s w = Inr (s', w') \<Longrightarrow> settled (s, w) (s', w')"
  by (auto simp: station_merge settled_def intro!: exI [of _ "s_xbuf s"])

lemma shell_settled:
  "e_os env = station_os fs cn \<Longrightarrow> packet_buf (s_xbuf s) \<Longrightarrow> ExeShellCmd env c d1 n1 d2 n2 w = Inr (x, w') \<Longrightarrow> settled (s, w) (s, w')"
  using same_slave [of s] by (auto simp: ExeShellCmd_def settled_def Let_def split: prod.split if_splits)

lemma take_over_settled:
  assumes env: "env = station_env fs cn tc tm hdr fuel" and "packet_buf (s_xbuf s)" and "quiet w"
    and "t = take_over \<or> t = take_over_backup" and run: "t env s w = Inr (s', w')"
  shows "settled (s, w) (s', w')"
proof -
  have os: "e_os env = station_os fs cn" by (simp add: env)
  obtain a b c d1 n1 d2 n2 s1 w1 x w2 r where r: "slave_merge env a b s w = Inr (s1, w1)"
    "ExeShellCmd env c d1 n1 d2 n2 w1 = Inr (x, w2)" "BackupForOtherSlave env 2 s1 w2 = Inr (r, s', w')"
    using assms(4) run by (elim disjE) (fastforce simp: take_over_def take_over_backup_def)+
  have 1: "settled (s, w) (s1, w1)" using slave_merge_settled [OF assms(2)] r(1) unfolding env by blast
  have 2: "settled (s1, w1) (s1, w2)" by (rule shell_settled [OF os settled_buf [OF 1] r(2)])
  have "settled (s1, w2) (s', w')"
    using r(3) settled_quiet [OF 2 settled_quiet [OF 1 assms(3)]]
    by (intro communicate_settled [OF os settled_buf [OF 1], where w = w2]) (auto simp: BackupForOtherSlave_def)
  then show ?thesis using settled_trans [OF 1] settled_trans [OF 2] by blast
qed

section \<open>When nothing goes wrong\<close>

text \<open>
  \<open>fit\<close>: the database module's state is in order, the backups are database files, the names that \<open>RM_SLAVE\<close> builds
  fit their arrays, and every slave that accepts a connection answers \<open>BACKUP\<close> with its file.
\<close>

definition fit ::
  "('h, 'd) tchdb \<Rightarrow> ('m, 'h OpenedDB) tcmdb \<Rightarrow> ('h, 'd) tc_view \<Rightarrow> nat \<Rightarrow> 'm slave \<times> 'd station \<Rightarrow> bool" where
  "fit tc tm v fuel = (\<lambda>(s, w). tc_inv tc tm v (s_db s, sa_disk w) \<and> length (s_file_master s) < 80
    \<and> db_file_ok v (sa_disk w) (backup_name (s_file_master s)) \<and> db_file_ok v (sa_disk w) (backup2_name (s_file_master s))
    \<and> (\<forall>a ps. sa_peers w a = Some ps \<longrightarrow> (\<exists>m data. sent_file fuel BACKUP_R m data ps)))"

lemma exchange_station:
  assumes "e_os env = station_os fs cn" and "fd \<noteq> -1" and "packet_buf (s_xbuf s)" and "sa_in w fd = b # bs" and "packet_buf b"
  shows "slave_exchange env c key [] 0 fd s w = Inr (s\<lparr>s_xbuf := b\<rparr>, w\<lparr>sa_in := (sa_in w)(fd := bs),
    sa_out := (sa_out w)(fd := sa_out w fd @ [packet_over env c key [] (s_xbuf s)])\<rparr>)"
proof -
  let ?p = "packet_over env c key [] (s_xbuf s)"
  let ?w = "w\<lparr>sa_out := (sa_out w)(fd := sa_out w fd @ [?p])\<rparr>"
  have p: "packet_buf ?p" using packet_buf_packet [OF assms(3), of "[]"] by (simp add: packet_over_def)
  have "recv_into (station_os fs cn) fd ?p ?w = (int MAX_BUF_LEN, b, ?w\<lparr>sa_in := (sa_in w)(fd := bs)\<rparr>)"
    by (rule recv_into_full [OF _ assms(5) p]) (simp add: assms(4))
  then show ?thesis
    using ExchangePacket_ok [OF assms(2,3), of "[]" "station_os fs cn" "e_hdr env" c key w]
    by (simp add: slave_exchange_def assms(1) packet_over_def)
qed

lemma recv_loop_runs:
  assumes os: "e_os env = station_os fs cn" and fd: "fd \<noteq> -1"
  shows "sa_in w fd = ps \<Longrightarrow> list_all2 carries ps cs \<Longrightarrow> length cs \<le> n \<Longrightarrow> tot = fin + int (length (concat cs)) \<Longrightarrow>
    \<forall>c \<in> set cs. c \<noteq> [] \<Longrightarrow> packet_buf (s_xbuf s) \<Longrightarrow> \<exists>s' w'. recv_loop n env fd name True fin tot s w = Inr (0, s', w')"
proof (induction cs arbitrary: ps n fin s w)
  case Nil
  then show ?case by (cases n) simp_all
next
  case (Cons c cs)
  obtain p ps' m where ps: "ps = p # ps'" "list_all2 carries ps' cs" "n = Suc m" "length cs \<le> m"
    using Cons.prems(2,3) by (cases n) (auto simp: list_all2_Cons2)
  have p: "packet_buf p" "hd_key (GetHeader p) = int (length c)" "length c \<le> APPENDSIZE" "length (take (length c) (GetAppend p)) = length c"
    using Cons.prems(2) ps(1) by (auto simp: carries_def)
  obtain w1 where x: "slave_exchange env FILETRANS_R 0 [] 0 fd s w = Inr (s\<lparr>s_xbuf := p\<rparr>, w1)" "sa_in w1 fd = ps'"
    using exchange_station [OF os fd Cons.prems(6) _ p(1), where bs = ps'] Cons.prems(1) ps(1) by auto
  have more: "fin < tot" using Cons.prems(4,5) by (cases c) auto
  obtain d where step: "recv_loop n env fd name True fin tot s w = recv_loop m env fd name True (fin + int (length c)) tot (s\<lparr>s_xbuf := p\<rparr>) (w1\<lparr>sa_disk := d\<rparr>)"
    using more p x(1) by (auto simp: ps(3) reply_def os Let_def min_def)
  show ?case unfolding step
    by (rule Cons.IH [OF _ ps(2,4)]) (use x(2) Cons.prems(4,5) p(1) in simp_all)
qed

lemma backup_runs_station:
  assumes env: "env = station_env fs cn tc tm hdr fuel" and pos: "pos_ok s" and k: "k = 1 \<or> k = 2" and b: "packet_buf (s_xbuf s)"
    and q: "quiet w" and peers: "\<forall>a ps. sa_peers w a = Some ps \<longrightarrow> (\<exists>m data. sent_file fuel BACKUP_R m data ps)"
  shows "\<exists>x. BackupForOtherSlave env k s w = Inr x"
proof -
  let ?n = "sl_num (s_slaves s)" and ?fd = "sa_next w" and ?w = "w\<lparr>sa_next := sa_next w + 1\<rparr>"
  have os: "e_os env = station_os fs cn" by (simp add: env)
  have fd: "?fd \<noteq> -1" "0 \<le> ?fd" using q by (simp_all add: quiet_def)
  have n: "?n \<noteq> 0" using pos by (auto simp: pos_ok_def)
  obtain sn where sn: "get_node (sl_nodes (s_slaves s)) (other_pos k s) = Inr sn"
    using other_pos_bounds [OF pos, of k] k pos by (auto simp: get_node_def pos_ok_def list_ok_def)
  show ?thesis
  proof (cases "other_pos k s = s_pos s \<or> sa_peers w (sn_ip sn, sn_port sn) = None")
    case True
    then show ?thesis using n sn open_station [OF fd(2), of fs cn]
      by (cases "other_pos k s = s_pos s") (auto simp: BackupForOtherSlave_def CommunicateToSlave_def other_pos_def os)
  next
    case False
    then obtain ps where ps: "sa_peers w (sn_ip sn, sn_port sn) = Some ps" by auto
    then obtain m data h qs where f: "ps = h # qs" "file_packets BACKUP_R m data h qs" "0 \<notin> set m" "length m < 100" "length (chunks data) \<le> fuel"
      using peers by (fastforce simp: sent_file_def)
    have h: "packet_buf h" "hd_cmd (GetHeader h) = cmd_code BACKUP_R" "hd_key (GetHeader h) = int (length data)"
      "take (Suc (length m)) (GetAppend h) = m @ [0]" "list_all2 carries qs (chunks data)" using f(2) by (simp_all add: file_packets_def)
    let ?v = "?w\<lparr>sa_in := (sa_in ?w)(?fd := ps)\<rparr>"
    obtain w1 where x: "slave_exchange env BACKUP 0 [] 0 ?fd s ?v = Inr (s\<lparr>s_xbuf := h\<rparr>, w1)" "sa_in w1 ?fd = qs"
      using exchange_station [OF os fd(1) b _ h(1), where bs = qs and w = ?v] f(1) by auto
    have "GetAppend h = m @ 0 # drop (Suc (length m)) (GetAppend h)"
      using append_take_drop_id [of "Suc (length m)" "GetAppend h"] h(4) by simp
    then have nm: "c_str (GetAppend h) = m" using c_str_append_nul [OF f(3)] by metis
    obtain name where name: "GetFileName (if k = -1 then 0 else k) m = Inr name"
      using k GetFileName_backups [OF f(4)] by auto
    let ?u = "w1\<lparr>sa_disk := fs_put fs name [] (sa_disk w1)\<rparr>"
    have "\<exists>s' w'. recv_loop (e_fuel env) env ?fd name True 0 (int (length data)) (s\<lparr>s_xbuf := h\<rparr>) ?u = Inr (0, s', w')"
      by (rule recv_loop_runs [OF os fd(1) _ h(5)]) (use x(2) f(5) h(1) chunks_small [of data] in \<open>simp_all add: env concat_chunks\<close>)
    then obtain y where "RecvFile env ?fd name (int (length data)) (s\<lparr>s_xbuf := h\<rparr>) w1 = Inr y"
      using fd(1) by (auto simp: RecvFile_def os Let_def)
    moreover have "k \<noteq> -2" using k by auto
    ultimately show ?thesis
      using False n sn ps x(1) h(2,3) nm name open_station [OF fd(2), of fs cn]
      by (cases y) (simp add: BackupForOtherSlave_def CommunicateToSlave_def other_pos_def os reply_def Let_def)
  qed
qed

lemma take_over_fit:
  assumes env: "env = station_env fs cn tc tm hdr fuel" and pos: "pos_ok s" and b: "packet_buf (s_xbuf s)" and q: "quiet w"
    and f: "fit tc tm v fuel (s, w)" and t: "t = take_over \<or> t = take_over_backup"
  shows "\<exists>x. t env s w = Inr x"
proof -
  let ?m = "s_file_master s"
  note fd = f [unfolded fit_def tc_inv_def split_conv]
  have os: "e_os env = station_os fs cn" by (simp add: env)
  have len: "length (backup_name ?m) < 100" "length (backup2_name ?m) < 100" "length ?m < length (backup_name ?m)"
    using fd by (simp_all add: backup_name_def backup2_name_def BACKUP1_DIR_def BACKUP2_DIR_def BACKUP_POSTFIX_def)
  have ne: "backup_name ?m \<noteq> ?m" "backup2_name ?m \<noteq> backup_name ?m"
    using len(3) by (auto simp: backup_name_def backup2_name_def BACKUP1_DIR_def BACKUP2_DIR_def)
  have fits: "fits 100 (BACKUP1_DIR @ ascii ''//'' @ ?m @ BACKUP_POSTFIX) = Inr (backup_name ?m)"
    "fits 100 (BACKUP2_DIR @ ascii ''//'' @ ?m @ BACKUP_POSTFIX) = Inr (backup2_name ?m)"
    using len by (simp_all add: fits_def backup_name_def backup2_name_def)
  have m: "\<exists>s' w'. slave_merge env x y s w = Inr (s', w')" if xy: "x \<noteq> y" "db_file_ok v (sa_disk w) x" for x y
  proof -
    obtain st d where "Merge2Files tc tm x y (s_db s) (sa_disk w) = Inr (SUCCESS, st, d)"
      using Merge2Files_spec [of tm tc v "s_db s" "sa_disk w" x y] xy fd by blast
    then show ?thesis by (simp add: env station_merge)
  qed
  have sh: "\<exists>w'. ExeShellCmd env (ascii ''mv'') BACKUP2_DIR (ascii ''*'') BACKUP1_DIR [] u
      = Inr (shell_cmd (ascii ''mv'') BACKUP2_DIR (ascii ''*'') BACKUP1_DIR [], w')"
    "\<exists>w'. ExeShellCmd env (ascii ''rm'') BACKUP2_DIR (ascii ''*'') [] [] u
      = Inr (shell_cmd (ascii ''rm'') BACKUP2_DIR (ascii ''*'') [] [], w')" for u
    by (simp_all add: ExeShellCmd_def fits_def shell_cmd_def BACKUP1_DIR_def BACKUP2_DIR_def BACKUP_POSTFIX_def MAX_FILENAME_LEN_def)
  have go: "\<exists>x. BackupForOtherSlave env 2 s2 w2 = Inr x"
    if 1: "slave_merge env x y s w = Inr (s2, w1)" and 2: "ExeShellCmd env c d1 n1 d2 n2 w1 = Inr (z, w2)" for x y s2 w1 c d1 n1 d2 n2 z w2
  proof -
    have s1: "settled (s, w) (s2, w1)" using slave_merge_settled [OF b] 1 unfolding env by blast
    have s2: "settled (s2, w1) (s2, w2)" by (rule shell_settled [OF os settled_buf [OF s1] 2])
    have st: "settled (s, w) (s2, w2)" by (rule settled_trans [OF s1 s2])
    then have "pos_ok s2" using pos by (auto simp: settled_def pos_ok_def)
    moreover have "\<forall>a ps. sa_peers w2 a = Some ps \<longrightarrow> (\<exists>m data. sent_file fuel BACKUP_R m data ps)"
      using st fd by (simp add: settled_def)
    ultimately show ?thesis using backup_runs_station [OF env _ _ settled_buf [OF s1] settled_quiet [OF st q]] by simp
  qed
  from t show ?thesis
  proof
    assume t: "t = take_over"
    obtain s1 w1 where 1: "slave_merge env (backup_name ?m) ?m s w = Inr (s1, w1)" using m [OF ne(1)] fd by blast
    obtain w2 where 2: "ExeShellCmd env (ascii ''mv'') BACKUP2_DIR (ascii ''*'') BACKUP1_DIR [] w1
      = Inr (shell_cmd (ascii ''mv'') BACKUP2_DIR (ascii ''*'') BACKUP1_DIR [], w2)" using sh(1) by blast
    show ?thesis using go [OF 1 2] by (auto simp: t take_over_def fits 1 2 simp del: ascii_simps)
  next
    assume t: "t = take_over_backup"
    obtain s1 w1 where 1: "slave_merge env (backup2_name ?m) (backup_name ?m) s w = Inr (s1, w1)" using m [OF ne(2)] fd by blast
    obtain w2 where 2: "ExeShellCmd env (ascii ''rm'') BACKUP2_DIR (ascii ''*'') [] [] w1
      = Inr (shell_cmd (ascii ''rm'') BACKUP2_DIR (ascii ''*'') [] [], w2)" using sh(2) by blast
    show ?thesis using go [OF 1 2] by (auto simp: t take_over_backup_def fits 1 2 simp del: ascii_simps)
  qed
qed

text \<open>
  And when it does: a slave that accepts the connection but has no packet for the other one, because it has no database file
  yet, ends it: \<open>recv\<close> returns 0, the buffer still has the request, and the assertion after it fails.
\<close>

lemma no_answer_aborts:
  assumes env: "env = station_env fs cn tc tm hdr fuel" and h: "header_ok hdr" and b: "packet_buf (s_xbuf s)" and q: "quiet w"
    and pos: "pos_ok s" "other_pos k s \<noteq> s_pos s" "k = 1 \<or> k = 2" and peer: "sa_peers w (slave_addr k s) = Some []"
  shows "BackupForOtherSlave env k s w = Inl AssertFail"
proof -
  let ?n = "sl_num (s_slaves s)" and ?fd = "sa_next w" and ?v = "w\<lparr>sa_next := sa_next w + 1, sa_in := (sa_in w)(sa_next w := [])\<rparr>"
  have os: "e_os env = station_os fs cn" by (simp add: env)
  have fd: "?fd \<noteq> -1" "0 \<le> ?fd" using q by (simp_all add: quiet_def)
  obtain sn where sn: "get_node (sl_nodes (s_slaves s)) (other_pos k s) = Inr sn" "slave_addr k s = (sn_ip sn, sn_port sn)"
    using other_pos_bounds [OF pos(1), of k] pos(1,3) by (auto simp: get_node_def pos_ok_def list_ok_def slave_addr_def node_at_def)
  have "fst (n_recv (station_os fs cn) ?fd (n_send (station_os fs cn) ?fd (packet (s_xbuf s) (hdr\<lparr>hd_cmd := cmd_code BACKUP, hd_key := 0\<rparr>) []) ?v)) \<in> {None, Some []}"
    by simp
  from ExchangePacket_no_reply [OF fd(1) b _ h _ this] obtain b' w' where
    "ExchangePacket (station_os fs cn) hdr (s_xbuf s) BACKUP 0 [] 0 ?fd ?v = Inr (b', w')" "hd_cmd (GetHeader b') = cmd_code BACKUP"
    by (auto simp: int32_def)
  then have "slave_exchange env BACKUP 0 [] 0 ?fd s ?v = Inr (s\<lparr>s_xbuf := b'\<rparr>, w')" "hd_cmd (reply (s\<lparr>s_xbuf := b'\<rparr>)) \<noteq> cmd_code BACKUP_R"
    by (simp_all add: slave_exchange_def env reply_def)
  then show ?thesis using sn pos peer open_station [OF fd(2), of fs cn]
    by (auto simp: BackupForOtherSlave_def CommunicateToSlave_def other_pos_def os Let_def pos_ok_def)
qed

section \<open>A slave is told of a change\<close>

text \<open>A slave whose main thread finds a packet of the master, and what it answers on that socket.\<close>

definition with_packet :: "int \<Rightarrow> bytes \<Rightarrow> 'd station \<Rightarrow> 'd station" where
  "with_packet fd b w = w\<lparr>sa_in := (sa_in w)(fd := [b])\<rparr>"

definition taken_out :: "int \<Rightarrow> 'd station \<Rightarrow> 'd station" where
  "taken_out fd w = w\<lparr>sa_out := (sa_out w)(fd := [])\<rparr>"

definition told ::
  "('h, 'm, 'd station) env \<Rightarrow> bytes \<Rightarrow> 'm slave \<times> 'd station \<Rightarrow> (bytes list \<times> 'm slave \<times> 'd station) exec" where
  "told env b = (\<lambda>(s, w).
    andThen (HandleMasterRequest env s (with_packet (s_master_sock s) b w)) (\<lambda>(s', w').
    Inr (sa_out w' (s_master_sock s), s', taken_out (s_master_sock s) w')))"

text \<open>Between requests nothing is in the air, and what the master was sent it has read.\<close>

definition at_rest :: "'m slave \<times> 'd station \<Rightarrow> bool" where
  "at_rest = (\<lambda>(s, w). sa_in w = (\<lambda>_. []) \<and> sa_out w (s_master_sock s) = [] \<and> 0 \<le> s_master_sock s \<and> s_master_sock s < sa_next w
    \<and> packet_buf (s_xbuf s))"

lemma at_restD:
  assumes "at_rest (s, w)"
  shows "sa_in w = (\<lambda>_. [])" "sa_out w (s_master_sock s) = []" "s_master_sock s \<noteq> -1" "packet_buf (s_xbuf s)" "s_master_sock s < sa_next w" "0 \<le> sa_next w"
  using assms by (simp_all add: at_rest_def)

text \<open>\<open>good\<close>: the slave answers with one packet, as the master expects.\<close>

definition good ::
  "('h, 'm, 'd station) env \<Rightarrow> cmd \<Rightarrow> bytes \<Rightarrow> 'm slave \<times> 'd station \<Rightarrow> 'm slave \<times> 'd station \<Rightarrow> bool" where
  "good env c b p q \<longleftrightarrow> (\<exists>r. told env b p = Inr ([r], q) \<and> packet_buf r \<and> hd_cmd (GetHeader r) = cmd_code c)"

lemma zeros_buf [simp]: "packet_buf (zeros MAX_BUF_LEN)"
  by (simp add: packet_buf_def MAX_BUF_LEN_def packet_consts)

lemma recv_packet:
  assumes "sa_in w = (\<lambda>_. [])" and "packet_buf b" and "packet_buf b0"
  shows "recv_into (station_os fs cn) fd b0 (with_packet fd b w) = (int MAX_BUF_LEN, b, w)"
  by (rule recv_into_full [OF _ assms(2,3)]) (simp add: with_packet_def assms(1) fun_upd_def cong: if_cong)

lemma sent_on:
  assumes "sa_out w fd = []"
  shows "sa_out (n_send (station_os fs cn) fd r w) fd = [r]" "taken_out fd (n_send (station_os fs cn) fd r w) = w"
proof -
  have "(sa_out w)(fd := []) = sa_out w" using assms by auto
  then show "sa_out (n_send (station_os fs cn) fd r w) fd = [r]" "taken_out fd (n_send (station_os fs cn) fd r w) = w"
    using assms by (simp_all add: taken_out_def)
qed

lemma answer_station:
  assumes "s_master_sock s = ms" and "ms \<noteq> -1" and "header_ok hdr" and "packet_buf b"
  obtains r where "answer_master (station_env fs cn tc tm hdr fuel) c b s w = Inr (n_send (station_os fs cn) ms r w)" and "packet_buf r"
    and "hd_cmd (GetHeader r) = cmd_code c"
proof -
  let ?h = "hdr\<lparr>hd_cmd := cmd_code c\<rparr>"
  have h: "header_ok ?h" using assms(3) by (simp add: header_ok_def)
  show ?thesis
    by (rule that [of "WriteHeader b ?h"])
      (use assms in \<open>simp_all add: answer_master_def GetHeader_WriteHeader [OF assms(4) h] del: station_os_simps\<close>)
qed

text \<open>The packet of \<open>NotifyAll\<close>.\<close>

definition notice :: "db_header \<Rightarrow> cmd \<Rightarrow> int \<Rightarrow> SlaveNode \<Rightarrow> bytes" where
  "notice h0 c p n = packet (zeros MAX_BUF_LEN) (h0\<lparr>hd_cmd := cmd_code c, hd_key := p\<rparr>) (node_bytes n)"

lemma notice_facts:
  assumes "header_ok h0" and "int32 p"
  shows "packet_buf (notice h0 c p n)" "hd_cmd (GetHeader (notice h0 c p n)) = cmd_code c"
    "hd_key (GetHeader (notice h0 c p n)) = p" "node_ok n \<Longrightarrow> bytes_node (GetAppend (notice h0 c p n)) = n"
proof -
  let ?h = "h0\<lparr>hd_cmd := cmd_code c, hd_key := p\<rparr>"
  have h: "header_ok ?h" and l: "length (node_bytes n) \<le> APPENDSIZE" using assms by (simp_all add: header_ok_def packet_consts)
  show "packet_buf (notice h0 c p n)" "hd_cmd (GetHeader (notice h0 c p n)) = cmd_code c" "hd_key (GetHeader (notice h0 c p n)) = p"
    using GetHeader_packet [OF zeros_buf h l] packet_buf_packet [OF zeros_buf l, of ?h] by (simp_all add: notice_def)
  show "node_ok n \<Longrightarrow> bytes_node (GetAppend (notice h0 c p n)) = n"
    using GetAppend_packet [OF zeros_buf l, of ?h] by (simp add: notice_def bytes_node_node_bytes)
qed

lemma told_new_slave:
  assumes r: "at_rest (s, w)" and h: "header_ok hdr" "header_ok h0" "int32 p" "node_ok n"
    and s': "note_new_slave p n s = Inr s'" "s_master_sock s' = s_master_sock s"
  shows "good (station_env fs cn tc tm hdr fuel) NEW_SLAVE_R (notice h0 NEW_SLAVE p n) (s, w) (s', w)"
proof -
  let ?b = "notice h0 NEW_SLAVE p n" and ?ms = "s_master_sock s"
  note w = at_restD [OF r] and b = notice_facts [OF h(2,3)]
  obtain a where a: "answer_master (station_env fs cn tc tm hdr fuel) NEW_SLAVE_R ?b s' w = Inr (n_send (station_os fs cn) ?ms a w)"
    "packet_buf a" "hd_cmd (GetHeader a) = cmd_code NEW_SLAVE_R"
    using answer_station [OF s'(2) w(3) h(1) b(1) [of NEW_SLAVE n]] .
  have "decode_cmd (hd_cmd (GetHeader ?b)) = Some NEW_SLAVE" by (simp add: b decode_cmd_eq)
  then have "HandleMasterRequest (station_env fs cn tc tm hdr fuel) s (with_packet ?ms ?b w) = Inr (s', n_send (station_os fs cn) ?ms a w)"
    using s' a(1) w(3) by (simp add: HandleMasterRequest_def recv_packet [OF w(1) b(1)] b(3) b(4) [OF h(4)] del: station_os_simps)
  then show ?thesis using a(2,3) by (simp add: good_def told_def sent_on [OF w(2)] del: station_os_simps)
qed

text \<open>Databases and the packet buffer play no part in the membership.\<close>

definition core :: "'m slave \<Rightarrow> 'm slave" where
  "core s = s\<lparr>s_db := no_dbs, s_xbuf := []\<rparr>"

lemma core_simps [simp]:
  "s_slaves (core s) = s_slaves s" "s_pos (core s) = s_pos s" "core (core s) = core s" "core (s\<lparr>s_db := x\<rparr>) = core s"
  "core (s\<lparr>s_xbuf := b\<rparr>) = core s" "pos_ok (core s) = pos_ok s"
  by (simp_all add: core_def pos_ok_def)

lemma core_upd [simp]: "core (s\<lparr>s_db := x, s_xbuf := b\<rparr>) = core s"
  by (simp add: core_def)

lemma rest_quiet: "at_rest (s, w) \<Longrightarrow> quiet w"
  by (simp add: at_rest_def quiet_def)

lemma answered_quiet: "at_rest (s, w) \<Longrightarrow> quiet (n_send (station_os fs cn) (s_master_sock s) a w)"
  by (auto simp: at_rest_def quiet_def)

text \<open>What was sent to the master stays there while the slave goes on with its backups.\<close>

lemma settled_answered:
  assumes "at_rest (s, w)" and "s_master_sock s' = s_master_sock s" and "settled (s', n_send (station_os fs cn) (s_master_sock s) a w) (s2, w2)"
  shows "sa_out w2 (s_master_sock s) = [a]" and "at_rest (s2, taken_out (s_master_sock s) w2)" and "core s2 = core s'"
  using assms by (auto simp: settled_def at_rest_def taken_out_def fun_eq_iff)

lemma settled_rest:
  assumes "at_rest (s, w)" and "settled (s, w) (s2, w2)"
  shows "at_rest (s2, w2)" and "core s2 = core s" and "s_master_sock s2 = s_master_sock s"
  using assms by (auto simp: settled_def at_rest_def)

lemma toldE:
  assumes "told env b (s, w) = Inr x"
  obtains s2 w2 where "HandleMasterRequest env s (with_packet (s_master_sock s) b w) = Inr (s2, w2)"
    and "x = (sa_out w2 (s_master_sock s), s2, taken_out (s_master_sock s) w2)"
  using assms by (auto simp: told_def)

lemma toldI: "HandleMasterRequest env s (with_packet (s_master_sock s) b w) = Inr (s2, w2) \<Longrightarrow>
    told env b (s, w) = Inr (sa_out w2 (s_master_sock s), s2, taken_out (s_master_sock s) w2)"
  by (simp add: told_def)

text \<open>After \<open>RM_SLAVE\<close> the two predecessors work on their backups; the list is what \<open>note_rm_slave\<close> made of it.\<close>

lemma rm_run:
  fixes env :: "('h, 'm, 'd station) env"
  assumes r: "at_rest (s, w)" and h: "header_ok hdr" "header_ok h0" "int32 p" and env: "env = station_env fs cn tc tm hdr fuel"
    and s': "note_rm_slave p s = Inr s'" "s_master_sock s' = s_master_sock s" "pos_ok s'"
  obtains a t where "packet_buf a" and "hd_cmd (GetHeader a) = cmd_code RM_SLAVE_R" and "t \<in> {take_over, take_over_backup, \<lambda>_ s w. Inr (s, w)}"
    and "HandleMasterRequest env s (with_packet (s_master_sock s) (notice h0 RM_SLAVE p n) w)
      = t env s' (n_send (station_os fs cn) (s_master_sock s) a w)"
proof -
  let ?b = "notice h0 RM_SLAVE p n" and ?ms = "s_master_sock s"
  note w = at_restD [OF r] and b = notice_facts [OF h(2,3)]
  obtain a where a: "answer_master env RM_SLAVE_R ?b s' w = Inr (n_send (station_os fs cn) ?ms a w)"
    "packet_buf a" "hd_cmd (GetHeader a) = cmd_code RM_SLAVE_R"
    unfolding env using answer_station [OF s'(2) w(3) h(1) b(1) [of RM_SLAVE n]] .
  have pre: "\<exists>x. is_predecessor k p s' = Inr x" for k using s'(3) by (auto simp: is_predecessor_def pos_ok_def)
  then obtain p1 p2 where pr: "is_predecessor 1 p s' = Inr p1" "is_predecessor 2 p s' = Inr p2" by blast
  define t :: "('h, 'm, 'd station) env \<Rightarrow> 'm slave \<Rightarrow> 'd station \<Rightarrow> ('m slave \<times> 'd station) exec"
    where "t = (if p1 then take_over else if p2 then take_over_backup else (\<lambda>_ s w. Inr (s, w)))"
  have "decode_cmd (hd_cmd (GetHeader ?b)) = Some RM_SLAVE" by (simp add: b decode_cmd_eq)
  then have run: "HandleMasterRequest env s (with_packet ?ms ?b w) = t env s' (n_send (station_os fs cn) ?ms a w)"
    using s'(1) a(1) w(3) pr by (simp add: HandleMasterRequest_def env recv_packet [OF w(1) b(1)] b(3) Let_def t_def del: station_os_simps)
  show ?thesis by (rule that [where t = t, OF a(2,3) _ run]) (simp add: t_def)
qed

lemma told_rm_slave:
  assumes r: "at_rest (s, w)" and h: "header_ok hdr" "header_ok h0" "int32 p" and env: "env = station_env fs cn tc tm hdr fuel"
    and s': "note_rm_slave p s = Inr s'" "s_master_sock s' = s_master_sock s" "s_xbuf s' = s_xbuf s" "pos_ok s'"
  shows "told env (notice h0 RM_SLAVE p n) (s, w) = Inr x \<Longrightarrow>
      \<exists>s2 w2. good env RM_SLAVE_R (notice h0 RM_SLAVE p n) (s, w) (s2, w2) \<and> core s2 = core s' \<and> at_rest (s2, w2)"
    and "fit tc tm v fuel (s', w) \<Longrightarrow> \<exists>x. told env (notice h0 RM_SLAVE p n) (s, w) = Inr x"
proof -
  let ?b = "notice h0 RM_SLAVE p n" and ?ms = "s_master_sock s"
  obtain a t where t: "packet_buf a" "hd_cmd (GetHeader a) = cmd_code RM_SLAVE_R" "t \<in> {take_over, take_over_backup, \<lambda>_ s w. Inr (s, w)}"
    "HandleMasterRequest env s (with_packet ?ms ?b w) = t env s' (n_send (station_os fs cn) ?ms a w)"
    using rm_run [OF r h env s'(1,2,4)] .
  let ?w = "n_send (station_os fs cn) ?ms a w"
  have b': "packet_buf (s_xbuf s')" using at_restD(4) [OF r] s'(3) by simp
  note q = answered_quiet [OF r, of fs cn a]
  show "\<exists>s2 w2. good env RM_SLAVE_R ?b (s, w) (s2, w2) \<and> core s2 = core s' \<and> at_rest (s2, w2)" if x: "told env ?b (s, w) = Inr x"
  proof -
    obtain s2 w2 where run: "HandleMasterRequest env s (with_packet ?ms ?b w) = Inr (s2, w2)" using toldE [OF x] .
    then have "t env s' ?w = Inr (s2, w2)" using t(4) by simp
    then have "settled (s', ?w) (s2, w2)" using t(3) take_over_settled [OF env b' q] settled_refl [OF b'] by blast
    note A = settled_answered [OF r s'(2) this]
    have "good env RM_SLAVE_R ?b (s, w) (s2, taken_out ?ms w2)" using toldI [OF run] A(1) t(1,2) by (simp add: good_def)
    then show ?thesis using A(2,3) by blast
  qed
  show "\<exists>x. told env ?b (s, w) = Inr x" if f: "fit tc tm v fuel (s', w)"
  proof -
    have "fit tc tm v fuel (s', ?w)" using f by (simp add: fit_def)
    then have "\<exists>x. t env s' ?w = Inr x" using t(3) take_over_fit [OF env s'(4) b' q] by blast
    then show ?thesis using t(4) toldI by (metis surj_pair)
  qed
qed

text \<open>On an alarm of the master a slave fetches both backups and answers then.\<close>

lemma told_update:
  assumes r: "at_rest (s, w)" and h: "header_ok hdr" and env: "env = station_env fs cn tc tm hdr fuel"
    and b: "packet_buf b" "hd_cmd (GetHeader b) = cmd_code UPDATE_BACKUP12"
  shows "told env b (s, w) = Inr x \<Longrightarrow>
      \<exists>s2 w2. good env UPDATE_BACKUP12_R b (s, w) (s2, w2) \<and> core s2 = core s \<and> at_rest (s2, w2)"
    and "pos_ok s \<Longrightarrow> fit tc tm v fuel (s, w) \<Longrightarrow> \<exists>x. told env b (s, w) = Inr x"
proof -
  let ?ms = "s_master_sock s"
  note w = at_restD [OF r]
  have os: "e_os env = station_os fs cn" by (simp add: env)
  have dec: "decode_cmd (hd_cmd (GetHeader b)) = Some UPDATE_BACKUP12" using b(2) by (simp add: decode_cmd_eq)
  have run: "HandleMasterRequest env s (with_packet ?ms b w) =
      andThen (BackupForOtherSlave env 1 s w) (\<lambda>(_, s, w). andThen (BackupForOtherSlave env 2 s w) (\<lambda>(_, s, w).
      andThen (answer_master env UPDATE_BACKUP12_R b s w) (\<lambda>w. Inr (s, w))))"
    using w(3) dec by (simp add: HandleMasterRequest_def env recv_packet [OF w(1) b(1)] Let_def del: station_os_simps)
  have set1: "settled (t, u) (t', u')" if "packet_buf (s_xbuf t)" "quiet u" "BackupForOtherSlave env k t u = Inr (y, t', u')" for k t u y t' u'
    using communicate_settled [OF os that(1,2)] that(3) by (simp add: BackupForOtherSlave_def)
  have ans: "\<exists>a. answer_master env UPDATE_BACKUP12_R b t u = Inr (n_send (station_os fs cn) ?ms a u) \<and> packet_buf a
      \<and> hd_cmd (GetHeader a) = cmd_code UPDATE_BACKUP12_R" if "settled (s, w) (t, u)" for t u
    using answer_station [OF settled_rest(3) [OF r that] w(3) h b(1), where c = UPDATE_BACKUP12_R and w = u and fs = fs and cn = cn and tc = tc and tm = tm and fuel = fuel] env by blast
  show "\<exists>s2 w2. good env UPDATE_BACKUP12_R b (s, w) (s2, w2) \<and> core s2 = core s \<and> at_rest (s2, w2)" if x: "told env b (s, w) = Inr x"
  proof -
    obtain s3 w3 where h3: "HandleMasterRequest env s (with_packet ?ms b w) = Inr (s3, w3)" using toldE [OF x] .
    then obtain y1 s1 w1 y2 s2 w2 where 1: "BackupForOtherSlave env 1 s w = Inr (y1, s1, w1)" "BackupForOtherSlave env 2 s1 w1 = Inr (y2, s2, w2)"
      "answer_master env UPDATE_BACKUP12_R b s2 w2 = Inr w3" "s3 = s2"
      unfolding run by auto
    have st1: "settled (s, w) (s1, w1)" by (rule set1 [OF w(4) rest_quiet [OF r] 1(1)])
    have st: "settled (s, w) (s2, w2)"
      by (rule settled_trans [OF st1 set1 [OF settled_buf [OF st1] settled_quiet [OF st1 rest_quiet [OF r]] 1(2)]])
    note R = settled_rest [OF r st]
    obtain a where a: "w3 = n_send (station_os fs cn) ?ms a w2" "packet_buf a" "hd_cmd (GetHeader a) = cmd_code UPDATE_BACKUP12_R"
      using ans [OF st] 1(3) by auto
    have "told env b (s, w) = Inr ([a], s2, w2)"
      using toldI [OF h3] sent_on [OF at_restD(2) [OF R(1)], where fs = fs and cn = cn and r = a] R(3) by (simp add: 1(4) a(1) del: station_os_simps)
    then show ?thesis using a(2,3) R(1,2) by (auto simp: good_def)
  qed
  show "\<exists>x. told env b (s, w) = Inr x" if pos: "pos_ok s" and f: "fit tc tm v fuel (s, w)"
  proof -
    have peers: "\<forall>a ps. sa_peers w a = Some ps \<longrightarrow> (\<exists>m data. sent_file fuel BACKUP_R m data ps)" using f by (simp add: fit_def)
    obtain y1 s1 w1 where 1: "BackupForOtherSlave env 1 s w = Inr (y1, s1, w1)"
      using backup_runs_station [OF env pos _ w(4) rest_quiet [OF r] peers, of 1] by (auto simp del: split_paired_Ex)
    have st1: "settled (s, w) (s1, w1)" by (rule set1 [OF w(4) rest_quiet [OF r] 1])
    have q1: "quiet w1" by (rule settled_quiet [OF st1 rest_quiet [OF r]])
    have p1: "pos_ok s1" "sa_peers w1 = sa_peers w" using st1 pos by (auto simp: settled_def pos_ok_def)
    obtain y2 s2 w2 where 2: "BackupForOtherSlave env 2 s1 w1 = Inr (y2, s2, w2)"
      using backup_runs_station [OF env p1(1) _ settled_buf [OF st1] q1, of 2] peers p1(2) by (auto simp del: split_paired_Ex)
    have "settled (s, w) (s2, w2)" by (rule settled_trans [OF st1 set1 [OF settled_buf [OF st1] q1 2]])
    then have "\<exists>y. HandleMasterRequest env s (with_packet ?ms b w) = Inr y" unfolding run using 1 2 ans by fastforce
    then show ?thesis using toldI by (metis surj_pair)
  qed
qed

end
