(* ===== verification/Membership.thy ===== *)
theory Membership
  imports Station
begin

text \<open>
  Theory \<open>Cluster\<close> treats a join or a departure as one step on lists. Here the programs run it: the master's event loop
  talks over a network whose far ends are slaves that execute \<open>HandleMasterRequest\<close>, each on a machine as in theory
  \<open>Station\<close>; the newcomer executes \<open>RegisterAndLoadSlaves\<close>, one that leaves \<open>ShutDownSlave\<close>. A slave that faults is lost.
  As long as none is, every such run is a step of the cluster.
\<close>

section \<open>The master and its slaves\<close>

text \<open>
  \<open>cw_slaves\<close> has the slaves by the sockets on which the master knows them, each on its machine; \<open>cw_in\<close> is what the
  master has yet to read, \<open>cw_out\<close> what it sent to those that are not members, \<open>cw_conn\<close> the connection that \<open>accept\<close> will
  return, with the address of the other end, and \<open>cw_lost\<close> the sockets of slaves that are lost.
\<close>

record ('m, 'd) crew =
  cw_slaves :: "int \<rightharpoonup> ('m slave \<times> 'd station)"
  cw_in :: "int \<Rightarrow> bytes list"
  cw_out :: "int \<Rightarrow> bytes list"
  cw_conn :: "int \<times> int"
  cw_lost :: "int set"

definition lose :: "int \<Rightarrow> ('m, 'd) crew \<Rightarrow> ('m, 'd) crew" where
  "lose fd c = c\<lparr>cw_slaves := (cw_slaves c)(fd := None), cw_lost := insert fd (cw_lost c)\<rparr>"

text \<open>A slave that faults is gone; what it sent before is not kept, as nothing is claimed once a slave is lost.\<close>

definition crew_send :: "('h, 'm, 'd station) env \<Rightarrow> int \<Rightarrow> bytes \<Rightarrow> ('m, 'd) crew \<Rightarrow> ('m, 'd) crew" where
  "crew_send env fd b c =
    (case cw_slaves c fd of
       None \<Rightarrow> c\<lparr>cw_out := (cw_out c)(fd := cw_out c fd @ [b])\<rparr>
     | Some p \<Rightarrow>
         (case told env b p of
            Inl e \<Rightarrow> lose fd c
          | Inr (bs, q) \<Rightarrow> c\<lparr>cw_slaves := (cw_slaves c)(fd \<mapsto> q), cw_in := (cw_in c)(fd := cw_in c fd @ bs)\<rparr>))"

definition crew_recv :: "int \<Rightarrow> ('m, 'd) crew \<Rightarrow> bytes option \<times> ('m, 'd) crew" where
  "crew_recv fd c = (case cw_in c fd of [] \<Rightarrow> (Some [], c) | b # bs \<Rightarrow> (Some b, c\<lparr>cw_in := (cw_in c)(fd := bs)\<rparr>))"

definition crew_net :: "('h, 'm, 'd station) env \<Rightarrow> ('m, 'd) crew net" where
  "crew_net env = \<lparr>n_socket = (\<lambda>c. (-1, c)), n_bind = (\<lambda>_ _ _ c. (-1, c)), n_listen = (\<lambda>_ c. (-1, c)),
    n_accept = (\<lambda>_ c. (fst (cw_conn c), snd (cw_conn c), c)), n_connect = (\<lambda>_ _ _ c. (-1, c)), n_send = crew_send env,
    n_recv = crew_recv, n_close = (\<lambda>_ c. c), n_port = (\<lambda>_ _. 0)\<rparr>"

lemma crew_net_simps [simp]:
  "n_send (crew_net env) = crew_send env" "n_recv (crew_net env) = crew_recv" "n_close (crew_net env) fd c = c"
  "n_accept (crew_net env) fd c = (fst (cw_conn c), snd (cw_conn c), c)"
  by (simp_all add: crew_net_def)

text \<open>Who is lost stays lost, and none of those that were told without being lost has faulted.\<close>

lemma crew_send_lost:
  "cw_lost c \<subseteq> cw_lost (crew_send env fd b c)" "g \<noteq> fd \<Longrightarrow> cw_slaves (crew_send env fd b c) g = cw_slaves c g"
  "cw_slaves c fd = Some p \<Longrightarrow> fd \<in> cw_lost (crew_send env fd b c) \<or> (\<exists>x. told env b p = Inr x)"
  by (auto simp: crew_send_def lose_def split: option.splits sum.splits)

lemma crew_recv_lost: "crew_recv fd c = (r, c') \<Longrightarrow> cw_lost c' = cw_lost c \<and> cw_slaves c' = cw_slaves c"
  by (auto simp: crew_recv_def split: list.splits)

lemma recv_crew_lost: "recv_into (crew_net env) fd b c = (r, b', c') \<Longrightarrow> cw_lost c' = cw_lost c \<and> cw_slaves c' = cw_slaves c"
  by (auto simp: recv_into_def dest: crew_recv_lost split: prod.splits option.splits)

section \<open>All are told\<close>

definition all_told :: "('h, 'm, 'd station) env \<Rightarrow> bytes \<Rightarrow> int set \<Rightarrow> ('m, 'd) crew \<Rightarrow> ('m, 'd) crew" where
  "all_told env b F c = c\<lparr>cw_slaves := (\<lambda>fd.
    if fd \<in> F then map_option (\<lambda>p. snd (projr (told env b p))) (cw_slaves c fd) else cw_slaves c fd)\<rparr>"

lemma all_told_simps [simp]: "cw_in (all_told env b F c) = cw_in c" "cw_out (all_told env b F c) = cw_out c"
  "cw_lost (all_told env b F c) = cw_lost c"
  by (simp_all add: all_told_def)

lemma all_told_insert:
  assumes "cw_slaves c fd = Some p" and "told env b p = Inr (bs, q)" and "fd \<notin> F"
  shows "all_told env b F (c\<lparr>cw_slaves := (cw_slaves c)(fd \<mapsto> q)\<rparr>) = all_told env b (insert fd F) c"
  using assms by (auto simp: all_told_def fun_eq_iff intro!: crew.equality)

definition others :: "SlaveList \<Rightarrow> int \<Rightarrow> int \<Rightarrow> int set" where
  "others sl pos i = {sn_sock (node_at sl j) |j. i \<le> j \<and> j < sl_num sl \<and> j \<noteq> pos}"

lemma others_step: "i < sl_num sl \<Longrightarrow> i \<noteq> pos \<Longrightarrow> others sl pos i = insert (sn_sock (node_at sl i)) (others sl pos (i + 1))"
  by (auto simp: others_def) (metis add_le_cancel_left zless_imp_add1_zle order_le_less)

lemma others_skip: "others sl pos pos = others sl pos (pos + 1)"
proof -
  have "pos \<le> j \<and> j \<noteq> pos \<longleftrightarrow> pos + 1 \<le> j \<and> j \<noteq> pos" for j :: int by auto
  then show ?thesis unfolding others_def by blast
qed

lemma others_end: "\<not> i < sl_num sl \<Longrightarrow> others sl pos i = {}"
  by (auto simp: others_def)

lemma told_answer:
  assumes "cw_in c = (\<lambda>_. [])" and "cw_slaves c fd = Some p" and "told env b p = Inr ([r], q)"
  shows "crew_recv fd (crew_send env fd b c) = (Some r, c\<lparr>cw_slaves := (cw_slaves c)(fd \<mapsto> q)\<rparr>)"
proof -
  have "(cw_in c)(fd := []) = cw_in c" using assms(1) by auto
  then show ?thesis using assms by (simp add: crew_send_def crew_recv_def)
qed

lemma notify_loop_told:
  assumes "\<And>j j'. 0 \<le> j \<Longrightarrow> j < sl_num sl \<Longrightarrow> 0 \<le> j' \<Longrightarrow> j' < sl_num sl \<Longrightarrow> sn_sock (node_at sl j) = sn_sock (node_at sl j') \<Longrightarrow> j = j'"
    and "packet_buf b" and "0 \<le> i" and "packet_buf rb" and "cw_in c = (\<lambda>_. [])"
    and "\<And>fd. fd \<in> others sl pos i \<Longrightarrow> fd \<noteq> -1 \<and> (\<exists>p q. cw_slaves c fd = Some p \<and> good env rc b p q)"
  shows "notify_loop (crew_net env) sl pos rc b i rb errs c = Inr (errs, all_told env b (others sl pos i) c)"
  using assms(3-)
proof (induction "nat (sl_num sl - i)" arbitrary: i rb c)
  case 0
  then have "\<not> i < sl_num sl" by simp
  then show ?case by (simp add: notify_loop.simps [of _ _ _ _ _ i] others_end all_told_def)
next
  case (Suc k)
  then have i: "i < sl_num sl" "k = nat (sl_num sl - (i + 1))" by auto
  show ?case
  proof (cases "i = pos")
    case True
    have "notify_loop (crew_net env) sl pos rc b (pos + 1) rb errs c = Inr (errs, all_told env b (others sl pos (pos + 1)) c)"
      by (rule Suc.hyps(1)) (use Suc.prems i True others_skip [of sl pos] in auto)
    then show ?thesis using i True by (simp add: notify_loop.simps [of _ _ _ _ _ pos] others_skip)
  next
    case False
    let ?fd = "sn_sock (node_at sl i)"
    have F: "others sl pos i = insert ?fd (others sl pos (i + 1))" by (rule others_step [OF i(1) False])
    have nF: "?fd \<notin> others sl pos (i + 1)"
    proof
      assume "?fd \<in> others sl pos (i + 1)"
      then obtain j where "i + 1 \<le> j" "j < sl_num sl" "?fd = sn_sock (node_at sl j)" by (auto simp: others_def)
      then show False using assms(1) [of i j] Suc.prems(1) i(1) by simp
    qed
    obtain p q r where p: "?fd \<noteq> -1" "cw_slaves c ?fd = Some p" "told env b p = Inr ([r], q)" "packet_buf r"
      "hd_cmd (GetHeader r) = cmd_code rc"
      using Suc.prems(4) [of ?fd] F by (auto simp: good_def)
    let ?c = "c\<lparr>cw_slaves := (cw_slaves c)(?fd \<mapsto> q)\<rparr>"
    have "crew_recv ?fd (crew_send env ?fd b c) = (Some r, ?c)"
      by (rule told_answer [OF Suc.prems(3) p(2,3)])
    then have "recv_into (crew_net env) ?fd rb (crew_send env ?fd b c) = (int MAX_BUF_LEN, r, ?c)"
      using p(4) Suc.prems(2) by (intro recv_into_full) simp_all
    moreover have "notify_loop (crew_net env) sl pos rc b (i + 1) r errs ?c = Inr (errs, all_told env b (others sl pos (i + 1)) ?c)"
      by (rule Suc.hyps(1) [OF i(2)]) (use Suc.prems p(4) F nF in auto)
    ultimately show ?thesis
      using i(1) False p(1,5) assms(2) all_told_insert [OF p(2,3) nF] by (simp add: notify_loop.simps [of _ _ _ _ _ i] Let_def F)
  qed
qed

lemma notify_loop_lost:
  assumes "packet_buf b"
  shows "notify_loop (crew_net env) sl pos rc b i rb errs c = Inr (errs', c') \<Longrightarrow> 0 \<le> i \<Longrightarrow>
    cw_lost c \<subseteq> cw_lost c' \<and> (\<forall>fd \<in> others sl pos i. \<forall>p. cw_slaves c fd = Some p \<longrightarrow> fd \<in> cw_lost c' \<or> (\<exists>x. told env b p = Inr x))"
proof (induction "nat (sl_num sl - i)" arbitrary: i rb c errs)
  case 0
  then have "\<not> i < sl_num sl" by simp
  then show ?case using 0(2) by (simp add: notify_loop.simps [of _ _ _ _ _ i] others_end)
next
  case (Suc k)
  then have i: "i < sl_num sl" "k = nat (sl_num sl - (i + 1))" by auto
  show ?case
  proof (cases "i = pos")
    case True
    then show ?thesis using Suc.hyps(1) [OF i(2), of rb errs c] Suc.prems i(1) others_skip [of sl pos]
      by (simp add: notify_loop.simps [of _ _ _ _ _ pos])
  next
    case False
    let ?fd = "sn_sock (node_at sl i)"
    have F: "others sl pos i = insert ?fd (others sl pos (i + 1))" by (rule others_step [OF i(1) False])
    obtain res r c2 where rv: "recv_into (crew_net env) ?fd rb (crew_send env ?fd b c) = (res, r, c2)" by (cases "recv_into (crew_net env) ?fd rb (crew_send env ?fd b c)")
    have "?fd \<noteq> -1" using Suc.prems(1) i(1) False by (auto simp: notify_loop.simps [of _ _ _ _ _ i] Let_def)
    then obtain e where go: "notify_loop (crew_net env) sl pos rc b (i + 1) r e c2 = Inr (errs', c')"
      using Suc.prems(1) i(1) False rv assms by (auto simp: notify_loop.simps [of _ _ _ _ _ i] Let_def)
    note s = crew_send_lost [where c = c and env = env and fd = ?fd and b = b] and r = recv_crew_lost [OF rv]
    have IH: "cw_lost c2 \<subseteq> cw_lost c'"
      "\<forall>g \<in> others sl pos (i + 1). \<forall>p. cw_slaves c2 g = Some p \<longrightarrow> g \<in> cw_lost c' \<or> (\<exists>x. told env b p = Inr x)"
      using Suc.hyps(1) [OF i(2) go] Suc.prems(2) by simp_all
    have "g \<in> cw_lost c' \<or> (\<exists>x. told env b p = Inr x)" if g: "g \<in> others sl pos i" "cw_slaves c g = Some p" for g p
    proof (cases "g = ?fd")
      case True
      then show ?thesis using s(3) [of p] g(2) r IH(1) by auto
    next
      case False
      then have "g \<in> others sl pos (i + 1)" using g(1) F by simp
      moreover have "cw_slaves c2 g = Some p" using s(2) [OF False] r g(2) by simp
      ultimately show ?thesis using IH(2) by blast
    qed
    then show ?thesis using s(1) r IH(1) by blast
  qed
qed

lemma NotifyAll_told:
  assumes "\<And>j j'. 0 \<le> j \<Longrightarrow> j < sl_num sl \<Longrightarrow> 0 \<le> j' \<Longrightarrow> j' < sl_num sl \<Longrightarrow> sn_sock (node_at sl j) = sn_sock (node_at sl j') \<Longrightarrow> j = j'"
    and h: "header_ok h0" and p: "0 \<le> pos" "pos < sl_num sl" and ok: "list_ok sl" and "cw_in c = (\<lambda>_. [])"
    and "\<And>fd. fd \<in> others sl pos 0 \<Longrightarrow> fd \<noteq> -1 \<and> (\<exists>p q. cw_slaves c fd = Some p \<and> good env rc (notice h0 cm pos (node_at sl pos)) p q)"
  shows "NotifyAll (crew_net env) h0 sl pos cm rc c = Inr ([], all_told env (notice h0 cm pos (node_at sl pos)) (others sl pos 0) c)"
proof -
  have i: "int32 pos" using p ok by (simp add: int32_def list_ok_def MAX_SLAVE_NUM_def)
  have n: "get_node (sl_nodes sl) pos = Inr (node_at sl pos)" using p ok by (simp add: get_node_def node_at_def list_ok_def)
  have l: "length (node_bytes (node_at sl pos)) \<le> APPENDSIZE" by (simp add: packet_consts)
  show ?thesis
    using notify_loop_told [OF assms(1) notice_facts(1) [OF h i] order_refl zeros_buf assms(6,7)]
      Append_packet [OF zeros_buf l, of "h0\<lparr>hd_cmd := cmd_code cm, hd_key := pos\<rparr>"] n
    by (simp add: NotifyAll_def notice_def)
qed

lemma NotifyAll_lost:
  assumes h: "header_ok h0" and p: "0 \<le> pos" "pos < sl_num sl" and ok: "list_ok sl"
    and run: "NotifyAll (crew_net env) h0 sl pos cm rc c = Inr (errs, c')" and "cw_lost c' = {}"
    and "fd \<in> others sl pos 0" and "cw_slaves c fd = Some q"
  shows "\<exists>x. told env (notice h0 cm pos (node_at sl pos)) q = Inr x"
proof -
  have i: "int32 pos" using p ok by (simp add: int32_def list_ok_def MAX_SLAVE_NUM_def)
  have n: "get_node (sl_nodes sl) pos = Inr (node_at sl pos)" using p ok by (simp add: get_node_def node_at_def list_ok_def)
  have l: "length (node_bytes (node_at sl pos)) \<le> APPENDSIZE" by (simp add: packet_consts)
  have "notify_loop (crew_net env) sl pos rc (notice h0 cm pos (node_at sl pos)) 0 (zeros MAX_BUF_LEN) [] c = Inr (errs, c')"
    using run n Append_packet [OF zeros_buf l, of "h0\<lparr>hd_cmd := cmd_code cm, hd_key := pos\<rparr>"] by (simp add: NotifyAll_def notice_def)
  from notify_loop_lost [OF notice_facts(1) [OF h i] this order_refl] assms(6-8) show ?thesis by blast
qed

section \<open>The list keeps to what fits a packet\<close>

lemma list_all_update: "list_all P xs \<Longrightarrow> P x \<Longrightarrow> list_all P (xs[i := x])"
  by (auto simp: list_all_iff dest!: set_update_subset_insert [THEN subsetD])

lemma moved_node_all:
  "andThen (get_node ns i) (put_node ns j) = Inr ns' \<Longrightarrow> list_all P ns \<Longrightarrow> list_all P ns'"
  by (auto simp: get_node_def put_node_def intro!: list_all_update split: if_splits) (simp add: list_all_length)

lemma shift_up_all: "shift_up ns i stop = Inr ns' \<Longrightarrow> list_all P ns \<Longrightarrow> list_all P ns'"
proof (induction ns i stop arbitrary: ns' rule: shift_up.induct)
  case (1 ns i stop)
  show ?case
  proof (cases "i > stop")
    case True
    then obtain b where b: "andThen (get_node ns i) (put_node ns (i + 1)) = Inr b" "shift_up b (i - 1) stop = Inr ns'"
      using 1(2) by (auto simp: shift_up.simps [of ns i] split: sum.splits)
    from "1.IH" [OF True b] moved_node_all [OF b(1) 1(3)] show ?thesis .
  next
    case False
    then show ?thesis using 1(2,3) by (simp add: shift_up.simps [of ns i])
  qed
qed

lemma shift_down_all: "shift_down ns i stop = Inr ns' \<Longrightarrow> list_all P ns \<Longrightarrow> list_all P ns'"
proof (induction ns i stop arbitrary: ns' rule: shift_down.induct)
  case (1 ns i stop)
  show ?case
  proof (cases "i < stop")
    case True
    then obtain b where b: "andThen (get_node ns (i + 1)) (put_node ns i) = Inr b" "shift_down b (i + 1) stop = Inr ns'"
      using 1(2) by (auto simp: shift_down.simps [of ns i] split: sum.splits)
    from "1.IH" [OF True b] moved_node_all [OF b(1) 1(3)] show ?thesis .
  next
    case False
    then show ?thesis using 1(2,3) by (simp add: shift_down.simps [of ns i])
  qed
qed

lemma put_node_all: "put_node ns i n = Inr ns' \<Longrightarrow> list_all P ns \<Longrightarrow> P n \<Longrightarrow> list_all P ns'"
  by (auto simp: put_node_def intro: list_all_update split: if_splits)

lemma c_rem_key: "int32 (c_rem x MAX_KEY)"
proof -
  have m: "int32 (y mod 4000) \<and> int32 (- (y mod 4000))" for y :: int
  proof -
    have "0 \<le> y mod 4000" "y mod 4000 < 4000" by simp_all
    then show ?thesis unfolding int32_def by (intro conjI) simp_all
  qed
  show ?thesis
    by (cases "0 \<le> x") (simp_all add: c_rem_nonneg c_rem_neg MAX_KEY_def m del: minus_mod_int_eq)
qed

lemma AddToSlaveList_nodes:
  assumes "AddToSlaveList rnd sn sl = Inr (p, sl')" and "list_all node_ok (sl_nodes sl)"
    and "int32 (sn_ip sn)" "int32 (sn_port sn)" "int32 (sn_sock sn)"
  shows "list_all node_ok (sl_nodes sl')"
proof -
  have ok: "node_ok (sn\<lparr>sn_key := c_rem x MAX_KEY\<rparr>)" for x using assms(3-5) by (simp add: node_ok_def c_rem_key)
  show ?thesis
  proof (cases "sl_num sl = 0")
    case True
    then show ?thesis using assms(1) put_node_all [OF _ assms(2) ok] by (auto simp: AddToSlaveList_def)
  next
    case False
    then obtain ns ns' x where "shift_up (sl_nodes sl) (sl_num sl - 1) (FindLongestSection sl) = Inr ns"
      "put_node ns (FindLongestSection sl + 1) (sn\<lparr>sn_key := c_rem x MAX_KEY\<rparr>) = Inr ns'" "sl_nodes sl' = ns'"
      using assms(1) by (auto simp: AddToSlaveList_def Let_def)
    then show ?thesis using put_node_all [OF _ shift_up_all [OF _ assms(2)] ok] by blast
  qed
qed

lemma DelFromSlaveList_nodes:
  "DelFromSlaveList p sl = Inr sl' \<Longrightarrow> list_all node_ok (sl_nodes sl) \<Longrightarrow> list_all node_ok (sl_nodes sl')"
  by (auto simp: DelFromSlaveList_def dest: shift_down_all [where P = node_ok])

section \<open>What the cluster of theory \<open>Cluster\<close> sees\<close>

type_synonym ('m, 'd) membership = "('m, 'd) crew master"

definition cluster_of :: "SlaveList \<times> ('m, 'd) crew \<Rightarrow> 'm cluster" where
  "cluster_of = (\<lambda>(sl, c). \<lparr>cs_list = sl, cs_slaves = (\<lambda>fd. map_option (\<lambda>(s, w). core s) (cw_slaves c fd))\<rparr>)"

definition crew_ok :: "int \<Rightarrow> SlaveList \<times> ('m, 'd) crew \<Rightarrow> bool" where
  "crew_ok lsock = (\<lambda>(sl, c). cluster_ok (cluster_of (sl, c)) \<and> list_all node_ok (sl_nodes sl) \<and> cw_in c = (\<lambda>_. []) \<and> cw_out c = (\<lambda>_. [])
    \<and> (\<forall>fd p. cw_slaves c fd = Some p \<longrightarrow> 0 < fd \<and> fd \<noteq> lsock \<and> at_rest p))"

lemma follows_core [simp]: "rep.follows ns ver i (core s) = rep.follows ns ver i s"
  by (simp add: rep.follows_def)

lemma cluster_of_simps [simp]:
  "cs_list (cluster_of (sl, c)) = sl" "cs_slaves (cluster_of (sl, c)) fd = map_option (\<lambda>(s, w). core s) (cw_slaves c fd)"
  by (simp_all add: cluster_of_def)

lemma note_core:
  "note_new_slave p n (core s) = andThen (note_new_slave p n s) (\<lambda>s. Inr (core s))"
  "note_rm_slave p (core s) = andThen (note_rm_slave p s) (\<lambda>s. Inr (core s))"
  by (auto simp: note_new_slave_def note_rm_slave_def core_def andThen_def split: sum.splits)

lemma note_frame:
  "note_new_slave p n s = Inr s' \<Longrightarrow> s_master_sock s' = s_master_sock s \<and> s_xbuf s' = s_xbuf s \<and> s_file_master s' = s_file_master s \<and> s_db s' = s_db s"
  "note_rm_slave p s = Inr s' \<Longrightarrow> s_master_sock s' = s_master_sock s \<and> s_xbuf s' = s_xbuf s \<and> s_file_master s' = s_file_master s \<and> s_db s' = s_db s"
  by (auto simp: note_new_slave_def note_rm_slave_def split: if_splits)

lemma crew_okD:
  assumes "crew_ok lsock (sl, c)"
  shows "cluster_ok (cluster_of (sl, c))" "ring_list sl" "list_ok sl" "distinct (socks sl)" "dom (cw_slaves c) = set (socks sl)"
    "list_all node_ok (sl_nodes sl)" "cw_in c = (\<lambda>_. [])" "cw_out c = (\<lambda>_. [])"
    "\<And>fd p. cw_slaves c fd = Some p \<Longrightarrow> 0 < fd \<and> fd \<noteq> lsock \<and> at_rest p"
proof -
  show c: "cluster_ok (cluster_of (sl, c))" "list_all node_ok (sl_nodes sl)" "cw_in c = (\<lambda>_. [])" "cw_out c = (\<lambda>_. [])"
    "\<And>fd p. cw_slaves c fd = Some p \<Longrightarrow> 0 < fd \<and> fd \<noteq> lsock \<and> at_rest p"
    using assms by (auto simp: crew_ok_def)
  have "dom (cs_slaves (cluster_of (sl, c))) = dom (cw_slaves c)" by auto
  then show "ring_list sl" "list_ok sl" "distinct (socks sl)" "dom (cw_slaves c) = set (socks sl)"
    using c(1) by (auto simp: cluster_ok_def ring_list_def)
qed

lemma crew_follows:
  assumes "crew_ok lsock (sl, c)" and "cw_slaves c fd = Some (s, w)"
  obtains i where "i < length (live sl)" and "socks sl ! i = fd" and "rep.follows (live sl) (sl_version sl) i s"
  using cluster_okD [OF crew_okD(1) [OF assms(1)], of fd "core s"] assms(2) by auto

lemma others_socks:
  assumes ok: "list_ok sl" and d: "distinct (socks sl)" and p: "0 \<le> p" "p < sl_num sl"
  shows "others sl p 0 = set (socks sl) - {sn_sock (node_at sl p)}"
    and "\<And>j j'. 0 \<le> j \<Longrightarrow> j < sl_num sl \<Longrightarrow> 0 \<le> j' \<Longrightarrow> j' < sl_num sl \<Longrightarrow> sn_sock (node_at sl j) = sn_sock (node_at sl j') \<Longrightarrow> j = j'"
proof -
  have len: "length (socks sl) = nat (sl_num sl)" using ok by (simp add: socks_def length_live)
  have at: "sn_sock (node_at sl j) = socks sl ! nat j" if "0 \<le> j" "j < sl_num sl" for j
    using that len by (simp add: node_at_live socks_def)
  show inj: "j = j'" if "0 \<le> j" "j < sl_num sl" "0 \<le> j'" "j' < sl_num sl" "sn_sock (node_at sl j) = sn_sock (node_at sl j')" for j j'
    using that d len by (simp add: at nth_eq_iff_index_eq)
  have "fd \<in> set (socks sl) \<longleftrightarrow> (\<exists>j. 0 \<le> j \<and> j < sl_num sl \<and> sn_sock (node_at sl j) = fd)" for fd
  proof
    assume "fd \<in> set (socks sl)"
    then obtain i where i: "i < nat (sl_num sl)" "socks sl ! i = fd" unfolding in_set_conv_nth len by blast
    then show "\<exists>j. 0 \<le> j \<and> j < sl_num sl \<and> sn_sock (node_at sl j) = fd" using at [of "int i"] by (intro exI [of _ "int i"]) auto
  next
    assume "\<exists>j. 0 \<le> j \<and> j < sl_num sl \<and> sn_sock (node_at sl j) = fd"
    then obtain j where j: "0 \<le> j" "j < sl_num sl" "sn_sock (node_at sl j) = fd" by blast
    then have "socks sl ! nat j \<in> set (socks sl)" using len by (intro nth_mem) simp
    then show "fd \<in> set (socks sl)" using at [OF j(1,2)] j(3) by simp
  qed
  moreover have "fd \<in> others sl p 0 \<longleftrightarrow> (\<exists>j. 0 \<le> j \<and> j < sl_num sl \<and> sn_sock (node_at sl j) = fd \<and> j \<noteq> p)" for fd
    by (auto simp: others_def)
  moreover have "j \<noteq> p \<longleftrightarrow> sn_sock (node_at sl j) \<noteq> sn_sock (node_at sl p)" if "0 \<le> j" "j < sl_num sl" for j
    using inj [OF that p] by blast
  ultimately show "others sl p 0 = set (socks sl) - {sn_sock (node_at sl p)}" by (intro set_eqI) (simp, metis)
qed

text \<open>What one notification does to all slaves.\<close>

lemma crew_notified:
  assumes told: "\<And>s w. (s, w) \<in> ran (cw_slaves c) \<Longrightarrow> \<exists>s1 s2 w2. nt s = Inr s1 \<and> good env rc b (s, w) (s2, w2)
      \<and> core s2 = core s1 \<and> at_rest (s2, w2)"
    and nt: "\<And>s. nt (core s) = andThen (nt s) (\<lambda>s. Inr (core s))"
    and F: "dom (cw_slaves c) \<subseteq> F"
  defines "new \<equiv> cw_slaves (all_told env b F c)"
  shows "notified nt fd (\<lambda>fd. map_option (\<lambda>(s, w). core s) (cw_slaves c fd)) (\<lambda>fd. map_option (\<lambda>(s, w). core s) (new fd))"
    and "new fd = Some p \<Longrightarrow> at_rest p" and "dom new = dom (cw_slaves c)"
    and "fd \<in> dom (cw_slaves c) \<Longrightarrow> \<exists>p q. cw_slaves c fd = Some p \<and> good env rc b p q"
proof -
  have N: "new fd = None" if "cw_slaves c fd = None" for fd using that by (simp add: new_def all_told_def)
  have S: "\<exists>s1 s2 w2. nt s = Inr s1 \<and> core s2 = core s1 \<and> new fd = Some (s2, w2) \<and> at_rest (s2, w2)"
    if "cw_slaves c fd = Some (s, w)" for fd s w
  proof -
    have "fd \<in> F" using that F by auto
    have "(s, w) \<in> ran (cw_slaves c)" using that by (rule ranI)
    from told [OF this] show ?thesis using that \<open>fd \<in> F\<close> by (auto simp: new_def all_told_def good_def)
  qed
  show "notified nt fd (\<lambda>fd. map_option (\<lambda>(s, w). core s) (cw_slaves c fd)) (\<lambda>fd. map_option (\<lambda>(s, w). core s) (new fd))"
    unfolding notified_def
  proof (intro allI impI)
    fix fd'
    show "case map_option (\<lambda>(s, w). core s) (cw_slaves c fd') of None \<Rightarrow> map_option (\<lambda>(s, w). core s) (new fd') = None
      | Some s \<Rightarrow> \<exists>s'. nt s = Inr s' \<and> map_option (\<lambda>(s, w). core s) (new fd') = Some s'"
    proof (cases "cw_slaves c fd'")
      case None
      then show ?thesis using N by simp
    next
      case (Some q)
      then obtain s w where q: "cw_slaves c fd' = Some (s, w)" by (cases q) simp
      from S [OF q] q show ?thesis by (auto simp: nt)
    qed
  qed
  show "new fd = Some p \<Longrightarrow> at_rest p"
    using S N by (cases "cw_slaves c fd") fastforce+
  show "dom new = dom (cw_slaves c)" using S N by (fastforce simp: dom_def)
  show "fd \<in> dom (cw_slaves c) \<Longrightarrow> \<exists>p q. cw_slaves c fd = Some p \<and> good env rc b p q"
    using told by (force intro: ranI)
qed

section \<open>The slaves' side\<close>

text \<open>One exchange of a slave with the master, given the reply: what it sends and how it goes on.\<close>

lemma slave_exchange_station:
  assumes r: "at_rest (s, w)" and ms: "ms = s_master_sock s"
    and b0: "b0 = packet (s_xbuf s) (hdr\<lparr>hd_cmd := cmd_code c, hd_key := key\<rparr>) []"
  shows "slave_exchange (station_env fs cn tc tm hdr fuel) c key [] 0 ms s (with_packet ms r w)
    = Inr (s\<lparr>s_xbuf := poke 0 (take MAX_BUF_LEN r) b0\<rparr>, n_send (station_os fs cn) ms b0 w)"
proof -
  note w = at_restD [OF r]
  have "n_recv (station_os fs cn) ms (n_send (station_os fs cn) ms b0 (with_packet ms r w)) = (Some r, n_send (station_os fs cn) ms b0 w)"
    by (simp add: with_packet_def w(1) fun_upd_def cong: if_cong)
  then have "recv_into (station_os fs cn) ms b0 (n_send (station_os fs cn) ms b0 (with_packet ms r w))
    = (int (length (take MAX_BUF_LEN r)), poke 0 (take MAX_BUF_LEN r) b0, n_send (station_os fs cn) ms b0 w)"
    by (simp add: recv_into_def del: station_os_simps)
  then show ?thesis
    using ExchangePacket_ok [OF w(3,4), of "[]" "station_os fs cn" hdr c key "with_packet ms r w"] ms
    by (simp add: slave_exchange_def b0 [symmetric] del: station_os_simps)
qed

lemma poke_packet: "packet_buf r \<Longrightarrow> packet_buf b \<Longrightarrow> poke 0 r b = r"
  by (simp add: packet_buf_def MAX_BUF_LEN_def packet_consts poke_def)

definition join_packet :: "db_header \<Rightarrow> 'm slave \<Rightarrow> bytes" where
  "join_packet hdr s = packet (s_xbuf s) (hdr\<lparr>hd_cmd := cmd_code ADD_SLAVE, hd_key := s_port s\<rparr>) []"

definition leave_packet :: "db_header \<Rightarrow> 'm slave \<Rightarrow> bytes" where
  "leave_packet hdr s = packet (s_xbuf s) (hdr\<lparr>hd_cmd := cmd_code DEL_SLAVE, hd_key := s_pos s\<rparr>) []"

lemma request_bufs [simp]:
  "packet_buf (s_xbuf s) \<Longrightarrow> packet_buf (join_packet hdr s)" "packet_buf (s_xbuf s) \<Longrightarrow> packet_buf (leave_packet hdr s)"
  using packet_buf_packet [of "s_xbuf s" "[]"] by (simp_all add: join_packet_def leave_packet_def)

lemma request_packets:
  assumes "packet_buf (s_xbuf s)" and "header_ok hdr"
  shows "int32 (s_port s) \<Longrightarrow> hd_cmd (GetHeader (join_packet hdr s)) = cmd_code ADD_SLAVE"
    "int32 (s_port s) \<Longrightarrow> hd_key (GetHeader (join_packet hdr s)) = s_port s"
    "int32 (s_pos s) \<Longrightarrow> hd_cmd (GetHeader (leave_packet hdr s)) = cmd_code DEL_SLAVE"
    "int32 (s_pos s) \<Longrightarrow> hd_key (GetHeader (leave_packet hdr s)) = s_pos s"
proof -
  have l: "length ([] :: bytes) \<le> APPENDSIZE" by simp
  show "int32 (s_port s) \<Longrightarrow> hd_cmd (GetHeader (join_packet hdr s)) = cmd_code ADD_SLAVE"
    "int32 (s_port s) \<Longrightarrow> hd_key (GetHeader (join_packet hdr s)) = s_port s"
    "int32 (s_pos s) \<Longrightarrow> hd_cmd (GetHeader (leave_packet hdr s)) = cmd_code DEL_SLAVE"
    "int32 (s_pos s) \<Longrightarrow> hd_key (GetHeader (leave_packet hdr s)) = s_pos s"
    using GetHeader_packet [OF assms(1) _ l] assms(2) by (simp_all add: join_packet_def leave_packet_def header_ok_def)
qed

lemma register_station:
  assumes r: "at_rest (s, w)"
  shows "RegisterAndLoadSlaves (station_env fs cn tc tm hdr fuel) (s_master_sock s) s (with_packet (s_master_sock s) r w) = Inr (s', w') \<Longrightarrow>
      w' = n_send (station_os fs cn) (s_master_sock s) (join_packet hdr s) w"
    and "packet_buf r \<Longrightarrow> hd_cmd (GetHeader r) = cmd_code ADD_SLAVE_R \<Longrightarrow>
      RegisterAndLoadSlaves (station_env fs cn tc tm hdr fuel) (s_master_sock s) s (with_packet (s_master_sock s) r w)
        = Inr (s\<lparr>s_xbuf := r, s_pos := hd_key (GetHeader r), s_slaves := bytes_list (GetAppend r)\<rparr>,
            n_send (station_os fs cn) (s_master_sock s) (join_packet hdr s) w)"
  using slave_exchange_station [OF r refl join_packet_def, where fs = fs and cn = cn and tc = tc and tm = tm and fuel = fuel and r = r] at_restD [OF r]
  by (auto simp: RegisterAndLoadSlaves_def reply_def poke_packet simp del: station_os_simps)

lemma shutdown_station:
  assumes r: "at_rest (s, w)"
  shows "ShutDownSlave (station_env fs cn tc tm hdr fuel) s (with_packet (s_master_sock s) r w) = Inr (s', w') \<Longrightarrow>
      sa_out w' (s_master_sock s) = [leave_packet hdr s]"
    and "cn ctrl_thread_id = None \<Longrightarrow> packet_buf r \<Longrightarrow> hd_cmd (GetHeader r) = cmd_code DEL_SLAVE_R \<Longrightarrow>
      \<exists>s' w'. ShutDownSlave (station_env fs cn tc tm hdr fuel) s (with_packet (s_master_sock s) r w) = Inr (s', w')"
  using slave_exchange_station [OF r refl leave_packet_def, where fs = fs and cn = cn and tc = tc and tm = tm and fuel = fuel and r = r] at_restD [OF r]
  by (auto simp: ShutDownSlave_def reply_def poke_packet ShutdownService_def CloseRemoteService_def Let_def split: option.splits)

section \<open>The master's side\<close>

text \<open>The packet is read, all members are told, and the reply stays for the one that asked.\<close>

lemma master_reads:
  assumes "cw_in c = (\<lambda>_. [])" and "packet_buf b"
  shows "recv_into (crew_net env) fd (zeros MAX_BUF_LEN) (c\<lparr>cw_in := (cw_in c)(fd := [b])\<rparr>) = (int MAX_BUF_LEN, b, c)"
proof -
  have "(cw_in c)(fd := []) = cw_in c" using assms(1) by auto
  then show ?thesis by (intro recv_into_full [OF _ assms(2) zeros_buf]) (simp add: crew_recv_def)
qed

lemma master_replies:
  assumes "cw_slaves c fd = None" and "cw_out c = (\<lambda>_. [])"
  shows "crew_send env fd r c = c\<lparr>cw_out := (cw_out c)(fd := [r])\<rparr>"
  using assms by (simp add: crew_send_def)

lemma list_reply:
  assumes h: "header_ok h0" "int32 p" and l: "list_ok sl" "list_all node_ok (sl_nodes sl)"
  obtains r where "snd (Append (WriteHeader (zeros MAX_BUF_LEN) (h0\<lparr>hd_cmd := cmd_code c, hd_key := p\<rparr>)) (list_bytes sl) (int SLAVELIST_SIZE)) = r"
    and "packet_buf r" and "hd_cmd (GetHeader r) = cmd_code c" and "hd_key (GetHeader r) = p" and "bytes_list (GetAppend r) = sl"
proof -
  let ?h = "h0\<lparr>hd_cmd := cmd_code c, hd_key := p\<rparr>"
  have d: "length (list_bytes sl) = SLAVELIST_SIZE" "length (list_bytes sl) \<le> APPENDSIZE"
    using length_list_bytes [OF l(1)] SLAVELIST_fits by simp_all
  have hh: "header_ok ?h" using h by (simp add: header_ok_def)
  show ?thesis
    by (rule that [of "packet (zeros MAX_BUF_LEN) ?h (list_bytes sl)"])
      (use l d Append_packet [OF zeros_buf d(2), of ?h] in \<open>simp_all add: GetHeader_packet [OF zeros_buf hh d(2)]
        GetAppend_packet [OF zeros_buf d(2)] bytes_list_list_bytes list_all_iff\<close>)
qed

text \<open>The slaves that are lost in a turn stay lost.\<close>

lemma send_mono: "SendMsg (crew_net env) fd b c = Inr c' \<Longrightarrow> cw_lost c \<subseteq> cw_lost c'"
  using crew_send_lost(1) [of c env fd "take MAX_BUF_LEN b"] by (cases "fd = -1") auto

lemma recv_mono: "RecvMsg (crew_net env) fd b c = Inr (r, b', c') \<Longrightarrow> cw_lost c' = cw_lost c"
  using recv_crew_lost [of env fd b c r b' c'] by (auto simp: RecvMsg_def)

lemma notify_loop_mono: "notify_loop (crew_net env) sl pos rc b i rb errs c = Inr (errs', c') \<Longrightarrow> cw_lost c \<subseteq> cw_lost c'"
proof (induction "nat (sl_num sl - i)" arbitrary: i rb c errs)
  case 0
  then show ?case by (simp add: notify_loop.simps [of _ _ _ _ _ i])
next
  case (Suc k)
  then have i: "i < sl_num sl" "k = nat (sl_num sl - (i + 1))" by auto
  show ?case
  proof (cases "i = pos")
    case True
    then show ?thesis using Suc.hyps(1) [OF i(2)] Suc.prems i(1) by (simp add: notify_loop.simps [of _ _ _ _ _ pos])
  next
    case False
    let ?fd = "sn_sock (node_at sl i)"
    obtain c1 r rb' c2 e where 1: "SendMsg (crew_net env) ?fd b c = Inr c1" "RecvMsg (crew_net env) ?fd rb c1 = Inr (r, rb', c2)"
      "notify_loop (crew_net env) sl pos rc b (i + 1) rb' e c2 = Inr (errs', c')"
      using Suc.prems i(1) False by (auto simp: notify_loop.simps [of _ _ _ _ _ i] Let_def split: sum.splits)
    show ?thesis using send_mono [OF 1(1)] recv_mono [OF 1(2)] Suc.hyps(1) [OF i(2) 1(3)] by blast
  qed
qed

lemma notify_mono: "NotifyAll (crew_net env) h0 sl pos cm rc c = Inr (errs, c') \<Longrightarrow> cw_lost c \<subseteq> cw_lost c'"
  by (auto simp: NotifyAll_def Let_def dest: notify_loop_mono)

lemma handle_mono:
  assumes "Master.HandleRequest (crew_net env) h0 rnd fd ip sl c = Inr (sl', c')"
  shows "cw_lost c \<subseteq> cw_lost c'"
proof -
  obtain r b c1 rb sl2 c2 where 1: "RecvMsg (crew_net env) fd (zeros MAX_BUF_LEN) c = Inr (r, b, c1)"
    and 2: "(case decode_cmd (hd_cmd (GetHeader b)) of
         Some GET_LIST \<Rightarrow> Inr (snd (Append (WriteHeader (zeros MAX_BUF_LEN) (h0\<lparr>hd_cmd := cmd_code GET_LIST_R\<rparr>)) (list_bytes sl) (int SLAVELIST_SIZE)), sl, c1)
       | Some ADD_SLAVE \<Rightarrow>
           andThen (AddToSlaveList rnd \<lparr>sn_ip = ip, sn_port = hd_key (GetHeader b), sn_sock = fd, sn_key = 0\<rparr> sl) (\<lambda>(newpos, slaves).
           andThen (NotifyAll (crew_net env) h0 slaves newpos NEW_SLAVE NEW_SLAVE_R c1) (\<lambda>(errs, w).
           Inr (snd (Append (WriteHeader (zeros MAX_BUF_LEN) (h0\<lparr>hd_cmd := cmd_code ADD_SLAVE_R, hd_key := newpos\<rparr>)) (list_bytes slaves) (int SLAVELIST_SIZE)), slaves, w)))
       | Some DEL_SLAVE \<Rightarrow>
           andThen (NotifyAll (crew_net env) h0 sl (hd_key (GetHeader b)) RM_SLAVE RM_SLAVE_R c1) (\<lambda>(errs, w).
           andThen (DelFromSlaveList (hd_key (GetHeader b)) sl) (\<lambda>slaves.
           Inr (WriteHeader (zeros MAX_BUF_LEN) (h0\<lparr>hd_cmd := cmd_code DEL_SLAVE_R\<rparr>), slaves, w)))
       | _ \<Rightarrow> Inr (zeros MAX_BUF_LEN, sl, c1)) = Inr (rb, sl2, c2)"
    and 3: "SendMsg (crew_net env) fd rb c2 = Inr c'"
    using assms [unfolded Master.HandleRequest_def Let_def ServiceStop_def crew_net_simps if_cancel] by auto
  have "cw_lost c1 \<subseteq> cw_lost c2" using 2 by (auto split: option.splits cmd.splits dest!: notify_mono)
  then show ?thesis using recv_mono [OF 1] send_mono [OF 3] by blast
qed

lemma exchange_mono: "ExchangePacket (crew_net env) h0 b c k d n fd w = Inr (b', w') \<Longrightarrow> cw_lost w \<subseteq> cw_lost w'"
  by (auto simp: ExchangePacket_def Let_def dest!: send_mono recv_mono)

lemma step_mono:
  assumes "master_step (crew_net env) h0 rnd lsock ev m = Inr m'"
  shows "cw_lost (m_world m) \<subseteq> cw_lost (m_world m')"
proof -
  obtain m1 where 1: "epoll_wait (crew_net env) h0 ev m = Inr m1"
    and 2: "m_world m' = m_world m1 \<or> (\<exists>fd ip sl'. Master.HandleRequest (crew_net env) h0 rnd fd ip (m_slaves m1) (m_world m1) = Inr (sl', m_world m'))"
    using assms by (fastforce simp: master_step_def ServiceStart_def Let_def split: if_splits)
  have "cw_lost (m_world m) \<subseteq> cw_lost (m_world m1)"
    using 1 by (cases ev) (auto simp: epoll_wait_def UpdateBackup_def Let_def split: if_splits dest!: exchange_mono)
  then show ?thesis using 2 handle_mono by fastforce
qed

lemma master_join:
  assumes ok: "crew_ok lsock (sl, c)" and fd: "cw_slaves c fd = None" "0 < fd" "int32 fd"
    and n: "sl_num sl < int MAX_SLAVE_NUM" "0 \<le> rnd" "int32 ip" and h: "header_ok hdr" "header_ok h0"
    and b: "packet_buf b" "hd_cmd (GetHeader b) = cmd_code ADD_SLAVE"
    and env_def: "env = station_env fs cn tc tm hdr fuel" and sn_def: "sn = \<lparr>sn_ip = ip, sn_port = hd_key (GetHeader b), sn_sock = fd, sn_key = 0\<rparr>"
  shows "\<exists>p sl' c' r. AddToSlaveList rnd sn sl = Inr (p, sl')
    \<and> HandleRequest (crew_net env) h0 rnd fd ip sl (c\<lparr>cw_in := (cw_in c)(fd := [b])\<rparr>) = Inr (sl', c'\<lparr>cw_out := (cw_out c')(fd := [r])\<rparr>)
    \<and> packet_buf r \<and> hd_cmd (GetHeader r) = cmd_code ADD_SLAVE_R \<and> hd_key (GetHeader r) = p \<and> bytes_list (GetAppend r) = sl'
    \<and> list_all node_ok (sl_nodes sl') \<and> cw_in c' = (\<lambda>_. []) \<and> cw_out c' = (\<lambda>_. []) \<and> dom (cw_slaves c') = dom (cw_slaves c)
    \<and> (\<forall>fd p. cw_slaves c' fd = Some p \<longrightarrow> at_rest p) \<and> cw_lost c' = cw_lost c
    \<and> notified (note_new_slave p (node_at sl' p)) fd (cs_slaves (cluster_of (sl, c))) (\<lambda>fd. map_option (\<lambda>(s, w). core s) (cw_slaves c' fd))
    \<and> (Ball (ran (cw_slaves c)) (fit tc tm v fuel) \<longrightarrow> Ball (ran (cw_slaves c')) (fit tc tm v fuel))"
proof -
  note C = crew_okD [OF ok]
  obtain p sl' where add: "AddToSlaveList rnd sn sl = Inr (p, sl')" "ring_list sl'" "0 \<le> p" "p \<le> sl_num sl"
    "sl_num sl' = sl_num sl + 1" "live sl' = insert_at (nat p) (sn\<lparr>sn_key := keys sl' ! nat p\<rparr>) (live sl)"
    using AddToSlaveList_ring [OF C(2) n(1,2)] by blast
  have len: "int (length (live sl)) = sl_num sl" using C(3) by (simp add: sl_num_live)
  then have q: "nat p \<le> length (live sl)" "length (live sl) < MAX_SLAVE_NUM" using add(3,4) n(1) by linarith+
  have l': "list_ok sl'" using add(2) by (simp add: ring_list_def)
  have nodes: "list_all node_ok (sl_nodes sl')"
    by (rule AddToSlaveList_nodes [OF add(1) C(6)]) (simp_all add: sn_def n(3) fd(3) GetHeader_def)
  have p': "0 \<le> p" "p < sl_num sl'" using add(3-5) by simp_all
  have "nat p < length (sl_nodes sl')" using p' l' by (auto simp: list_ok_def)
  then have "node_ok (node_at sl' p)" using nodes unfolding node_at_def list_all_length by blast
  moreover have "sn_sock (node_at sl' p) = fd" using node_at_live [OF p'] add(6) q(1) by (simp add: nth_insert_at sn_def)
  ultimately have at: "sn_sock (node_at sl' p) = fd" "node_ok (node_at sl' p)" by simp_all
  have sk: "socks sl' = insert_at (nat p) fd (socks sl)" using add(6) by (simp add: socks_def sn_def)
  have fresh: "fd \<notin> set (socks sl)" using C(5) fd(1) by auto
  have d': "distinct (socks sl')" using C(4) fresh by (simp add: sk)
  note O = others_socks [OF l' d' p']
  have dom: "others sl' p 0 = dom (cw_slaves c)" using O(1) at(1) fresh C(5) by (simp add: sk)
  have i32: "int32 p" using p' l' by (simp add: int32_def list_ok_def MAX_SLAVE_NUM_def)
  let ?b = "notice h0 NEW_SLAVE p (node_at sl' p)"
  have told1: "\<exists>s1. note_new_slave p (node_at sl' p) s = Inr s1 \<and> good env NEW_SLAVE_R ?b (s, w) (s1, w) \<and> at_rest (s1, w)"
    if m: "(s, w) \<in> ran (cw_slaves c)" for s w
  proof -
    obtain fd' where s: "cw_slaves c fd' = Some (s, w)" using m by (auto simp: ran_def)
    obtain i where "rep.follows (live sl) (sl_version sl) i s" using crew_follows [OF ok s] .
    from rep.follows_add [OF this q] obtain s1 where s1: "note_new_slave p (node_at sl' p) s = Inr s1" using add(3) by auto
    have r: "at_rest (s, w)" using C(9) [OF s] by simp
    have "at_rest (s1, w)" using r note_frame(1) [OF s1] by (simp add: at_rest_def)
    then show ?thesis using told_new_slave [OF r h i32 at(2) s1, where fs = fs and cn = cn and tc = tc and tm = tm and fuel = fuel] note_frame(1) [OF s1] s1 by (auto simp: env_def)
  qed
  have told: "\<exists>s1 s2 w2. note_new_slave p (node_at sl' p) s = Inr s1 \<and> good env NEW_SLAVE_R ?b (s, w) (s2, w2)
      \<and> core s2 = core s1 \<and> at_rest (s2, w2)" if m: "(s, w) \<in> ran (cw_slaves c)" for s w
    using told1 [OF m] by blast
  note N = crew_notified [where c = c, OF told note_core(1) order_refl]
  define c' where "c' = all_told env ?b (dom (cw_slaves c)) c"
  have A: "fd' \<noteq> -1 \<and> (\<exists>p q. cw_slaves c fd' = Some p \<and> good env NEW_SLAVE_R ?b p q)" if "fd' \<in> others sl' p 0" for fd'
  proof -
    have "fd' \<in> dom (cw_slaves c)" using that by (simp only: dom)
    moreover from this obtain q where "cw_slaves c fd' = Some q" by blast
    then have "fd' \<noteq> -1" using C(9) [of fd' q] by simp
    ultimately show ?thesis using N(4) by blast
  qed
  have notify: "NotifyAll (crew_net env) h0 sl' p NEW_SLAVE NEW_SLAVE_R c = Inr ([], c')"
    unfolding c'_def dom [symmetric]
    by (rule NotifyAll_told) ((rule O(2); assumption) | rule h p' l' C(7) A; assumption?)+
  have fits: "fit tc tm v fuel q" if all: "Ball (ran (cw_slaves c)) (fit tc tm v fuel)" and q: "q \<in> ran (cw_slaves c')" for q
  proof -
    obtain g where g: "cw_slaves c' g = Some q" using q by (auto simp: ran_def)
    then obtain s w where s: "cw_slaves c g = Some (s, w)" "q = snd (projr (told env ?b (s, w)))"
      by (auto simp: c'_def all_told_def split: if_splits)
    have m: "(s, w) \<in> ran (cw_slaves c)" using s(1) by (rule ranI)
    obtain s1 where s1: "note_new_slave p (node_at sl' p) s = Inr s1" "good env NEW_SLAVE_R ?b (s, w) (s1, w)" using told1 [OF m] by blast
    then have "q = (s1, w)" using s(2) by (auto simp: good_def)
    moreover have "fit tc tm v fuel (s, w)" using all m by blast
    ultimately show ?thesis using note_frame(1) [OF s1(1)] by (simp add: fit_def)
  qed
  obtain r where r: "snd (Append (WriteHeader (zeros MAX_BUF_LEN) (h0\<lparr>hd_cmd := cmd_code ADD_SLAVE_R, hd_key := p\<rparr>)) (list_bytes sl') (int SLAVELIST_SIZE)) = r"
    "packet_buf r" "hd_cmd (GetHeader r) = cmd_code ADD_SLAVE_R" "hd_key (GetHeader r) = p" "bytes_list (GetAppend r) = sl'"
    using list_reply [OF h(2) i32 l' nodes] .
  have c': "cw_in c' = (\<lambda>_. [])" "cw_out c' = (\<lambda>_. [])" "dom (cw_slaves c') = dom (cw_slaves c)" "cw_lost c' = cw_lost c" using C(7,8) N(3) by (simp_all add: c'_def)
  then have "cw_slaves c' fd = None" using fd(1) by auto
  then have "crew_send env fd r c' = c'\<lparr>cw_out := (cw_out c')(fd := [r])\<rparr>" by (rule master_replies [OF _ c'(2)])
  then have "HandleRequest (crew_net env) h0 rnd fd ip sl (c\<lparr>cw_in := (cw_in c)(fd := [b])\<rparr>) = Inr (sl', c'\<lparr>cw_out := (cw_out c')(fd := [r])\<rparr>)"
    using fd(2) b add(1) notify r(1,2) master_reads [OF C(7) b(1), of env fd]
    by (simp add: Master.HandleRequest_def Let_def sn_def)
  moreover have "\<forall>fd p. cw_slaves c' fd = Some p \<longrightarrow> at_rest p" using N(2) unfolding c'_def by blast
  moreover have "notified (note_new_slave p (node_at sl' p)) fd (cs_slaves (cluster_of (sl, c))) (\<lambda>fd. map_option (\<lambda>(s, w). core s) (cw_slaves c' fd))"
    using N(1) [of fd] by (simp add: c'_def cluster_of_def)
  ultimately show ?thesis using add(1) r nodes c' fits by (intro exI [of _ p] exI [of _ sl'] exI [of _ c'] exI [of _ r] conjI) (simp_all, blast?)
qed

text \<open>One that leaves: what the master does, once it has read the request.\<close>

lemma leave_request:
  assumes ok: "crew_ok lsock (sl, c)" and fd: "cw_slaves c fd = Some (s, w)" and h: "header_ok h0"
    and b: "packet_buf b" "hd_cmd (GetHeader b) = cmd_code DEL_SLAVE" "hd_key (GetHeader b) = s_pos s"
    and c_def: "c1 = c\<lparr>cw_slaves := (cw_slaves c)(fd := None)\<rparr>" and r_def: "r = WriteHeader (zeros MAX_BUF_LEN) (h0\<lparr>hd_cmd := cmd_code DEL_SLAVE_R\<rparr>)"
  shows "0 \<le> s_pos s" "s_pos s < sl_num sl" "sn_sock (node_at sl (s_pos s)) = fd" "others sl (s_pos s) 0 = dom (cw_slaves c1)" "int32 (s_pos s)"
    "packet_buf r" "hd_cmd (GetHeader r) = cmd_code DEL_SLAVE_R"
    "Master.HandleRequest (crew_net env) h0 rnd fd ip sl (c1\<lparr>cw_in := (cw_in c)(fd := [b])\<rparr>)
      = andThen (NotifyAll (crew_net env) h0 sl (s_pos s) RM_SLAVE RM_SLAVE_R c1) (\<lambda>(errs, w).
        andThen (DelFromSlaveList (s_pos s) sl) (\<lambda>sl'. Inr (sl', crew_send env fd r w)))"
proof -
  let ?p = "s_pos s"
  note C = crew_okD [OF ok]
  obtain i where i: "i < length (live sl)" "socks sl ! i = fd" "rep.follows (live sl) (sl_version sl) i s" using crew_follows [OF ok fd] .
  have len: "int (length (live sl)) = sl_num sl" using C(3) by (simp add: sl_num_live)
  have pi: "?p = int i" by (rule follows_list(4) [OF i(3) C(2)])
  then show p: "0 \<le> ?p" "?p < sl_num sl" using i(1) len by simp_all
  show at: "sn_sock (node_at sl ?p) = fd" using node_at_live [OF p] i(1,2) pi by (simp add: socks_def)
  show "others sl ?p 0 = dom (cw_slaves c1)" using others_socks(1) [OF C(3,4) p] at C(5) by (auto simp: c_def)
  show "int32 ?p" using p C(3) by (simp add: int32_def list_ok_def MAX_SLAVE_NUM_def)
  have "header_ok (h0\<lparr>hd_cmd := cmd_code DEL_SLAVE_R\<rparr>)" using h by (simp add: header_ok_def)
  then show r: "packet_buf r" "hd_cmd (GetHeader r) = cmd_code DEL_SLAVE_R" by (simp_all add: r_def GetHeader_WriteHeader [OF zeros_buf])
  have fd1: "fd \<noteq> -1" using C(9) [OF fd] by simp
  have "recv_into (crew_net env) fd (zeros MAX_BUF_LEN) (c1\<lparr>cw_in := (cw_in c)(fd := [b])\<rparr>) = (int MAX_BUF_LEN, b, c1)"
    using master_reads [of c1 b env fd] C(7) b(1) by (simp add: c_def)
  moreover have "decode_cmd (hd_cmd (GetHeader b)) = Some DEL_SLAVE" by (simp add: b(2) decode_cmd_eq)
  ultimately show "Master.HandleRequest (crew_net env) h0 rnd fd ip sl (c1\<lparr>cw_in := (cw_in c)(fd := [b])\<rparr>)
      = andThen (NotifyAll (crew_net env) h0 sl ?p RM_SLAVE RM_SLAVE_R c1) (\<lambda>(errs, w).
        andThen (DelFromSlaveList ?p sl) (\<lambda>sl'. Inr (sl', crew_send env fd r w)))"
    using fd1 b r by (auto simp: Master.HandleRequest_def Let_def ServiceStop_def andThen_def split: sum.splits simp flip: r_def)
qed

text \<open>If none of the others faults, all have taken it out of their lists.\<close>

lemma master_leave:
  assumes ok: "crew_ok lsock (sl, c)" and fd: "cw_slaves c fd = Some (s, w)" and h: "header_ok hdr" "header_ok h0"
    and b: "packet_buf b" "hd_cmd (GetHeader b) = cmd_code DEL_SLAVE" "hd_key (GetHeader b) = s_pos s"
    and env_def: "env = station_env fs cn tc tm hdr fuel" and c_def: "c1 = c\<lparr>cw_slaves := (cw_slaves c)(fd := None)\<rparr>"
    and runs: "\<And>t x. (t, x) \<in> ran (cw_slaves c1) \<Longrightarrow> \<exists>y. told env (notice h0 RM_SLAVE (s_pos s) (node_at sl (s_pos s))) (t, x) = Inr y"
  shows "\<exists>sl' c' r. DelFromSlaveList (s_pos s) sl = Inr sl'
    \<and> Master.HandleRequest (crew_net env) h0 rnd fd ip sl (c1\<lparr>cw_in := (cw_in c)(fd := [b])\<rparr>) = Inr (sl', c'\<lparr>cw_out := (cw_out c')(fd := [r])\<rparr>)
    \<and> packet_buf r \<and> hd_cmd (GetHeader r) = cmd_code DEL_SLAVE_R
    \<and> list_all node_ok (sl_nodes sl') \<and> cw_in c' = (\<lambda>_. []) \<and> cw_out c' = (\<lambda>_. []) \<and> dom (cw_slaves c') = dom (cw_slaves c) - {fd}
    \<and> (\<forall>fd p. cw_slaves c' fd = Some p \<longrightarrow> at_rest p) \<and> cw_lost c' = cw_lost c
    \<and> notified (note_rm_slave (s_pos s)) fd (cs_slaves (cluster_of (sl, c))) (\<lambda>fd. map_option (\<lambda>(s, w). core s) (cw_slaves c' fd))"
proof -
  let ?p = "s_pos s"
  note C = crew_okD [OF ok]
  define r where "r = WriteHeader (zeros MAX_BUF_LEN) (h0\<lparr>hd_cmd := cmd_code DEL_SLAVE_R\<rparr>)"
  note L = leave_request [OF ok fd h(2) b c_def r_def]
  obtain i where i: "i < length (live sl)" "socks sl ! i = fd" "rep.follows (live sl) (sl_version sl) i s" using crew_follows [OF ok fd] .
  have pi: "?p = int i" by (rule follows_list(4) [OF i(3) C(2)])
  obtain sl' where del: "DelFromSlaveList ?p sl = Inr sl'" using DelFromSlaveList_ring [OF C(2) L(1,2)] by blast
  note O = others_socks [OF C(3,4) L(1,2)]
  let ?b = "notice h0 RM_SLAVE ?p (node_at sl ?p)"
  have told: "\<exists>s1 s2 w2. note_rm_slave ?p t = Inr s1 \<and> good env RM_SLAVE_R ?b (t, x) (s2, w2)
      \<and> core s2 = core s1 \<and> at_rest (s2, w2)" if m: "(t, x) \<in> ran (cw_slaves c1)" for t x
  proof -
    obtain fd' where s0: "cw_slaves c fd' = Some (t, x)" "fd' \<noteq> fd" using m by (auto simp: c_def ran_def split: if_splits)
    obtain j where j: "j < length (live sl)" "socks sl ! j = fd'" "rep.follows (live sl) (sl_version sl) j t" using crew_follows [OF ok s0(1)] .
    have "i \<noteq> j" using i(2) j(2) s0(2) by auto
    from rep.follows_del [OF j(3) i(1) this] obtain s1 where s1: "note_rm_slave ?p t = Inr s1" "pos_ok s1"
      using pi by (auto simp: rep.follows_def)
    note F = note_frame(2) [OF s1(1)]
    have r: "at_rest (t, x)" using C(9) [OF s0(1)] by simp
    obtain y where "told env ?b (t, x) = Inr y" using runs [OF m] by blast
    then show ?thesis using told_rm_slave(1) [OF r h L(5) env_def s1(1) _ _ s1(2)] F s1(1) by blast
  qed
  note N = crew_notified [where c = c1, OF told note_core(2) order_refl]
  define c' where "c' = all_told env ?b (dom (cw_slaves c1)) c1"
  have A: "fd' \<noteq> -1 \<and> (\<exists>p q. cw_slaves c1 fd' = Some p \<and> good env RM_SLAVE_R ?b p q)" if "fd' \<in> others sl ?p 0" for fd'
  proof -
    have "fd' \<in> dom (cw_slaves c1)" using that by (simp only: L(4))
    moreover from this obtain q where "cw_slaves c fd' = Some q" by (auto simp: c_def split: if_splits)
    then have "fd' \<noteq> -1" using C(9) [of fd' q] by simp
    ultimately show ?thesis using N(4) by blast
  qed
  have in0: "cw_in c1 = (\<lambda>_. [])" using C(7) by (simp add: c_def)
  have notify: "NotifyAll (crew_net env) h0 sl ?p RM_SLAVE RM_SLAVE_R c1 = Inr ([], c')"
    unfolding c'_def L(4) [symmetric]
    by (rule NotifyAll_told) ((rule O(2); assumption) | rule h L(1,2) C(3) in0 A; assumption?)+
  have c': "cw_in c' = (\<lambda>_. [])" "cw_out c' = (\<lambda>_. [])" "dom (cw_slaves c') = dom (cw_slaves c) - {fd}" "cw_lost c' = cw_lost c"
    using C(7,8) N(3) by (simp_all add: c'_def c_def)
  then have "cw_slaves c' fd = None" by auto
  then have send: "crew_send env fd r c' = c'\<lparr>cw_out := (cw_out c')(fd := [r])\<rparr>" by (rule master_replies [OF _ c'(2)])
  have "Master.HandleRequest (crew_net env) h0 rnd fd ip sl (c1\<lparr>cw_in := (cw_in c)(fd := [b])\<rparr>) = Inr (sl', c'\<lparr>cw_out := (cw_out c')(fd := [r])\<rparr>)"
    unfolding L(8) using notify del send by simp
  moreover have "\<forall>fd p. cw_slaves c' fd = Some p \<longrightarrow> at_rest p" using N(2) unfolding c'_def by blast
  moreover have "notified (note_rm_slave ?p) fd (cs_slaves (cluster_of (sl, c))) (\<lambda>fd. map_option (\<lambda>(s, w). core s) (cw_slaves c' fd))"
    using N(1) [of fd] by (simp add: c'_def c_def cluster_of_def notified_def)
  ultimately show ?thesis
    using del L(6,7) c' DelFromSlaveList_nodes [OF del C(6)] by (intro exI [of _ sl'] exI [of _ c'] exI [of _ r] conjI) simp_all
qed

text \<open>If a turn that takes out a slave loses none, none has faulted.\<close>

lemma leave_lost:
  assumes ok: "crew_ok lsock (sl, c)" and fd: "cw_slaves c fd = Some (s, w)" and h: "header_ok h0"
    and b: "packet_buf b" "hd_cmd (GetHeader b) = cmd_code DEL_SLAVE" "hd_key (GetHeader b) = s_pos s"
    and c_def: "c1 = c\<lparr>cw_slaves := (cw_slaves c)(fd := None)\<rparr>"
    and run: "Master.HandleRequest (crew_net env) h0 rnd fd ip sl (c1\<lparr>cw_in := (cw_in c)(fd := [b])\<rparr>) = Inr (sl', c')" and "cw_lost c' = {}"
    and m: "(t, x) \<in> ran (cw_slaves c1)"
  shows "\<exists>y. told env (notice h0 RM_SLAVE (s_pos s) (node_at sl (s_pos s))) (t, x) = Inr y"
proof -
  note L = leave_request [OF ok fd h b c_def refl]
  obtain errs c2 r where n: "NotifyAll (crew_net env) h0 sl (s_pos s) RM_SLAVE RM_SLAVE_R c1 = Inr (errs, c2)" "c' = crew_send env fd r c2"
    using run unfolding L(8) by auto
  have e: "cw_lost c2 = {}" using n(2) crew_send_lost(1) [of c2 env fd r] assms(9) by auto
  obtain fd' where fd': "cw_slaves c1 fd' = Some (t, x)" using m by (auto simp: ran_def)
  then have "fd' \<in> others sl (s_pos s) 0" unfolding L(4) by blast
  from NotifyAll_lost [OF h L(1,2) crew_okD(3) [OF ok] n(1) e this fd'] show ?thesis .
qed

section \<open>The turns of the master\<close>

text \<open>
  Every step is a turn of the master's event loop or what a slave does by itself, with the programs' runs on both sides of a
  connection: \<open>b\<close> is what the other side sends and the master reads, \<open>r\<close> what the master sends and the other side reads. A slave
  joins, or leaves; some program, a client for example, sends another request; the alarm comes; a member goes on by itself, with
  its clients, its disk and the other slaves; and a member may at any time be lost, because it dies, or because the master does
  not hear that it leaves.
\<close>

definition arrives :: "int \<Rightarrow> bytes \<Rightarrow> ('m, 'd) crew \<Rightarrow> ('m, 'd) crew" where
  "arrives fd b c = c\<lparr>cw_in := (cw_in c)(fd := [b])\<rparr>"

definition drained :: "int \<Rightarrow> ('m, 'd) crew \<Rightarrow> ('m, 'd) crew" where
  "drained fd c = c\<lparr>cw_out := (cw_out c)(fd := [])\<rparr>"

inductive mstep :: "('h, 'm, 'd station) env \<Rightarrow> db_header \<Rightarrow> int \<Rightarrow> ('m, 'd) membership \<Rightarrow> ('m, 'd) membership \<Rightarrow> bool"
  for env h0 lsock where
  Joins: "cw_slaves (m_world m) fd = None \<Longrightarrow> 0 < fd \<Longrightarrow> fd \<noteq> lsock \<Longrightarrow> int32 fd \<Longrightarrow> int32 ip \<Longrightarrow> 0 \<le> rnd \<Longrightarrow>
    sl_num (m_slaves m) < int MAX_SLAVE_NUM \<Longrightarrow> at_rest (s, w) \<Longrightarrow> int32 (s_port s) \<Longrightarrow>
    RegisterAndLoadSlaves env (s_master_sock s) s (with_packet (s_master_sock s) r w) = Inr (s', w') \<Longrightarrow>
    sa_out w' (s_master_sock s) = [b] \<Longrightarrow>
    master_step (crew_net env) h0 rnd lsock (Ready lsock) (m\<lparr>m_world := arrives fd b ((m_world m)\<lparr>cw_conn := (fd, ip)\<rparr>)\<rparr>) = Inr m' \<Longrightarrow>
    cw_out (m_world m') fd = [r] \<Longrightarrow> c' = m_world m' \<Longrightarrow>
    mstep env h0 lsock m
      (m'\<lparr>m_world := drained fd (c'\<lparr>cw_slaves := (cw_slaves c')(fd \<mapsto> (s', taken_out (s_master_sock s) w'))\<rparr>)\<rparr>)"
| Leaves: "cw_slaves (m_world m) fd = Some (s, w) \<Longrightarrow>
    ShutDownSlave env s (with_packet (s_master_sock s) r w) = Inr (s', w') \<Longrightarrow>
    sa_out w' (s_master_sock s) = [b] \<Longrightarrow>
    master_step (crew_net env) h0 rnd lsock (Ready fd)
      (m\<lparr>m_world := arrives fd b ((m_world m)\<lparr>cw_slaves := (cw_slaves (m_world m))(fd := None)\<rparr>)\<rparr>) = Inr m' \<Longrightarrow>
    cw_out (m_world m') fd = [r] \<Longrightarrow>
    mstep env h0 lsock m (m'\<lparr>m_world := drained fd (m_world m')\<rparr>)"
| Asks: "cw_slaves (m_world m) fd = None \<Longrightarrow> 0 < fd \<Longrightarrow> fd \<noteq> lsock \<Longrightarrow> packet_buf b \<Longrightarrow>
    hd_cmd (GetHeader b) \<noteq> cmd_code ADD_SLAVE \<Longrightarrow> hd_cmd (GetHeader b) \<noteq> cmd_code DEL_SLAVE \<Longrightarrow>
    master_step (crew_net env) h0 rnd lsock (Ready lsock) (m\<lparr>m_world := arrives fd b ((m_world m)\<lparr>cw_conn := (fd, ip)\<rparr>)\<rparr>) = Inr m' \<Longrightarrow>
    mstep env h0 lsock m (m'\<lparr>m_world := drained fd (m_world m')\<rparr>)"
| Alarm: "master_step (crew_net env) h0 rnd lsock Interrupted m = Inr m' \<Longrightarrow> mstep env h0 lsock m m'"
| Works: "cw_slaves (m_world m) fd = Some (s, w) \<Longrightarrow> packet_buf b \<Longrightarrow> sa_next w \<le> n \<Longrightarrow> c = m_world m \<Longrightarrow>
    mstep env h0 lsock m (m\<lparr>m_world := c\<lparr>cw_slaves := (cw_slaves c)
      (fd \<mapsto> (s\<lparr>s_db := st, s_xbuf := b\<rparr>, w\<lparr>sa_next := n, sa_peers := peers, sa_disk := d\<rparr>))\<rparr>\<rparr>)"
| Lost: "cw_slaves (m_world m) fd \<noteq> None \<Longrightarrow> mstep env h0 lsock m (m\<lparr>m_world := lose fd (m_world m)\<rparr>)"

text \<open>What the programs can reach from a master that has just started.\<close>

definition no_crew :: "('m, 'd) crew" where
  "no_crew = \<lparr>cw_slaves = Map.empty, cw_in = (\<lambda>_. []), cw_out = (\<lambda>_. []), cw_conn = (-1, 0), cw_lost = {}\<rparr>"

inductive mreach :: "('h, 'm, 'd station) env \<Rightarrow> db_header \<Rightarrow> int \<Rightarrow> ('m, 'd) membership \<Rightarrow> bool" for env h0 lsock where
  Start: "length (sl_nodes sl) = MAX_SLAVE_NUM \<Longrightarrow> list_all node_ok (sl_nodes sl) \<Longrightarrow> mreach env h0 lsock (master_init sl lsock ip no_crew)"
| Step: "mreach env h0 lsock x \<Longrightarrow> mstep env h0 lsock x y \<Longrightarrow> mreach env h0 lsock y"

definition master_ok :: "int \<Rightarrow> ('m, 'd) membership \<Rightarrow> bool" where
  "master_ok lsock m \<longleftrightarrow> crew_ok lsock (m_slaves m, m_world m) \<and> packet_buf (m_xbuf m) \<and> 0 \<le> m_pos m
    \<and> (m_fd m = lsock \<longrightarrow> sl_num (m_slaves m) = 0)"

abbreviation view :: "('m, 'd) membership \<Rightarrow> 'm cluster" where
  "view m \<equiv> cluster_of (m_slaves m, m_world m)"

lemma step_accept:
  assumes "fd \<noteq> -1"
  shows "master_step (crew_net env) h0 rnd lsock (Ready lsock) (m\<lparr>m_world := arrives fd b (c\<lparr>cw_conn := (fd, ip)\<rparr>)\<rparr>)
    = andThen (Master.HandleRequest (crew_net env) h0 rnd fd ip (m_slaves m) (c\<lparr>cw_conn := (fd, ip), cw_in := (cw_in c)(fd := [b])\<rparr>)) (\<lambda>(sl, c).
      Inr (m\<lparr>m_fd := fd, m_ip := ip, m_slaves := sl, m_world := c\<rparr>))"
  using assms by (simp add: master_step_def epoll_wait_def ServiceStart_def arrives_def)

lemma step_member:
  assumes "fd \<noteq> lsock"
  shows "master_step (crew_net env) h0 rnd lsock (Ready fd) (m\<lparr>m_world := arrives fd b c\<rparr>)
    = (if m_eintr m then Inr (m\<lparr>m_fd := fd, m_world := arrives fd b c\<rparr>)
       else andThen (Master.HandleRequest (crew_net env) h0 rnd fd (m_ip m) (m_slaves m) (c\<lparr>cw_in := (cw_in c)(fd := [b])\<rparr>)) (\<lambda>(sl, c).
         Inr (m\<lparr>m_fd := fd, m_slaves := sl, m_world := c\<rparr>)))"
  using assms by (simp add: master_step_def epoll_wait_def arrives_def)

lemma crew_conn [simp]:
  "crew_ok lsock (sl, c\<lparr>cw_conn := x\<rparr>) = crew_ok lsock (sl, c)" "cluster_of (sl, c\<lparr>cw_conn := x\<rparr>) = cluster_of (sl, c)"
  by (simp_all add: crew_ok_def cluster_of_def)

lemma drained_simps [simp]: "cw_lost (drained fd c) = cw_lost c" "cw_slaves (drained fd c) = cw_slaves c"
  by (simp_all add: drained_def)

lemma drained_out: "cw_out c = (\<lambda>_. []) \<Longrightarrow> drained fd (c\<lparr>cw_out := (cw_out c)(fd := x)\<rparr>) = c"
proof -
  assume "cw_out c = (\<lambda>_. [])"
  then have "(cw_out c)(fd := []) = cw_out c" by auto
  then show ?thesis by (simp add: drained_def)
qed

lemma cstep_ok: "cluster_ok c \<Longrightarrow> cstep c c' \<Longrightarrow> cluster_ok c'"
  by (erule cstep.cases) (blast intro: cstep_join cstep_leave)+

lemma notified_cong: "notified f but old new \<Longrightarrow> (\<And>fd. fd \<noteq> but \<Longrightarrow> new' fd = new fd) \<Longrightarrow> notified f but old new'"
proof -
  assume a: "notified f but old new" and b: "\<And>fd. fd \<noteq> but \<Longrightarrow> new' fd = new fd"
  show ?thesis unfolding notified_def
  proof (intro allI impI)
    fix fd assume "fd \<noteq> but"
    then show "case old fd of None \<Rightarrow> new' fd = None | Some s \<Rightarrow> \<exists>s'. f s = Inr s' \<and> new' fd = Some s'"
      using a b [of fd] by (cases "old fd") (auto simp: notified_def)
  qed
qed

lemma crew_okI:
  assumes "crew_ok lsock (sl, c)" and "cstep (cluster_of (sl, c)) (cluster_of (sl', c'))" and "list_all node_ok (sl_nodes sl')"
    and "cw_in c' = (\<lambda>_. [])" and "cw_out c' = (\<lambda>_. [])" and "\<And>fd p. cw_slaves c' fd = Some p \<Longrightarrow> 0 < fd \<and> fd \<noteq> lsock \<and> at_rest p"
  shows "crew_ok lsock (sl', c')"
  using cstep_ok [OF crew_okD(1) [OF assms(1)] assms(2)] assms(3-6) by (simp add: crew_ok_def)

lemma register_at_rest:
  assumes "at_rest (s, w)" and "packet_buf r"
  shows "at_rest (s\<lparr>s_xbuf := r, s_pos := p, s_slaves := sl\<rparr>, w)"
  using assms by (simp add: at_rest_def)

text \<open>A slave that changes by itself, or on an alarm, is the same member.\<close>

lemma crew_ok_same:
  assumes ok: "crew_ok lsock (sl, c)" and fd: "cw_slaves c fd = Some (s, w)" and q: "core s2 = core s" "at_rest (s2, w2)"
  shows "crew_ok lsock (sl, c\<lparr>cw_slaves := (cw_slaves c)(fd \<mapsto> (s2, w2))\<rparr>)"
    and "cluster_of (sl, c\<lparr>cw_slaves := (cw_slaves c)(fd \<mapsto> (s2, w2))\<rparr>) = cluster_of (sl, c)"
proof -
  show e: "cluster_of (sl, c\<lparr>cw_slaves := (cw_slaves c)(fd \<mapsto> (s2, w2))\<rparr>) = cluster_of (sl, c)"
    using fd q(1) by (auto simp: cluster_of_def)
  show "crew_ok lsock (sl, c\<lparr>cw_slaves := (cw_slaves c)(fd \<mapsto> (s2, w2))\<rparr>)"
    using crew_okD [OF ok] fd q(2) unfolding crew_ok_def split_conv e by auto
qed

lemma join_result:
  assumes ok: "crew_ok lsock (sl, c)" and fd: "cw_slaves c fd = None" "0 < fd" "int32 fd" "fd \<noteq> lsock"
    and n: "sl_num sl < int MAX_SLAVE_NUM" "0 \<le> rnd" "int32 ip" and h: "header_ok hdr" "header_ok h0"
    and s: "at_rest (s, w)" "int32 (s_port s)" and env: "env = station_env fs cn tc tm hdr fuel"
  obtains sl' c' r s' where
    "HandleRequest (crew_net env) h0 rnd fd ip sl (c\<lparr>cw_in := (cw_in c)(fd := [join_packet hdr s])\<rparr>) = Inr (sl', c'\<lparr>cw_out := (cw_out c')(fd := [r])\<rparr>)"
    and "RegisterAndLoadSlaves env (s_master_sock s) s (with_packet (s_master_sock s) r w)
      = Inr (s', n_send (station_os fs cn) (s_master_sock s) (join_packet hdr s) w)"
    and "cstep (cluster_of (sl, c)) (cluster_of (sl', c'\<lparr>cw_slaves := (cw_slaves c')(fd \<mapsto> (s', w))\<rparr>))"
    and "crew_ok lsock (sl', c'\<lparr>cw_slaves := (cw_slaves c')(fd \<mapsto> (s', w))\<rparr>)"
    and "dom (cw_slaves c') = dom (cw_slaves c)" and "cw_out c' = (\<lambda>_. [])" and "cw_lost c' = cw_lost c" and "\<exists>p. s' = s\<lparr>s_xbuf := r, s_pos := p, s_slaves := sl'\<rparr>"
    and "Ball (ran (cw_slaves c)) (fit tc tm v fuel) \<Longrightarrow> Ball (ran (cw_slaves c')) (fit tc tm v fuel)"
proof -
  let ?b = "join_packet hdr s"
  have b: "packet_buf ?b" "hd_cmd (GetHeader ?b) = cmd_code ADD_SLAVE"
    using at_restD(4) [OF s(1)] request_packets [OF _ h(1), of s] s(2) by simp_all
  obtain p sl' c' r where m: "AddToSlaveList rnd \<lparr>sn_ip = ip, sn_port = hd_key (GetHeader ?b), sn_sock = fd, sn_key = 0\<rparr> sl = Inr (p, sl')"
    "HandleRequest (crew_net env) h0 rnd fd ip sl (c\<lparr>cw_in := (cw_in c)(fd := [?b])\<rparr>) = Inr (sl', c'\<lparr>cw_out := (cw_out c')(fd := [r])\<rparr>)"
    "packet_buf r" "hd_cmd (GetHeader r) = cmd_code ADD_SLAVE_R" "hd_key (GetHeader r) = p" "bytes_list (GetAppend r) = sl'"
    "list_all node_ok (sl_nodes sl')" "cw_in c' = (\<lambda>_. [])" "cw_out c' = (\<lambda>_. [])" "dom (cw_slaves c') = dom (cw_slaves c)"
    "\<forall>fd p. cw_slaves c' fd = Some p \<longrightarrow> at_rest p" "cw_lost c' = cw_lost c"
    "notified (note_new_slave p (node_at sl' p)) fd (cs_slaves (cluster_of (sl, c))) (\<lambda>fd. map_option (\<lambda>(s, w). core s) (cw_slaves c' fd))"
    "Ball (ran (cw_slaves c)) (fit tc tm v fuel) \<longrightarrow> Ball (ran (cw_slaves c')) (fit tc tm v fuel)"
    using master_join [OF ok fd(1-3) n h b env refl, where v = v] by blast
  define s' where "s' = s\<lparr>s_xbuf := r, s_pos := p, s_slaves := sl'\<rparr>"
  let ?c = "c'\<lparr>cw_slaves := (cw_slaves c')(fd \<mapsto> (s', w))\<rparr>"
  have reg: "RegisterAndLoadSlaves env (s_master_sock s) s (with_packet (s_master_sock s) r w)
      = Inr (s', n_send (station_os fs cn) (s_master_sock s) ?b w)"
    using register_station(2) [OF s(1) m(3,4)] m(5,6) by (simp add: env s'_def)
  have step: "cstep (cluster_of (sl, c)) (cluster_of (sl', ?c))"
  proof -
    have "AddToSlaveList rnd \<lparr>sn_ip = ip, sn_port = hd_key (GetHeader ?b), sn_sock = fd, sn_key = 0\<rparr> (cs_list (cluster_of (sl, c))) = Inr (p, sl')"
      using m(1) by simp
    then have "cstep (cluster_of (sl, c)) \<lparr>cs_list = sl', cs_slaves = cs_slaves (cluster_of (sl', ?c))\<rparr>"
      by (rule cstep.Join [where s = "core s'"])
        (use n fd(1) notified_cong [OF m(13)] in \<open>simp_all add: s'_def\<close>)
    then show ?thesis by (simp add: cluster_of_def)
  qed
  have "0 < g \<and> g \<noteq> lsock \<and> at_rest q" if q: "cw_slaves ?c g = Some q" for g q
  proof (cases "g = fd")
    case True
    then show ?thesis using q fd(2,4) register_at_rest [OF s(1) m(3), where p = p and sl = sl'] by (simp add: s'_def)
  next
    case False
    then have "cw_slaves c' g = Some q" using q by simp
    moreover from this obtain q' where "cw_slaves c g = Some q'" using m(10) by (metis domD domI)
    ultimately show ?thesis using m(11) crew_okD(9) [OF ok] by blast
  qed
  then have "crew_ok lsock (sl', ?c)" by (intro crew_okI [OF ok step m(7)]) (simp_all add: m(8,9))
  from that [OF m(2) reg step this m(10,9,12)] m(14) show ?thesis by (auto simp: s'_def)
qed

text \<open>The result of a departure, in which no slave that is told of it faults.\<close>

lemma leave_packet_facts:
  assumes ok: "crew_ok lsock (sl, c)" and fd: "cw_slaves c fd = Some (s, w)" and h: "header_ok hdr"
  shows "packet_buf (leave_packet hdr s)" "hd_cmd (GetHeader (leave_packet hdr s)) = cmd_code DEL_SLAVE"
    "hd_key (GetHeader (leave_packet hdr s)) = s_pos s"
proof -
  have s: "at_rest (s, w)" using crew_okD(9) [OF ok fd] by simp
  obtain i where "rep.follows (live sl) (sl_version sl) i s" using crew_follows [OF ok fd] .
  then have "pos_ok s" by (simp add: rep.follows_def)
  then have i32: "int32 (s_pos s)" by (simp add: pos_ok_def list_ok_def int32_def MAX_SLAVE_NUM_def)
  show "packet_buf (leave_packet hdr s)" "hd_cmd (GetHeader (leave_packet hdr s)) = cmd_code DEL_SLAVE"
    "hd_key (GetHeader (leave_packet hdr s)) = s_pos s"
    using at_restD(4) [OF s] request_packets [OF _ h, of s] i32 by simp_all
qed

lemma leave_result:
  assumes ok: "crew_ok lsock (sl, c)" and fd: "cw_slaves c fd = Some (s, w)" and h: "header_ok hdr" "header_ok h0"
    and env: "env = station_env fs cn tc tm hdr fuel" and c_def: "c1 = c\<lparr>cw_slaves := (cw_slaves c)(fd := None)\<rparr>"
    and runs: "\<And>t x. (t, x) \<in> ran (cw_slaves c1) \<Longrightarrow> \<exists>y. told env (notice h0 RM_SLAVE (s_pos s) (node_at sl (s_pos s))) (t, x) = Inr y"
  obtains sl' c' r where
    "Master.HandleRequest (crew_net env) h0 rnd fd ip sl (c1\<lparr>cw_in := (cw_in c)(fd := [leave_packet hdr s])\<rparr>)
      = Inr (sl', c'\<lparr>cw_out := (cw_out c')(fd := [r])\<rparr>)"
    and "packet_buf r" and "hd_cmd (GetHeader r) = cmd_code DEL_SLAVE_R"
    and "cstep (cluster_of (sl, c)) (cluster_of (sl', c'))" and "crew_ok lsock (sl', c')"
    and "dom (cw_slaves c') = dom (cw_slaves c) - {fd}" and "cw_out c' = (\<lambda>_. [])" and "cw_lost c' = cw_lost c"
proof -
  let ?b = "leave_packet hdr s" and ?p = "s_pos s"
  note b = leave_packet_facts [OF ok fd h(1)]
  note L = leave_request(1-3) [OF ok fd h(2) b c_def refl]
  obtain sl' c' r where m: "DelFromSlaveList ?p sl = Inr sl'"
    "Master.HandleRequest (crew_net env) h0 rnd fd ip sl (c1\<lparr>cw_in := (cw_in c)(fd := [?b])\<rparr>) = Inr (sl', c'\<lparr>cw_out := (cw_out c')(fd := [r])\<rparr>)"
    "packet_buf r" "hd_cmd (GetHeader r) = cmd_code DEL_SLAVE_R"
    "list_all node_ok (sl_nodes sl')" "cw_in c' = (\<lambda>_. [])" "cw_out c' = (\<lambda>_. [])" "dom (cw_slaves c') = dom (cw_slaves c) - {fd}"
    "\<forall>fd p. cw_slaves c' fd = Some p \<longrightarrow> at_rest p" "cw_lost c' = cw_lost c"
    "notified (note_rm_slave ?p) fd (cs_slaves (cluster_of (sl, c))) (\<lambda>fd. map_option (\<lambda>(s, w). core s) (cw_slaves c' fd))"
    using master_leave [OF ok fd h b env c_def runs] by blast
  have "cw_slaves c' fd = None" using m(8) by auto
  then have "cstep (cluster_of (sl, c)) \<lparr>cs_list = sl', cs_slaves = cs_slaves (cluster_of (sl', c'))\<rparr>"
    by (intro cstep.Leave [of ?p]) (use m(1) L notified_cong [OF m(11)] in simp_all)
  then have step: "cstep (cluster_of (sl, c)) (cluster_of (sl', c'))" by (simp add: cluster_of_def)
  have "0 < g \<and> g \<noteq> lsock \<and> at_rest q" if q: "cw_slaves c' g = Some q" for g q
  proof -
    obtain q' where "cw_slaves c g = Some q'" using m(8) q by (metis DiffD1 domD domI)
    then show ?thesis using q m(9) crew_okD(9) [OF ok] by blast
  qed
  then have "crew_ok lsock (sl', c')" by (intro crew_okI [OF ok step m(5-7)])
  from that [OF m(2-4) step this m(8,7,10)] show ?thesis .
qed

section \<open>Requests of others, and the alarm\<close>

lemma ask_result:
  assumes ok: "crew_ok lsock (sl, c)" and fd: "cw_slaves c fd = None" "0 < fd"
    and b: "packet_buf b" "hd_cmd (GetHeader b) \<noteq> cmd_code ADD_SLAVE" "hd_cmd (GetHeader b) \<noteq> cmd_code DEL_SLAVE"
  obtains r where "Master.HandleRequest (crew_net env) h0 rnd fd ip sl (c\<lparr>cw_in := (cw_in c)(fd := [b])\<rparr>)
    = Inr (sl, c\<lparr>cw_out := (cw_out c)(fd := [r])\<rparr>)"
proof -
  note C = crew_okD [OF ok]
  have rd: "RecvMsg (crew_net env) fd (zeros MAX_BUF_LEN) (c\<lparr>cw_in := (cw_in c)(fd := [b])\<rparr>) = Inr (int MAX_BUF_LEN, b, c)"
    using master_reads [OF C(7) b(1), of env fd] fd(2) by simp
  have n: "decode_cmd (hd_cmd (GetHeader b)) \<noteq> Some ADD_SLAVE" "decode_cmd (hd_cmd (GetHeader b)) \<noteq> Some DEL_SLAVE"
    using b(2,3) by (simp_all add: decode_cmd_eq)
  define rb where "rb = (if decode_cmd (hd_cmd (GetHeader b)) = Some GET_LIST
    then snd (Append (WriteHeader (zeros MAX_BUF_LEN) (h0\<lparr>hd_cmd := cmd_code GET_LIST_R\<rparr>)) (list_bytes sl) (int SLAVELIST_SIZE))
    else zeros MAX_BUF_LEN)"
  have "Master.HandleRequest (crew_net env) h0 rnd fd ip sl (c\<lparr>cw_in := (cw_in c)(fd := [b])\<rparr>)
    = andThen (SendMsg (crew_net env) fd rb c) (\<lambda>w. Inr (sl, w))"
    unfolding Master.HandleRequest_def Let_def ServiceStop_def crew_net_simps if_cancel rd
    using n by (auto simp: rb_def split: option.splits cmd.splits)
  then show ?thesis using that [of "take MAX_BUF_LEN rb"] fd master_replies [OF fd(1) C(8), where env = env and r = "take MAX_BUF_LEN rb"] by simp
qed

text \<open>The alarm goes to one member. If that member does not fault, it is the same afterwards.\<close>

lemma alarm_result:
  assumes ok: "crew_ok lsock (sl, c)" and n: "0 < sl_num sl" and pos: "0 \<le> pos" and xb: "packet_buf xb" and h: "header_ok hdr" "header_ok h0"
    and env: "env = station_env fs cn tc tm hdr fuel"
  obtains fd s w b where "cw_slaves c fd = Some (s, w)" and "packet_buf b" and "hd_cmd (GetHeader b) = cmd_code UPDATE_BACKUP12"
    and "\<And>pos' err xb' c'. UpdateBackup (crew_net env) h0 xb pos sl c = Inr (pos', err, xb', c') \<Longrightarrow> cw_lost c' = {} \<Longrightarrow> \<exists>x. told env b (s, w) = Inr x"
    and "\<And>x. told env b (s, w) = Inr x \<Longrightarrow> \<exists>pos' err xb' s2 w2. UpdateBackup (crew_net env) h0 xb pos sl c
        = Inr (pos', err, xb', c\<lparr>cw_slaves := (cw_slaves c)(fd \<mapsto> (s2, w2))\<rparr>)
      \<and> 0 \<le> pos' \<and> packet_buf xb' \<and> core s2 = core s \<and> at_rest (s2, w2)"
proof -
  note C = crew_okD [OF ok]
  let ?p = "c_rem (pos + 1) (sl_num sl)"
  have p: "0 \<le> ?p" "?p < sl_num sl" using c_rem_bounds [of "pos + 1" "sl_num sl"] n pos by simp_all
  define fd where "fd = sn_sock (node_at sl ?p)"
  have "nat ?p < length (socks sl)" using p C(3) by (simp add: socks_def length_live)
  then have "socks sl ! nat ?p \<in> set (socks sl)" by (rule nth_mem)
  moreover have "fd = socks sl ! nat ?p" using node_at_live [OF p] p C(3) by (simp add: fd_def socks_def length_live)
  ultimately have "fd \<in> dom (cw_slaves c)" using C(5) by simp
  then obtain s w where s: "cw_slaves c fd = Some (s, w)" by auto
  note A = C(9) [OF s]
  define b where "b = packet xb (h0\<lparr>hd_cmd := cmd_code UPDATE_BACKUP12, hd_key := 0\<rparr>) []"
  have hh: "header_ok (h0\<lparr>hd_cmd := cmd_code UPDATE_BACKUP12, hd_key := 0\<rparr>)" using h(2) by (simp add: header_ok_def int32_def)
  have b: "packet_buf b" "hd_cmd (GetHeader b) = cmd_code UPDATE_BACKUP12"
    using packet_buf_packet [OF xb, of "[]"] GetHeader_packet [OF xb hh, of "[]"] by (simp_all add: b_def)
  have fd1: "fd \<noteq> -1" using A by simp
  have U: "UpdateBackup (crew_net env) h0 xb pos sl c = (case recv_into (crew_net env) fd b (crew_send env fd b c) of
      (res, xb', c') \<Rightarrow> Inr (?p, hd_cmd (GetHeader xb') \<noteq> cmd_code UPDATE_BACKUP12_R, xb', c'))"
    using n ExchangePacket_ok [OF fd1 xb, of "[]" "crew_net env" h0 UPDATE_BACKUP12 0 c]
    by (auto simp: UpdateBackup_def Let_def simp flip: fd_def b_def split: prod.split)
  have 1: "\<exists>x. told env b (s, w) = Inr x"
    if u: "UpdateBackup (crew_net env) h0 xb pos sl c = Inr (pos', err, xb', c')" "cw_lost c' = {}" for pos' err xb' c'
  proof -
    obtain res where "recv_into (crew_net env) fd b (crew_send env fd b c) = (res, xb', c')" using u(1) U by (auto split: prod.splits)
    then have "cw_lost (crew_send env fd b c) = {}" using recv_crew_lost u(2) by metis
    then show ?thesis using crew_send_lost(3) [OF s, of env b] by auto
  qed
  have 2: "\<exists>pos' err xb' s2 w2. UpdateBackup (crew_net env) h0 xb pos sl c
        = Inr (pos', err, xb', c\<lparr>cw_slaves := (cw_slaves c)(fd \<mapsto> (s2, w2))\<rparr>)
      \<and> 0 \<le> pos' \<and> packet_buf xb' \<and> core s2 = core s \<and> at_rest (s2, w2)" if x: "told env b (s, w) = Inr x" for x
  proof -
    obtain s2 w2 where g: "good env UPDATE_BACKUP12_R b (s, w) (s2, w2)" "core s2 = core s" "at_rest (s2, w2)"
      using told_update(1) [OF _ h(1) env b x] A by blast
    then obtain r where r: "told env b (s, w) = Inr ([r], s2, w2)" "packet_buf r" by (auto simp: good_def)
    have "recv_into (crew_net env) fd b (crew_send env fd b c) = (int MAX_BUF_LEN, r, c\<lparr>cw_slaves := (cw_slaves c)(fd \<mapsto> (s2, w2))\<rparr>)"
      using told_answer [OF C(7) s r(1)] r(2) b(1) by (intro recv_into_full) simp_all
    then show ?thesis unfolding U using p(1) r(2) g(2,3) by auto
  qed
  show ?thesis by (rule that [OF s b]) ((rule 1; assumption) | (rule 2; assumption))+
qed

section \<open>Turns of the master are steps of the cluster\<close>

lemma mstep_simulated:
  assumes ok: "master_ok lsock x" and h: "header_ok hdr" "header_ok h0" and env: "env = station_env fs cn tc tm hdr fuel"
    and step: "mstep env h0 lsock x y" and lost: "cw_lost (m_world y) = {}"
  shows "(view y = view x \<or> cstep (view x) (view y)) \<and> master_ok lsock y"
proof -
  have C: "crew_ok lsock (m_slaves x, m_world x)" and xb: "packet_buf (m_xbuf x)" "0 \<le> m_pos x" and fd0: "m_fd x = lsock \<Longrightarrow> sl_num (m_slaves x) = 0"
    using ok by (simp_all add: master_ok_def)
  from step show ?thesis
  proof cases
    case (Joins fd ip rnd s w r s' w' b m' c')
    have w': "w' = n_send (station_os fs cn) (s_master_sock s) (join_packet hdr s) w"
      using register_station(1) [OF Joins(9)] Joins(11) env by blast
    then have b: "b = join_packet hdr s" and t: "taken_out (s_master_sock s) w' = w"
      using Joins(12) sent_on [OF at_restD(2) [OF Joins(9)], where fs = fs and cn = cn and r = "join_packet hdr s"] by (simp_all del: station_os_simps)
    have C': "crew_ok lsock (m_slaves x, (m_world x)\<lparr>cw_conn := (fd, ip)\<rparr>)" using C by simp
    have fd: "cw_slaves ((m_world x)\<lparr>cw_conn := (fd, ip)\<rparr>) fd = None" "0 < fd" "int32 fd" "fd \<noteq> lsock" using Joins by simp_all
    obtain sl1 c1 r1 s1 where j:
      "Master.HandleRequest (crew_net env) h0 rnd fd ip (m_slaves x) ((m_world x)\<lparr>cw_conn := (fd, ip), cw_in := (cw_in ((m_world x)\<lparr>cw_conn := (fd, ip)\<rparr>))(fd := [join_packet hdr s])\<rparr>)
        = Inr (sl1, c1\<lparr>cw_out := (cw_out c1)(fd := [r1])\<rparr>)"
      "RegisterAndLoadSlaves env (s_master_sock s) s (with_packet (s_master_sock s) r1 w) = Inr (s1, n_send (station_os fs cn) (s_master_sock s) (join_packet hdr s) w)"
      "cstep (cluster_of (m_slaves x, (m_world x)\<lparr>cw_conn := (fd, ip)\<rparr>)) (cluster_of (sl1, c1\<lparr>cw_slaves := (cw_slaves c1)(fd \<mapsto> (s1, w))\<rparr>))"
      "crew_ok lsock (sl1, c1\<lparr>cw_slaves := (cw_slaves c1)(fd \<mapsto> (s1, w))\<rparr>)" "cw_out c1 = (\<lambda>_. [])"
      using join_result [OF C' fd Joins(8,7,6) h Joins(9,10) env] by metis
    have m': "m' = x\<lparr>m_fd := fd, m_ip := ip, m_slaves := sl1, m_world := c1\<lparr>cw_out := (cw_out c1)(fd := [r1])\<rparr>\<rparr>"
      using Joins(13) j(1) step_accept [where fd = fd and env = env and rnd = rnd and lsock = lsock and m = x and b = b and c = "m_world x" and ip = ip] fd(2) b by simp
    then have "r1 = r" using Joins(14) by simp
    then have "s1 = s'" using Joins(11) j(2) by simp
    moreover have "drained fd (c1\<lparr>cw_out := (cw_out c1)(fd := [r1]), cw_slaves := f\<rparr>) = c1\<lparr>cw_slaves := f\<rparr>" for f
      by (rule crew.equality) (use j(5) in \<open>auto simp: drained_def\<close>)
    ultimately have y: "y = x\<lparr>m_fd := fd, m_ip := ip, m_slaves := sl1, m_world := c1\<lparr>cw_slaves := (cw_slaves c1)(fd \<mapsto> (s1, w))\<rparr>\<rparr>"
      using Joins(1) m' t Joins(15) by simp
    show ?thesis using j(3,4) xb fd(4) unfolding y by (simp add: master_ok_def)
  next
    case (Leaves fd s w r s' w' b rnd m')
    have s: "at_rest (s, w)" "fd \<noteq> lsock" using crew_okD(9) [OF C Leaves(2)] by simp_all
    have b: "b = leave_packet hdr s" using shutdown_station(1) [OF s(1)] Leaves(3,4) env by fastforce
    let ?c = "(m_world x)\<lparr>cw_slaves := (cw_slaves (m_world x))(fd := None)\<rparr>"
    have "\<not> m_eintr x"
    proof
      assume "m_eintr x"
      then have "m' = x\<lparr>m_fd := fd, m_world := arrives fd b ?c\<rparr>" using Leaves(5) step_member [OF s(2), where env = env and rnd = rnd and m = x and b = b and c = ?c] by simp
      then show False using Leaves(6) crew_okD(8) [OF C] by (simp add: arrives_def)
    qed
    then obtain sl1 c1 where run: "Master.HandleRequest (crew_net env) h0 rnd fd (m_ip x) (m_slaves x) (?c\<lparr>cw_in := (cw_in (m_world x))(fd := [leave_packet hdr s])\<rparr>) = Inr (sl1, c1)"
      and m': "m' = x\<lparr>m_fd := fd, m_slaves := sl1, m_world := c1\<rparr>"
      using Leaves(5) step_member [OF s(2), where env = env and rnd = rnd and m = x and b = b and c = ?c] b by auto
    have l: "cw_lost c1 = {}" using lost Leaves(1) m' by simp
    note runs = leave_lost [OF C Leaves(2) h(2) leave_packet_facts [OF C Leaves(2) h(1)] refl run l]
    obtain sl2 c2 r2 where j: "Master.HandleRequest (crew_net env) h0 rnd fd (m_ip x) (m_slaves x) (?c\<lparr>cw_in := (cw_in (m_world x))(fd := [leave_packet hdr s])\<rparr>)
        = Inr (sl2, c2\<lparr>cw_out := (cw_out c2)(fd := [r2])\<rparr>)"
      "cstep (view x) (cluster_of (sl2, c2))" "crew_ok lsock (sl2, c2)" "cw_out c2 = (\<lambda>_. [])"
      using leave_result [OF C Leaves(2) h env refl runs] by metis
    have y: "y = x\<lparr>m_fd := fd, m_slaves := sl2, m_world := c2\<rparr>"
      using Leaves(1) m' run j(1) drained_out [OF j(4), of fd "[r2]"] by simp
    show ?thesis using j(2,3) xb s(2) unfolding y by (simp add: master_ok_def)
  next
    case (Asks fd b rnd ip m')
    have C': "crew_ok lsock (m_slaves x, (m_world x)\<lparr>cw_conn := (fd, ip)\<rparr>)" using C by simp
    have fd: "cw_slaves ((m_world x)\<lparr>cw_conn := (fd, ip)\<rparr>) fd = None" "0 < fd" using Asks by simp_all
    obtain r where j: "Master.HandleRequest (crew_net env) h0 rnd fd ip (m_slaves x) ((m_world x)\<lparr>cw_conn := (fd, ip), cw_in := (cw_in ((m_world x)\<lparr>cw_conn := (fd, ip)\<rparr>))(fd := [b])\<rparr>)
      = Inr (m_slaves x, (m_world x)\<lparr>cw_conn := (fd, ip), cw_out := (cw_out ((m_world x)\<lparr>cw_conn := (fd, ip)\<rparr>))(fd := [r])\<rparr>)"
      using ask_result [OF C' fd Asks(5-7)] .
    have "cw_out ((m_world x)\<lparr>cw_conn := (fd, ip)\<rparr>) = (\<lambda>_. [])" using crew_okD(8) [OF C] by simp
    note d = drained_out [OF this, of fd "[r]"]
    have "m' = x\<lparr>m_fd := fd, m_ip := ip, m_world := (m_world x)\<lparr>cw_conn := (fd, ip), cw_out := (cw_out ((m_world x)\<lparr>cw_conn := (fd, ip)\<rparr>))(fd := [r])\<rparr>\<rparr>"
      using Asks(8) j step_accept [where fd = fd and env = env and rnd = rnd and lsock = lsock and m = x and b = b and c = "m_world x" and ip = ip] fd(2)
      by simp
    then have y: "y = x\<lparr>m_fd := fd, m_ip := ip, m_world := (m_world x)\<lparr>cw_conn := (fd, ip)\<rparr>\<rparr>" using Asks(1) d by simp
    show ?thesis using C xb Asks(4) unfolding y by (simp add: master_ok_def)
  next
    case (Alarm rnd)
    obtain pos err xb' c' where u: "UpdateBackup (crew_net env) h0 (m_xbuf x) (m_pos x) (m_slaves x) (m_world x) = Inr (pos, err, xb', c')"
      using Alarm by (auto simp: master_step_def epoll_wait_def)
    have "sl_num (m_slaves x) \<noteq> 0" using u by (auto simp: UpdateBackup_def)
    then have n: "0 < sl_num (m_slaves x)" and fd: "m_fd x \<noteq> lsock" using crew_okD(3) [OF C] fd0 by (auto simp: list_ok_def)
    have y: "y = x\<lparr>m_pos := pos, m_xbuf := xb', m_eintr := True, m_world := c'\<rparr>" using Alarm u fd by (simp add: master_step_def epoll_wait_def)
    obtain f s w b where a: "cw_slaves (m_world x) f = Some (s, w)"
      "\<And>pos' err xb' c'. UpdateBackup (crew_net env) h0 (m_xbuf x) (m_pos x) (m_slaves x) (m_world x) = Inr (pos', err, xb', c') \<Longrightarrow> cw_lost c' = {}
        \<Longrightarrow> \<exists>z. told env b (s, w) = Inr z"
      "\<And>z. told env b (s, w) = Inr z \<Longrightarrow> \<exists>pos' err xb' s2 w2. UpdateBackup (crew_net env) h0 (m_xbuf x) (m_pos x) (m_slaves x) (m_world x)
          = Inr (pos', err, xb', (m_world x)\<lparr>cw_slaves := (cw_slaves (m_world x))(f \<mapsto> (s2, w2))\<rparr>)
        \<and> 0 \<le> pos' \<and> packet_buf xb' \<and> core s2 = core s \<and> at_rest (s2, w2)"
      using alarm_result [OF C n xb(2,1) h env] by metis
    have "cw_lost c' = {}" using lost y by simp
    then obtain s2 w2 where q: "c' = (m_world x)\<lparr>cw_slaves := (cw_slaves (m_world x))(f \<mapsto> (s2, w2))\<rparr>" "0 \<le> pos" "packet_buf xb'"
      "core s2 = core s" "at_rest (s2, w2)"
      using a(2) [OF u] a(3) u by auto
    show ?thesis using crew_ok_same [OF C a(1) q(4,5)] q(2,3) fd unfolding y q(1) by (simp add: master_ok_def)
  next
    case (Works fd s w b n c st d peers)
    have "at_rest (s\<lparr>s_db := st, s_xbuf := b\<rparr>, w\<lparr>sa_next := n, sa_peers := peers, sa_disk := d\<rparr>)"
      using crew_okD(9) [OF C Works(2)] Works(3,4) by (simp add: at_rest_def)
    from crew_ok_same [OF C Works(2) core_upd this] show ?thesis using xb fd0 Works(1,5) by (auto simp: master_ok_def)
  next
    case (Lost fd)
    then show ?thesis using lost by (simp add: lose_def)
  qed
qed

lemma mstep_mono:
  assumes "mstep env h0 lsock x y"
  shows "cw_lost (m_world x) \<subseteq> cw_lost (m_world y)"
  using assms by cases (auto simp: lose_def arrives_def dest!: step_mono)

lemma mreach_master:
  assumes "header_ok hdr" and "header_ok h0" and "env = station_env fs cn tc tm hdr fuel" and "mreach env h0 lsock m"
  shows "cw_lost (m_world m) = {} \<Longrightarrow> creach (view m) \<and> master_ok lsock m"
  using assms(4)
proof (induction rule: mreach.induct)
  case (Start sl ip)
  let ?sl = "sl\<lparr>sl_num := 0, sl_version := 0\<rparr>"
  have ok: "list_ok ?sl" using Start by (simp add: list_ok_def)
  then have c: "creach (cluster_of (?sl, no_crew))" using creach.Empty [of ?sl] by (simp add: cluster_of_def no_crew_def)
  then show ?case using creach_ok [OF c] Start by (simp add: master_ok_def crew_ok_def no_crew_def master_init_def)
next
  case (Step x y)
  have "cw_lost (m_world x) = {}" using mstep_mono [OF Step(2)] Step.prems by auto
  then have x: "creach (view x)" "master_ok lsock x" using Step(3) by simp_all
  then show ?case using mstep_simulated [OF x(2) assms(1-3) Step(2) Step.prems] creach.Next by metis
qed

section \<open>What is always possible\<close>

lemma can_join:
  assumes ok: "master_ok lsock m" and fd: "cw_slaves (m_world m) fd = None" "0 < fd" "fd \<noteq> lsock" "int32 fd"
    and n: "sl_num (m_slaves m) < int MAX_SLAVE_NUM" and h: "header_ok hdr" "header_ok h0"
    and s: "at_rest (s, w)" "int32 (s_port s)" and env: "env = station_env fs cn tc tm hdr fuel"
  shows "\<exists>m'. mstep env h0 lsock m m' \<and> dom (cw_slaves (m_world m')) = insert fd (dom (cw_slaves (m_world m)))
    \<and> cw_lost (m_world m') = cw_lost (m_world m) \<and> m_eintr m' = m_eintr m
    \<and> (Ball (ran (cw_slaves (m_world m))) (fit tc tm v fuel) \<longrightarrow> fit tc tm v fuel (s, w) \<longrightarrow> Ball (ran (cw_slaves (m_world m'))) (fit tc tm v fuel))"
proof -
  let ?c = "(m_world m)\<lparr>cw_conn := (fd, 0)\<rparr>" and ?b = "join_packet hdr s"
  have C: "crew_ok lsock (m_slaves m, ?c)" using ok by (simp add: master_ok_def)
  have i: "int32 0" "0 \<le> (0::int)" by (simp_all add: int32_def)
  have fd': "cw_slaves ?c fd = None" using fd(1) by simp
  obtain sl' c' r s' where j:
    "Master.HandleRequest (crew_net env) h0 0 fd 0 (m_slaves m) (?c\<lparr>cw_in := (cw_in ?c)(fd := [?b])\<rparr>) = Inr (sl', c'\<lparr>cw_out := (cw_out c')(fd := [r])\<rparr>)"
    "RegisterAndLoadSlaves env (s_master_sock s) s (with_packet (s_master_sock s) r w) = Inr (s', n_send (station_os fs cn) (s_master_sock s) ?b w)"
    "dom (cw_slaves c') = dom (cw_slaves ?c)" "cw_lost c' = cw_lost ?c" "\<exists>p. s' = s\<lparr>s_xbuf := r, s_pos := p, s_slaves := sl'\<rparr>"
    "Ball (ran (cw_slaves ?c)) (fit tc tm v fuel) \<Longrightarrow> Ball (ran (cw_slaves c')) (fit tc tm v fuel)"
    using join_result [OF C fd' fd(2,4,3) n i(2,1) h s env, where v = v] by metis
  let ?m' = "m\<lparr>m_fd := fd, m_ip := 0, m_slaves := sl', m_world := c'\<lparr>cw_out := (cw_out c')(fd := [r])\<rparr>\<rparr>"
  have run: "master_step (crew_net env) h0 0 lsock (Ready lsock) (m\<lparr>m_world := arrives fd ?b ?c\<rparr>) = Inr ?m'"
    using j(1) fd(2) step_accept [where fd = fd and env = env and rnd = 0 and lsock = lsock and m = m and b = ?b and c = "m_world m" and ip = 0] by simp
  have out: "cw_out (m_world ?m') fd = [r]" by simp
  note o = sent_on [OF at_restD(2) [OF s(1)], where fs = fs and cn = cn and r = ?b]
  note step = mstep.Joins [OF fd(1-4) i n s j(2) o(1) run out refl, unfolded o(2)]
  have keep: "Ball (ran ((cw_slaves c')(fd \<mapsto> (s', w)))) (fit tc tm v fuel)"
    if "Ball (ran (cw_slaves (m_world m))) (fit tc tm v fuel)" "fit tc tm v fuel (s, w)"
  proof -
    have "fit tc tm v fuel (s', w)" using j(5) that(2) by (auto simp: fit_def)
    moreover have "Ball (ran (cw_slaves c')) (fit tc tm v fuel)" using j(6) that(1) by simp
    ultimately show ?thesis by (auto simp: ran_def)
  qed
  have c': "dom (cw_slaves c') = dom (cw_slaves (m_world m))" "cw_lost c' = cw_lost (m_world m)" using j(3,4) by simp_all
  obtain m' where m': "mstep env h0 lsock m m'" "cw_slaves (m_world m') = (cw_slaves c')(fd \<mapsto> (s', w))" "cw_lost (m_world m') = cw_lost c'"
    "m_eintr m' = m_eintr m"
    using step by fastforce
  have "dom (cw_slaves (m_world m')) = insert fd (dom (cw_slaves (m_world m)))" unfolding m'(2) dom_fun_upd c' by simp
  moreover have "cw_lost (m_world m') = cw_lost (m_world m)" unfolding m'(3) c' ..
  ultimately show ?thesis using m'(1,4) keep [folded m'(2)] by blast
qed




section \<open>Properties\<close>

text \<open>C5: the handlers implement the membership protocol: wherever the master's event loop, \<open>HandleMasterRequest\<close> of its slaves,
  \<open>RegisterAndLoadSlaves\<close> of newcomers and \<open>ShutDownSlave\<close> of those that leave can lead to by their packets, with requests of
  clients and alarms in any order between them, with any disks, and whatever the other slaves send to one that connects to them, as
  long as no slave has been lost the state is a reachable state of the cluster; so every slave's list and version are the master's,
  and its position is its own. A slave is lost when its handler faults, as it does at the assertion of \<open>CommunicateToSlave\<close> if a
  peer does not answer with a file, when it dies by itself, or when it asks to leave and the master does not hear it.\<close>

theorem handlers_refine_cluster:
  assumes "mreach (station_env fs cn tc tm hdr fuel) h0 lsock m" and "header_ok hdr" and "header_ok h0" and "cw_lost (m_world m) = {}"
  shows "creach (cluster_of (m_slaves m, m_world m))
    \<and> (\<forall>fd s w. cw_slaves (m_world m) fd = Some (s, w) \<longrightarrow> live (s_slaves s) = live (m_slaves m) \<and> sl_version (s_slaves s) = sl_version (m_slaves m)
        \<and> 0 \<le> s_pos s \<and> s_pos s < sl_num (m_slaves m) \<and> sn_sock (live (m_slaves m) ! nat (s_pos s)) = fd)"
proof -
  let ?sl = "m_slaves m"
  have c: "creach (view m)" and ok: "crew_ok lsock (?sl, m_world m)"
    using mreach_master [OF assms(2,3) refl assms(1,4)] by (simp_all add: master_ok_def)
  have "live (s_slaves s) = live ?sl \<and> sl_version (s_slaves s) = sl_version ?sl
    \<and> 0 \<le> s_pos s \<and> s_pos s < sl_num ?sl \<and> sn_sock (live ?sl ! nat (s_pos s)) = fd" if s: "cw_slaves (m_world m) fd = Some (s, w)" for fd s w
  proof -
    obtain i where i: "i < length (live ?sl)" "socks ?sl ! i = fd" "rep.follows (live ?sl) (sl_version ?sl) i s" using crew_follows [OF ok s] .
    have p: "s_pos s = int i" by (rule follows_list(4) [OF i(3) crew_okD(2) [OF ok]])
    then have "s_pos s < sl_num ?sl" using i(1) sl_num_live [OF crew_okD(3) [OF ok]] by simp
    then show ?thesis using i p by (simp add: rep.follows_def socks_def)
  qed
  then show ?thesis using c by blast
qed


subsection \<open>Witnesses\<close>

text \<open>Four slaves without any data; each finds a file with one record wherever it asks for a backup.\<close>

definition zero_hdr :: db_header where
  "zero_hdr = \<lparr>hd_size = 0, hd_cmd = 0, hd_key = 0, hd_version = 0\<rparr>"

definition idle_station :: "bytes list \<Rightarrow> bdisk station" where
  "idle_station pk = \<lparr>sa_in = (\<lambda>_. []), sa_out = (\<lambda>_. []), sa_next = 10, sa_peers = (\<lambda>_. Some pk), sa_disk = no_bytes\<rparr>"

abbreviation byte_env :: "(nat, (bytes \<times> nat OpenedDB) list, bdisk station) env" where
  "byte_env \<equiv> station_env byte_fs (\<lambda>_. None) byte_db alist_mdb zero_hdr 1"

abbreviation byte_fit :: "(bytes \<times> nat OpenedDB) list slave \<times> bdisk station \<Rightarrow> bool" where
  "byte_fit \<equiv> fit byte_db alist_mdb byte_view 1"

lemma zero_hdr_ok: "header_ok zero_hdr"
  by (simp add: zero_hdr_def header_ok_def int32_def)

lemma newcomer_ok:
  assumes "sent_file 1 BACKUP_R a_db data pk"
  shows "at_rest (a_slave, idle_station pk)" "int32 (s_port a_slave)" "byte_fit (a_slave, idle_station pk)"
proof -
  show "at_rest (a_slave, idle_station pk)" "int32 (s_port a_slave)"
    by (simp_all add: at_rest_def idle_station_def a_slave_def int32_def packet_buf_def MAX_BUF_LEN_def packet_consts)
  show "byte_fit (a_slave, idle_station pk)"
    using assms alist_mdb_laws byte_db_laws
    by (auto simp: fit_def tc_inv_def idle_station_def a_slave_def a_db_def reg_ok_def regs_ok_def reg_def no_dbs_def no_bytes_def byte_view_simps db_file_ok_def)
qed

lemma crew_of:
  assumes pk: "sent_file 1 BACKUP_R a_db data pk" and "n \<le> 4"
  shows "\<exists>m. mreach byte_env zero_hdr 3 m \<and> dom (cw_slaves (m_world m)) = {5..<5 + int n} \<and> cw_lost (m_world m) = {} \<and> \<not> m_eintr m
    \<and> sl_num (m_slaves m) = int n \<and> Ball (ran (cw_slaves (m_world m))) byte_fit"
  using assms(2)
proof (induction n)
  case 0
  have l: "length (sl_nodes two_nodes) = MAX_SLAVE_NUM" "list_all node_ok (sl_nodes two_nodes)"
    using two_nodes_ok by (simp_all add: list_ok_def)
  let ?m = "master_init two_nodes 3 0 no_crew :: ((bytes \<times> nat OpenedDB) list, bdisk) membership"
  have "mreach byte_env zero_hdr 3 ?m" by (rule Start [OF l])
  then show ?case by (intro exI [of _ ?m] conjI) (simp_all add: master_init_def no_crew_def)
next
  case (Suc n)
  then obtain m where m: "mreach byte_env zero_hdr 3 m" "dom (cw_slaves (m_world m)) = {5..<5 + int n}" "cw_lost (m_world m) = {}" "\<not> m_eintr m"
    "sl_num (m_slaves m) = int n" "Ball (ran (cw_slaves (m_world m))) byte_fit"
    by auto
  note h = zero_hdr_ok
  have ok: "master_ok 3 m" using mreach_master [OF h h refl m(1,3)] by simp
  have "5 + int n \<notin> dom (cw_slaves (m_world m))" by (simp add: m(2) del: domIff)
  then have "cw_slaves (m_world m) (5 + int n) = None" by (metis domIff)
  then have fd: "cw_slaves (m_world m) (5 + int n) = None" "0 < 5 + int n" "5 + int n \<noteq> 3" "int32 (5 + int n)" "sl_num (m_slaves m) < int MAX_SLAVE_NUM"
    using Suc.prems m(5) by (simp_all add: int32_def MAX_SLAVE_NUM_def)
  obtain m' where s: "mstep byte_env zero_hdr 3 m m'" "dom (cw_slaves (m_world m')) = insert (5 + int n) (dom (cw_slaves (m_world m)))"
    "cw_lost (m_world m') = cw_lost (m_world m)" "m_eintr m' = m_eintr m" "Ball (ran (cw_slaves (m_world m'))) byte_fit"
    using can_join [OF ok fd h h newcomer_ok(1,2) [OF pk] refl, where fs = byte_fs and cn = "\<lambda>_. None" and tc = byte_db and tm = alist_mdb
        and fuel = 1 and v = byte_view] m(6) newcomer_ok(3) [OF pk] by blast
  have r: "mreach byte_env zero_hdr 3 m'" using m(1) s(1) by (rule Step)
  have d: "dom (cw_slaves (m_world m')) = {5..<5 + int (Suc n)}" using s(2) m(2) by auto
  have C: "crew_ok 3 (m_slaves m', m_world m')" using mreach_master [OF h h refl r] s(3) m(3) by (simp add: master_ok_def)
  have "set (socks (m_slaves m')) = {5..<5 + int (Suc n)}" "distinct (socks (m_slaves m'))" using crew_okD(4,5) [OF C] d by simp_all
  then have "length (live (m_slaves m')) = Suc n" using distinct_card [of "socks (m_slaves m')"] by (simp add: socks_def)
  then have "sl_num (m_slaves m') = int (Suc n)" using sl_num_live [OF crew_okD(3) [OF C]] by simp
  then show ?case using r d s(3-5) m(3,4) by (intro exI [of _ m'] conjI) simp_all
qed

lemma a_backup: obtains pk where "sent_file 1 BACKUP_R a_db (enc_recs [(key_bytes 3000, [66, 0])]) pk"
  using a_file [OF one_record_small(1), of 3000 66 1 BACKUP_R] one_record_small(2) [of 3000 66] by (metis order_refl)

lemma crew_of_four:
  obtains m where "mreach byte_env zero_hdr 3 m" and "dom (cw_slaves (m_world m)) = {5, 6, 7, 8}" and "cw_lost (m_world m) = {}"
    and "\<not> m_eintr m" and "sl_num (m_slaves m) = 4" and "Ball (ran (cw_slaves (m_world m))) byte_fit"
proof -
  obtain pk where pk: "sent_file 1 BACKUP_R a_db (enc_recs [(key_bytes 3000, [66, 0])]) pk" by (rule a_backup)
  have "{5..<5 + int 4} = {5, 6, 7, 8}" by auto
  then show ?thesis using crew_of [OF pk, of 4] that by auto
qed

theorem handlers_refine_cluster_witness:
  "\<exists>m s w. mreach byte_env zero_hdr 3 m \<and> cw_slaves (m_world m) 5 = Some (s, w) \<and> sl_num (m_slaves m) = 4
    \<and> creach (cluster_of (m_slaves m, m_world m)) \<and> live (s_slaves s) = live (m_slaves m) \<and> sn_sock (live (m_slaves m) ! nat (s_pos s)) = 5"
proof -
  obtain m where m: "mreach byte_env zero_hdr 3 m" "dom (cw_slaves (m_world m)) = {5, 6, 7, 8}" "cw_lost (m_world m) = {}" "sl_num (m_slaves m) = 4"
    by (rule crew_of_four)
  have "5 \<in> dom (cw_slaves (m_world m))" by (simp add: m(2) del: domIff)
  then obtain s w where s: "cw_slaves (m_world m) 5 = Some (s, w)" by auto
  from handlers_refine_cluster [OF m(1) zero_hdr_ok zero_hdr_ok m(3)] s m(1,4) show ?thesis by blast
qed


end
