(* ===== verification/ServerMain.thy ===== *)
theory ServerMain
  imports Host ClientSession Master
begin

text \<open>
  The server program as a whole, \<^verbatim>\<open>server/dbserver.c\<close> and \<^verbatim>\<open>InitThreads\<close>: \<open>main\<close> with its arguments, which makes the
  process a master or a slave, and the thread of a slave that runs the command loop of
  \<^verbatim>\<open>client/inputcmd.c\<close> on the databases that the workers serve to clients.
\<close>

section \<open>Arguments\<close>

text \<open>\<open>argv[argc]\<close> is \<open>NULL\<close>, and nothing lies behind it.\<close>

definition argv_at :: "bytes list \<Rightarrow> nat \<Rightarrow> bytes option exec" where
  "argv_at argv i =
    (if i < length argv then Inr (Some (argv ! i)) else if i = length argv then Inr None else Inl OutOfBounds)"

definition atoi_arg :: "bytes option \<Rightarrow> int exec" where
  "atoi_arg arg = (case arg of None \<Rightarrow> Inl NullDeref | Some str \<Rightarrow> Inr (atoi str))"

section \<open>Starting\<close>

datatype ('k, 'm, 'd, 'w) outcome = Exits int | MasterRuns "'w master" | SlaveRuns "('k, 'm, 'd, 'w) server"

text \<open>
  \<open>main\<close> up to its loop. When \<open>MasterProcess\<close> returns, as it does when it cannot listen, its result is
  not looked at and the process goes on as a slave. \<open>evs\<close> are the events a master has seen so far;
  \<open>inet\<close> is the conversion of an address, which \<open>OpenRemoteService\<close> does.
\<close>

definition server_main ::
  "(bytes \<Rightarrow> int) \<Rightarrow> ('h, 'm, 'w) env \<Rightarrow> ('k, 'h OpenedDB option ClientSockHandle) tcmdb \<Rightarrow> bytes \<Rightarrow> worker
    \<Rightarrow> (thread \<Rightarrow> 'w \<Rightarrow> int \<times> 'w) \<Rightarrow> int \<Rightarrow> SlaveList \<Rightarrow> int \<Rightarrow> master_event list
    \<Rightarrow> 'h OpenedDB option QueueNode queue \<Rightarrow> 'm slave \<Rightarrow> bytes list \<Rightarrow> 'w
    \<Rightarrow> ('k, 'm, 'h OpenedDB, 'w) outcome exec" where
  "server_main inet env sm junk wk0 create rnd slaves ip0 evs q0 s0 argv w =
    andThen
      (if length argv \<noteq> 3 then MasterProcess (e_os env) (e_hdr env) rnd slaves ip0 evs w else Inr (Returns 0 w)) (\<lambda>p.
    case p of
      Serves m \<Rightarrow> Inr (MasterRuns m)
    | Returns _ w \<Rightarrow>
        andThen (argv_at argv 1) (\<lambda>addr.
        andThen (argv_at argv 2) (\<lambda>port.
        andThen (atoi_arg port) (\<lambda>port.
        andThen (main_init env sm junk wk0 create (map_option inet addr) port q0 s0 w) (\<lambda>g.
        Inr (case g of None \<Rightarrow> Exits (-1) | Some g \<Rightarrow> SlaveRuns g))))))"

section \<open>The prompt of a slave\<close>

text \<open>
  A line that \<open>InputCmd\<close> reads on the server: \<open>Parse\<close> on the local database, in the globals of the process.
\<close>

definition console_line ::
  "('h, 'm, 'w) env \<Rightarrow> bytes \<Rightarrow> bytes \<Rightarrow> ('h OpenedDB, 'm db_state \<times> 'w) cmdline \<Rightarrow> ('k, 'm, 'h OpenedDB, 'w) server
    \<Rightarrow> (int \<times> ('h OpenedDB, 'm db_state \<times> 'w) cmdline \<times> ('k, 'm, 'h OpenedDB, 'w) server) exec" where
  "console_line env junk input c g =
    andThen (Parse (tc_api (e_tc env) (e_tm env)) junk input (c\<lparr>cm_db := (s_db (g_slave g), g_w g)\<rparr>)) (\<lambda>(res, c).
    Inr (res, c, g\<lparr>g_slave := (g_slave g)\<lparr>s_db := fst (cm_db c)\<rparr>, g_w := snd (cm_db c)\<rparr>))"

text \<open>All that a slave's process does, in whatever order its threads and the signal come.\<close>

datatype turn = MainTurn int epoll_event | WorkerTurn nat | ConsoleTurn bytes bytes | Sigint

definition process_step ::
  "('h, 'm, 'w) env \<Rightarrow> ('k, 'h OpenedDB option ClientSockHandle) tcmdb \<Rightarrow> turn
    \<Rightarrow> ('h OpenedDB, 'm db_state \<times> 'w) cmdline \<times> ('k, 'm, 'h OpenedDB, 'w) server
    \<Rightarrow> (('h OpenedDB, 'm db_state \<times> 'w) cmdline \<times> ('k, 'm, 'h OpenedDB, 'w) server) exec" where
  "process_step env sm t = (\<lambda>(c, g).
    case t of
      MainTurn ip0 ev \<Rightarrow> andThen (server_step env sm ip0 ev g) (\<lambda>g. Inr (c, g))
    | WorkerTurn i \<Rightarrow> andThen (worker_step env sm i g) (\<lambda>g. Inr (c, g))
    | ConsoleTurn junk input \<Rightarrow> andThen (console_line env junk input c g) (\<lambda>(res, c, g). Inr (c, g))
    | Sigint \<Rightarrow> andThen (ShutDownSlave env (g_slave g) (g_w g)) (\<lambda>(s, w). Inr (c, g\<lparr>g_slave := s, g_w := w\<rparr>)))"

fun process_run ::
  "('h, 'm, 'w) env \<Rightarrow> ('k, 'h OpenedDB option ClientSockHandle) tcmdb \<Rightarrow> turn list
    \<Rightarrow> ('h OpenedDB, 'm db_state \<times> 'w) cmdline \<times> ('k, 'm, 'h OpenedDB, 'w) server
    \<Rightarrow> (('h OpenedDB, 'm db_state \<times> 'w) cmdline \<times> ('k, 'm, 'h OpenedDB, 'w) server) exec" where
  "process_run env sm [] p = Inr p"
| "process_run env sm (t # ts) p = andThen (process_step env sm t p) (process_run env sm ts)"

section \<open>Console and requests on one database\<close>

definition with_db :: "'m db_state \<times> 'w \<Rightarrow> ('k, 'm, 'd, 'w) server \<Rightarrow> ('k, 'm, 'd, 'w) server" where
  "with_db s g = g\<lparr>g_slave := (g_slave g)\<lparr>s_db := fst s\<rparr>, g_w := snd s\<rparr>"

lemma with_db_simps [simp]:
  "gdb (with_db s g) = s" "with_db s' (with_db s g) = with_db s' g" "g_workers (with_db s g) = g_workers g"
  by (simp_all add: with_db_def gdb_def)

text \<open>What an operation of the database may do to the machine.\<close>

definition on_disk_only :: "'m db_state \<times> 'w host \<Rightarrow> ('k, 'm, 'd, 'w host) server \<Rightarrow> bool" where
  "on_disk_only s g \<longleftrightarrow> err_ok (fst s) \<and> (\<exists>d. snd s = (g_w g)\<lparr>ho_disk := d\<rparr>)"

lemma on_disk_ops:
  assumes "err_ok (s_db (g_slave g))"
  shows "api_create (host_api tc tm) n (gdb g) = Inr (r, s) \<Longrightarrow> on_disk_only s g"
    and "api_set (host_api tc tm) db k x (gdb g) = Inr (r', s) \<Longrightarrow> on_disk_only s g"
    and "api_get (host_api tc tm) db k (gdb g) = Inr (r'', s) \<Longrightarrow> on_disk_only s g"
  by (cases s; use assms in \<open>fastforce simp: host_ops gdb_def on_disk_only_def dest!: at_host_InrD dest: err_ok_ops\<close>)+

lemma ready_with_db:
  assumes "ready tc tm v sm ver g" and "on_disk_only s g" and "host_inv tc tm v s"
    and "\<And>n k x. host_table v s n k = Some x \<Longrightarrow> length x < APPENDSIZE"
  shows "ready tc tm v sm ver (with_db s g)"
  using assms by (auto simp: ready_def quiet_def on_disk_only_def with_db_def gdb_def GetVersion_def)

lemma attached_with_db:
  assumes "attached tm sm g fd d n" and "on_disk_only s g" and "host_opened tm s d n"
  shows "attached tm sm (with_db s g) fd d n"
  using assms by (auto simp: attached_def client_of_def on_disk_only_def with_db_def gdb_def)

lemma console_line_eq:
  "Parse (host_api tc tm) junk input (c\<lparr>cm_db := gdb g\<rparr>) = Inr (res, c')
    \<Longrightarrow> console_line (host_env tc tm hdr fuel) junk input c g = Inr (res, c', with_db (cm_db c') g)"
  by (simp add: console_line_def host_env_def gdb_def with_db_def)

text \<open>What a command leaves as it should be.\<close>

definition keeps_server ::
  "('h, 'w) tchdb \<Rightarrow> ('m, 'h OpenedDB) tcmdb \<Rightarrow> ('h, 'w) tc_view \<Rightarrow> ('k, 'h OpenedDB option ClientSockHandle) tcmdb \<Rightarrow> u32
    \<Rightarrow> ('k, 'm, 'h OpenedDB, 'w host) server \<Rightarrow> ('k, 'm, 'h OpenedDB, 'w host) server \<Rightarrow> bool" where
  "keeps_server tc tm v sm ver g g' \<longleftrightarrow> ready tc tm v sm ver g' \<and> g_workers g' = g_workers g
    \<and> (\<forall>d n. host_opened tm (gdb g) d n \<longrightarrow> host_opened tm (gdb g') d n)
    \<and> (\<forall>fd d n. attached tm sm g fd d n \<longrightarrow> attached tm sm g' fd d n)"

lemma keeps_serverI:
  assumes "ready tc tm v sm ver g" and "on_disk_only s g" and "host_inv tc tm v s"
    and "\<And>n k x. host_table v s n k = Some x \<Longrightarrow> length x < APPENDSIZE"
    and "\<And>d n. host_opened tm (gdb g) d n \<Longrightarrow> host_opened tm s d n"
  shows "keeps_server tc tm v sm ver g (with_db s g)"
proof -
  have "attached tm sm (with_db s g) fd d n" if "attached tm sm g fd d n" for fd d n
    by (rule attached_with_db [OF that assms(2) assms(5)]) (use that in \<open>simp add: attached_def\<close>)
  then show ?thesis using ready_with_db [OF assms(1-4)] assms(5) by (simp add: keeps_server_def)
qed

lemma console_open:
  assumes "ready tc tm v sm ver g" and "cm_hdb c = None" and "db_name n" and "length n < MAX_INPUT_LEN"
  shows "\<exists>d c' g'. console_line (host_env tc tm hdr fuel) junk (line_open n) c g = Inr (0, c', g')
    \<and> cm_hdb c' = Some d \<and> cm_out c' = cm_out c \<and> keeps_server tc tm v sm ver g g'
    \<and> host_opened tm (gdb g') d n \<and> host_table v (gdb g') = host_table v (gdb g)"
proof -
  have r: "host_inv tc tm v (gdb g)" "err_ok (s_db (g_slave g))" "\<And>n k x. host_table v (gdb g) n k = Some x \<Longrightarrow> length x < APPENDSIZE"
    using assms(1) by (simp_all add: ready_def quiet_def)
  obtain d s where s: "api_create (host_api tc tm) n (gdb g) = Inr (Some d, s)" "host_inv tc tm v s" "host_opened tm s d n"
    "host_table v s = host_table v (gdb g)" "\<And>e m. host_opened tm (gdb g) e m \<Longrightarrow> host_opened tm s e m"
    using hdb.create [OF r(1), of n] by blast
  have "Parse (host_api tc tm) junk (line_open n) (c\<lparr>cm_db := gdb g\<rparr>) = Inr (0, c\<lparr>cm_db := s, cm_name := n, cm_hdb := Some d\<rparr>)"
    using line_open_Parse [OF assms(3,4), of "c\<lparr>cm_db := gdb g\<rparr>"] assms(2) s(1) by simp
  from console_line_eq [OF this] keeps_serverI [OF assms(1) on_disk_ops(1) [OF r(2) s(1)] s(2) r(3) s(5)] s(3,4)
  show ?thesis by fastforce
qed

lemma console_get:
  assumes "ready tc tm v sm ver g" and "cm_hdb c = Some d" and "host_opened tm (gdb g) d n"
    and "list_all is_digit ds" and "ds \<noteq> []" and "length ds < MAX_INPUT_LEN" and "host_table v (gdb g) n (word_of_int (atoi ds)) = Some x"
  shows "\<exists>c' g'. console_line (host_env tc tm hdr fuel) junk (line_get ds) c g = Inr (0, c', g')
    \<and> cm_hdb c' = Some d \<and> cm_out c' = cm_out c @ [Stdout (x @ [10])] \<and> keeps_server tc tm v sm ver g g'
    \<and> host_table v (gdb g') = host_table v (gdb g)"
proof -
  have r: "host_inv tc tm v (gdb g)" "err_ok (s_db (g_slave g))" "\<And>n k x. host_table v (gdb g) n k = Some x \<Longrightarrow> length x < APPENDSIZE"
    using assms(1) by (simp_all add: ready_def quiet_def)
  obtain y s where s: "api_get (host_api tc tm) (Some d) (word_of_int (atoi ds)) (gdb g) = Inr (Some y, s)" "host_inv tc tm v s"
    "host_opened tm s = host_opened tm (gdb g)" "host_table v s = host_table v (gdb g)" "c_str y = x"
    using hdb.get [OF r(1) assms(3), of "word_of_int (atoi ds)"] assms(7) by (auto simp: map_option_eq_Some)
  have "Parse (host_api tc tm) junk (line_get ds) (c\<lparr>cm_db := gdb g\<rparr>) = Inr (0, say (x @ [10]) (c\<lparr>cm_db := s\<rparr>))"
    using line_get_Parse [OF assms(4-6), of "c\<lparr>cm_db := gdb g\<rparr>"] assms(2) s(1,5) by simp
  moreover have "keeps_server tc tm v sm ver g (with_db s g)"
    by (rule keeps_serverI [OF assms(1) on_disk_ops(3) [OF r(2) s(1)] s(2)]) (use s(3,4) r(3) in auto)
  ultimately show ?thesis using console_line_eq [of tc tm junk "line_get ds" g c 0] assms(2) s(4) by (fastforce simp: say_def)
qed

lemma console_set:
  assumes "ready tc tm v sm ver g" and "cm_hdb c = Some d" and "host_opened tm (gdb g) d n"
    and "list_all is_digit ds" and "ds \<noteq> []" and "db_value x" and "length ds < MAX_INPUT_LEN" and "length x < 1000"
  shows "\<exists>c' g'. console_line (host_env tc tm hdr fuel) junk (line_set ds x) c g = Inr (0, c', g')
    \<and> cm_hdb c' = Some d \<and> cm_out c' = cm_out c \<and> keeps_server tc tm v sm ver g g'
    \<and> host_table v (gdb g') = (host_table v (gdb g))(n := (host_table v (gdb g) n)(word_of_int (atoi ds) \<mapsto> x))"
proof -
  have r: "host_inv tc tm v (gdb g)" "err_ok (s_db (g_slave g))" "\<And>n k x. host_table v (gdb g) n k = Some x \<Longrightarrow> length x < APPENDSIZE"
    using assms(1) by (simp_all add: ready_def quiet_def)
  have x: "c_str x = x" using assms(6) by (intro c_str_idem) (simp add: db_value_def text_line_def)
  obtain s where s: "api_set (host_api tc tm) (Some d) (word_of_int (atoi ds)) x (gdb g) = Inr (0, s)" "host_inv tc tm v s"
    "host_opened tm s = host_opened tm (gdb g)"
    "host_table v s = (host_table v (gdb g))(n := (host_table v (gdb g) n)(word_of_int (atoi ds) \<mapsto> x))"
    using hdb.set [OF r(1) assms(3), of "word_of_int (atoi ds)" x] x by auto
  have "Parse (host_api tc tm) junk (line_set ds x) (c\<lparr>cm_db := gdb g\<rparr>) = Inr (0, c\<lparr>cm_db := s\<rparr>)"
    using line_set_Parse [OF assms(4-7), of "c\<lparr>cm_db := gdb g\<rparr>"] assms(2,8) s(1) by (simp add: MAX_INPUT_LEN_def)
  moreover have "keeps_server tc tm v sm ver g (with_db s g)"
    by (rule keeps_serverI [OF assms(1) on_disk_ops(2) [OF r(2) s(1)] s(2)])
      (use s(3,4) r(3) assms(8) in \<open>auto simp: packet_consts split: if_splits\<close>)
  ultimately show ?thesis using console_line_eq [of tc tm junk "line_set ds x" g c 0] assms(2) s(4) by fastforce
qed

section \<open>Properties\<close>

text \<open>C28: the prompt of a server and its clients work on one database: what a client's \<open>SET\<close> stored, by way of main
  thread, queue and worker, \<open>open\<close> and \<open>get\<close> at the prompt print; what \<open>set\<close> at the prompt stores answers a
  later \<open>GET\<close> of the client. The client's connection stays as it is.\<close>

theorem console_and_clients:
  assumes "ready tc tm v sm ver g" and "attached tm sm g fd d n" and "i < length (g_workers g)" and "j < length (g_workers g)"
    and "plain_request b1 ver" and "names SET key1 b1" and "0 \<in> set (GetAppend b1)"
    and "plain_request b2 ver" and "names GET key2 b2"
    and "cm_hdb c = None" and "db_name n" and "length n < MAX_INPUT_LEN"
    and "list_all is_digit ds" and "ds \<noteq> []" and "length ds < MAX_INPUT_LEN" and "(word_of_int (atoi ds) :: u32) = word_of_int key1"
    and "list_all is_digit es" and "es \<noteq> []" and "length es < MAX_INPUT_LEN" and "(word_of_int (atoi es) :: u32) = word_of_int key2"
    and "db_value x" and "length x < 1000"
  shows "\<exists>r1 g1 c2 g2 c3 g3 c4 g4 r5 g5.
      talk (host_env tc tm hdr fuel) sm ip0 i fd b1 g = Inr ([r1], g1)
    \<and> console_line (host_env tc tm hdr fuel) junk (line_open n) c g1 = Inr (0, c2, g2)
    \<and> console_line (host_env tc tm hdr fuel) junk (line_get ds) c2 g2 = Inr (0, c3, g3)
    \<and> cm_out c3 = cm_out c @ [Stdout (c_str (GetAppend b1) @ [10])]
    \<and> console_line (host_env tc tm hdr fuel) junk (line_set es x) c3 g3 = Inr (0, c4, g4)
    \<and> talk (host_env tc tm hdr fuel) sm ip0 j fd b2 g4 = Inr ([r5], g5)
    \<and> hd_cmd (GetHeader r5) = cmd_code GET_R \<and> c_str (GetAppend r5) = x \<and> attached tm sm g5 fd d n"
proof -
  obtain r1 g1 where 1: "talk (host_env tc tm hdr fuel) sm ip0 i fd b1 g = Inr ([r1], g1)" "ready tc tm v sm ver g1"
    "same_place g g1" "attached tm sm g1 = attached tm sm g"
    "host_table v (gdb g1) n (word_of_int key1) = Some (c_str (GetAppend b1))"
    using talk_set [OF assms(1-3,5-7), of hdr fuel ip0] by fastforce
  obtain d' c2 g2 where 2: "console_line (host_env tc tm hdr fuel) junk (line_open n) c g1 = Inr (0, c2, g2)" "cm_hdb c2 = Some d'"
    "cm_out c2 = cm_out c" "keeps_server tc tm v sm ver g1 g2" "host_opened tm (gdb g2) d' n" "host_table v (gdb g2) = host_table v (gdb g1)"
    using console_open [OF 1(2) assms(10-12), of hdr fuel junk] by blast
  have k2: "ready tc tm v sm ver g2" "g_workers g2 = g_workers g1" "attached tm sm g2 fd d n"
    using 2(4) 1(4) assms(2) by (simp_all add: keeps_server_def)
  obtain c3 g3 where 3: "console_line (host_env tc tm hdr fuel) junk (line_get ds) c2 g2 = Inr (0, c3, g3)" "cm_hdb c3 = Some d'"
    "cm_out c3 = cm_out c2 @ [Stdout (c_str (GetAppend b1) @ [10])]" "keeps_server tc tm v sm ver g2 g3"
    using console_get [OF k2(1) 2(2,5) assms(13-15), of "c_str (GetAppend b1)" hdr fuel junk] 1(5) 2(6) assms(16)
    by (auto simp: assms(16))
  have k3: "ready tc tm v sm ver g3" "g_workers g3 = g_workers g1" "attached tm sm g3 fd d n" "host_opened tm (gdb g3) d' n"
    using 3(4) k2 2(5) by (simp_all add: keeps_server_def)
  obtain c4 g4 where 4: "console_line (host_env tc tm hdr fuel) junk (line_set es x) c3 g3 = Inr (0, c4, g4)"
    "keeps_server tc tm v sm ver g3 g4" "host_table v (gdb g4) n (word_of_int key2) = Some x"
    using console_set [OF k3(1) 3(2) k3(4) assms(17,18,21,19,22), of hdr fuel junk] by (auto simp: assms(20))
  have k4: "ready tc tm v sm ver g4" "j < length (g_workers g4)" "attached tm sm g4 fd d n"
    using 4(2) k3 1(3) assms(4) by (simp_all add: keeps_server_def same_place_def)
  obtain r5 g5 where 5: "talk (host_env tc tm hdr fuel) sm ip0 j fd b2 g4 = Inr ([r5], g5)" "attached tm sm g5 = attached tm sm g4"
    "hd_cmd (GetHeader r5) = cmd_code GET_R" "c_str (GetAppend r5) = x"
    using talk_get [OF k4(1,3,2) assms(8,9), of hdr fuel ip0] by (auto simp: 4(3))
  then show ?thesis using 1(1) 2(1,3) 3(1,3) 4(1) k4(3) by fastforce
qed

abbreviation idle_console ::
  "bytes \<Rightarrow> (nat OpenedDB, (bytes \<times> nat OpenedDB) list db_state \<times> disk host) cmdline
    \<Rightarrow> ((bytes \<times> nat OpenedDB option ClientSockHandle) list, (bytes \<times> nat OpenedDB) list, nat OpenedDB, disk host) server
    \<Rightarrow> (int \<times> (nat OpenedDB, (bytes \<times> nat OpenedDB) list db_state \<times> disk host) cmdline
      \<times> ((bytes \<times> nat OpenedDB option ClientSockHandle) list, (bytes \<times> nat OpenedDB) list, nat OpenedDB, disk host) server) exec" where
  "idle_console \<equiv> console_line (host_env disk_db alist_mdb \<lparr>hd_size = 0, hd_cmd = 0, hd_key = 0, hd_version = 0\<rparr> 10) []"

theorem console_and_clients_witness:
  "\<exists>g r1 g1 c2 g2 c3 g3 c4 g4 r5 g5.
      idle_talk 0 (request2 SET 7 [72, 105, 0]) g = Inr ([r1], g1)
    \<and> idle_console (line_open a_db) \<lparr>cm_hdb = None, cm_name = [], cm_out = [], cm_db = (no_dbs, idle_host)\<rparr> g1 = Inr (0, c2, g2)
    \<and> idle_console (line_get (ascii ''7'')) c2 g2 = Inr (0, c3, g3) \<and> cm_out c3 = [Stdout [72, 105, 10]]
    \<and> idle_console (line_set (ascii ''8'') (ascii ''ok'')) c3 g3 = Inr (0, c4, g4)
    \<and> idle_talk 1 (request2 GET 8 []) g4 = Inr ([r5], g5) \<and> c_str (GetAppend r5) = ascii ''ok''"
proof -
  let ?hdr = "\<lparr>hd_size = 0, hd_cmd = 0, hd_key = 0, hd_version = 0\<rparr>"
  let ?c = "\<lparr>cm_hdb = None, cm_name = [], cm_out = [], cm_db = (no_dbs, idle_host)\<rparr>
    :: (nat OpenedDB, (bytes \<times> nat OpenedDB) list db_state \<times> disk host) cmdline"
  obtain g d where g: "ready disk_db alist_mdb disk_view alist_mdb 2 g" "attached alist_mdb alist_mdb g 5 d a_db" "length (g_workers g) = 2"
    using opened_server by blast
  have k: "int32 7" "int32 8" by (simp_all add: int32_def)
  have b1: "plain_request (request2 SET 7 [72, 105, 0]) 2" "names SET 7 (request2 SET 7 [72, 105, 0])"
    "GetAppend (request2 SET 7 [72, 105, 0]) = [72, 105, 0] @ zeros 1005"
    using request2_facts [OF k(1), of "[72, 105, 0]" SET] by simp_all
  have v: "0 \<in> set (GetAppend (request2 SET 7 [72, 105, 0]))" "c_str (GetAppend (request2 SET 7 [72, 105, 0])) = [72, 105]"
    by (simp_all add: b1(3) c_str_def)
  have b2: "plain_request (request2 GET 8 []) 2" "names GET 8 (request2 GET 8 [])"
    using request2_facts [OF k(2), of "[]" GET] by simp_all
  have n: "db_name a_db" unfolding db_name_def
    by (rule exI [of _ "[97]"], rule exI [of _ "[]"]) (simp add: a_db_def is_word_def to_lower_def)
  have nl: "length a_db < MAX_INPUT_LEN" by (simp add: a_db_def MAX_INPUT_LEN_def)
  have ds: "list_all is_digit (ascii ''7'')" "ascii ''7'' \<noteq> []" "length (ascii ''7'') < MAX_INPUT_LEN" "word_of_int (atoi (ascii ''7'')) = (word_of_int 7 :: u32)"
    "list_all is_digit (ascii ''8'')" "ascii ''8'' \<noteq> []" "length (ascii ''8'') < MAX_INPUT_LEN" "word_of_int (atoi (ascii ''8'')) = (word_of_int 8 :: u32)"
    by (simp_all add: ascii_def is_digit_def MAX_INPUT_LEN_def atoi_def decimal_def is_space_def to_s32_def)
  have x: "db_value (ascii ''ok'')" "length (ascii ''ok'') < 1000"
    by (simp_all add: db_value_def text_line_def ascii_def is_word_def to_lower_def)
  have w: "0 < length (g_workers g)" "1 < length (g_workers g)" by (simp_all add: g(3))
  have "cm_hdb ?c = None" by simp
  from console_and_clients [OF g(1,2) w b1(1,2) v(1) b2 this n nl ds(1-4) ds(5-8) x, of ?hdr 10 0 "[]"] show ?thesis
    unfolding v(2) by (fastforce simp: ascii_def)
qed

text \<open>C39: a second master on a machine, or a server started without arguments where port 5001 cannot be had,
  does not end with -1: \<open>main\<close> goes on as a slave, and without the two arguments it reads behind \<open>argv\<close> or
  converts \<open>NULL\<close>; with more than two it is a slave as if the rest had not been given.\<close>

theorem second_master_goes_on:
  assumes "InitializeService (e_os env) None 5001 w = (-1, lsock, w')" and "argv \<noteq> []" and "length argv \<noteq> 3"
  shows "server_main inet env sm junk wk0 create rnd slaves ip0 evs q0 s0 argv w =
    (if length argv = 1 then Inl OutOfBounds else if length argv = 2 then Inl NullDeref
     else server_main inet env sm junk wk0 create rnd slaves ip0 evs q0 s0 (take 3 argv) w')"
proof -
  have "length argv = 1 \<or> length argv = 2 \<or> 3 < length argv" using assms(2,3) length_greater_0_conv [of argv] by linarith
  then show ?thesis using assms(1)
    by (auto simp: server_main_def MasterProcess_def argv_at_def atoi_arg_def)
qed

theorem second_master_goes_on_witness:
  "\<exists>env :: (nat, (bytes \<times> nat OpenedDB) list, disk host) env. InitializeService (e_os env) None 5001 idle_host = (-1, 5, idle_host\<lparr>ho_next := 6\<rparr>)
    \<and> server_main (\<lambda>_. 0) env (alist_mdb :: (_, nat OpenedDB option ClientSockHandle) tcmdb) [] new_worker (\<lambda>_ w. (0, w)) 0 two_nodes 0 []
        \<lparr>q_nodes = [], q_head = 0, q_tail = 0\<rparr> a_slave [ascii ''server''] idle_host = Inl OutOfBounds"
proof -
  let ?env = "(host_env disk_db alist_mdb \<lparr>hd_size = 0, hd_cmd = 0, hd_key = 0, hd_version = 0\<rparr> 10)\<lparr>e_os := host_os\<lparr>n_bind := \<lambda>_ _ _ w. (-1, w)\<rparr>\<rparr>"
  have i: "InitializeService (e_os ?env) None 5001 idle_host = (-1, 5, idle_host\<lparr>ho_next := 6\<rparr>)"
    by (simp add: InitializeService_def host_os_def idle_host_def)
  have a: "[ascii ''server''] \<noteq> []" "length [ascii ''server''] \<noteq> 3" by simp_all
  show ?thesis
    by (rule exI [of _ ?env], rule conjI [OF i], subst second_master_goes_on [OF i a]) simp
qed

end
