(* ===== verification/Tests.thy ===== *)
theory Tests
  imports Slave ServerSocket ClientMain
begin

text \<open>
  The test drivers \<^verbatim>\<open>src/test\<close>, one \<open>main\<close> for each component. The result is what \<open>main\<close> returns; a
  failed \<open>assert\<close> is \<open>AssertFail\<close>. The lemmas run them on the model of what they test.
\<close>

section \<open>\<^verbatim>\<open>testProtocol.c\<close>\<close>

text \<open>\<open>hd0\<close> and \<open>buf\<close> are the uninitialised variables.\<close>

definition test_protocol :: "db_header \<Rightarrow> bytes \<Rightarrow> int exec" where
  "test_protocol hd0 buf =
    (let str = ascii ''Hello World!'';
         h = hd0\<lparr>hd_cmd := cmd_code SET, hd_key := 100\<rparr>;
         buf = WriteHeader buf h;
         buf = snd (Append buf (str @ [0]) (int (length str) + 1));
         phd = GetHeader buf in
     andThen (c_assert (hd_cmd phd = hd_cmd h)) (\<lambda>_.
     andThen (c_assert (hd_key phd = hd_key h)) (\<lambda>_.
     andThen (c_assert (c_str (GetAppend buf) = str)) (\<lambda>_. Inr 0))))"

lemma test_protocol_passes:
  assumes "header_ok hd0" and "packet_buf buf"
  shows "test_protocol hd0 buf = Inr 0"
proof -
  let ?h = "hd0\<lparr>hd_cmd := cmd_code SET, hd_key := 100\<rparr>" and ?d = "ascii ''Hello World!'' @ [0]"
  have h: "header_ok ?h" using assms(1) by (simp add: header_ok_def int32_def)
  have l: "length ?d \<le> APPENDSIZE" by (simp add: packet_consts)
  have e: "int (length (ascii ''Hello World!'')) + 1 = int (length ?d)" by simp
  have a: "Append (WriteHeader buf ?h) ?d (int (length ?d)) = (0, packet buf ?h ?d)" by (rule Append_packet [OF assms(2) l])
  have g: "GetHeader (packet buf ?h ?d) = ?h\<lparr>hd_size := 16 + int (length ?d)\<rparr>" by (rule GetHeader_packet [OF assms(2) h l])
  have s: "c_str (GetAppend (packet buf ?h ?d)) = ascii ''Hello World!''"
    by (simp only: GetAppend_packet [OF assms(2) l] append.assoc append_Cons append_Nil, rule c_str_append_nul) simp
  show ?thesis unfolding test_protocol_def Let_def e a snd_conv g s by (simp del: ascii_simps)
qed

section \<open>\<^verbatim>\<open>testMDB.c\<close>\<close>

text \<open>
  \<open>cs\<close> is the \<open>ClientSocket\<close> that is stored, of which only \<open>sock\<close> is set. The last \<open>assert\<close> is of the
  assignment \<open>pcs->sock = sock\<close>, whose value is \<open>sock\<close>, whatever was found.
\<close>

definition test_MDB :: "('k, 'v) tcmdb \<Rightarrow> (int \<Rightarrow> 'v) \<Rightarrow> int exec" where
  "test_MDB sm cs =
    (let sock = 1; mdb = MDBCreate sm; mdb = MDBSet sm mdb (int_bytes sock) (cs sock) in
     case MDBGet sm mdb (int_bytes sock) of
       None \<Rightarrow> Inl NullDeref
     | Some pcs \<Rightarrow> andThen (c_assert (sock \<noteq> 0)) (\<lambda>_. Inr 0))"

lemma test_MDB_passes: "tcmdb_laws sm \<Longrightarrow> test_MDB sm cs = Inr 0"
  by (simp add: test_MDB_def mdb.get_set)

section \<open>\<^verbatim>\<open>testCircularQueue.c\<close>\<close>

definition MAX_QUEUE_USELEN :: nat where "MAX_QUEUE_USELEN = MAX_QUEUE_LEN - 1"

definition with_sock :: "int \<Rightarrow> 'a QueueNode \<Rightarrow> 'a QueueNode" where
  "with_sock i q = q\<lparr>qn_hcsock := (qn_hcsock q)\<lparr>hc_sock := i\<rparr>\<rparr>"

function fill_loop :: "'a QueueNode \<Rightarrow> nat \<Rightarrow> 'a QueueNode queue \<Rightarrow> 'a QueueNode queue exec" where
  "fill_loop node i q =
    (if i < MAX_QUEUE_USELEN then
       (case EnQueue (with_sock (int i) node) q of Inl e \<Rightarrow> Inl e | Inr q \<Rightarrow> fill_loop node (i + 1) q)
     else Inr q)"
  by pat_completeness auto
termination by (relation "measure (\<lambda>(node, i, q). MAX_QUEUE_USELEN - i)") auto

declare fill_loop.simps [simp del]

text \<open>\<open>pq = DeQueue(); assert(pq->hcsock.sock == i)\<close>.\<close>

definition take_check :: "nat \<Rightarrow> 'a QueueNode queue \<Rightarrow> 'a QueueNode queue exec" where
  "take_check i q =
    andThen (DeQueue q) (\<lambda>(pq, q). andThen (c_assert (hc_sock (qn_hcsock (q_nodes q ! pq)) = int i)) (\<lambda>_. Inr q))"

function half_loop :: "nat \<Rightarrow> 'a QueueNode queue \<Rightarrow> (nat \<times> 'a QueueNode queue) exec" where
  "half_loop i q =
    (if i < MAX_QUEUE_USELEN div 2 then
       (case take_check i q of Inl e \<Rightarrow> Inl e | Inr q \<Rightarrow> half_loop (i + 1) q)
     else Inr (i, q))"
  by pat_completeness auto
termination by (relation "measure (\<lambda>(i, q). MAX_QUEUE_USELEN - i)") auto

declare half_loop.simps [simp del]

text \<open>The \<open>while\<close> loop takes at most as many nodes as fit; the fuel stands for its end.\<close>

fun rest_loop :: "nat \<Rightarrow> nat \<Rightarrow> 'a QueueNode queue \<Rightarrow> (nat \<times> 'a QueueNode queue) exec" where
  "rest_loop fuel i q =
    (if isQueueEmpty q then Inr (i, q)
     else case fuel of
       0 \<Rightarrow> Inl Hangs
     | Suc fuel \<Rightarrow> (case take_check i q of Inl e \<Rightarrow> Inl e | Inr q \<Rightarrow> rest_loop fuel (i + 1) q))"

declare rest_loop.simps [simp del]

definition test_queue :: "bytes \<Rightarrow> 'a QueueNode \<Rightarrow> 'a QueueNode queue \<Rightarrow> heap \<Rightarrow> int exec" where
  "test_queue junk node q hp =
    (let (q, hp) = InitQueue junk q hp in
     andThen (fill_loop node 0 q) (\<lambda>q.
     andThen (c_assert (isQueueFull q)) (\<lambda>_.
     andThen (half_loop 0 q) (\<lambda>(i, q).
     andThen (c_assert (\<not> isQueueFull q)) (\<lambda>_.
     andThen (rest_loop MAX_QUEUE_LEN i q) (\<lambda>(i, q).
     andThen (c_assert (i = MAX_QUEUE_USELEN)) (\<lambda>_. Inr 0)))))))"

lemma length_init_loop: "length (fst (init_loop junk n Q hp)) = length Q"
  by (induction junk n Q hp rule: init_loop.induct) (simp_all add: Let_def split: prod.split)

lemma fill_loop_spec:
  assumes "queue_ok q" and "i \<le> 9" and "waiting q = i"
  shows "\<exists>q'. fill_loop node i q = Inr q' \<and> queue_ok q' \<and> contents q' = contents q @ map (\<lambda>j. with_sock (int j) node) [i..<9]"
  using assms
proof (induction "9 - i" arbitrary: i q)
  case 0
  then show ?case by (subst fill_loop.simps) (simp add: MAX_QUEUE_USELEN_def MAX_QUEUE_LEN_def)
next
  case (Suc m)
  then have i: "i < 9" by simp
  obtain q1 where q1: "EnQueue (with_sock (int i) node) q = Inr q1" "queue_ok q1" "contents q1 = contents q @ [with_sock (int i) node]"
    using EnQueue_room [OF Suc.prems(1)] Suc.prems(3) i by metis
  then have "waiting q1 = i + 1" using length_contents [of q1] Suc.prems(3) by simp
  moreover have "m = 9 - (i + 1)" "i + 1 \<le> 9" using Suc.hyps(2) by simp_all
  ultimately obtain q' where
    "fill_loop node (i + 1) q1 = Inr q'" "queue_ok q'" "contents q' = contents q1 @ map (\<lambda>j. with_sock (int j) node) [i + 1..<9]"
    using Suc.hyps(1) [of "i + 1" q1] q1(2) by blast
  then show ?case using q1 i by (subst fill_loop.simps) (simp add: MAX_QUEUE_USELEN_def MAX_QUEUE_LEN_def upt_conv_Cons)
qed

lemma take_check_spec:
  assumes "queue_ok q" and "contents q = n # ns" and "hc_sock (qn_hcsock n) = int i"
  shows "\<exists>q'. take_check i q = Inr q' \<and> queue_ok q' \<and> contents q' = ns"
  using deq_node_some [OF assms(1,2)] assms(3) by (auto simp: deq_node_def take_check_def)

lemma half_loop_spec:
  assumes "queue_ok q" and "contents q = map (\<lambda>j. with_sock (int j) node) [i..<9]" and "i \<le> 4"
  shows "\<exists>q'. half_loop i q = Inr (4, q') \<and> queue_ok q' \<and> contents q' = map (\<lambda>j. with_sock (int j) node) [4..<9]"
  using assms
proof (induction "4 - i" arbitrary: i q)
  case 0
  then show ?case by (subst half_loop.simps) (simp add: MAX_QUEUE_USELEN_def MAX_QUEUE_LEN_def)
next
  case (Suc m)
  then have i: "i < 4" by simp
  then have "contents q = with_sock (int i) node # map (\<lambda>j. with_sock (int j) node) [i + 1..<9]"
    using Suc.prems(2) by (simp add: upt_conv_Cons)
  from take_check_spec [OF Suc.prems(1) this, of i] obtain q1 where
    q1: "take_check i q = Inr q1" "queue_ok q1" "contents q1 = map (\<lambda>j. with_sock (int j) node) [i + 1..<9]"
    by (auto simp: with_sock_def)
  with Suc.hyps(1) [of "i + 1" q1] Suc.hyps(2) i show ?case
    by (subst half_loop.simps) (simp add: MAX_QUEUE_USELEN_def MAX_QUEUE_LEN_def)
qed

lemma rest_loop_spec:
  assumes "queue_ok q" and "contents q = map (\<lambda>j. with_sock (int j) node) [i..<9]" and "i \<le> 9" and "9 - i < fuel"
  shows "\<exists>q'. rest_loop fuel i q = Inr (9, q')"
  using assms
proof (induction fuel arbitrary: i q)
  case (Suc fuel)
  have w: "waiting q = 9 - i" using Suc.prems(2) length_contents [of q] by simp
  show ?case
  proof (cases "i < 9")
    case False
    then show ?thesis using w Suc.prems(3) empty_iff [OF Suc.prems(1)] by (subst rest_loop.simps) simp
  next
    case True
    then have "contents q = with_sock (int i) node # map (\<lambda>j. with_sock (int j) node) [i + 1..<9]"
      using Suc.prems(2) by (simp add: upt_conv_Cons)
    from take_check_spec [OF Suc.prems(1) this, of i] obtain q1 where
      q1: "take_check i q = Inr q1" "queue_ok q1" "contents q1 = map (\<lambda>j. with_sock (int j) node) [i + 1..<9]"
      by (auto simp: with_sock_def)
    with Suc.IH [of q1 "i + 1"] Suc.prems(4) True w empty_iff [OF Suc.prems(1)] show ?thesis
      by (subst rest_loop.simps) simp
  qed
qed simp

lemma test_queue_passes:
  assumes "length (q_nodes q) = MAX_QUEUE_LEN" and "q_head q = 0" and "q_tail q = 0"
  shows "test_queue junk node q hp = Inr 0"
proof -
  obtain q0 hp0 where i: "InitQueue junk q hp = (q0, hp0)" by (cases "InitQueue junk q hp")
  have q0: "queue_ok q0" "contents q0 = []" "waiting q0 = 0"
    using i length_init_loop [of junk MAX_QUEUE_LEN "q_nodes q" hp] assms
    by (auto simp: InitQueue_def queue_ok_def contents_def waiting_def MAX_QUEUE_LEN_def split: prod.splits)
  obtain q1 where q1: "fill_loop node 0 q0 = Inr q1" "queue_ok q1" "contents q1 = map (\<lambda>j. with_sock (int j) node) [0..<9]"
    using fill_loop_spec [OF q0(1) _ q0(3), of node] q0(2) by auto
  obtain q2 where q2: "half_loop 0 q1 = Inr (4, q2)" "queue_ok q2" "contents q2 = map (\<lambda>j. with_sock (int j) node) [4..<9]"
    using half_loop_spec [OF q1(2,3)] by auto
  obtain q3 where q3: "rest_loop MAX_QUEUE_LEN 4 q2 = Inr (9, q3)"
    using rest_loop_spec [OF q2(2,3), of MAX_QUEUE_LEN] by (auto simp: MAX_QUEUE_LEN_def)
  have "waiting q1 = 9" "waiting q2 = 5" using length_contents [of q1] length_contents [of q2] q1(3) q2(3) by simp_all
  then show ?thesis
    using i q1(1) q2(1) q3 full_iff [OF q1(2)] full_iff [OF q2(2)]
    by (simp add: test_queue_def MAX_QUEUE_USELEN_def MAX_QUEUE_LEN_def)
qed

section \<open>\<^verbatim>\<open>testtcDB.c\<close>\<close>

text \<open>\<open>sprintf\<close> into \<open>value[10]\<close>; the results of the stores are not looked at.\<close>

function store_loop :: "('d, 's) db_api \<Rightarrow> 'd option \<Rightarrow> int \<Rightarrow> 's \<Rightarrow> 's exec" where
  "store_loop api db i s =
    (if i < 4000 then
       (case andThen (fits 10 (ascii (show_int i))) (\<lambda>str. api_set api db (word_of_int i) str s) of
          Inl e \<Rightarrow> Inl e
        | Inr (res, s) \<Rightarrow> store_loop api db (i + 1) s)
     else Inr s)"
  by pat_completeness auto
termination by (relation "measure (\<lambda>(api, db, i, s). nat (4000 - i))") auto

declare store_loop.simps [simp del]

definition test_tcDB :: "('d, 's) db_api \<Rightarrow> 's \<Rightarrow> (int \<times> 's) exec" where
  "test_tcDB api s =
    andThen (api_create api (ascii ''.//test//abc.db'') s) (\<lambda>(hdb, s).
    andThen (api_set api hdb 100 (ascii ''hello world'') s) (\<lambda>(ret, s).
    andThen (c_assert (ret = 0)) (\<lambda>_.
    andThen (api_get api hdb 100 s) (\<lambda>(getvalue, s).
    andThen (c_assert (getvalue \<noteq> None)) (\<lambda>_.
    andThen (api_del api hdb 100 s) (\<lambda>(ret, s).
    andThen (c_assert (ret = 0)) (\<lambda>_.
    andThen (api_create api (ascii ''a.db'') s) (\<lambda>(db, s).
    andThen (store_loop api db 0 s) (\<lambda>s. Inr (0, s))))))))))"

text \<open>The numbers that are stored have at most four digits.\<close>

lemma show_nat_digits: "x \<in> set (show_nat n) \<Longrightarrow> (48 :: nat) \<le> of_char x \<and> of_char x < (58 :: nat)"
proof (induction n rule: show_nat.induct)
  case (1 n)
  then show ?case by (subst (asm) (2) show_nat.simps) (auto simp: of_char_of split: if_splits)
qed

lemma length_show_nat: "n < 10 ^ Suc k \<Longrightarrow> length (show_nat n) \<le> Suc k"
proof (induction k arbitrary: n)
  case 0
  then show ?case by (subst show_nat.simps) simp
next
  case (Suc k)
  have "n div 10 < 10 ^ Suc k" using Suc.prems by (simp add: less_mult_imp_div_less)
  from Suc.IH [OF this] show ?case by (subst show_nat.simps) simp
qed

lemma decimal_fits:
  assumes "0 \<le> i" and "i < 4000"
  shows "fits 10 (ascii (show_int i)) = Inr (ascii (show_int i))" and "c_str (ascii (show_int i)) = ascii (show_int i)"
proof -
  have "length (show_nat (nat i)) \<le> Suc 3" using assms by (intro length_show_nat) simp
  then show "fits 10 (ascii (show_int i)) = Inr (ascii (show_int i))" using assms(1) by (simp add: fits_def show_int_def ascii_def)
  have "(word_of_nat (of_char c) :: byte) \<noteq> 0" if "c \<in> set (show_nat (nat i))" for c
  proof
    assume "(word_of_nat (of_char c) :: byte) = 0"
    then have "(256 :: nat) dvd of_char c" by (simp add: word_of_nat_eq_0_iff)
    then show False using show_nat_digits [OF that] by (auto dest: dvd_imp_le)
  qed
  then show "c_str (ascii (show_int i)) = ascii (show_int i)"
    using assms(1) by (intro c_str_idem) (auto simp: show_int_def ascii_def)
qed

context database
begin

lemma store_loop_stores:
  assumes "inv s" and "opened s d n" and "0 \<le> i" and "i \<le> 4000"
  shows "\<exists>s'. store_loop api (Some d) i s = Inr s' \<and> inv s' \<and> opened s' = opened s
    \<and> table s' = (table s)(n := \<lambda>k. if i \<le> uint k \<and> uint k < 4000 then Some (ascii (show_int (uint k))) else table s n k)"
  using assms
proof (induction "nat (4000 - i)" arbitrary: i s)
  case 0
  then have "i = 4000" by simp
  then show ?case using 0 by (subst store_loop.simps) (auto simp: fun_eq_iff)
next
  case (Suc m)
  then have i: "i < 4000" by simp
  let ?k = "word_of_int i :: u32" and ?x = "ascii (show_int i)"
  obtain s1 where s1: "api_set api (Some d) ?k ?x s = Inr (0, s1)" "inv s1" "opened s1 = opened s"
    "table s1 = (table s)(n := (table s n)(?k \<mapsto> ?x))"
    using set [OF Suc.prems(1,2), of ?k ?x] decimal_fits(2) [OF Suc.prems(3) i] by auto
  have "m = nat (4000 - (i + 1))" "0 \<le> i + 1" "i + 1 \<le> 4000" using Suc.hyps(2) Suc.prems(3) i by simp_all
  with Suc.hyps(1) [of "i + 1" s1] s1(2,3) Suc.prems(2) obtain s2 where s2: "store_loop api (Some d) (i + 1) s1 = Inr s2" "inv s2"
    "opened s2 = opened s1"
    "table s2 = (table s1)(n := \<lambda>k. if i + 1 \<le> uint k \<and> uint k < 4000 then Some (ascii (show_int (uint k))) else table s1 n k)"
    by auto
  have k: "uint ?k = i" using Suc.prems(3) i by (simp add: uint_word_of_int)
  have e: "k = ?k \<longleftrightarrow> uint k = i" for k :: u32 using k by (metis word_of_int_uint)
  have "table s2 = (table s)(n := \<lambda>k. if i \<le> uint k \<and> uint k < 4000 then Some (ascii (show_int (uint k))) else table s n k)"
    using i by (auto simp: s2(4) s1(4) fun_eq_iff e)
  moreover have "store_loop api (Some d) i s = Inr s2"
    using i decimal_fits(1) [OF Suc.prems(3) i] s1(1) s2(1) by (subst store_loop.simps) simp
  ultimately show ?case using s2(2,3) s1(3) by auto
qed

lemma test_passes:
  assumes "inv s"
  shows "\<exists>s'. test_tcDB api s = Inr (0, s') \<and> inv s'
    \<and> table s' = (table s)(ascii ''.//test//abc.db'' := (table s (ascii ''.//test//abc.db''))(100 := None),
        ascii ''a.db'' := \<lambda>k. if uint k < 4000 then Some (ascii (show_int (uint k))) else table s (ascii ''a.db'') k)"
proof -
  let ?n = "ascii ''.//test//abc.db''" and ?a = "ascii ''a.db''" and ?x = "ascii ''hello world''"
  obtain d s1 where s1: "api_create api ?n s = Inr (Some d, s1)" "inv s1" "opened s1 d ?n" "table s1 = table s"
    using create [OF assms] by blast
  obtain s2 r s3 where s2: "api_set api (Some d) 100 ?x s1 = Inr (0, s2)" "api_get api (Some d) 100 s2 = Inr (Some r, s3)"
    "inv s3" "opened s3 = opened s1" "table s3 = (table s1)(?n := (table s1 ?n)(100 \<mapsto> c_str ?x))"
    using set_get [OF s1(2,3), of 100 ?x] by blast
  have "opened s3 d ?n" "table s3 ?n 100 \<noteq> None" using s2(4,5) s1(3) by simp_all
  with del [OF s2(3), of d ?n 100] obtain s4 where s4: "api_del api (Some d) 100 s3 = Inr (0, s4)" "inv s4"
    "table s4 = (table s3)(?n := (table s3 ?n)(100 := None))" by auto
  obtain d' s5 where s5: "api_create api ?a s4 = Inr (Some d', s5)" "inv s5" "opened s5 d' ?a" "table s5 = table s4"
    using create [OF s4(2)] by blast
  obtain s6 where s6: "store_loop api (Some d') 0 s5 = Inr s6" "inv s6"
    "table s6 = (table s5)(?a := \<lambda>k. if 0 \<le> uint k \<and> uint k < 4000 then Some (ascii (show_int (uint k))) else table s5 ?a k)"
    using store_loop_stores [OF s5(2,3), of 0] by auto
  have "test_tcDB api s = Inr (0, s6)"
    using s1(1) s2(1,2) s4(1) s5(1) s6(1) by (simp add: test_tcDB_def del: ascii_simps)
  moreover have "?n \<noteq> ?a" by simp
  ultimately show ?thesis using s6(2) by (auto simp: s6(3) s5(4) s4(3) s2(5) s1(4) fun_eq_iff simp del: ascii_simps)
qed

end

section \<open>Properties\<close>

text \<open>C32: the test of the local database passes on \<^verbatim>\<open>tcDB.c\<close>: no \<open>assert\<close> fails, the buffer of ten characters
  holds every number, and afterwards \<open>a.db\<close> has each of the 4000 keys with its decimal
  representation, other keys and databases as they were, but for key 100 of the first database.\<close>

theorem test_tcDB_passes:
  assumes "tc_inv tc tm v s"
  shows "\<exists>s'. test_tcDB (tc_api tc tm) s = Inr (0, s') \<and> tc_inv tc tm v s'
    \<and> tc_table v s' = (tc_table v s)(ascii ''.//test//abc.db'' := (tc_table v s (ascii ''.//test//abc.db''))(100 := None),
        ascii ''a.db'' := \<lambda>k. if uint k < 4000 then Some (ascii (show_int (uint k))) else tc_table v s (ascii ''a.db'') k)"
  by (rule tcdb.test_passes [OF assms])

lemma show_3999: "show_int 3999 = ''3999''"
  by code_simp

theorem test_tcDB_passes_witness:
  "\<exists>s'. test_tcDB (tc_api disk_db alist_mdb) (no_dbs, two_records) = Inr (0, s')
    \<and> tc_table disk_view s' (ascii ''a.db'') 3999 = Some (ascii ''3999'')"
proof -
  have "tc_inv disk_db alist_mdb disk_view (no_dbs, two_records)" using two_records_facts by (simp add: tc_inv_def)
  note passes = test_tcDB_passes [OF this]
  have "\<exists>s'. test_tcDB (tc_api disk_db alist_mdb) (no_dbs, two_records) = Inr (0, s')
    \<and> tc_table disk_view s' (ascii ''a.db'') 3999 = Some (ascii (show_int 3999))"
    by (rule ex_forward [OF passes], elim conjE, intro conjI, assumption, erule ssubst) (simp del: ascii_simps)
  then show ?thesis unfolding show_3999 .
qed

end
