(* ===== verification/Newcomer.thy ===== *)
theory Newcomer
  imports Departure
begin

text \<open>
  The start of a slave, \<open>InitialSlave\<close> of \<^verbatim>\<open>server/slave.c\<close>, on a machine as in \<open>HandOver\<close>: it registers with
  the master, fetches its part of the database from the slave before it, and its backups. On an alarm of the master it
  fetches them again.
\<close>

section \<open>The steps\<close>

lemma register_runs:
  assumes t: "talks fs env 3 s" and p: "packet_buf p" "hd_cmd (GetHeader p) = cmd_code ADD_SLAVE_R"
  shows "RegisterAndLoadSlaves env 3 s (u\<lparr>inbox := p # rest, outbox := out\<rparr>)
    = Inr (s\<lparr>s_xbuf := p, s_pos := hd_key (GetHeader p), s_slaves := bytes_list (GetAppend p)\<rparr>,
        u\<lparr>inbox := rest, outbox := out @ [packet_over env ADD_SLAVE (s_port s) [] (s_xbuf s)]\<rparr>)"
  using exchange_party [OF t _ _ p(1), of "[]" "u\<lparr>inbox := p # rest, outbox := out\<rparr>" rest ADD_SLAVE "s_port s"] p(2)
  by (simp add: RegisterAndLoadSlaves_def reply_def)

lemma notify_runs:
  assumes t: "talks fs env 3 s" and pos: "pos_ok s" "3 \<le> sl_num (s_slaves s)"
    and p: "packet_buf p" "hd_cmd (GetHeader p) = cmd_code UPDATE_BACKUP2_R"
  shows "Notify2ndPreUpdateBackup2 env s (u\<lparr>inbox := p # rest, outbox := out\<rparr>)
    = Inr (0, s\<lparr>s_xbuf := p\<rparr>, u\<lparr>inbox := rest, outbox := out @ [packet_over env UPDATE_BACKUP2 0 [] (s_xbuf s)],
        dials := dials u @ [slave_addr (-2) s]\<rparr>)"
proof -
  have i: "0 \<le> s_pos s" "s_pos s < sl_num (s_slaves s)" using pos(1) by (simp_all add: pos_ok_def)
  then have "0 \<le> other_pos (-2) s" "other_pos (-2) s < sl_num (s_slaves s)"
    using c_rem_bounds [of "s_pos s + -2 + sl_num (s_slaves s)" "sl_num (s_slaves s)"] pos(2) by (simp_all add: other_pos_def)
  then obtain n where n: "get_node (sl_nodes (s_slaves s)) (other_pos (-2) s) = Inr n"
    using pos(1) by (auto simp: get_node_def pos_ok_def list_ok_def)
  have o: "other_pos (-2) s \<noteq> s_pos s" using pos(2) by (intro other_pos_ne [OF pos(1)]) simp_all
  let ?u = "u\<lparr>inbox := p # rest, outbox := out\<rparr>"
  have "slave_addr (-2) s = (sn_ip n, sn_port n)" using n by (auto simp: slave_addr_def node_at_def get_node_def split: if_splits)
  then have con: "OpenRemoteService2 (party_os fs) (sn_ip n) (sn_port n) ?u = (0, 3, ?u\<lparr>dials := dials u @ [slave_addr (-2) s]\<rparr>)"
    by (simp add: OpenRemoteService2_def OpenRemoteService_def party_os_def)
  show ?thesis
    using exchange_party [OF t _ _ p(1), of "[]" "?u\<lparr>dials := dials u @ [slave_addr (-2) s]\<rparr>" rest UPDATE_BACKUP2 0] p(2) n o i
    by (simp add: Notify2ndPreUpdateBackup2_def CommunicateToSlave_def other_pos_def talksD(2) [OF t] con reply_def CloseRemoteService_def n_close_party)
qed

lemma backup_fetched:
  assumes env: "env = node_env fs tc tm hdr fuel" and t: "talks fs env 3 s" and pos: "pos_ok s" and k: "k = 1 \<or> k = 2" "k < sl_num (s_slaves s)"
    and f: "sent_file fuel BACKUP_R m data pk"
  shows "\<exists>b msgs. packet_buf b \<and> asks_for BACKUP data msgs \<and> BackupForOtherSlave env k s (u\<lparr>inbox := pk @ rest, outbox := out\<rparr>)
      = Inr (0, s\<lparr>s_xbuf := b\<rparr>, u\<lparr>inbox := rest, outbox := out @ msgs,
          pdisk := fs_put fs (if k = 1 then backup_name m else backup2_name m) data (pdisk u), dials := dials u @ [slave_addr k s]\<rparr>)"
proof -
  obtain h ps where p: "pk = h # ps" "file_packets BACKUP_R m data h ps" "0 \<notin> set m" "length m < 100" "length (chunks data) \<le> fuel"
    using f by (auto simp: sent_file_def)
  have "GetFileName (if k = -1 then 0 else k) m = Inr (if k = 1 then backup_name m else backup2_name m)"
    using k(1) GetFileName_backups [OF p(4)] by auto
  moreover have "other_pos k s \<noteq> s_pos s" "-1 \<le> k" using k other_pos_ne [OF pos, of k] by auto
  ultimately obtain b where "packet_buf b" "CommunicateToSlave env k BACKUP 0 BACKUP_R s (u\<lparr>inbox := h # ps @ rest, outbox := out\<rparr>)
      = Inr (0, s\<lparr>s_xbuf := b\<rparr>, u\<lparr>inbox := rest, outbox := out @ packet_over env BACKUP 0 [] (s_xbuf s) # recv_outs env h ps @ [farewell env],
          pdisk := fs_put fs (if k = 1 then backup_name m else backup2_name m) data (pdisk u), dials := dials u @ [slave_addr k s]\<rparr>)"
    using fetch_rest [OF env t pos _ _ p(2,3) _ p(5), where c = BACKUP and key = 0 and u = u and out = out and rest = rest] by blast
  moreover have "asks_for BACKUP data (packet_over env BACKUP 0 [] (s_xbuf s) # recv_outs env h ps @ [farewell env])"
    by (rule asks_for_file [OF t p(2)]) (simp add: int32_def)
  ultimately show ?thesis unfolding p(1) BackupForOtherSlave_def by fastforce
qed

lemma backups_differ: "backup_name a \<noteq> backup2_name b"
proof -
  have "take 7 (backup_name a) \<noteq> take 7 (backup2_name b)"
    by (simp add: backup_name_def backup2_name_def BACKUP1_DIR_def BACKUP2_DIR_def)
  then show ?thesis by metis
qed

lemma party_order:
  "w\<lparr>pdisk := d, inbox := i, outbox := x\<rparr> = w\<lparr>inbox := i, outbox := x, pdisk := d\<rparr>"
  "w\<lparr>dials := a, inbox := i, outbox := x\<rparr> = w\<lparr>inbox := i, outbox := x, dials := a\<rparr>"
  by simp_all

text \<open>A list of three.\<close>

definition three_nodes :: SlaveList where
  "three_nodes = two_nodes\<lparr>sl_num := 3, sl_nodes := (sl_nodes two_nodes)[2 := \<lparr>sn_ip = 16777343, sn_port = 4003, sn_sock = 7, sn_key = 3000\<rparr>]\<rparr>"

section \<open>Properties\<close>

text \<open>What comes after the first backup: with more than two slaves the answer of the second predecessor and the second backup.\<close>

definition second_stage :: "nat \<Rightarrow> int \<Rightarrow> bytes \<Rightarrow> bytes \<Rightarrow> bytes list \<Rightarrow> bool" where
  "second_stage fuel n m data rest \<longleftrightarrow>
    (if n = 2 then rest = []
     else \<exists>p pk. rest = p # pk \<and> packet_buf p \<and> hd_cmd (GetHeader p) = cmd_code UPDATE_BACKUP2_R \<and> sent_file fuel BACKUP_R m data pk)"

text \<open>What the newcomer sends then, and to whom: the second predecessor is told, the second successor is asked.\<close>

definition second_asks :: "int \<Rightarrow> bytes \<Rightarrow> bytes list \<Rightarrow> bool" where
  "second_asks n data msgs \<longleftrightarrow>
    (if n = 2 then msgs = []
     else \<exists>q ms. msgs = q # ms \<and> hd_cmd (GetHeader q) = cmd_code UPDATE_BACKUP2 \<and> asks_for BACKUP data ms)"

definition second_dials :: "'m slave \<Rightarrow> (int \<times> int) list" where
  "second_dials s = (if sl_num (s_slaves s) = 2 then [] else [slave_addr (-2) s, slave_addr 2 s])"

lemma second_dials_same [simp]: "second_dials (s\<lparr>s_xbuf := b\<rparr>) = second_dials s"
  by (simp add: second_dials_def)

lemma second_stage_runs:
  assumes env: "env = node_env fs tc tm hdr fuel" and t: "talks fs env 3 s" and pos: "pos_ok s" "2 \<le> sl_num (s_slaves s)"
    and f: "second_stage fuel (sl_num (s_slaves s)) m data rest"
  shows "\<exists>b msgs. second_asks (sl_num (s_slaves s)) data msgs \<and> (if sl_num (s_slaves s) > 2 then
        andThen (Notify2ndPreUpdateBackup2 env s (u\<lparr>inbox := rest, outbox := out\<rparr>)) (\<lambda>(_, s, w).
        andThen (BackupForOtherSlave env 2 s w) (\<lambda>(_, s, w). Inr (0 :: int, s, w)))
      else Inr (0, s, u\<lparr>inbox := rest, outbox := out\<rparr>))
    = Inr (0, s\<lparr>s_xbuf := b\<rparr>, u\<lparr>inbox := [], outbox := out @ msgs,
        pdisk := (if sl_num (s_slaves s) > 2 then fs_put fs (backup2_name m) data (pdisk u) else pdisk u),
        dials := dials u @ second_dials s\<rparr>)"
proof (cases "sl_num (s_slaves s) = 2")
  case True
  then have "rest = []" using f by (simp add: second_stage_def)
  moreover have "s = s\<lparr>s_xbuf := s_xbuf s\<rparr>" "u\<lparr>inbox := [], outbox := out\<rparr> = u\<lparr>inbox := [], outbox := out @ [], pdisk := pdisk u, dials := dials u\<rparr>" by simp_all
  ultimately show ?thesis using True by (intro exI [of _ "s_xbuf s"] exI [of _ "[]"]) (simp add: second_asks_def second_dials_def)
next
  case False
  then obtain p pk where p: "rest = p # pk" "packet_buf p" "hd_cmd (GetHeader p) = cmd_code UPDATE_BACKUP2_R" "sent_file fuel BACKUP_R m data pk"
    using f by (auto simp: second_stage_def)
  have n: "3 \<le> sl_num (s_slaves s)" using False pos(2) by simp
  let ?s = "s\<lparr>s_xbuf := p\<rparr>"
  have s: "talks fs env 3 ?s" "pos_ok ?s" "2 < sl_num (s_slaves ?s)" using t p(2) pos(1) n by (simp_all add: pos_ok_def)
  let ?q = "packet_over env UPDATE_BACKUP2 0 [] (s_xbuf s)" and ?u = "u\<lparr>dials := dials u @ [slave_addr (-2) s]\<rparr>"
  from backup_fetched [OF env s(1,2) _ s(3) p(4), where u = ?u and rest = "[]" and out = "out @ [?q]"] obtain b msgs where
    b: "asks_for BACKUP data msgs" "BackupForOtherSlave env 2 ?s (?u\<lparr>inbox := pk, outbox := out @ [?q]\<rparr>)
      = Inr (0, s\<lparr>s_xbuf := b\<rparr>, ?u\<lparr>inbox := [], outbox := (out @ [?q]) @ msgs, pdisk := fs_put fs (backup2_name m) data (pdisk u),
          dials := (dials u @ [slave_addr (-2) s]) @ [slave_addr 2 s]\<rparr>)"
    by auto
  have "hd_cmd (GetHeader ?q) = cmd_code UPDATE_BACKUP2"
    using packet_over_facts(2) [OF talksD(4,5) [OF t], of "[]" 0 UPDATE_BACKUP2] by (simp add: int32_def)
  then have "second_asks (sl_num (s_slaves s)) data (?q # msgs)" using b(1) n by (simp add: second_asks_def)
  moreover have "u\<lparr>inbox := pk, outbox := out @ [?q], dials := dials u @ [slave_addr (-2) s]\<rparr> = ?u\<lparr>inbox := pk, outbox := out @ [?q]\<rparr>" by simp
  ultimately show ?thesis using notify_runs [OF t pos(1) n p(2,3), where u = u and rest = pk and out = out] n b(2)
    by (intro exI [of _ b] exI [of _ "?q # msgs"]) (simp add: p(1) second_dials_def party_order)
qed

text \<open>C10: a slave that starts gets its place and its data: when the master answers the registration with the list and the
  slave's index, and its neighbours what it asks them for, \<open>InitialSlave\<close> returns 0; the slave has that list and that
  index, under their names the database that its predecessor handed over and the backups of its successor and second
  successor (there is none of the latter among two slaves), and it has read all that was sent to it. It has connected to
  the master, to its predecessor, to its successor, to its second predecessor and to its second successor, by their
  addresses in the list, and has sent its port with \<open>ADD_SLAVE\<close>, then \<open>CLIP_DATA\<close>, \<open>BACKUP\<close>, \<open>UPDATE_BACKUP2\<close> and
  \<open>BACKUP\<close>.\<close>

theorem newcomer_starts:
  assumes "talks fs (node_env fs tc tm hdr fuel) 3 s" and "packet_buf p" and "hd_cmd (GetHeader p) = cmd_code ADD_SLAVE_R"
    and "bytes_list (GetAppend p) = sl" and "ring_list sl" and "2 \<le> sl_num sl" and "0 \<le> hd_key (GetHeader p)" and "hd_key (GetHeader p) < sl_num sl"
    and "sent_file fuel CLIP_DATA_R m data pk" and "47 \<notin> set m"
    and "sent_file fuel BACKUP_R m1 data1 pk1" and "second_stage fuel (sl_num sl) m2 data2 rest"
  shows "\<exists>s' w' q o1 o2 o3.
    InitialSlave (node_env fs tc tm hdr fuel) addr port s (u\<lparr>inbox := p # pk @ pk1 @ rest, outbox := []\<rparr>) = Inr (0, s', w')
    \<and> s_slaves s' = sl \<and> s_pos s' = hd_key (GetHeader p) \<and> s_port s' = 4000 \<and> inbox w' = []
    \<and> dials w' = dials u @ ((case addr of Some a \<Rightarrow> a | None \<Rightarrow> LOCAL_ADDR), port) # slave_addr (-1) s' # slave_addr 1 s' # second_dials s'
    \<and> outbox w' = q # o1 @ o2 @ o3 \<and> hd_cmd (GetHeader q) = cmd_code ADD_SLAVE \<and> hd_key (GetHeader q) = 4000
    \<and> asks_for CLIP_DATA data o1 \<and> asks_for BACKUP data1 o2 \<and> second_asks (sl_num sl) data2 o3
    \<and> fs_read fs m (pdisk w') = Some data \<and> fs_read fs (backup_name m1) (pdisk w') = Some data1
    \<and> fs_read fs (backup2_name m2) (pdisk w') = (if sl_num sl = 2 then fs_read fs (backup2_name m2) (pdisk u) else Some data2)"
proof -
  let ?env = "node_env fs tc tm hdr fuel" and ?i = "hd_key (GetHeader p)"
  note t = talksD [OF assms(1)]
  let ?s0 = "s\<lparr>s_port := 4000, s_master_sock := 3\<rparr>"
  let ?s1 = "?s0\<lparr>s_xbuf := p, s_pos := ?i, s_slaves := sl\<rparr>"
  let ?q0 = "packet_over ?env ADD_SLAVE 4000 [] (s_xbuf s)"
  let ?a0 = "((case addr of Some a \<Rightarrow> a | None \<Rightarrow> LOCAL_ADDR), port)"
  let ?u1 = "u\<lparr>dials := dials u @ [?a0]\<rparr>"
  have t0: "talks fs ?env 3 ?s0" using assms(1) by (simp add: talks_def)
  have reg: "RegisterAndLoadSlaves ?env 3 ?s0 (?u1\<lparr>inbox := p # pk @ pk1 @ rest, outbox := []\<rparr>) = Inr (?s1, ?u1\<lparr>inbox := pk @ pk1 @ rest, outbox := [?q0]\<rparr>)"
    using register_runs [OF t0 assms(2,3), where u = ?u1 and rest = "pk @ pk1 @ rest" and out = "[]"] assms(4) by simp
  have q0: "hd_cmd (GetHeader ?q0) = cmd_code ADD_SLAVE" "hd_key (GetHeader ?q0) = 4000"
    using packet_over_facts(2,3) [OF t(4,5), of "[]" 4000 ADD_SLAVE] by (simp_all add: int32_def)
  have p1: "talks fs ?env 3 ?s1" "pos_ok ?s1" "ring_list (s_slaves ?s1)" "2 \<le> sl_num (s_slaves ?s1)"
    using assms(1,2,5-8) by (simp_all add: talks_def pos_ok_def ring_list_def)
  obtain h ps where f: "pk = h # ps" "file_packets CLIP_DATA_R m data h ps" "0 \<notin> set m" "length m < 100" "length (chunks data) \<le> fuel"
    using assms(9) by (auto simp: sent_file_def)
  obtain key b1 where clip: "int32 key" "packet_buf b1" "ClipDataFromPre ?env ?s1 (?u1\<lparr>inbox := pk @ pk1 @ rest, outbox := [?q0]\<rparr>)
      = Inr (0, ?s1\<lparr>s_xbuf := b1\<rparr>, ?u1\<lparr>inbox := pk1 @ rest, outbox := [?q0] @ packet_over ?env CLIP_DATA key [] (s_xbuf ?s1) # recv_outs ?env h ps @ [farewell ?env],
          pdisk := fs_put fs m data (pdisk u), dials := dials ?u1 @ [slave_addr (-1) ?s1]\<rparr>)"
    using taker_rest [OF refl p1 f(2-5), where u = ?u1 and rest = "pk1 @ rest" and out = "[?q0]"] unfolding f(1) append_Cons by auto
  define o1 where "o1 = packet_over ?env CLIP_DATA key [] (s_xbuf ?s1) # recv_outs ?env h ps @ [farewell ?env]"
  have o1: "asks_for CLIP_DATA data o1" unfolding o1_def by (rule asks_for_file [OF p1(1) f(2) clip(1)])
  let ?s2 = "?s1\<lparr>s_xbuf := b1\<rparr>" and ?u2 = "u\<lparr>pdisk := fs_put fs m data (pdisk u), dials := dials u @ [?a0, slave_addr (-1) ?s1]\<rparr>"
  have p2: "talks fs ?env 3 ?s2" "pos_ok ?s2" "1 < sl_num (s_slaves ?s2)" using p1 clip(2) by (simp_all add: pos_ok_def talks_def)
  obtain b2 o2 where bk: "packet_buf b2" "asks_for BACKUP data1 o2" "BackupForOtherSlave ?env 1 ?s2 (?u2\<lparr>inbox := pk1 @ rest, outbox := [?q0] @ o1\<rparr>)
      = Inr (0, ?s2\<lparr>s_xbuf := b2\<rparr>, ?u2\<lparr>inbox := rest, outbox := ([?q0] @ o1) @ o2, pdisk := fs_put fs (backup_name m1) data1 (pdisk ?u2),
          dials := dials ?u2 @ [slave_addr 1 ?s2]\<rparr>)"
    using backup_fetched [OF refl p2(1,2) _ p2(3) assms(11), where u = ?u2 and rest = rest and out = "[?q0] @ o1"] by auto
  let ?s3 = "?s2\<lparr>s_xbuf := b2\<rparr>"
    and ?u3 = "u\<lparr>pdisk := fs_put fs (backup_name m1) data1 (fs_put fs m data (pdisk u)), dials := dials u @ [?a0, slave_addr (-1) ?s1, slave_addr 1 ?s1]\<rparr>"
  have p3: "talks fs ?env 3 ?s3" "pos_ok ?s3" "2 \<le> sl_num (s_slaves ?s3)" "second_stage fuel (sl_num (s_slaves ?s3)) m2 data2 rest"
    using p2 bk(1) assms(6,12) by (simp_all add: pos_ok_def talks_def)
  obtain b3 o3 where last: "second_asks (sl_num sl) data2 o3" "(if sl_num (s_slaves ?s3) > 2 then
        andThen (Notify2ndPreUpdateBackup2 ?env ?s3 (?u3\<lparr>inbox := rest, outbox := ([?q0] @ o1) @ o2\<rparr>)) (\<lambda>(_, s, w).
        andThen (BackupForOtherSlave ?env 2 s w) (\<lambda>(_, s, w). Inr (0 :: int, s, w)))
      else Inr (0, ?s3, ?u3\<lparr>inbox := rest, outbox := ([?q0] @ o1) @ o2\<rparr>))
    = Inr (0, ?s3\<lparr>s_xbuf := b3\<rparr>, ?u3\<lparr>inbox := [], outbox := (([?q0] @ o1) @ o2) @ o3,
        pdisk := (if sl_num (s_slaves ?s3) > 2 then fs_put fs (backup2_name m2) data2 (pdisk ?u3) else pdisk ?u3), dials := dials ?u3 @ second_dials ?s3\<rparr>)"
    using second_stage_runs [OF refl p3, where u = ?u3 and out = "([?q0] @ o1) @ o2"] by auto
  let ?s = "?s3\<lparr>s_xbuf := b3\<rparr>" and ?w = "?u3\<lparr>inbox := [], outbox := (([?q0] @ o1) @ o2) @ o3,
        pdisk := (if sl_num sl > 2 then fs_put fs (backup2_name m2) data2 (pdisk ?u3) else pdisk ?u3), dials := dials ?u3 @ second_dials ?s3\<rparr>"
  have at: "slave_addr k (s'\<lparr>s_xbuf := b, s_pos := i, s_slaves := l\<rparr>) = slave_addr k (s'\<lparr>s_pos := i, s_slaves := l\<rparr>)" for k s' b i l
    by (simp add: slave_addr_def other_pos_def)
  have run: "InitialSlave ?env addr port s (u\<lparr>inbox := p # pk @ pk1 @ rest, outbox := []\<rparr>) = Inr (0, ?s, ?w)"
    using reg clip(3) [folded o1_def] bk(3) last(2) assms(6)
    by (cases "2 < sl_num sl") (simp_all add: InitialSlave_def GetPort_def OpenRemoteService_def party_os_def Let_def party_order at)
  have "m \<noteq> backup_name m1" "m \<noteq> backup2_name m2" using assms(10) backup_dirs by metis+
  then have disk: "fs_read fs m (pdisk ?w) = Some data" "fs_read fs (backup_name m1) (pdisk ?w) = Some data1"
    "fs_read fs (backup2_name m2) (pdisk ?w) = (if sl_num sl = 2 then fs_read fs (backup2_name m2) (pdisk u) else Some data2)"
    using backups_differ [of m1 m2] fs_okD(1) [OF t(1)] assms(6) by auto
  have "dials ?w = dials u @ ?a0 # slave_addr (-1) ?s # slave_addr 1 ?s # second_dials ?s" by (simp add: at)
  then show ?thesis using run q0 o1 bk(2) last(1) disk
    by (intro exI [of _ ?s] exI [of _ ?w] exI [of _ ?q0] exI [of _ o1] exI [of _ o2] exI [of _ o3] conjI) simp_all
qed

text \<open>The second of two slaves.\<close>

theorem newcomer_starts_witness:
  "\<exists>msgs s' w'. InitialSlave (node_env byte_fs byte_db alist_mdb (e_hdr feed_env) 1) None 5001 a_slave
      \<lparr>inbox = msgs, outbox = [], pdisk = no_bytes, dials = []\<rparr> = Inr (0, s', w')
    \<and> s_slaves s' = two_nodes \<and> s_pos s' = 1 \<and> inbox w' = []
    \<and> fs_read byte_fs a_db (pdisk w') = Some (enc_recs [(key_bytes 3000, [66, 0])])
    \<and> fs_read byte_fs (backup_name a_db) (pdisk w') = Some (enc_recs [(key_bytes 500, [65, 0])])"
proof -
  let ?env = "node_env byte_fs byte_db alist_mdb (e_hdr feed_env) 1"
  let ?u = "\<lparr>inbox = [], outbox = [], pdisk = no_bytes, dials = []\<rparr> :: bdisk party"
  let ?h = "(e_hdr feed_env)\<lparr>hd_cmd := cmd_code ADD_SLAVE_R, hd_key := 1\<rparr>"
  define p where "p = packet (zeros MAX_BUF_LEN) ?h (list_bytes two_nodes)"
  have z: "packet_buf (zeros MAX_BUF_LEN)" by (simp add: packet_buf_def MAX_BUF_LEN_def packet_consts)
  have h: "header_ok ?h" by (simp add: header_ok_def feed_env_def int32_def)
  have d: "length (list_bytes two_nodes) \<le> APPENDSIZE" using length_list_bytes [OF two_nodes_ok(1)] SLAVELIST_fits by simp
  have p: "packet_buf p" "hd_cmd (GetHeader p) = cmd_code ADD_SLAVE_R" "hd_key (GetHeader p) = 1" "bytes_list (GetAppend p) = two_nodes"
    using two_nodes_ok by (simp_all add: p_def packet_buf_packet [OF z d] GetHeader_packet [OF z h d] GetAppend_packet [OF z d]
        bytes_list_list_bytes list_all_iff)
  have t: "talks byte_fs ?env 3 a_slave" using a_slave_talks [of 3 1 0] by (simp add: a_slave_def)
  have g: "ring_list two_nodes" "2 \<le> sl_num two_nodes" "sl_num two_nodes = 2" using two_nodes_ring by (simp_all add: two_nodes_def)
  obtain pk pk1 where f: "sent_file 1 CLIP_DATA_R a_db (enc_recs [(key_bytes 3000, [66, 0])]) pk"
    "sent_file 1 BACKUP_R a_db (enc_recs [(key_bytes 500, [65, 0])]) pk1"
    using a_file [OF one_record_small(1), of 3000 66 1 CLIP_DATA_R] a_file [OF one_record_small(1), of 500 65 1 BACKUP_R]
    by (metis one_record_small(2) order_refl)
  have m: "47 \<notin> set a_db" and r: "second_stage 1 (sl_num two_nodes) [] [] []" by (simp_all add: a_db_def second_stage_def g(3))
  have "0 \<le> hd_key (GetHeader p)" "hd_key (GetHeader p) < sl_num two_nodes" using p(3) g(3) by simp_all
  from newcomer_starts [OF t p(1,2,4) g(1,2) this f(1) m f(2) r, of None 5001 ?u] p(3) show ?thesis
    by (auto simp del: append_assoc)
qed

text \<open>C11: every alarm of the master brings a slave's backups up to date: on \<open>UPDATE_BACKUP12\<close> it connects to its successor
  and then to its second successor, by their addresses in the list, and to no other; it sends each of them \<open>BACKUP\<close> and an
  acknowledgement for every packet, puts the file of the first one into the first backup and that of the second into the second,
  then answers; nothing else changes, and as long as the backups are not in use they have the records of those files.\<close>

theorem alarm_refreshes_backups:
  assumes "file_laws fs tc v recs" and "talks fs (node_env fs tc tm hdr fuel) 3 s" and "s_master_sock s \<noteq> -1" and "pos_ok s" and "3 \<le> sl_num (s_slaves s)"
    and "packet_buf p" and "hd_cmd (GetHeader p) = cmd_code UPDATE_BACKUP12"
    and "sent_file fuel BACKUP_R m1 data1 pk1" and "sent_file fuel BACKUP_R m2 data2 pk2"
    and "closed v (pdisk u) (backup_name m1)" and "closed v (pdisk u) (backup2_name m2)"
  shows "\<exists>b o1 o2 a d. HandleMasterRequest (node_env fs tc tm hdr fuel) s (u\<lparr>inbox := p # pk1 @ pk2, outbox := []\<rparr>)
      = Inr (s\<lparr>s_xbuf := b\<rparr>, u\<lparr>inbox := [], outbox := o1 @ o2 @ [a], pdisk := d,
          dials := dials u @ [slave_addr 1 s, slave_addr 2 s]\<rparr>)
    \<and> asks_for BACKUP data1 o1 \<and> asks_for BACKUP data2 o2
    \<and> hd_cmd (GetHeader a) = cmd_code UPDATE_BACKUP12_R
    \<and> fs_read fs (backup_name m1) d = Some data1 \<and> fs_read fs (backup2_name m2) d = Some data2
    \<and> hnd v d = hnd v (pdisk u) \<and> fil v d = (fil v (pdisk u))(backup_name m1 := recs data1, backup2_name m2 := recs data2)"
proof -
  let ?env = "node_env fs tc tm hdr fuel" and ?b1 = "backup_name m1" and ?b2 = "backup2_name m2"
  let ?d1 = "fs_put fs ?b1 data1 (pdisk u)" and ?d = "fs_put fs ?b2 data2 (fs_put fs ?b1 data1 (pdisk u))"
  note t = talksD [OF assms(2)] and fl = file_lawsD [OF assms(1)]
  have "n_recv (party_os fs) (s_master_sock s) (u\<lparr>inbox := p # pk1 @ pk2, outbox := []\<rparr>) = (Some p, u\<lparr>inbox := pk1 @ pk2, outbox := []\<rparr>)"
    by (simp add: party_os_def)
  from recv_into_full [OF this assms(6), of "zeros MAX_BUF_LEN"]
  have rcv: "RecvMsg (party_os fs) (s_master_sock s) (zeros MAX_BUF_LEN) (u\<lparr>inbox := p # pk1 @ pk2, outbox := []\<rparr>)
      = Inr (int MAX_BUF_LEN, p, u\<lparr>inbox := pk1 @ pk2, outbox := []\<rparr>)"
    using assms(3) by (simp add: packet_buf_def MAX_BUF_LEN_def packet_consts)
  have n: "1 < sl_num (s_slaves s)" "2 < sl_num (s_slaves s)" using assms(5) by simp_all
  obtain b1 o1 where b1: "packet_buf b1" "asks_for BACKUP data1 o1" "BackupForOtherSlave ?env 1 s (u\<lparr>inbox := pk1 @ pk2, outbox := []\<rparr>)
      = Inr (0, s\<lparr>s_xbuf := b1\<rparr>, u\<lparr>inbox := pk2, outbox := [] @ o1, pdisk := ?d1, dials := dials u @ [slave_addr 1 s]\<rparr>)"
    using backup_fetched [OF refl assms(2,4) _ n(1) assms(8), where u = u and rest = pk2 and out = "[]"] by auto
  let ?s = "s\<lparr>s_xbuf := b1\<rparr>" and ?u = "u\<lparr>pdisk := ?d1, dials := dials u @ [slave_addr 1 s]\<rparr>"
  have s: "talks fs ?env 3 ?s" "pos_ok ?s" "2 < sl_num (s_slaves ?s)" using assms(2,4) n b1(1) by (simp_all add: pos_ok_def)
  obtain b2 o2 where b2: "packet_buf b2" "asks_for BACKUP data2 o2" "BackupForOtherSlave ?env 2 ?s (?u\<lparr>inbox := pk2 @ [], outbox := [] @ o1\<rparr>)
      = Inr (0, ?s\<lparr>s_xbuf := b2\<rparr>, ?u\<lparr>inbox := [], outbox := ([] @ o1) @ o2, pdisk := fs_put fs ?b2 data2 (pdisk ?u), dials := dials ?u @ [slave_addr 2 ?s]\<rparr>)"
    using backup_fetched [OF refl s(1,2) _ s(3) assms(9), where u = ?u and rest = "[]" and out = "[] @ o1"] by auto
  let ?s2 = "s\<lparr>s_xbuf := b2\<rparr>" and ?w = "u\<lparr>inbox := [], outbox := o1 @ o2, pdisk := ?d, dials := dials u @ [slave_addr 1 s, slave_addr 2 s]\<rparr>"
  have ts: "talks fs ?env (s_master_sock ?s2) ?s2" using assms(2,3) b2(1) by (simp add: talks_def)
  obtain a where a: "answer_master ?env UPDATE_BACKUP12_R p ?s2 ?w = Inr (?w\<lparr>outbox := outbox ?w @ [a]\<rparr>)"
    "hd_cmd (GetHeader a) = cmd_code UPDATE_BACKUP12_R"
    by (rule answer_party [OF ts refl assms(6)])
  have "decode_cmd (hd_cmd (GetHeader p)) = Some UPDATE_BACKUP12" using assms(7) by (simp add: decode_cmd_eq)
  then have run: "HandleMasterRequest ?env s (u\<lparr>inbox := p # pk1 @ pk2, outbox := []\<rparr>)
      = Inr (?s2, u\<lparr>inbox := [], outbox := o1 @ o2 @ [a], pdisk := ?d, dials := dials u @ [slave_addr 1 s, slave_addr 2 s]\<rparr>)"
    using rcv b1(3) b2(3) a(1) by (simp add: HandleMasterRequest_def t(2) Let_def party_order)
  have ne: "?b1 \<noteq> ?b2" by (rule backups_differ)
  have "closed v ?d1 ?b2" using assms(11) fl(2) by (simp add: closed_def)
  then have "fil v ?d = (fil v (pdisk u))(?b1 := recs data1, ?b2 := recs data2)"
    using fl(3) [of "pdisk u" ?b1 data1] fl(3) [of ?d1 ?b2 data2] assms(10) by simp
  then show ?thesis using run a(2) b1(2) b2(2) fs_okD(1) [OF t(1)] fl(2) ne by (intro exI [of _ b2] exI [of _ o1] exI [of _ o2] exI [of _ a] exI [of _ ?d]) simp
qed

text \<open>Three slaves, of which the first is told; its neighbours are called \<open>a.db\<close> as well.\<close>

theorem alarm_refreshes_backups_witness:
  "\<exists>p msgs s' w'. HandleMasterRequest (node_env byte_fs byte_db alist_mdb (e_hdr feed_env) 1) (a_slave\<lparr>s_slaves := three_nodes\<rparr>)
      \<lparr>inbox = p # msgs, outbox = [], pdisk = no_bytes, dials = []\<rparr> = Inr (s', w')
    \<and> hd_cmd (GetHeader p) = cmd_code UPDATE_BACKUP12
    \<and> content byte_view (pdisk w') (backup_name a_db) 3000 = Some [66, 0]
    \<and> content byte_view (pdisk w') (backup2_name a_db) 500 = Some [65, 0]"
proof -
  let ?env = "node_env byte_fs byte_db alist_mdb (e_hdr feed_env) 1" and ?s = "a_slave\<lparr>s_slaves := three_nodes\<rparr>"
  let ?u = "\<lparr>inbox = [], outbox = [], pdisk = no_bytes, dials = []\<rparr> :: bdisk party"
  let ?h = "(e_hdr feed_env)\<lparr>hd_cmd := cmd_code UPDATE_BACKUP12\<rparr>" and ?p = "WriteHeader (zeros MAX_BUF_LEN) ((e_hdr feed_env)\<lparr>hd_cmd := cmd_code UPDATE_BACKUP12\<rparr>)"
  have z: "packet_buf (zeros MAX_BUF_LEN)" by (simp add: packet_buf_def MAX_BUF_LEN_def packet_consts)
  have h: "header_ok ?h" by (simp add: header_ok_def feed_env_def int32_def)
  have p: "packet_buf ?p" "hd_cmd (GetHeader ?p) = cmd_code UPDATE_BACKUP12" using z GetHeader_WriteHeader [OF z h] by simp_all
  have t: "talks byte_fs ?env 3 ?s" using a_slave_talks [of 3 1 0] by (simp add: talks_def a_slave_def)
  have s: "s_master_sock ?s \<noteq> -1" "pos_ok ?s" "3 \<le> sl_num (s_slaves ?s)"
    by (simp_all add: a_slave_def pos_ok_def three_nodes_def two_nodes_def list_ok_def MAX_SLAVE_NUM_def)
  obtain pk1 pk2 where f: "sent_file 1 BACKUP_R a_db (enc_recs [(key_bytes 3000, [66, 0])]) pk1"
    "sent_file 1 BACKUP_R a_db (enc_recs [(key_bytes 500, [65, 0])]) pk2"
    using a_file [OF one_record_small(1), of 3000 66 1 BACKUP_R] a_file [OF one_record_small(1), of 500 65 1 BACKUP_R]
    by (metis one_record_small(2) order_refl)
  have c: "closed byte_view (pdisk ?u) n" for n by (simp add: no_bytes_closed)
  obtain s' w' where run: "HandleMasterRequest ?env ?s (?u\<lparr>inbox := ?p # pk1 @ pk2, outbox := []\<rparr>) = Inr (s', w')"
    "fil byte_view (pdisk w') = (fil byte_view (pdisk ?u))(backup_name a_db := byte_recs (enc_recs [(key_bytes 3000, [66, 0])]),
        backup2_name a_db := byte_recs (enc_recs [(key_bytes 500, [65, 0])]))"
    using alarm_refreshes_backups [OF byte_file_laws t s p f c c] by fastforce
  have "content byte_view (pdisk w') (backup_name a_db) 3000 = Some [66, 0]" "content byte_view (pdisk w') (backup2_name a_db) 500 = Some [65, 0]"
    using backups_differ [of a_db a_db] by (simp_all add: content_def run(2) byte_recs_def)
  with run(1) p(2) show ?thesis by simp blast
qed

end
