(* ===== verification/Spec2Isabelle.thy ===== *)
theory Spec2Isabelle
  imports Cluster DbServer FileTransfer ClientSession ClientMain NetSession Membership ServerMain Tests Newcomer
begin

text \<open>
  DistributedDB is a key/value store in C on several machines. One \<^emph>\<open>master\<close> process
  (\<^verbatim>\<open>src/server/master.c\<close>) keeps the list of \<^emph>\<open>slaves\<close>, each with the upper end of its section of
  the keys 0..3999 on a ring. A slave (\<^verbatim>\<open>src/server/dbserver.c\<close>, \<^verbatim>\<open>slave.c\<close>) is a server: a main thread
  that accepts connections and reads packets, a queue, worker threads that execute the requests
  (\<^verbatim>\<open>HandleRequest.c\<close>) on a local database (\<^verbatim>\<open>tcDB.c\<close>, Tokyo Cabinet), and a thread with a command
  prompt. \<^emph>\<open>Clients\<close> (\<^verbatim>\<open>src/client\<close>) read the list from the master, open a connection to every slave, and
  send each key to the slave whose section holds it (\<^verbatim>\<open>netdbapi.c\<close>); a slave that knows a newer list
  answers with it. When a slave joins it halves the longest section and fetches the records of its half; when it
  leaves, its predecessor takes over its section and its backup.

  \<^bold>\<open>Theories and code.\<close>
  \<^item> \<open>Prelude\<close>: faults of a C execution and sequencing (\<open>exec\<close>, \<open>andThen\<close>), C integers, bytes, buffers.
  \<^item> \<open>DbProtocol\<close>: \<^verbatim>\<open>common/dbProtocol\<close>, commands and packets. \<open>Socket\<close>: \<^verbatim>\<open>common/Socket.c\<close> and
    \<open>ExchangePacket\<close>, over the record \<open>net\<close> of system calls.
  \<^item> \<open>ServerCtrl\<close>: \<^verbatim>\<open>server/ServerCtrl.h\<close>, the list and its bytes, the shifting loops. \<open>KeyRing\<close>: sections of a
    ring, who owns a key, how ownership changes on insertion and removal.
  \<^item> \<open>Master\<close>: \<^verbatim>\<open>server/master.c\<close>, list operations, request handler, event loop with alarms.
  \<^item> \<open>TokyoCabinet\<close>: the library as two records of operations, \<open>tcmdb\<close> (in memory) and \<open>tchdb\<close> (files), with the
    laws relied on. \<open>Database\<close>: \<^verbatim>\<open>common/Database.h\<close> as a record \<open>db_api\<close> and the locale \<open>database\<close>. \<open>TcDB\<close>:
    \<^verbatim>\<open>server/tcDB.c\<close>, which implements it.
  \<^item> \<open>Slave\<close>, \<open>SlaveRequests\<close>: \<^verbatim>\<open>server/slave.c\<close>, its copy of the list, file transfer, what slaves ask of and
    answer to each other and the master. \<open>FileTransfer\<close>: sender and receiver of a file against each other, each a
    machine with packets in and out and a disk (\<open>party\<close>) on which the C library and the shell work (\<open>filesys\<close>).
  \<^item> \<open>CircularQueue\<close>: \<^verbatim>\<open>server/CircularQueue.c\<close> and the semaphore. \<open>ServerSocket\<close>: \<^verbatim>\<open>MemoryDB.c\<close> and
    \<^verbatim>\<open>serversocket.c\<close>. \<open>Worker\<close>: \<^verbatim>\<open>HandleRequest.c\<close>. \<open>DbServer\<close>: \<^verbatim>\<open>dbserver.c\<close>,
    the main thread of a slave. \<open>ServerMain\<close>: its \<open>main\<close> with the arguments, and the threads of the process in any order.
  \<^item> \<open>NetDbApi\<close>: \<^verbatim>\<open>client/netdbapi.c\<close>. \<open>Regex\<close>, \<open>ParseInput\<close>, \<open>InputCmd\<close>: \<^verbatim>\<open>client/parseinput.c\<close>, \<^verbatim>\<open>inputcmd.c\<close>.
    \<open>Commands\<close>, \<open>ClientSession\<close>: what command lines do. \<open>ClientMain\<close>: \<^verbatim>\<open>dbclient.c\<close>, \<^verbatim>\<open>printslave.c\<close>.
  \<^item> \<open>Tests\<close>: \<^verbatim>\<open>src/test\<close>, run on the components they test.
  \<^item> \<open>Cluster\<close>: master and all slaves together, as a step relation.
  \<^item> \<open>Host\<close>, \<open>Cloud\<close>, \<open>NetSession\<close>: the programs run against each other. \<open>Host\<close> is the machine of a slave (descriptors with
    packets in and out, a disk for Tokyo Cabinet), on which a request goes from \<open>epoll\<close> over the queue to the
    reply; \<open>Cloud\<close> is a network whose far ends are the model's own master and slave servers, with a client of it;
    \<open>NetSession\<close> has the theorems about that whole.
  \<^item> \<open>Station\<close>: a slave between the packets of the master, on a machine that connects to other slaves by their addresses, with
    any answers from them and any disk. \<open>Membership\<close>: the master's event loop with such slaves behind its sockets; joins,
    departures and alarms run by the handlers of the master, its slaves, the newcomer and the leaver against each other, a
    refinement of \<open>Cluster\<close>.
  \<^item> \<open>Routing\<close>: the bounds of \<open>CLIP_DATA\<close> against the routing of requests. \<open>TcLift\<close>: Tokyo Cabinet on a part of a larger
    world. \<open>ByteDisk\<close>: databases as files, with an instance whose records are bytes. \<open>HandOver\<close>: the predecessor's
    \<open>HandleSlaveRequest\<close> and the newcomer's \<open>ClipDataFromPre\<close> against each other, each over its disk; the theorem is below.
    \<open>Departure\<close>: backups, and what \<open>RM_SLAVE\<close> makes the predecessor of a leaving slave do with them.
    \<open>Newcomer\<close>: the start of a slave, \<open>InitialSlave\<close>, and the backups that the master's alarm makes it fetch. In
    these, \<open>dials\<close> has the addresses a slave connects to, and the theorems say which they are.

  \<^bold>\<open>State and operations.\<close> The globals of a process are a record (\<open>master\<close>, \<open>slave\<close>, \<open>db_state\<close>, \<open>server\<close>,
  \<open>client\<close>, \<open>cmdline\<close>) that operations take and return; the rest of the machine is a world \<open>'w\<close> that only
  the system calls and Tokyo Cabinet touch, both given as records of functions. Every C function is a
  definition of its name. An access that C leaves undefined, a failed \<open>assert\<close>, a division by zero and a loop without an
  end are values \<open>Inl\<close>; uninitialised memory is a parameter. Index loops are functions with a measure, keys and
  versions 32-bit words, sizes and positions integers with C's division and conversions.

  \<^bold>\<open>What is shown.\<close> The list operations keep a ring, halve the longest section on a join and bequeath a section on
  a departure (\<open>Master\<close>, \<open>KeyRing\<close>); all slaves of a reachable cluster agree with the master and every key
  has one server (\<open>Cluster\<close>); routing finds it (\<open>NetDbApi\<close>), a join moves just the keys that are routed
  to the new slave (\<open>Routing\<close>), and their records are afterwards on its disk, in the predecessor's backup, and no
  longer in the predecessor's database (below); a departure brings them back, as far as the backup has
  them (\<open>Departure\<close>); a slave that starts ends up with list, index, database and backups, and
  every alarm renews the backups from the two slaves that follow in the list (\<open>Newcomer\<close>). Whatever the handlers do to each other,
  all slaves agree with the master as long as none is lost, and no handler is stuck between slaves that are fit
  (\<open>Membership\<close>). The local database keeps the contract \<open>database\<close>, moving and merging files
  moves the records they should (\<open>TcDB\<close>); a server answers \<open>GET\<close> with what \<open>SET\<close> stored (\<open>Worker\<close>), the queue is
  first in, first out and never found empty behind its semaphore (\<open>CircularQueue\<close>); a file arrives as it was sent
  (\<open>FileTransfer\<close>). A request passes main thread, queue and worker and is answered (\<open>Host\<close>), and the client's operations
  and its prompt, run against master and slaves, keep the contract of \<^verbatim>\<open>Database.h\<close> in opening, storing and closing; a fetch gets
  the value, but hands out a pointer into its own dead frame (\<open>DeadFrame\<close>), and reading through it is a fault (\<open>NetSession\<close>). The matcher of regular expressions finds the leftmost longest match; the prompt is safe on
  every line, ends, and stores and prints what it should (\<open>ClientSession\<close>). A group of theorems shows where the code fails: shared buffers,
  oversized lists, names and values, unknown commands, values fetched by the client, peers that hang up, lost connections, alarms, lines that are cut.

  \<^bold>\<open>Interfaces.\<close> \<open>database\<close> (interpreted by \<open>TcDB\<close>) and its extensions \<open>served_database\<close> (used by the workers, interpreted
  again on a \<open>Host\<close>) and \<open>command_db\<close> (used by the prompt); \<open>bounded_db\<close>, a database with limited names and values of which
  nothing is said of reading, which the client's operations over a \<open>Cloud\<close> provide; \<open>readable_db\<close>, its extension by reading, of
  which \<open>command_db\<close> is a case; \<open>bounded_queue\<close> (by \<open>CircularQueue\<close>); \<open>mem_db\<close> (by \<open>MemoryDB.c\<close>);
  \<open>replica\<close> (by a slave's copy of the list).

  \<^bold>\<open>Parameters, bounds and fuel.\<close> Parameters are the system calls, the shell and Tokyo Cabinet, with its laws as the
  hypotheses \<open>tcmdb_laws\<close>, \<open>tchdb_laws\<close>, \<open>tchdb_reliable\<close>; theory \<open>TokyoCabinet\<close> has an instance of each, on which
  the witnesses run. That a closed database is its file is \<open>file_laws\<close>, and what \<open>mv\<close> does, with plain names and in directories that exist,
  \<open>shell_laws\<close>, with instances in \<open>ByteDisk\<close>; \<open>Membership\<close> assumes neither, there \<open>mv\<close> may do anything.
  \<open>pthread_cancel\<close> is \<open>o_cancel\<close>, which may fault, as \<open>ShutDownSlave\<close> gives it an identifier that is never set. After an alarm
  the master's \<open>errno\<close> is taken to stay at \<open>EINTR\<close>: no later call is taken to set it. Fuel stands in three loops that need not end in C: \<open>RecvFile\<close> (one unit for each packet; as many as the
  file has chunks are enough), the \<open>REDO\<close> of the client (one for each attempt; one is enough when the list is
  current) and the parser of patterns (the length of the pattern). Running out of it is the fault \<open>Hangs\<close>.

  \<^bold>\<open>Not modelled.\<close> What is printed, except by the prompt; threads as such: a round of a worker, a turn of a
  main loop, a signal handler is one step, so mutexes have nothing to do; what a cancelled thread leaves
  undone and the code behind the endless loops; memory that is never freed. The C library's regular expressions are modelled for the
  operators that the patterns use.
\<close>

section \<open>A join from the list to the data\<close>

text \<open>C7: a join hands the newcomer just the data that clients will ask it for: run against each other, the
  predecessor's \<open>HandleSlaveRequest\<close> and the newcomer's \<open>ClipDataFromPre\<close>, which connects to the slave before it in the list,
  each send what the other reads, and when
  they end, of the keys below \<open>MAX_KEY\<close> the newcomer's database has the predecessor's records of those that
  \<open>GetSocket\<close> routes to the newcomer, and the predecessor the others; the predecessor keeps the newcomer's records as its
  first backup, and its temporary file is gone, so that it can serve the next newcomer.\<close>

theorem join_hands_over:
  assumes "giver_ok fs tc tm v recs s (pdisk w)" and "talks fs (node_env fs tc tm hdr fuel) sock s"
    and "pos_ok s" and "ring_list (s_slaves s)" and "2 \<le> sl_num (s_slaves s)"
    and "talks fs (node_env fs tc tm hdr' fuel') 3 r" and "s_slaves r = s_slaves s"
    and "s_pos r = (s_pos s + 1) mod sl_num (s_slaves s)" and "closed v (pdisk u) (s_file_master s)"
    and "key_after 1 s = Inr lo" and "key_after 2 s = Inr up"
    and "clipped fs tc tm lo up s (pdisk w) = Some data" and "int32 (int (length data))" and "length (chunks data) \<le> fuel'"
  shows "\<exists>req acks msgs s' w' r' u'. hd_cmd (GetHeader req) = cmd_code CLIP_DATA
    \<and> HandleSlaveRequest (node_env fs tc tm hdr fuel) sock req s (w\<lparr>inbox := acks, outbox := []\<rparr>) = Inr (s', w')
    \<and> inbox w' = [] \<and> outbox w' = msgs
    \<and> ClipDataFromPre (node_env fs tc tm hdr' fuel') r (u\<lparr>inbox := msgs, outbox := []\<rparr>) = Inr (0, r', u')
    \<and> inbox u' = [] \<and> outbox u' = req # acks \<and> dials u' = dials u @ [slave_addr (-1) r]
    \<and> (\<forall>k. uint k < MAX_KEY \<longrightarrow>
        content v (pdisk u') (s_file_master s) k
          = (if GetSocket (s_slaves r) k = Inr (s_pos r) then content v (pdisk w) (s_file_master s) k else None)
        \<and> content v (pdisk w') (s_file_master s) k
          = (if GetSocket (s_slaves r) k = Inr (s_pos r) then None else content v (pdisk w) (s_file_master s) k))
    \<and> content v (pdisk w') (backup_name (s_file_master s)) = content v (pdisk u') (s_file_master s)
    \<and> fs_read fs (s_file_tmp s) (pdisk w') = None"
proof -
  let ?env = "node_env fs tc tm hdr fuel" and ?env' = "node_env fs tc tm hdr' fuel'" and ?m = "s_file_master s"
  define R where "R = {k. split_range (word_of_int lo) (word_of_int up) k}"
  have m: "0 \<notin> set ?m" "length ?m < 100" and fl: "file_laws fs tc v recs"
    using giver_okD(4,8,13) [OF assms(1)] by auto
  have hdr: "header_ok (e_hdr ?env')" using talksD(4) [OF assms(6)] by simp
  let ?h = "announce ?env s CLIP_DATA_R data"
  obtain a acks where acks: "length acks = length (chunks data)" "list_all is_ack (a # acks)"
    "recv_outs ?env' ?h (send_outs ?env a (chunks data) acks) @ [farewell ?env'] = a # acks"
    and fp: "file_packets CLIP_DATA_R ?m data ?h (send_outs ?env a (chunks data) acks)"
    using file_conversation [OF assms(2,6,13) m(2)] by blast
  let ?ps = "send_outs ?env a (chunks data) acks"
  have ring: "pos_ok r" "ring_list (s_slaves r)" "2 \<le> sl_num (s_slaves r)"
    using assms(3-5,7,8) by (simp_all add: pos_ok_def)
  obtain key b where take: "int32 key" "ClipDataFromPre ?env' r (u\<lparr>inbox := ?h # ?ps, outbox := []\<rparr>)
      = Inr (0, r\<lparr>s_xbuf := b\<rparr>, u\<lparr>inbox := [], outbox := packet_over ?env' CLIP_DATA key [] (s_xbuf r) # a # acks, pdisk := fs_put fs ?m data (pdisk u),
          dials := dials u @ [slave_addr (-1) r]\<rparr>)"
    using taker_runs [OF refl assms(6) ring fp m(1,2) assms(14), of u] by (simp only: acks(3)) blast
  let ?req = "packet_over ?env' CLIP_DATA key [] (s_xbuf r)"
  have req: "hd_cmd (GetHeader ?req) = cmd_code CLIP_DATA"
    by (rule packet_over_facts(2) [OF hdr talksD(5) [OF assms(6)] _ take(1)]) simp
  obtain st b' d3 where give: "HandleSlaveRequest ?env sock ?req s (w\<lparr>inbox := a # acks, outbox := []\<rparr>)
      = Inr (s\<lparr>s_db := st, s_xbuf := b'\<rparr>, w\<lparr>inbox := [], outbox := ?h # ?ps, pdisk := d3\<rparr>)"
    "(\<lambda>k. recs data (key_bytes k)) = content v (pdisk w) ?m |` R" "fs_read fs (s_file_tmp s) d3 = None"
    "content v d3 ?m = content v (pdisk w) ?m |` (- R)" "content v d3 (backup_name ?m) = content v (pdisk w) ?m |` R"
    using giver_runs [OF assms(1) refl assms(2) req assms(10-13) acks(1,2) R_def] by blast
  have new: "content v (fs_put fs ?m data (pdisk u)) ?m = content v (pdisk w) ?m |` R"
    using file_lawsD(3) [OF fl assms(9), of data] give(2) by (simp add: content_def fun_eq_iff)
  have route: "k \<in> R \<longleftrightarrow> GetSocket (s_slaves r) k = Inr (s_pos r)" if "uint k < MAX_KEY" for k
    using split_routes [OF assms(3-5) that] assms(7,8,10,11) by (simp add: R_def)
  show ?thesis
    by (rule exI [of _ ?req], rule exI [of _ "a # acks"], rule exI [of _ "?h # ?ps"], intro exI conjI, rule req, rule give(1),
        simp, simp, rule take(2), simp, simp, simp) (use give(3-5) new route in \<open>auto simp: restrict_map_def\<close>)
qed

theorem join_hands_over_witness:
  "\<exists>req acks msgs s' w' r' u'.
    HandleSlaveRequest (node_env byte_fs byte_db alist_mdb (e_hdr feed_env) 0) 5 req a_slave
      \<lparr>inbox = acks, outbox = [], pdisk = joined_disk, dials = []\<rparr> = Inr (s', w')
    \<and> outbox w' = msgs
    \<and> ClipDataFromPre (node_env byte_fs byte_db alist_mdb (e_hdr feed_env) 1) (a_slave\<lparr>s_pos := 1\<rparr>)
      \<lparr>inbox = msgs, outbox = [], pdisk = no_bytes, dials = []\<rparr> = Inr (0, r', u')
    \<and> outbox u' = req # acks
    \<and> content byte_view (pdisk u') a_db 3000 = Some [66, 0] \<and> content byte_view (pdisk w') a_db 3000 = None
    \<and> content byte_view (pdisk u') a_db 500 = None \<and> content byte_view (pdisk w') a_db 500 = Some [65, 0]
    \<and> content byte_view (pdisk w') (backup_name a_db) 3000 = Some [66, 0]"
proof -
  let ?w = "\<lparr>inbox = [], outbox = [], pdisk = joined_disk, dials = []\<rparr> :: bdisk party"
  let ?u = "\<lparr>inbox = [], outbox = [], pdisk = no_bytes, dials = []\<rparr> :: bdisk party"
  let ?r = "a_slave\<lparr>s_pos := 1\<rparr>"
  let ?data = "enc_recs [(key_bytes 3000, [66, 0])]"
  note t = a_slave_talks and p = a_slave_ring and l = one_record_small
  have q: "s_slaves ?r = s_slaves a_slave" "s_pos ?r = (s_pos a_slave + 1) mod sl_num (s_slaves a_slave)"
    using p(9) by (simp_all add: a_slave_def)
  have c: "closed byte_view (pdisk ?u) (s_file_master a_slave)" by (simp add: no_bytes_closed)
  have old: "content byte_view joined_disk a_db 3000 = Some [66, 0]" "content byte_view joined_disk a_db 500 = Some [65, 0]"
    by (simp_all add: joined_disk_def a_disk_content)
  have "giver_ok byte_fs byte_db alist_mdb byte_view byte_recs a_slave (pdisk ?w)"
    "clipped byte_fs byte_db alist_mdb 2100 100 a_slave (pdisk ?w) = Some ?data"
    using joined_disk_ok joined_disk_clipped by simp_all
  from join_hands_over [OF this(1) _ p(1-3) _ q c p(4,5) this(2) l(1), of "e_hdr feed_env" 0 5 "e_hdr feed_env" 1]
  obtain req acks msgs s' w' r' u' where run:
    "HandleSlaveRequest (node_env byte_fs byte_db alist_mdb (e_hdr feed_env) 0) 5 req a_slave
      \<lparr>inbox = acks, outbox = [], pdisk = joined_disk, dials = []\<rparr> = Inr (s', w')" "outbox w' = msgs"
    "ClipDataFromPre (node_env byte_fs byte_db alist_mdb (e_hdr feed_env) 1) ?r \<lparr>inbox = msgs, outbox = [], pdisk = no_bytes, dials = []\<rparr> = Inr (0, r', u')"
    "outbox u' = req # acks"
    "\<And>k. uint k < MAX_KEY \<Longrightarrow> content byte_view (pdisk u') a_db k
          = (if GetSocket (s_slaves ?r) k = Inr 1 then content byte_view joined_disk a_db k else None)
        \<and> content byte_view (pdisk w') a_db k
          = (if GetSocket (s_slaves ?r) k = Inr 1 then None else content byte_view joined_disk a_db k)"
    "content byte_view (pdisk w') (backup_name a_db) = content byte_view (pdisk u') a_db"
    using t [of _ _ 0] t [of _ _ 1] l(2) by (fastforce simp: a_slave_def)
  have "uint (3000 :: u32) < MAX_KEY" "uint (500 :: u32) < MAX_KEY" by (simp_all add: MAX_KEY_def)
  note k = run(5) [OF this(1)] run(5) [OF this(2)]
  have "content byte_view (pdisk u') a_db 3000 = Some [66, 0]" "content byte_view (pdisk w') a_db 3000 = None"
    "content byte_view (pdisk u') a_db 500 = None" "content byte_view (pdisk w') a_db 500 = Some [65, 0]"
    "content byte_view (pdisk w') (backup_name a_db) 3000 = Some [66, 0]"
    using k run(6) old p(6,7) by simp_all
  with run(1-4) show ?thesis by blast
qed

end
